(* ===== verification/Devices.thy ===== *)
theory Devices
  imports Prelude
begin

text \<open>
  What a device on the bus is, \<^verbatim>\<open>src/lingcore/src/devices/mod.rs\<close>: its errors, the state
  \<^verbatim>\<open>Blob\<close> it is captured to, and the operations of the trait \<^verbatim>\<open>Device\<close>, as a record of
  functions over the type \<open>'d\<close> of devices.  The exits a device write can cause are those of
  \<^verbatim>\<open>src/lingcore/src/hv/vcpu.rs\<close>.

  State is encoded through \<^verbatim>\<open>serde_json\<close>, which is not part of the repository: an encoder
  and a decoder are arguments of the definitions, and the locale \<open>codec\<close> is the round trip
  they promise.
\<close>

section \<open>Definitions\<close>

datatype device_error =
    BadRange u64
  | Overlap u64
  | State
  | WrongState string string
  | WrongVersion string u32
  | WrongQueues nat nat

record blob =
  blob_kind :: string
  blob_version :: u32
  blob_data :: bytes

datatype vm_exit =
    ExitIo u16 "u32 option" u8
  | ExitMmio u64 "u64 option" u8
  | Shutdown
  | Reboot
  | Halt
  | Interrupted
  | Hypercall u64 "u64 list"
  | Debug
  | Unknown u64

datatype vm_entry = EntryRun | EntryIo u32 | EntryMmio u64

text \<open>An \<^verbatim>\<open>io::Error\<close> with the errno it carries, if it carries one.\<close>

datatype io_error = IoError "int option"

record 'd device_ops =
  dev_read :: "u64 \<Rightarrow> u8 \<Rightarrow> 'd \<Rightarrow> 'd \<times> u64"
  dev_write :: "u64 \<Rightarrow> u8 \<Rightarrow> u64 \<Rightarrow> 'd \<Rightarrow> 'd \<times> (vm_exit option, io_error) result"
  dev_capture :: "'d \<Rightarrow> (blob option, device_error) result"
  dev_restore :: "blob \<Rightarrow> 'd \<Rightarrow> 'd \<times> (unit, device_error) result"
  dev_restored :: "'d \<Rightarrow> 'd"

text \<open>The checks every \<^verbatim>\<open>restore\<close> of a device makes of a blob before it decodes it.\<close>

definition check_blob :: "string \<Rightarrow> u32 \<Rightarrow> blob \<Rightarrow> (unit, device_error) result" where
  "check_blob kind version b =
     (if blob_kind b \<noteq> kind then Err (WrongState (blob_kind b) kind)
      else if blob_version b \<noteq> version then Err (WrongVersion kind (blob_version b))
      else Ok ())"

section \<open>Encoded state\<close>

record 's serde =
  to_vec :: "'s \<Rightarrow> bytes option"
  from_slice :: "bytes \<Rightarrow> 's option"

locale codec =
  fixes sd :: "'s serde"
  assumes decode_encode: "to_vec sd s = Some bs \<Longrightarrow> from_slice sd bs = Some s"

definition captured_blob :: "string \<Rightarrow> u32 \<Rightarrow> 's serde \<Rightarrow> 's \<Rightarrow> (blob option, device_error) result" where
  "captured_blob kind version sd s =
     (case to_vec sd s of
        None \<Rightarrow> Err State
      | Some d \<Rightarrow> Ok (Some \<lparr>blob_kind = kind, blob_version = version, blob_data = d\<rparr>))"

definition decoded_blob :: "string \<Rightarrow> u32 \<Rightarrow> 's serde \<Rightarrow> blob \<Rightarrow> ('s, device_error) result" where
  "decoded_blob kind version sd b =
     and_then (check_blob kind version b) (\<lambda>_. ok_or State (from_slice sd (blob_data b)))"

context codec
begin

lemma decoded_captured:
  "captured_blob kind version sd s = Inr (Some b) \<Longrightarrow> decoded_blob kind version sd b = Inr s"
  by (auto simp: captured_blob_def decoded_blob_def check_blob_def decode_encode split: option.splits)

end

lemma captured_kind:
  "captured_blob kind version sd s = Inr x \<Longrightarrow> \<exists>b. x = Some b \<and> blob_kind b = kind \<and> blob_version b = version"
  by (auto simp: captured_blob_def split: option.splits)

lemma decoded_kind:
  "decoded_blob kind version sd b = Inr s \<Longrightarrow> blob_kind b = kind \<and> blob_version b = version"
  by (auto simp: decoded_blob_def check_blob_def and_then_eq_Inr split: if_splits)

end
