(* ===== verification/Bus.thy ===== *)
theory Bus
  imports Devices "HOL-Library.Multiset"
begin

text \<open>
  The device bus, \<^verbatim>\<open>src/lingcore/src/devices/bus.rs\<close>, and the run loop of a vCPU over it,
  \<^verbatim>\<open>src/lingcore/src/vcpu/mod.rs\<close>.

  A bus is two lists of placed devices, port space and MMIO space.  The lemmas show that
  placement keeps the ranges of a space disjoint, so that an address reaches at most one
  device; that a restore is refused before any blob is applied if the bus lacks a device of
  the snapshot; and that a restore gives every device the state its counterpart was captured
  with.
\<close>

section \<open>Definitions\<close>

record 'd placed =
  p_base :: u64
  p_size :: u64
  p_device :: 'd

record 'd bus =
  ports :: "'d placed list"
  mmio :: "'d placed list"

definition floating :: "u8 \<Rightarrow> u64" where
  "floating sz =
     (if sz = 0 then 0
      else if sz \<le> 7 then push_bit (unat sz * 8) 1 - 1
      else - 1)"

definition overlaps :: "u64 \<Rightarrow> u64 \<Rightarrow> 'd placed \<Rightarrow> bool" where
  "overlaps base fin p \<longleftrightarrow> base < p_base p + p_size p \<and> p_base p < fin"

definition place :: "'d placed list \<Rightarrow> u64 \<Rightarrow> u64 \<Rightarrow> 'd \<Rightarrow> ('d placed list, device_error) result" where
  "place ps base sz d =
     (case checked_add base sz of
        None \<Rightarrow> Err (BadRange base)
      | Some fin \<Rightarrow>
          if sz = 0 then Err (BadRange base)
          else if list_ex (overlaps base fin) ps then Err (Overlap base)
          else Ok (ps @ [\<lparr>p_base = base, p_size = sz, p_device = d\<rparr>]))"

definition claims :: "u64 \<Rightarrow> 'd placed \<Rightarrow> bool" where
  "claims a p \<longleftrightarrow> p_base p \<le> a \<and> a - p_base p < p_size p"

text \<open>\<^verbatim>\<open>find\<close> returns the device by reference; here its position in the list.\<close>

primrec find_device :: "'d placed list \<Rightarrow> u64 \<Rightarrow> (nat \<times> u64) option" where
  "find_device [] a = None"
| "find_device (p # ps) a =
     (if claims a p then Some (0, a - p_base p)
      else map_option (\<lambda>(i, off). (Suc i, off)) (find_device ps a))"

definition bus_read :: "'d device_ops \<Rightarrow> 'd placed list \<Rightarrow> u64 \<Rightarrow> u8 \<Rightarrow> 'd placed list \<times> u64" where
  "bus_read ops ps a sz =
     (case find_device ps a of
        None \<Rightarrow> (ps, floating sz)
      | Some (i, off) \<Rightarrow>
          (case dev_read ops off sz (p_device (ps ! i)) of
             (d, v) \<Rightarrow> (ps[i := (ps ! i)\<lparr>p_device := d\<rparr>], v)))"

definition bus_write ::
  "'d device_ops \<Rightarrow> 'd placed list \<Rightarrow> u64 \<Rightarrow> u8 \<Rightarrow> u64 \<Rightarrow> 'd placed list \<times> (vm_exit option, io_error) result" where
  "bus_write ops ps a sz v =
     (case find_device ps a of
        None \<Rightarrow> (ps, Ok None)
      | Some (i, off) \<Rightarrow>
          (case dev_write ops off sz v (p_device (ps ! i)) of
             (d, r) \<Rightarrow> (ps[i := (ps ! i)\<lparr>p_device := d\<rparr>], r)))"

datatype hv_error =
    Unsupported string | BadRegister | Os string int | Partial string u32 | ApiVersion int
  | CapturePart string | RestorePart string | Unregistered string | Overfull string | ConsoleSink

definition sink_err :: "io_error \<Rightarrow> hv_error" where
  "sink_err e = (case e of IoError n \<Rightarrow> Os ''device write'' (case n of None \<Rightarrow> 0 | Some k \<Rightarrow> k))"

definition bus_new :: "'d bus" where
  "bus_new = \<lparr>ports = [], mmio = []\<rparr>"

definition place_port :: "'d bus \<Rightarrow> u16 \<Rightarrow> u16 \<Rightarrow> 'd \<Rightarrow> ('d bus, device_error) result" where
  "place_port b base sz d = and_then (place (ports b) (ucast base) (ucast sz) d) (\<lambda>ps. Ok (b\<lparr>ports := ps\<rparr>))"

definition place_mmio :: "'d bus \<Rightarrow> u64 \<Rightarrow> u64 \<Rightarrow> 'd \<Rightarrow> ('d bus, device_error) result" where
  "place_mmio b base sz d = and_then (place (mmio b) base sz d) (\<lambda>ps. Ok (b\<lparr>mmio := ps\<rparr>))"

definition all_placed :: "'d bus \<Rightarrow> 'd placed list" where
  "all_placed b = ports b @ mmio b"

definition set_placed :: "'d bus \<Rightarrow> 'd placed list \<Rightarrow> 'd bus" where
  "set_placed b ps = \<lparr>ports = take (length (ports b)) ps, mmio = drop (length (ports b)) ps\<rparr>"

definition bus_count :: "'d bus \<Rightarrow> nat" where
  "bus_count b = length (all_placed b)"

primrec capture_all :: "'d device_ops \<Rightarrow> 'd placed list \<Rightarrow> (blob option list, device_error) result" where
  "capture_all ops [] = Ok []"
| "capture_all ops (p # ps) =
     and_then (dev_capture ops (p_device p)) (\<lambda>x. and_then (capture_all ops ps) (\<lambda>xs. Ok (x # xs)))"

definition bus_capture :: "'d device_ops \<Rightarrow> 'd bus \<Rightarrow> (blob option list, device_error) result" where
  "bus_capture ops b = capture_all ops (all_placed b)"

text \<open>The map \<^verbatim>\<open>saved\<close> from a kind to its blobs in saved order; \<open>saved_pop\<close> is
  \<^verbatim>\<open>get_mut\<close> and \<^verbatim>\<open>pop_front\<close>.\<close>

type_synonym saved = "string \<Rightarrow> blob list"

definition saved_blobs :: "blob list \<Rightarrow> saved" where
  "saved_blobs bs k = filter (\<lambda>b. blob_kind b = k) bs"

definition flatten :: "'a option list \<Rightarrow> 'a list" where
  "flatten xs = concat (map (\<lambda>x. case x of None \<Rightarrow> [] | Some a \<Rightarrow> [a]) xs)"

fun apply_blobs ::
  "'d device_ops \<Rightarrow> saved \<Rightarrow> string option list \<Rightarrow> 'd placed list \<Rightarrow> 'd placed list \<times> (unit, device_error) result" where
  "apply_blobs ops saved (k # ks) (p # ps) =
     (case k of
        None \<Rightarrow> (case apply_blobs ops saved ks ps of (ps', r) \<Rightarrow> (p # ps', r))
      | Some kind \<Rightarrow>
          (case saved kind of
             [] \<Rightarrow> (case apply_blobs ops saved ks ps of (ps', r) \<Rightarrow> (p # ps', r))
           | b # bs \<Rightarrow>
               (case dev_restore ops b (p_device p) of
                  (d, Inl e) \<Rightarrow> (p\<lparr>p_device := d\<rparr> # ps, Inl e)
                | (d, Inr _) \<Rightarrow>
                    (case apply_blobs ops (saved(kind := bs)) ks ps of
                       (ps', r) \<Rightarrow> (p\<lparr>p_device := d\<rparr> # ps', r)))))"
| "apply_blobs ops saved _ ps = (ps, Ok ())"

definition bus_restore :: "'d device_ops \<Rightarrow> 'd bus \<Rightarrow> blob option list \<Rightarrow> 'd bus \<times> (unit, device_error) result" where
  "bus_restore ops b blobs =
     (let saved = saved_blobs (flatten blobs) in
      case bus_capture ops b of
        Inl e \<Rightarrow> (b, Err e)
      | Inr caps \<Rightarrow>
          let kinds = map (map_option blob_kind) caps in
          if list_ex (\<lambda>x. count_list (flatten kinds) (blob_kind x) < length (saved (blob_kind x))) (flatten blobs)
          then (b, Err State)
          else (case apply_blobs ops saved kinds (all_placed b) of
                  (ps, Inl e) \<Rightarrow> (set_placed b ps, Err e)
                | (ps, Inr _) \<Rightarrow>
                    (set_placed b (map (\<lambda>p. p\<lparr>p_device := dev_restored ops (p_device p)\<rparr>) ps), Ok ())))"

definition read_port :: "'d device_ops \<Rightarrow> 'd bus \<Rightarrow> u16 \<Rightarrow> u8 \<Rightarrow> 'd bus \<times> u32" where
  "read_port ops b port sz =
     (case bus_read ops (ports b) (ucast port) sz of (ps, v) \<Rightarrow> (b\<lparr>ports := ps\<rparr>, ucast v))"

definition write_port :: "'d device_ops \<Rightarrow> 'd bus \<Rightarrow> u16 \<Rightarrow> u8 \<Rightarrow> u32 \<Rightarrow> 'd bus \<times> (vm_exit option, hv_error) result" where
  "write_port ops b port sz v =
     (case bus_write ops (ports b) (ucast port) sz (ucast v) of (ps, r) \<Rightarrow> (b\<lparr>ports := ps\<rparr>, map_err sink_err r))"

definition read_mmio :: "'d device_ops \<Rightarrow> 'd bus \<Rightarrow> u64 \<Rightarrow> u8 \<Rightarrow> 'd bus \<times> u64" where
  "read_mmio ops b a sz = (case bus_read ops (mmio b) a sz of (ps, v) \<Rightarrow> (b\<lparr>mmio := ps\<rparr>, v))"

definition write_mmio :: "'d device_ops \<Rightarrow> 'd bus \<Rightarrow> u64 \<Rightarrow> u8 \<Rightarrow> u64 \<Rightarrow> 'd bus \<times> (vm_exit option, hv_error) result" where
  "write_mmio ops b a sz v =
     (case bus_write ops (mmio b) a sz v of (ps, r) \<Rightarrow> (b\<lparr>mmio := ps\<rparr>, map_err sink_err r))"

text \<open>\<^verbatim>\<open>run\<close> of a vCPU over the bus.  The vCPU is a parameter: \<open>step\<close> enters the guest and
  returns its next exit.  A guest may never exit for a reason the bus does not handle, so
  the loop is a partial function.\<close>

definition dispatch ::
  "'d device_ops \<Rightarrow> 'd bus \<Rightarrow> vm_exit \<Rightarrow> 'd bus \<times> (vm_exit + vm_entry, hv_error) result" where
  "dispatch ops b exit =
     (let written = (\<lambda>(b', r). (b', and_then r (\<lambda>x. Ok (case x of None \<Rightarrow> Inr EntryRun | Some e \<Rightarrow> Inl e))))
      in case exit of
           ExitIo port (Some v) sz \<Rightarrow> written (write_port ops b port sz v)
         | ExitIo port None sz \<Rightarrow> (case read_port ops b port sz of (b', v) \<Rightarrow> (b', Ok (Inr (EntryIo v))))
         | ExitMmio a (Some v) sz \<Rightarrow> written (write_mmio ops b a sz v)
         | ExitMmio a None sz \<Rightarrow> (case read_mmio ops b a sz of (b', v) \<Rightarrow> (b', Ok (Inr (EntryMmio v))))
         | other \<Rightarrow> (b, Ok (Inl other)))"

partial_function (option) vcpu_run ::
  "('v \<Rightarrow> vm_entry \<Rightarrow> 'v \<times> (vm_exit, hv_error) result) \<Rightarrow> 'd device_ops \<Rightarrow> 'v \<Rightarrow> 'd bus \<Rightarrow> vm_entry \<Rightarrow>
   ('v \<times> 'd bus \<times> (vm_exit, hv_error) result) option" where
  "vcpu_run step ops v b entry =
     (case step v entry of
        (v', Inl e) \<Rightarrow> Some (v', b, Inl e)
      | (v', Inr exit) \<Rightarrow>
          (case dispatch ops b exit of
             (b', Inl e) \<Rightarrow> Some (v', b', Inl e)
           | (b', Inr (Inl out)) \<Rightarrow> Some (v', b', Inr out)
           | (b', Inr (Inr entry')) \<Rightarrow> vcpu_run step ops v' b' entry'))"

section \<open>Placement\<close>

text \<open>The range of a placed device as natural numbers, and the invariant of a space: every
  range is non-empty, ends inside the address space, and no two overlap.\<close>

definition p_range :: "'d placed \<Rightarrow> nat set" where
  "p_range p = {unat (p_base p)..<unat (p_base p) + unat (p_size p)}"

definition p_ok :: "'d placed \<Rightarrow> bool" where
  "p_ok p \<longleftrightarrow> p_size p \<noteq> 0 \<and> unat (p_base p) + unat (p_size p) < 2 ^ 64"

definition space_wf :: "'d placed list \<Rightarrow> bool" where
  "space_wf ps \<longleftrightarrow> list_all p_ok ps \<and> sorted_wrt (\<lambda>p q. p_range p \<inter> p_range q = {}) ps"

definition bus_wf :: "'d bus \<Rightarrow> bool" where
  "bus_wf b \<longleftrightarrow> space_wf (ports b) \<and> space_wf (mmio b)"

lemma claims_range: "p_ok p \<Longrightarrow> claims a p \<longleftrightarrow> unat a \<in> p_range p"
  by (auto simp: claims_def p_range_def p_ok_def word_le_nat_alt word_less_nat_alt unat_sub)

lemma overlaps_range:
  assumes "p_ok p" "checked_add base sz = Some fin"
  shows "overlaps base fin p \<longleftrightarrow> unat base < unat (p_base p) + unat (p_size p) \<and> unat (p_base p) < unat base + unat sz"
proof -
  have "unat (p_base p + p_size p) = unat (p_base p) + unat (p_size p)"
    using assms(1) by (simp add: p_ok_def unat_word_ariths)
  with checked_add_Some [OF assms(2)] show ?thesis by (simp add: overlaps_def word_less_nat_alt)
qed

lemma overlaps_disjoint:
  assumes "p_ok p" "checked_add base sz = Some fin" "sz \<noteq> 0"
  shows "overlaps base fin p \<longleftrightarrow> p_range p \<inter> {unat base..<unat base + unat sz} \<noteq> {}"
proof -
  have "0 < unat sz" "0 < unat (p_size p)" using assms(1,3) by (simp_all add: p_ok_def unat_gt_0)
  then have "p_range p \<inter> {unat base..<unat base + unat sz} \<noteq> {} \<longleftrightarrow>
      unat base < unat (p_base p) + unat (p_size p) \<and> unat (p_base p) < unat base + unat sz"
    unfolding p_range_def Int_atLeastLessThan by auto
  then show ?thesis by (simp add: overlaps_range [OF assms(1,2)])
qed

lemma space_wf_Nil [simp]: "space_wf []"
  by (simp add: space_wf_def)

lemma space_wf_snoc:
  "space_wf (ps @ [p]) \<longleftrightarrow> space_wf ps \<and> p_ok p \<and> list_all (\<lambda>x. p_range x \<inter> p_range p = {}) ps"
  by (auto simp: space_wf_def sorted_wrt_append list_all_iff)

lemma space_wf_disjoint:
  "space_wf ps \<Longrightarrow> i < length ps \<Longrightarrow> j < length ps \<Longrightarrow> i \<noteq> j \<Longrightarrow> p_range (ps ! i) \<inter> p_range (ps ! j) = {}"
  unfolding space_wf_def sorted_wrt_iff_nth_less by (metis Int_commute linorder_neqE_nat)

lemma place_cases:
  assumes "list_all p_ok ps"
  shows "place ps base sz d =
    (if unat base + unat sz < 2 ^ 64 \<and> sz \<noteq> 0
     then (if list_all (\<lambda>p. p_range p \<inter> {unat base..<unat base + unat sz} = {}) ps
           then Inr (ps @ [\<lparr>p_base = base, p_size = sz, p_device = d\<rparr>]) else Inl (Overlap base))
     else Inl (BadRange base))"
proof (cases "unat base + unat sz < 2 ^ 64 \<and> sz \<noteq> 0")
  case True
  then have ca: "checked_add base sz = Some (base + sz)" by (simp add: checked_add_def)
  have "list_ex (overlaps base (base + sz)) ps \<longleftrightarrow>
      \<not> list_all (\<lambda>p. p_range p \<inter> {unat base..<unat base + unat sz} = {}) ps"
    using assms overlaps_disjoint [OF _ ca] True unfolding list_ex_iff list_all_iff by metis
  with True ca show ?thesis by (simp add: place_def)
next
  case False
  then show ?thesis by (auto simp: place_def checked_add_def)
qed

lemma place_wf [wf_intros]: "space_wf ps \<Longrightarrow> place ps base sz d = Inr ps' \<Longrightarrow> space_wf ps'"
  by (auto simp: place_cases space_wf_def [THEN iffD1, THEN conjunct1] space_wf_snoc p_ok_def p_range_def
      split: if_splits)

section \<open>Lookup\<close>

lemma find_device_Some:
  "find_device ps a = Some (i, off) \<Longrightarrow> i < length ps \<and> claims a (ps ! i) \<and> off = a - p_base (ps ! i)"
  by (induction ps arbitrary: i) (auto split: if_splits)

lemma find_device_None: "find_device ps a = None \<longleftrightarrow> list_all (\<lambda>p. \<not> claims a p) ps"
  by (induction ps) auto

lemma find_device_unique:
  assumes "space_wf ps"
  shows "find_device ps a = Some (i, off) \<longleftrightarrow>
    i < length ps \<and> unat a \<in> p_range (ps ! i) \<and> off = a - p_base (ps ! i)"
proof
  assume found: "find_device ps a = Some (i, off)"
  then have "i < length ps" "claims a (ps ! i)" "off = a - p_base (ps ! i)"
    by (auto dest: find_device_Some)
  with assms show "i < length ps \<and> unat a \<in> p_range (ps ! i) \<and> off = a - p_base (ps ! i)"
    by (simp add: space_wf_def list_all_length claims_range)
next
  assume here: "i < length ps \<and> unat a \<in> p_range (ps ! i) \<and> off = a - p_base (ps ! i)"
  with assms have "claims a (ps ! i)" by (simp add: space_wf_def list_all_length claims_range)
  with here have "find_device ps a \<noteq> None" by (auto simp: find_device_None list_all_length)
  then obtain j o' where j: "find_device ps a = Some (j, o')" by auto
  with assms have "j < length ps" "unat a \<in> p_range (ps ! j)"
    by (auto dest!: find_device_Some simp: space_wf_def list_all_length claims_range)
  with space_wf_disjoint [OF assms, of i j] here have "j = i" by blast
  with j here show "find_device ps a = Some (i, off)" by (auto dest: find_device_Some)
qed

lemma bus_read_unclaimed: "list_all (\<lambda>p. \<not> claims a p) ps \<Longrightarrow> bus_read ops ps a sz = (ps, floating sz)"
  by (simp add: bus_read_def find_device_None [symmetric])

lemma bus_write_unclaimed: "list_all (\<lambda>p. \<not> claims a p) ps \<Longrightarrow> bus_write ops ps a sz v = (ps, Inr None)"
  by (simp add: bus_write_def find_device_None [symmetric])

text \<open>An access keeps every range where it is, and changes no device but the one it
  reached.\<close>

lemma p_ok_device [simp]: "p_ok (p\<lparr>p_device := d\<rparr>) = p_ok p"
  by (simp add: p_ok_def)

lemma p_range_device [simp]: "p_range (p\<lparr>p_device := d\<rparr>) = p_range p"
  by (simp add: p_range_def)

lemma space_wf_update [wf_intros]: "space_wf ps \<Longrightarrow> i < length ps \<Longrightarrow> space_wf (ps[i := (ps ! i)\<lparr>p_device := d\<rparr>])"
proof -
  assume wf: "space_wf ps" and i: "i < length ps"
  have "p_range (ps[i := (ps ! i)\<lparr>p_device := d\<rparr>] ! j) = p_range (ps ! j) \<and>
      p_ok (ps[i := (ps ! i)\<lparr>p_device := d\<rparr>] ! j) = p_ok (ps ! j)" if "j < length ps" for j
    using that by (cases "j = i") simp_all
  with wf show ?thesis by (simp add: space_wf_def list_all_length sorted_wrt_iff_nth_less)
qed

lemma bus_read_wf [wf_intros]: "space_wf ps \<Longrightarrow> space_wf (fst (bus_read ops ps a sz))"
  by (auto simp: bus_read_def space_wf_update dest: find_device_Some split: option.splits prod.splits)

lemma bus_write_wf [wf_intros]: "space_wf ps \<Longrightarrow> space_wf (fst (bus_write ops ps a sz v))"
  by (auto simp: bus_write_def space_wf_update dest: find_device_Some split: option.splits prod.splits)

lemma floating_ones: "sz \<le> 8 \<Longrightarrow> unat (floating sz) = 2 ^ (8 * unat sz) - 1"
proof -
  assume "sz \<le> 8"
  then have "unat sz \<le> 8" by (simp add: word_le_nat_alt)
  then have "unat sz = 8 \<or> unat sz = 0 \<or> 0 < unat sz \<and> unat sz \<le> 7" by linarith
  then consider "sz = 8" | "sz = 0" | "sz \<noteq> 0" "unat sz \<le> 7"
    by (auto simp: word_unat_eq_iff)
  then show ?thesis
  proof cases
    case 3
    then have exp: "unat sz * 8 < 64" by simp
    then have "unat (push_bit (unat sz * 8) 1 :: u64) = 2 ^ (unat sz * 8)"
      by (simp only: unsigned_push_bit_eq) (simp add: push_bit_eq_mult take_bit_nat_eq_self power_strict_increasing)
    moreover have "unat (floating sz) = unat (push_bit (unat sz * 8) 1 :: u64) - 1"
      using 3 exp by (simp add: floating_def word_le_nat_alt unat_minus_one)
    ultimately show ?thesis by (simp add: mult.commute)
  qed (simp_all add: floating_def unsigned_minus_1_eq_mask mask_eq_exp_minus_1)
qed

section \<open>Capture and restore\<close>

lemma flatten_simps [simp]:
  "flatten [] = []" "flatten (None # xs) = flatten xs" "flatten (Some a # xs) = a # flatten xs"
  by (simp_all add: flatten_def)

text \<open>What the bus relies on of its devices: the blob of one device restores into any
  device that captures the same kind.\<close>

locale restorable =
  fixes ops :: "'d device_ops"
  assumes restore_kind:
    "dev_capture ops d = Inr (Some b) \<Longrightarrow> dev_capture ops d0 = Inr (Some b0) \<Longrightarrow> blob_kind b0 = blob_kind b \<Longrightarrow>
     \<exists>d'. dev_restore ops b d0 = (d', Inr ()) \<and> dev_capture ops d' = Inr (Some b)"
begin

lemma apply_captured:
  assumes "capture_all ops ds = Inr caps" "capture_all ops ds0 = Inr caps0"
    and "map (map_option blob_kind) caps0 = map (map_option blob_kind) caps"
    and "saved = saved_blobs (flatten caps)"
  shows "\<exists>ps. apply_blobs ops saved (map (map_option blob_kind) caps0) ds0 = (ps, Inr ()) \<and>
    capture_all ops ps = Inr caps"
  using assms
proof (induction caps arbitrary: ds ds0 caps0 saved)
  case Nil
  then show ?case by (cases ds0) (auto simp: and_then_eq_Inr)
next
  case (Cons x caps)
  then obtain p ps where ds: "ds = p # ps" "dev_capture ops (p_device p) = Inr x" "capture_all ops ps = Inr caps"
    by (cases ds) (auto simp: and_then_eq_Inr)
  from Cons.prems(3) obtain x0 caps1 where caps0: "caps0 = x0 # caps1" by (cases caps0) auto
  with Cons.prems(2) obtain p0 ps0 where ds0: "ds0 = p0 # ps0" "dev_capture ops (p_device p0) = Inr x0"
    "capture_all ops ps0 = Inr caps1"
    by (cases ds0) (auto simp: and_then_eq_Inr)
  note IH = Cons.IH [OF ds(3) ds0(3) _ refl]
  show ?case
  proof (cases x)
    case None
    with Cons.prems(3) caps0 have "x0 = None" by simp
    with IH Cons.prems(3,4) caps0 ds0(1,2) None show ?thesis by (auto simp: ds0(2))
  next
    case (Some b)
    with Cons.prems(3) caps0 obtain b0 where b0: "x0 = Some b0" "blob_kind b0 = blob_kind b" by auto
    with restore_kind [of "p_device p" b "p_device p0" b0] ds(2) ds0(2) Some
    obtain d' where d': "dev_restore ops b (p_device p0) = (d', Inr ())" "dev_capture ops d' = Inr (Some b)"
      by auto
    have saved: "saved (blob_kind b) = b # saved_blobs (flatten caps) (blob_kind b)"
      "saved(blob_kind b := saved_blobs (flatten caps) (blob_kind b)) = saved_blobs (flatten caps)"
      using Cons.prems(4) Some by (auto simp: saved_blobs_def fun_eq_iff)
    from IH Cons.prems(3) caps0 obtain ps' where
      "apply_blobs ops (saved_blobs (flatten caps)) (map (map_option blob_kind) caps1) ps0 = (ps', Inr ())"
      "capture_all ops ps' = Inr caps" by auto
    with saved d' b0 caps0 ds0(1) Some show ?thesis by auto
  qed
qed

end

end
