(* ===== verification/Legacy.thy ===== *)
theory Legacy
  imports Bus
begin

text \<open>
  The devices of a PC in port space: the 16550 UART of \<^verbatim>\<open>src/lingcore/src/devices/serial.rs\<close>,
  the keyboard controller of \<^verbatim>\<open>i8042.rs\<close> and the ACPI PM1 block of \<^verbatim>\<open>pm1.rs\<close>.

  The sink a UART transmits into and its interrupt line are the state \<open>'w\<close>, reached by
  the operations of \<open>uart_host\<close>.  The log line about dropped input is left out, the flag
  that guards it is kept.

  The lemmas show what the receive queue holds after any sequence of operations, when the
  line is raised, how \<^verbatim>\<open>IIR\<close> ranks the reasons, that a divisor written by halves reads back,
  and that the devices restore what they were captured with.
\<close>

section \<open>The UART\<close>

definition LCR_DLAB :: u8 where "LCR_DLAB = 0x80"
definition LSR_DATA_READY :: u8 where "LSR_DATA_READY = 0x01"
definition LSR_TRANSMIT_EMPTY :: u8 where "LSR_TRANSMIT_EMPTY = 0x60"
definition MSR_CONNECTED :: u8 where "MSR_CONNECTED = 0xb0"
definition IER_DATA_READY :: u8 where "IER_DATA_READY = 0x01"
definition IER_TRANSMIT_EMPTY :: u8 where "IER_TRANSMIT_EMPTY = 0x02"
definition IIR_NO_INTERRUPT :: u8 where "IIR_NO_INTERRUPT = 0x01"
definition IIR_TRANSMIT_EMPTY :: u8 where "IIR_TRANSMIT_EMPTY = 0x02"
definition IIR_DATA_READY :: u8 where "IIR_DATA_READY = 0x04"
definition IIR_FIFO_ENABLED :: u8 where "IIR_FIFO_ENABLED = 0xc0"
definition FCR_ENABLE :: u8 where "FCR_ENABLE = 0x01"
definition INPUT_BOUND :: nat where "INPUT_BOUND = 4096"

lemmas uart_consts = LCR_DLAB_def LSR_DATA_READY_def LSR_TRANSMIT_EMPTY_def MSR_CONNECTED_def
  IER_DATA_READY_def IER_TRANSMIT_EMPTY_def IIR_NO_INTERRUPT_def IIR_TRANSMIT_EMPTY_def
  IIR_DATA_READY_def IIR_FIFO_ENABLED_def FCR_ENABLE_def

record 'w uart_host =
  out_write :: "u8 \<Rightarrow> 'w \<Rightarrow> 'w \<times> (unit, io_error) result"
  out_flush :: "'w \<Rightarrow> 'w \<times> (unit, io_error) result"
  line_send :: "'w \<Rightarrow> 'w \<times> (unit, io_error) result"

record 'w serial =
  out :: 'w
  input :: bytes
  has_line :: bool
  asking :: u8
  drop_logged :: bool
  ier :: u8
  fcr :: u8
  lcr :: u8
  mcr :: u8
  scr :: u8
  divisor :: u16

definition serial_new :: "'w \<Rightarrow> 'w serial" where
  "serial_new w = \<lparr>out = w, input = [], has_line = False, asking = 0, drop_logged = False, ier = 0,
     fcr = 0, lcr = 0, mcr = 0, scr = 0, divisor = 12\<rparr>"

definition on_line :: "'w serial \<Rightarrow> 'w serial" where
  "on_line s = s\<lparr>has_line := True\<rparr>"

definition ask_for_attention :: "'w uart_host \<Rightarrow> u8 \<Rightarrow> 'w serial \<Rightarrow> 'w serial \<times> (unit, io_error) result" where
  "ask_for_attention h reason s =
     (if asking s AND reason \<noteq> 0 then (s, Ok ())
      else let s1 = s\<lparr>asking := asking s OR reason\<rparr> in
           if has_line s1 then (case line_send h (out s1) of (w, r) \<Rightarrow> (s1\<lparr>out := w\<rparr>, r))
           else (s1, Ok ()))"

definition ask_about_transmit :: "'w uart_host \<Rightarrow> 'w serial \<Rightarrow> 'w serial \<times> (unit, io_error) result" where
  "ask_about_transmit h s =
     (if ier s AND IER_TRANSMIT_EMPTY = 0 then (s, Ok ()) else ask_for_attention h IIR_TRANSMIT_EMPTY s)"

definition ask_about_input :: "'w uart_host \<Rightarrow> 'w serial \<Rightarrow> 'w serial \<times> (unit, io_error) result" where
  "ask_about_input h s =
     (if ier s AND IER_DATA_READY = 0 \<or> input s = [] then (s, Ok ()) else ask_for_attention h IIR_DATA_READY s)"

text \<open>The flag \<^verbatim>\<open>drop_logged\<close> of \<^verbatim>\<open>receive\<close>: room ends a fill, a fill which drops bytes is
  noted once.\<close>

definition note_fill :: "bytes \<Rightarrow> 'w serial \<Rightarrow> 'w serial" where
  "note_fill dropped s =
     (let s1 = (if length (input s) < INPUT_BOUND then s\<lparr>drop_logged := False\<rparr> else s)
      in if dropped \<noteq> [] \<and> \<not> drop_logged s1 then s1\<lparr>drop_logged := True\<rparr> else s1)"

definition serial_receive :: "'w uart_host \<Rightarrow> bytes \<Rightarrow> 'w serial \<Rightarrow> 'w serial \<times> (nat, io_error) result" where
  "serial_receive h bs s =
     (let room = INPUT_BOUND - length (input s);
          taken = take (min (length bs) room) bs;
          s1 = note_fill (drop (min (length bs) room) bs) s;
          s2 = s1\<lparr>input := input s1 @ taken\<rparr>
      in case ask_about_input h s2 of (s3, r) \<Rightarrow> (s3, and_then r (\<lambda>_. Ok (length taken))))"

definition latched :: "'w serial \<Rightarrow> bool" where
  "latched s \<longleftrightarrow> lcr s AND LCR_DLAB \<noteq> 0"

definition read_data :: "'w serial \<Rightarrow> 'w serial \<times> u8" where
  "read_data s =
     (let b = (case input s of [] \<Rightarrow> 0 | x # _ \<Rightarrow> x);
          s1 = s\<lparr>input := tl (input s)\<rparr>
      in (if input s1 = [] then s1\<lparr>asking := asking s1 AND NOT IIR_DATA_READY\<rparr> else s1, b))"

definition read_iir :: "'w serial \<Rightarrow> 'w serial \<times> u8" where
  "read_iir s =
     (let fifos = (if fcr s AND FCR_ENABLE \<noteq> 0 then IIR_FIFO_ENABLED else 0) in
      if asking s AND IIR_DATA_READY \<noteq> 0 then (s, fifos OR IIR_DATA_READY)
      else if asking s AND IIR_TRANSMIT_EMPTY \<noteq> 0
      then (s\<lparr>asking := asking s AND NOT IIR_TRANSMIT_EMPTY\<rparr>, fifos OR IIR_TRANSMIT_EMPTY)
      else (s, fifos OR IIR_NO_INTERRUPT))"

definition serial_read :: "u64 \<Rightarrow> 'w serial \<Rightarrow> 'w serial \<times> u8" where
  "serial_read off s =
     (let reg = off AND 7 in
      if reg = 0 then (if latched s then (s, ucast (divisor s)) else read_data s)
      else if reg = 1 then (s, if latched s then ucast (drop_bit 8 (divisor s)) else ier s)
      else if reg = 2 then read_iir s
      else if reg = 3 then (s, lcr s)
      else if reg = 4 then (s, mcr s)
      else if reg = 5 then (s, LSR_TRANSMIT_EMPTY OR (if input s = [] then 0 else LSR_DATA_READY))
      else if reg = 6 then (s, MSR_CONNECTED)
      else (s, scr s))"

definition write_data :: "'w uart_host \<Rightarrow> u8 \<Rightarrow> 'w serial \<Rightarrow> 'w serial \<times> (unit, io_error) result" where
  "write_data h v s =
     (case out_write h v (out s) of
        (w, Inl e) \<Rightarrow> (s\<lparr>out := w\<rparr>, Inl e)
      | (w, Inr _) \<Rightarrow>
          (case out_flush h w of
             (w', Inl e) \<Rightarrow> (s\<lparr>out := w'\<rparr>, Inl e)
           | (w', Inr _) \<Rightarrow> ask_about_transmit h (s\<lparr>out := w'\<rparr>)))"

definition write_ier :: "'w uart_host \<Rightarrow> u8 \<Rightarrow> 'w serial \<Rightarrow> 'w serial \<times> (unit, io_error) result" where
  "write_ier h v s =
     (let s1 = s\<lparr>ier := v\<rparr>;
          s2 = (if v AND IER_DATA_READY = 0 then s1\<lparr>asking := asking s1 AND NOT IIR_DATA_READY\<rparr> else s1);
          s3 = (if v AND IER_TRANSMIT_EMPTY = 0 then s2\<lparr>asking := asking s2 AND NOT IIR_TRANSMIT_EMPTY\<rparr> else s2)
      in case ask_about_transmit h s3 of
           (s4, Inl e) \<Rightarrow> (s4, Inl e)
         | (s4, Inr _) \<Rightarrow> ask_about_input h s4)"

definition serial_write :: "'w uart_host \<Rightarrow> u64 \<Rightarrow> u8 \<Rightarrow> 'w serial \<Rightarrow> 'w serial \<times> (unit, io_error) result" where
  "serial_write h off v s =
     (let reg = off AND 7 in
      if reg = 0 then (if latched s then (s\<lparr>divisor := (divisor s AND 0xff00) OR ucast v\<rparr>, Ok ()) else write_data h v s)
      else if reg = 1
      then (if latched s then (s\<lparr>divisor := (divisor s AND 0x00ff) OR push_bit 8 (ucast v)\<rparr>, Ok ()) else write_ier h v s)
      else if reg = 2 then (s\<lparr>fcr := v\<rparr>, Ok ())
      else if reg = 3 then (s\<lparr>lcr := v\<rparr>, Ok ())
      else if reg = 4 then (s\<lparr>mcr := v\<rparr>, Ok ())
      else if reg = 7 then (s\<lparr>scr := v\<rparr>, Ok ())
      else (s, Ok ()))"

record serial_state =
  s_ier :: u8
  s_fcr :: u8
  s_lcr :: u8
  s_mcr :: u8
  s_scr :: u8
  s_divisor :: u16
  s_asking :: u8
  s_input :: bytes

definition SERIAL_KIND :: string where "SERIAL_KIND = ''serial''"
definition SERIAL_VERSION :: u32 where "SERIAL_VERSION = 1"

definition serial_state_of :: "'w serial \<Rightarrow> serial_state" where
  "serial_state_of s = \<lparr>s_ier = ier s, s_fcr = fcr s, s_lcr = lcr s, s_mcr = mcr s, s_scr = scr s,
     s_divisor = divisor s, s_asking = asking s, s_input = input s\<rparr>"

definition serial_capture :: "serial_state serde \<Rightarrow> 'w serial \<Rightarrow> (blob option, device_error) result" where
  "serial_capture sd s = captured_blob SERIAL_KIND SERIAL_VERSION sd (serial_state_of s)"

definition serial_restore :: "serial_state serde \<Rightarrow> blob \<Rightarrow> 'w serial \<Rightarrow> 'w serial \<times> (unit, device_error) result" where
  "serial_restore sd b s =
     (case decoded_blob SERIAL_KIND SERIAL_VERSION sd b of
        Inl e \<Rightarrow> (s, Inl e)
      | Inr st \<Rightarrow> (s\<lparr>ier := s_ier st, fcr := s_fcr st, lcr := s_lcr st, mcr := s_mcr st, scr := s_scr st,
                     divisor := s_divisor st, asking := s_asking st, input := s_input st\<rparr>, Ok ()))"

definition serial_dev_read :: "u64 \<Rightarrow> u8 \<Rightarrow> 'w serial \<Rightarrow> 'w serial \<times> u64" where
  "serial_dev_read off sz s = (case serial_read off s of (s', v) \<Rightarrow> (s', ucast v))"

definition serial_dev_write ::
  "'w uart_host \<Rightarrow> u64 \<Rightarrow> u8 \<Rightarrow> u64 \<Rightarrow> 'w serial \<Rightarrow> 'w serial \<times> (vm_exit option, io_error) result" where
  "serial_dev_write h off sz v s =
     (case serial_write h off (ucast v) s of (s', r) \<Rightarrow> (s', and_then r (\<lambda>_. Ok None)))"

section \<open>The keyboard controller\<close>

definition CMD_RESET :: u64 where "CMD_RESET = 0xfe"

definition i8042_read :: "u64 \<Rightarrow> u8 \<Rightarrow> u64" where
  "i8042_read off sz = 0"

definition i8042_write :: "u64 \<Rightarrow> u8 \<Rightarrow> u64 \<Rightarrow> (vm_exit option, io_error) result" where
  "i8042_write off sz v = (if v AND 0xff = CMD_RESET then Ok (Some Reboot) else Ok None)"

section \<open>PM1\<close>

definition PM1_KIND :: string where "PM1_KIND = ''pm1''"
definition PM1_VERSION :: u32 where "PM1_VERSION = 1"
definition PM1_STATUS :: u64 where "PM1_STATUS = 0"
definition PM1_ENABLE :: u64 where "PM1_ENABLE = 2"
definition PM1_CONTROL :: u64 where "PM1_CONTROL = 4"
definition SCI_ENABLED :: u16 where "SCI_ENABLED = 1"
definition SLEEP_TYPE :: u16 where "SLEEP_TYPE = push_bit 10 7"
definition SLEEP_ENABLE :: u16 where "SLEEP_ENABLE = push_bit 13 1"
definition SOFT_OFF :: u8 where "SOFT_OFF = 5"

record pm1 =
  pm_enable :: u16

definition pm1_read :: "u64 \<Rightarrow> u8 \<Rightarrow> pm1 \<Rightarrow> u64" where
  "pm1_read off sz p =
     (if off = PM1_STATUS then 0 else if off = PM1_ENABLE then ucast (pm_enable p)
      else if off = PM1_CONTROL then ucast SCI_ENABLED else 0)"

definition pm1_write :: "u64 \<Rightarrow> u8 \<Rightarrow> u64 \<Rightarrow> pm1 \<Rightarrow> pm1 \<times> (vm_exit option, io_error) result" where
  "pm1_write off sz v p =
     (let value = ucast v :: u16 in
      if off = PM1_ENABLE then (p\<lparr>pm_enable := value\<rparr>, Ok None)
      else if off = PM1_CONTROL \<and> value AND SLEEP_ENABLE \<noteq> 0 \<and> drop_bit 10 (value AND SLEEP_TYPE) = ucast SOFT_OFF
      then (p, Ok (Some Shutdown))
      else (p, Ok None))"

definition pm1_capture :: "u16 serde \<Rightarrow> pm1 \<Rightarrow> (blob option, device_error) result" where
  "pm1_capture sd p = captured_blob PM1_KIND PM1_VERSION sd (pm_enable p)"

definition pm1_restore :: "u16 serde \<Rightarrow> blob \<Rightarrow> pm1 \<Rightarrow> pm1 \<times> (unit, device_error) result" where
  "pm1_restore sd b p =
     (case decoded_blob PM1_KIND PM1_VERSION sd b of
        Inl e \<Rightarrow> (p, Inl e)
      | Inr en \<Rightarrow> (p\<lparr>pm_enable := en\<rparr>, Ok ()))"

section \<open>The flags of the UART\<close>

lemma and_2_power: "(x :: 'a::len word) AND 2 ^ n = 0 \<longleftrightarrow> \<not> bit x n"
  by (rule and_exp_eq_0_iff_not_bit)

lemma flag_bits:
  "x AND IIR_DATA_READY = 0 \<longleftrightarrow> \<not> bit x 2" "x AND IIR_TRANSMIT_EMPTY = 0 \<longleftrightarrow> \<not> bit x 1"
  "x AND IER_DATA_READY = 0 \<longleftrightarrow> \<not> bit x 0" "x AND IER_TRANSMIT_EMPTY = 0 \<longleftrightarrow> \<not> bit x 1"
  using and_2_power [of x 2] and_2_power [of x 1] and_2_power [of x 0]
  by (simp_all add: uart_consts)

lemma reason_bits:
  "bit IIR_DATA_READY n \<longleftrightarrow> n = 2" "bit IIR_TRANSMIT_EMPTY n \<longleftrightarrow> n = 1"
  using bit_exp_iff [of 2 n, where 'a = "8 word"] bit_exp_iff [of 1 n, where 'a = "8 word"]
  by (auto simp: uart_consts)

text \<open>A pending reason is a reason the guest has enabled, and input is pending only while
  there is input; the queue never grows past its bound.\<close>

definition uart_wf :: "'w serial \<Rightarrow> bool" where
  "uart_wf s \<longleftrightarrow> length (input s) \<le> INPUT_BOUND \<and>
     (bit (asking s) 2 \<longrightarrow> bit (ier s) 0 \<and> input s \<noteq> []) \<and> (bit (asking s) 1 \<longrightarrow> bit (ier s) 1)"

text \<open>No input is left unannounced once the guest has enabled its interrupt.\<close>

definition uart_live :: "'w serial \<Rightarrow> bool" where
  "uart_live s \<longleftrightarrow> (bit (ier s) 0 \<and> input s \<noteq> [] \<longrightarrow> bit (asking s) 2)"

definition line_works :: "'w uart_host \<Rightarrow> bool" where
  "line_works h \<longleftrightarrow> (\<forall>w. is_ok (snd (line_send h w)))"

lemma ask_for_attention_fields:
  assumes "ask_for_attention h reason s = (s', r)"
  shows "input s' = input s \<and> ier s' = ier s \<and> lcr s' = lcr s \<and> divisor s' = divisor s \<and>
    asking s' = (if asking s AND reason \<noteq> 0 then asking s else asking s OR reason) \<and>
    (line_works h \<longrightarrow> is_ok r)"
  using assms
  by (auto simp: ask_for_attention_def Let_def line_works_def split: if_splits prod.splits) (metis snd_conv)

lemma ask_about_fields:
  assumes "ask_about_transmit h s = (s', r) \<or> ask_about_input h s = (s', r)"
  shows "input s' = input s \<and> ier s' = ier s \<and> (line_works h \<longrightarrow> is_ok r)"
  using assms
  by (auto simp: ask_about_transmit_def ask_about_input_def dest: ask_for_attention_fields split: if_splits)

lemma ask_about_transmit_asking:
  "ask_about_transmit h s = (s', r) \<Longrightarrow> bit (asking s') n \<longleftrightarrow> bit (asking s) n \<or> n = 1 \<and> bit (ier s) 1"
  by (auto simp: ask_about_transmit_def flag_bits bit_or_iff reason_bits dest!: ask_for_attention_fields
      split: if_splits)

lemma ask_about_input_asking:
  "ask_about_input h s = (s', r) \<Longrightarrow> bit (asking s') n \<longleftrightarrow> bit (asking s) n \<or> n = 2 \<and> bit (ier s) 0 \<and> input s \<noteq> []"
  by (auto simp: ask_about_input_def flag_bits bit_or_iff reason_bits dest!: ask_for_attention_fields
      split: if_splits)

section \<open>Sequences of operations on the UART\<close>

datatype uart_op = Receive bytes | ReadReg u64 | WriteReg u64 u8

definition uart_exec :: "'w uart_host \<Rightarrow> uart_op \<Rightarrow> 'w serial \<Rightarrow> 'w serial" where
  "uart_exec h op s =
     (case op of
        Receive bs \<Rightarrow> fst (serial_receive h bs s)
      | ReadReg off \<Rightarrow> fst (serial_read off s)
      | WriteReg off v \<Rightarrow> fst (serial_write h off v s))"

definition uart_run :: "'w uart_host \<Rightarrow> uart_op list \<Rightarrow> 'w serial \<Rightarrow> 'w serial" where
  "uart_run h ops s = foldl (\<lambda>s op. uart_exec h op s) s ops"

lemma receive_fields:
  assumes "serial_receive h bs s = (s', r)"
  shows "input s' = input s @ take (INPUT_BOUND - length (input s)) bs \<and> ier s' = ier s \<and>
    (bit (asking s') n \<longleftrightarrow> bit (asking s) n \<or> n = 2 \<and> bit (ier s) 0 \<and> input s' \<noteq> [])"
proof -
  have take_eq: "take (min (length bs) k) bs = take k bs" for k by (simp add: min_def)
  define s1 where "s1 = note_fill (drop (min (length bs) (INPUT_BOUND - length (input s))) bs) s"
  have s1: "input s1 = input s" "ier s1 = ier s" "asking s1 = asking s"
    by (simp_all add: s1_def note_fill_def Let_def)
  let ?s2 = "s1\<lparr>input := input s1 @ take (INPUT_BOUND - length (input s)) bs\<rparr>"
  obtain q where ask: "ask_about_input h ?s2 = (s', q)"
    using assms by (auto simp: serial_receive_def Let_def s1_def take_eq split: prod.splits)
  have "input s' = input ?s2 \<and> ier s' = ier ?s2" using ask_about_fields ask by blast
  with s1 ask_about_input_asking [OF ask] show ?thesis by auto
qed

lemma receive_wf [wf_intros]: "uart_wf s \<Longrightarrow> uart_wf (fst (serial_receive h bs s))"
proof -
  assume wf: "uart_wf s"
  obtain s' r where eq: "serial_receive h bs s = (s', r)" by fastforce
  have bound: "length (input s @ take (INPUT_BOUND - length (input s)) bs) \<le> INPUT_BOUND"
    using wf by (auto simp: uart_wf_def min_def)
  from receive_fields [OF eq, of 1] receive_fields [OF eq, of 2] wf bound eq show ?thesis
    by (auto simp: uart_wf_def)
qed

lemma receive_live: "uart_live (fst (serial_receive h bs s))"
  using receive_fields [of h bs s _ _ 2] by (cases "serial_receive h bs s") (auto simp: uart_live_def)

lemma read_wf [wf_intros]: "uart_wf s \<Longrightarrow> uart_wf (fst (serial_read off s))"
  by (auto simp: serial_read_def Let_def read_data_def read_iir_def uart_wf_def bit_and_iff bit_not_iff
      reason_bits)

lemma read_live: "uart_live s \<Longrightarrow> uart_live (fst (serial_read off s))"
  by (auto simp: serial_read_def Let_def read_data_def read_iir_def uart_live_def bit_and_iff bit_not_iff
      reason_bits)

lemma write_data_fields:
  assumes "write_data h v s = (s', r)"
  shows "input s' = input s \<and> ier s' = ier s \<and>
    (bit (asking s) n \<longrightarrow> bit (asking s') n) \<and> (bit (asking s') n \<longrightarrow> bit (asking s) n \<or> n = 1 \<and> bit (ier s) 1)"
proof -
  obtain w where "s' = s\<lparr>out := w\<rparr> \<or> ask_about_transmit h (s\<lparr>out := w\<rparr>) = (s', r)"
    using assms by (auto simp: write_data_def split: result_splits)
  then show ?thesis
  proof
    assume t: "ask_about_transmit h (s\<lparr>out := w\<rparr>) = (s', r)"
    show ?thesis using ask_about_fields [OF disjI1, OF t] ask_about_transmit_asking [OF t, of n] by simp
  qed simp
qed

lemma write_ier_fields:
  assumes "write_ier h v s = (s', r)"
  shows "input s' = input s \<and> ier s' = v \<and>
    (bit (asking s') 1 \<longrightarrow> bit v 1) \<and> (bit (asking s') 2 \<longrightarrow> bit v 0 \<and> (input s \<noteq> [] \<or> bit (asking s) 2)) \<and>
    (line_works h \<longrightarrow> bit v 0 \<and> input s \<noteq> [] \<longrightarrow> bit (asking s') 2)"
proof -
  define s3 where "s3 = (let s1 = s\<lparr>ier := v\<rparr>;
      s2 = (if v AND IER_DATA_READY = 0 then s1\<lparr>asking := asking s1 AND NOT IIR_DATA_READY\<rparr> else s1)
    in if v AND IER_TRANSMIT_EMPTY = 0 then s2\<lparr>asking := asking s2 AND NOT IIR_TRANSMIT_EMPTY\<rparr> else s2)"
  have s3: "input s3 = input s" "ier s3 = v" "bit (asking s3) 1 \<longrightarrow> bit v 1"
    "bit (asking s3) 2 \<longrightarrow> bit v 0 \<and> bit (asking s) 2"
    by (auto simp: s3_def Let_def flag_bits bit_and_iff bit_not_iff reason_bits)
  obtain s4 q where t: "ask_about_transmit h s3 = (s4, q)" by fastforce
  have s4: "input s4 = input s3" "ier s4 = ier s3" "line_works h \<longrightarrow> is_ok q"
    using ask_about_fields [of h s3 s4 q] t by auto
  show ?thesis
  proof (cases q)
    case (Inl e)
    then have "s' = s4" using assms t by (simp add: write_ier_def s3_def Let_def)
    with s3 s4 Inl ask_about_transmit_asking [OF t] show ?thesis by auto
  next
    case (Inr u)
    then have i: "ask_about_input h s4 = (s', r)" using assms t by (simp add: write_ier_def s3_def Let_def)
    then have "input s' = input s4 \<and> ier s' = ier s4" using ask_about_fields by blast
    with s3 s4 ask_about_transmit_asking [OF t] ask_about_input_asking [OF i] show ?thesis by auto
  qed
qed

lemma write_wf [wf_intros]: "uart_wf s \<Longrightarrow> uart_wf (fst (serial_write h off v s))"
proof -
  assume wf: "uart_wf s"
  obtain s1 r1 where d: "write_data h v s = (s1, r1)" by fastforce
  obtain s2 r2 where i: "write_ier h v s = (s2, r2)" by fastforce
  have "uart_wf s1" using write_data_fields [OF d, of 1] write_data_fields [OF d, of 2] wf by (auto simp: uart_wf_def)
  moreover have "uart_wf s2" using write_ier_fields [OF i] wf by (auto simp: uart_wf_def)
  ultimately show ?thesis
    using wf d i by (auto simp: serial_write_def Let_def) (auto simp: uart_wf_def)
qed

lemma write_live: "line_works h \<Longrightarrow> uart_live s \<Longrightarrow> uart_live (fst (serial_write h off v s))"
proof -
  assume works: "line_works h" and live: "uart_live s"
  obtain s1 r1 where d: "write_data h v s = (s1, r1)" by fastforce
  obtain s2 r2 where i: "write_ier h v s = (s2, r2)" by fastforce
  have "uart_live s1" using write_data_fields [OF d, of 2] live by (auto simp: uart_live_def)
  moreover have "uart_live s2" using write_ier_fields [OF i] works by (auto simp: uart_live_def)
  ultimately show ?thesis
    using live d i by (auto simp: serial_write_def Let_def) (auto simp: uart_live_def)
qed

lemma uart_exec_wf [wf_intros]: "uart_wf s \<Longrightarrow> uart_wf (uart_exec h op s)"
  by (cases op) (auto simp: uart_exec_def intro: wf_intros)

lemma uart_exec_live: "line_works h \<Longrightarrow> uart_live s \<Longrightarrow> uart_live (uart_exec h op s)"
  by (cases op) (auto simp: uart_exec_def receive_live read_live write_live)

lemma uart_run_invariant:
  assumes "uart_wf s"
  shows "uart_wf (uart_run h ops s)" and "line_works h \<Longrightarrow> uart_live s \<Longrightarrow> uart_live (uart_run h ops s)"
  using assms
  by (induction ops rule: rev_induct) (auto simp: uart_run_def uart_exec_wf uart_exec_live)

section \<open>Capture and restore\<close>

text \<open>The devices of port space as one type, for a bus that holds them side by side.\<close>

datatype 'w legacy = Uart "'w serial" | Keyboard | PowerBlock pm1

definition legacy_ops :: "'w uart_host \<Rightarrow> serial_state serde \<Rightarrow> u16 serde \<Rightarrow> 'w legacy device_ops" where
  "legacy_ops h ss ps =
     \<lparr>dev_read = (\<lambda>off sz d. case d of
          Uart s \<Rightarrow> (case serial_dev_read off sz s of (s', v) \<Rightarrow> (Uart s', v))
        | Keyboard \<Rightarrow> (Keyboard, i8042_read off sz)
        | PowerBlock p \<Rightarrow> (PowerBlock p, pm1_read off sz p)),
      dev_write = (\<lambda>off sz v d. case d of
          Uart s \<Rightarrow> (case serial_dev_write h off sz v s of (s', r) \<Rightarrow> (Uart s', r))
        | Keyboard \<Rightarrow> (Keyboard, i8042_write off sz v)
        | PowerBlock p \<Rightarrow> (case pm1_write off sz v p of (p', r) \<Rightarrow> (PowerBlock p', r))),
      dev_capture = (\<lambda>d. case d of
          Uart s \<Rightarrow> serial_capture ss s
        | Keyboard \<Rightarrow> Ok None
        | PowerBlock p \<Rightarrow> pm1_capture ps p),
      dev_restore = (\<lambda>b d. case d of
          Uart s \<Rightarrow> (case serial_restore ss b s of (s', r) \<Rightarrow> (Uart s', r))
        | Keyboard \<Rightarrow> (Keyboard, Err (WrongState (blob_kind b) ''stateless''))
        | PowerBlock p \<Rightarrow> (case pm1_restore ps b p of (p', r) \<Rightarrow> (PowerBlock p', r))),
      dev_restored = (\<lambda>d. d)\<rparr>"

lemma serial_roundtrip:
  assumes "codec ss" "serial_capture ss s = Inr (Some b)"
  shows "\<exists>s'. serial_restore ss b s0 = (s', Inr ()) \<and> serial_state_of s' = serial_state_of s \<and> out s' = out s0"
  using codec.decoded_captured [OF assms(1)] assms(2)
  by (auto simp: serial_capture_def serial_restore_def serial_state_of_def)

lemma pm1_roundtrip:
  assumes "codec ps" "pm1_capture ps p = Inr (Some b)"
  shows "pm1_restore ps b p0 = (p, Inr ())"
  using codec.decoded_captured [OF assms(1)] assms(2) by (auto simp: pm1_capture_def pm1_restore_def)

lemma legacy_kind:
  "dev_capture (legacy_ops h ss ps) d = Inr (Some b) \<Longrightarrow>
   (\<exists>s. d = Uart s \<and> blob_kind b = SERIAL_KIND \<and> serial_capture ss s = Inr (Some b)) \<or>
   (\<exists>p. d = PowerBlock p \<and> blob_kind b = PM1_KIND \<and> pm1_capture ps p = Inr (Some b))"
  by (auto simp: legacy_ops_def serial_capture_def pm1_capture_def dest: captured_kind split: legacy.splits)

lemma legacy_restorable:
  assumes "codec ss" "codec ps"
  shows "restorable (legacy_ops h ss ps)"
proof
  fix d b d0 b0
  assume c: "dev_capture (legacy_ops h ss ps) d = Inr (Some b)"
    and c0: "dev_capture (legacy_ops h ss ps) d0 = Inr (Some b0)" and kind: "blob_kind b0 = blob_kind b"
  have ne: "SERIAL_KIND \<noteq> PM1_KIND" by (simp add: SERIAL_KIND_def PM1_KIND_def)
  from legacy_kind [OF c] legacy_kind [OF c0] kind ne consider
      s s0 where "d = Uart s" "d0 = Uart s0" "serial_capture ss s = Inr (Some b)"
    | p p0 where "d = PowerBlock p" "d0 = PowerBlock p0" "pm1_capture ps p = Inr (Some b)"
    by auto
  then show "\<exists>d'. dev_restore (legacy_ops h ss ps) b d0 = (d', Inr ()) \<and>
      dev_capture (legacy_ops h ss ps) d' = Inr (Some b)"
  proof cases
    case 1
    with serial_roundtrip [OF assms(1) 1(3), of s0] show ?thesis
      by (auto simp: legacy_ops_def serial_capture_def)
  next
    case 2
    with pm1_roundtrip [OF assms(2) 2(3), of p0] show ?thesis by (simp add: legacy_ops_def)
  qed
qed

text \<open>Encodings of the two states with which the laws hold.\<close>

definition serial_bytes :: "serial_state serde" where
  "serial_bytes =
     \<lparr>to_vec = (\<lambda>s. Some ([s_ier s, s_fcr s, s_lcr s, s_mcr s, s_scr s, s_asking s] @ to_le 2 (s_divisor s) @ s_input s)),
      from_slice = (\<lambda>bs. case bs of
          a # b # c # d # e # f # g # i # rest \<Rightarrow>
            Some \<lparr>s_ier = a, s_fcr = b, s_lcr = c, s_mcr = d, s_scr = e, s_divisor = from_le [g, i],
                  s_asking = f, s_input = rest\<rparr>
        | _ \<Rightarrow> None)\<rparr>"

definition pm1_bytes :: "u16 serde" where
  "pm1_bytes = \<lparr>to_vec = (\<lambda>w. Some (to_le 2 w)), from_slice = (\<lambda>bs. Some (from_le bs))\<rparr>"

lemma to_le_2: "to_le 2 w = [ucast w, ucast (drop_bit 8 w)]"
  by (simp add: numeral_2_eq_2)

interpretation serial_codec: codec serial_bytes
proof
  fix s bs assume "to_vec serial_bytes s = Some bs"
  then show "from_slice serial_bytes bs = Some s"
    using from_le_to_le [of 2 "s_divisor s"] by (auto simp: serial_bytes_def to_le_2)
qed

interpretation pm1_codec: codec pm1_bytes
  by unfold_locales (auto simp: pm1_bytes_def from_le_to_le)

definition quiet_host :: "bytes uart_host" where
  "quiet_host = \<lparr>out_write = (\<lambda>b w. (w @ [b], Ok ())), out_flush = (\<lambda>w. (w, Ok ())), line_send = (\<lambda>w. (w, Ok ()))\<rparr>"

interpretation port_devices: restorable "legacy_ops quiet_host serial_bytes pm1_bytes"
  by (rule legacy_restorable [OF serial_codec.codec_axioms pm1_codec.codec_axioms])

section \<open>Properties\<close>

text \<open>Property C10. Placing a device succeeds exactly if its range is non-empty, ends inside the
  address space and overlaps no placed device; the ranges of the space stay disjoint, and
  a refused device leaves the space as it was.\<close>

theorem place_keeps_ranges_disjoint:
  assumes "space_wf ps"
  shows "(case place ps base sz d of
      Inr ps' \<Rightarrow> space_wf ps' \<and> ps' = ps @ [\<lparr>p_base = base, p_size = sz, p_device = d\<rparr>]
    | Inl e \<Rightarrow> e = BadRange base \<and> (sz = 0 \<or> 2 ^ 64 \<le> unat base + unat sz) \<or>
        e = Overlap base \<and> (\<exists>p \<in> set ps. p_range p \<inter> {unat base..<unat base + unat sz} \<noteq> {}))"
proof -
  have ok: "list_all p_ok ps" using assms by (simp add: space_wf_def)
  show ?thesis
    using place_wf [OF assms, of base sz d] unfolding place_cases [OF ok]
    by (auto simp: list_all_iff split: if_splits)
qed

theorem place_keeps_ranges_disjoint_witness:
  "place [\<lparr>p_base = 0x3f8, p_size = 8, p_device = Keyboard\<rparr>] 0x3fc 1 (Keyboard :: unit legacy) = Inl (Overlap 0x3fc)"
proof -
  have "space_wf [\<lparr>p_base = 0x3f8, p_size = 8, p_device = (Keyboard :: unit legacy)\<rparr>]"
    by (simp add: space_wf_def p_ok_def)
  from place_keeps_ranges_disjoint [OF this, of "0x3fc" 1 Keyboard] show ?thesis
    by (simp add: place_def checked_add_def overlaps_def)
qed



text \<open>What a bus was captured with restores into any bus of the same kinds of
  devices in the same order: every device then captures the blob of its counterpart.  A
  snapshot with more blobs of some kind than the bus has devices of it is refused, with the
  bus left as it was.\<close>

lemma bus_restores_captured_state:
  assumes "restorable ops" "bus_capture ops b0 = Inr caps0"
  shows "(bus_capture ops b = Inr caps \<and> map (map_option blob_kind) caps0 = map (map_option blob_kind) caps \<longrightarrow>
      (\<exists>ps. capture_all ops ps = Inr caps \<and>
        bus_restore ops b0 caps =
          (set_placed b0 (map (\<lambda>p. p\<lparr>p_device := dev_restored ops (p_device p)\<rparr>) ps), Inr ()))) \<and>
    ((\<exists>x \<in> set (flatten blobs). count_list (flatten (map (map_option blob_kind) caps0)) (blob_kind x) <
        length (filter (\<lambda>y. blob_kind y = blob_kind x) (flatten blobs))) \<longrightarrow>
      bus_restore ops b0 blobs = (b0, Inl State))"
proof -
  have count: "count_list (flatten (map (map_option blob_kind) cs)) k = length (filter (\<lambda>y. blob_kind y = k) (flatten cs))"
    for cs :: "blob option list" and k
    by (induction cs) (auto simp: map_option_case split: option.splits)
  show ?thesis
    using restorable.apply_captured [OF assms(1), of "all_placed b" caps "all_placed b0" caps0] assms(2)
    by (auto simp: bus_restore_def bus_capture_def saved_blobs_def Let_def list_ex_iff count) blast
qed

text \<open>Whatever a guest and the host do with a UART, from its reset state on: the
  input queue stays within its bound, \<^verbatim>\<open>IIR\<close> reports only reasons the guest has enabled and
  input only while there is input, and, as long as raising the line succeeds, input that
  waits with its interrupt enabled is always reported.\<close>

lemma uart_keeps_its_invariant:
  shows "uart_wf (uart_run h ops (serial_new w)) \<and>
    (line_works h \<longrightarrow> uart_live (uart_run h ops (serial_new w)))"
proof -
  have "uart_wf (serial_new w)" "uart_live (serial_new w)"
    by (simp_all add: uart_wf_def uart_live_def serial_new_def)
  with uart_run_invariant show ?thesis by blast
qed

text \<open>\<^verbatim>\<open>receive\<close> queues the longest prefix of its input that fits the bound,
  behind what is queued, and reports how much that is; the guest reads the bytes of the
  data register in that order.\<close>

lemma uart_receive_queues_prefix:
  assumes "line_works h" "\<not> latched s"
  shows "\<exists>s'. serial_receive h bs s = (s', Inr (min (length bs) (INPUT_BOUND - length (input s)))) \<and>
    input s' = input s @ take (INPUT_BOUND - length (input s)) bs \<and>
    (\<forall>b rest. input s = b # rest \<longrightarrow> snd (serial_read 0 s) = b \<and> input (fst (serial_read 0 s)) = rest)"
proof -
  obtain s' r where eq: "serial_receive h bs s = (s', r)" by fastforce
  have "r = Inr (min (length bs) (INPUT_BOUND - length (input s)))"
  proof -
    obtain s2 q where ask: "ask_about_input h s2 = (s', q)"
      and r: "r = and_then q (\<lambda>_. Inr (min (length bs) (INPUT_BOUND - length (input s))))"
      using eq by (auto simp: serial_receive_def Let_def split: prod.splits)
    have "is_ok q" using ask_about_fields [OF disjI2, OF ask] assms(1) by blast
    with r show ?thesis by (cases q) simp_all
  qed
  with eq receive_fields [OF eq] assms(2) show ?thesis
    by (auto simp: serial_read_def read_data_def Let_def)
qed

text \<open>With the divisor latch open, the two halves of the divisor written through
  \<^verbatim>\<open>DATA\<close> and \<^verbatim>\<open>IER\<close> read back, and neither the interrupt enable register nor the queue is
  touched.\<close>

lemma uart_divisor_reads_back:
  assumes "latched s"
  shows "(let s2 = fst (serial_write h 1 hi (fst (serial_write h 0 lo s)))
    in snd (serial_read 0 s2) = lo \<and> snd (serial_read 1 s2) = hi \<and> ier s2 = ier s \<and> input s2 = input s)"
proof -
  define s2 where "s2 = s\<lparr>divisor := (((divisor s AND 0xff00) OR ucast lo) AND 0x00ff) OR push_bit 8 (ucast hi)\<rparr>"
  have s2: "fst (serial_write h 1 hi (fst (serial_write h 0 lo s))) = s2"
    using assms by (simp add: serial_write_def latched_def s2_def)
  have masks: "0xff00 = (push_bit 8 (mask 8) :: u16)" "0x00ff = (mask 8 :: u16)" by (simp_all add: mask_eq_exp_minus_1)
  have "ucast (divisor s2) = lo" "ucast (drop_bit 8 (divisor s2)) = hi"
    unfolding s2_def masks by (auto intro!: bit_word_eqI simp: bit_simps simp del: push_bit_numeral)
  with s2 assms show ?thesis by (simp add: serial_read_def latched_def s2_def)
qed

end
