(* ===== verification/Guest_Ram.thy ===== *)
theory Guest_Ram
  imports Prelude
begin

text \<open>
  Guest RAM, \<^verbatim>\<open>src/lingcore/src/mem/mod.rs\<close>.  The host memory behind the guest
  physical addresses is held by the crate \<^verbatim>\<open>vm_memory\<close>, which is not part of the
  repository: its operations are the fields of the record \<open>vm\<close>, an argument of every
  definition that touches guest memory, and the behaviour its documentation promises
  is the locale \<open>vm_memory\<close>.  The definitions here are the wrapper the repository puts
  around it: the error values, \<^verbatim>\<open>read\<close>, \<^verbatim>\<open>write\<close>, \<^verbatim>\<open>holds\<close>, \<^verbatim>\<open>fill_from\<close> and
  the loop of \<^verbatim>\<open>fill_all_from\<close>.

  The locale is interpreted on \<open>flat_vm\<close>, a memory of regions with holes between
  them, which shows that the laws can hold together and is what concrete inputs are
  evaluated on.

  Guest memory is taken as it is at the start of a call of a device: the vCPU threads
  that may write it meanwhile are not modelled.
\<close>

section \<open>Definitions\<close>

datatype mem_error =
    Unsorted
  | RegionOverlap
  | Take
  | Unbacked u64 nat
  | Copy u64
  | Drop u64 u64
  | ShortTemplate u64

record region =
  gpa :: u64
  region_size :: u64

text \<open>The operations of \<^verbatim>\<open>GuestMemoryMmap\<close> which are called: a read of a whole
  buffer, a write of one (with whether it succeeded, since a failed write may have
  copied a part), the range check and the list of regions.\<close>

record 'm vm =
  vm_read_slice :: "'m \<Rightarrow> u64 \<Rightarrow> nat \<Rightarrow> bytes option"
  vm_write_slice :: "'m \<Rightarrow> u64 \<Rightarrow> bytes \<Rightarrow> 'm \<times> bool"
  vm_check_range :: "'m \<Rightarrow> u64 \<Rightarrow> nat \<Rightarrow> bool"
  vm_regions :: "'m \<Rightarrow> region list"

definition ram_regions :: "'m vm \<Rightarrow> 'm \<Rightarrow> region list" where
  "ram_regions vm m = vm_regions vm m"

definition ram_read :: "'m vm \<Rightarrow> 'm \<Rightarrow> u64 \<Rightarrow> nat \<Rightarrow> (bytes, mem_error) result" where
  "ram_read vm m at count = ok_or (Unbacked at count) (vm_read_slice vm m at count)"

definition ram_write :: "'m vm \<Rightarrow> 'm \<Rightarrow> u64 \<Rightarrow> bytes \<Rightarrow> 'm \<times> (unit, mem_error) result" where
  "ram_write vm m at bs =
     (case vm_write_slice vm m at bs of
        (m', True) \<Rightarrow> (m', Ok ())
      | (m', False) \<Rightarrow> (m', Err (Unbacked at (length bs))))"

definition ram_holds :: "'m vm \<Rightarrow> 'm \<Rightarrow> u64 \<Rightarrow> u64 \<Rightarrow> bool" where
  "ram_holds vm m at count = vm_check_range vm m at (unat count)"

text \<open>\<open>read_from m s at n\<close> stands for \<^verbatim>\<open>read_volatile_from\<close>: one \<^verbatim>\<open>read(2)\<close> of the
  source \<open>s\<close> into guest memory, with the bytes taken or \<open>None\<close> for an error.\<close>

type_synonym ('m, 's) reader = "'m \<Rightarrow> 's \<Rightarrow> u64 \<Rightarrow> nat \<Rightarrow> 'm \<times> 's \<times> nat option"

definition fill_from ::
  "('m, 's) reader \<Rightarrow> 'm \<Rightarrow> 's \<Rightarrow> u64 \<Rightarrow> nat \<Rightarrow> 'm \<times> 's \<times> (nat, mem_error) result" where
  "fill_from rd m s at count =
     (case rd m s at count of (m', s', r) \<Rightarrow> (m', s', ok_or (Copy at) r))"

function fill_all_loop ::
  "('m, 's) reader \<Rightarrow> u64 \<Rightarrow> nat \<Rightarrow> 'm \<Rightarrow> 's \<Rightarrow> nat \<Rightarrow> 'm \<times> 's \<times> (nat, mem_error) result" where
  "fill_all_loop rd at count m s filled =
     (if filled < count
      then case fill_from rd m s (at + of_nat filled) (count - filled) of
             (m', s', Inl e) \<Rightarrow> (m', s', Inl e)
           | (m', s', Inr taken) \<Rightarrow>
               (if taken = 0 then (m', s', Inr filled)
                else fill_all_loop rd at count m' s' (filled + taken))
      else (m, s, Inr filled))"
  by pat_completeness auto
termination
  by (relation "measure (\<lambda>(rd, at, count, m, s, filled). count - filled)") auto

declare fill_all_loop.simps [simp del]

definition fill_all_from ::
  "('m, 's) reader \<Rightarrow> 'm \<Rightarrow> 's \<Rightarrow> u64 \<Rightarrow> nat \<Rightarrow> 'm \<times> 's \<times> (nat, mem_error) result" where
  "fill_all_from rd m s at count = fill_all_loop rd at count m s 0"

section \<open>The interface of guest memory\<close>

text \<open>What \<^verbatim>\<open>vm_memory\<close> documents of these operations.  Two ranges are apart if one
  ends before the other starts; an empty buffer is left open, since the crate treats an
  empty range at an address that is not backed differently in its operations.\<close>

definition apart :: "u64 \<Rightarrow> nat \<Rightarrow> u64 \<Rightarrow> nat \<Rightarrow> bool" where
  "apart a n b k \<longleftrightarrow> unat a + n \<le> unat b \<or> unat b + k \<le> unat a"

locale vm_memory =
  fixes vm :: "'m vm"
  assumes read_length: "vm_read_slice vm m a n = Some bs \<Longrightarrow> length bs = n"
    and read_backed: "vm_check_range vm m a n \<Longrightarrow> 0 < n \<Longrightarrow> vm_read_slice vm m a n \<noteq> None"
    and write_backed:
      "vm_check_range vm m a (length bs) \<Longrightarrow> bs \<noteq> [] \<Longrightarrow> snd (vm_write_slice vm m a bs)"
    and write_read:
      "vm_write_slice vm m a bs = (m', True) \<Longrightarrow> bs \<noteq> [] \<Longrightarrow>
       vm_read_slice vm m' a (length bs) = Some bs"
    and write_apart:
      "apart a (length bs) b n \<Longrightarrow>
       vm_read_slice vm (fst (vm_write_slice vm m a bs)) b n = vm_read_slice vm m b n"
    and write_range:
      "vm_check_range vm (fst (vm_write_slice vm m a bs)) b n = vm_check_range vm m b n"
begin

lemma ram_read_length: "ram_read vm m a n = Inr bs \<Longrightarrow> length bs = n"
  by (auto simp: ram_read_def dest: read_length)

lemma ram_read_backed:
  assumes "vm_check_range vm m a n" "0 < n"
  obtains bs where "ram_read vm m a n = Inr bs" "length bs = n"
  using read_backed [OF assms] by (auto simp: ram_read_def dest: read_length)

lemma ram_write_backed:
  assumes "vm_check_range vm m a (length bs)" "bs \<noteq> []"
  shows "ram_write vm m a bs = (fst (vm_write_slice vm m a bs), Inr ())"
  using write_backed [OF assms] by (auto simp: ram_write_def split: prod.splits bool.splits)

lemma ram_write_read:
  "ram_write vm m a bs = (m', Inr ()) \<Longrightarrow> bs \<noteq> [] \<Longrightarrow> ram_read vm m' a (length bs) = Inr bs"
  by (auto simp: ram_write_def ram_read_def write_read split: prod.splits bool.splits)

lemma fst_ram_write: "fst (ram_write vm m a bs) = fst (vm_write_slice vm m a bs)"
  by (simp add: ram_write_def split: prod.splits bool.splits)

lemma ram_write_apart:
  "ram_write vm m a bs = (m', r) \<Longrightarrow> apart a (length bs) b n \<Longrightarrow>
   ram_read vm m' b n = ram_read vm m b n"
  using write_apart [of a bs b n m] fst_ram_write [of m a bs] by (simp add: ram_read_def)

lemma ram_write_range:
  "ram_write vm m a bs = (m', r) \<Longrightarrow> vm_check_range vm m' b n = vm_check_range vm m b n"
  using write_range [of m a bs b n] fst_ram_write [of m a bs] by simp

lemma ram_write_holds:
  "ram_write vm m a bs = (m', r) \<Longrightarrow> ram_holds vm m' b n = ram_holds vm m b n"
  by (simp add: ram_holds_def ram_write_range)

end

section \<open>A memory of regions\<close>

text \<open>Guest addresses are backed where a region covers them.  A read or write succeeds
  where every byte of it is backed, and a failed write leaves the memory unchanged.\<close>

record flat_ram =
  fr_regions :: "region list"
  fr_byte :: "nat \<Rightarrow> u8"

definition covers :: "region \<Rightarrow> nat \<Rightarrow> bool" where
  "covers r x \<longleftrightarrow> unat (gpa r) \<le> x \<and> x < unat (gpa r) + unat (region_size r)"

definition flat_check :: "flat_ram \<Rightarrow> u64 \<Rightarrow> nat \<Rightarrow> bool" where
  "flat_check m a n = list_all (\<lambda>x. list_ex (\<lambda>r. covers r x) (fr_regions m)) [unat a..<unat a + n]"

definition flat_read :: "flat_ram \<Rightarrow> u64 \<Rightarrow> nat \<Rightarrow> bytes option" where
  "flat_read m a n = (if flat_check m a n then Some (map (fr_byte m) [unat a..<unat a + n]) else None)"

definition flat_write :: "flat_ram \<Rightarrow> u64 \<Rightarrow> bytes \<Rightarrow> flat_ram \<times> bool" where
  "flat_write m a bs =
     (if flat_check m a (length bs)
      then (m\<lparr>fr_byte := (\<lambda>x. if unat a \<le> x \<and> x < unat a + length bs
                             then bs ! (x - unat a) else fr_byte m x)\<rparr>, True)
      else (m, False))"

definition flat_vm :: "flat_ram vm" where
  "flat_vm = \<lparr>vm_read_slice = flat_read, vm_write_slice = flat_write,
     vm_check_range = flat_check, vm_regions = fr_regions\<rparr>"

lemma flat_vm_simps [simp]:
  "vm_read_slice flat_vm = flat_read" "vm_write_slice flat_vm = flat_write"
  "vm_check_range flat_vm = flat_check" "vm_regions flat_vm = fr_regions"
  by (simp_all add: flat_vm_def)

lemma flat_write_regions [simp]: "fr_regions (fst (flat_write m a bs)) = fr_regions m"
  by (simp add: flat_write_def)

lemma flat_check_write [simp]: "flat_check (fst (flat_write m a bs)) b n = flat_check m b n"
  by (simp add: flat_check_def)

interpretation flat: vm_memory flat_vm
proof unfold_locales
  show "vm_read_slice flat_vm m a n = Some bs \<Longrightarrow> length bs = n" for m a n bs
    by (auto simp: flat_read_def split: if_splits)
  show "vm_check_range flat_vm m a n \<Longrightarrow> 0 < n \<Longrightarrow> vm_read_slice flat_vm m a n \<noteq> None" for m a n
    by (simp add: flat_read_def)
  show "vm_check_range flat_vm m a (length bs) \<Longrightarrow> bs \<noteq> [] \<Longrightarrow> snd (vm_write_slice flat_vm m a bs)"
    for m a bs
    by (simp add: flat_write_def)
  show "vm_write_slice flat_vm m a bs = (m', True) \<Longrightarrow> bs \<noteq> [] \<Longrightarrow>
        vm_read_slice flat_vm m' a (length bs) = Some bs" for m a bs m'
    by (auto simp: flat_write_def flat_read_def flat_check_def split: if_splits
        intro!: nth_equalityI)
  show "apart a (length bs) b n \<Longrightarrow>
        vm_read_slice flat_vm (fst (vm_write_slice flat_vm m a bs)) b n = vm_read_slice flat_vm m b n"
    for m a bs b n
    by (auto simp: apart_def flat_read_def flat_write_def flat_check_def)
  show "vm_check_range flat_vm (fst (vm_write_slice flat_vm m a bs)) b n = vm_check_range flat_vm m b n"
    for m a bs b n
    by simp
qed

text \<open>A memory of one region given by the bytes at some of its addresses, the rest zero.\<close>

primrec bytes_at :: "(nat \<times> bytes) list \<Rightarrow> nat \<Rightarrow> u8" where
  "bytes_at [] x = 0"
| "bytes_at (p # ps) x =
     (if fst p \<le> x \<and> x < fst p + length (snd p) then snd p ! (x - fst p) else bytes_at ps x)"

definition ram_of :: "u64 \<Rightarrow> (nat \<times> bytes) list \<Rightarrow> flat_ram" where
  "ram_of n ps = \<lparr>fr_regions = [\<lparr>gpa = 0, region_size = n\<rparr>], fr_byte = bytes_at ps\<rparr>"

lemma flat_check_ram_of [simp]:
  "flat_check (ram_of n ps) a k \<longleftrightarrow> k = 0 \<or> unat a + k \<le> unat n"
proof -
  have "(\<forall>x \<in> set [unat a..<unat a + k]. x < unat n) \<longleftrightarrow> k = 0 \<or> unat a + k \<le> unat n"
  proof (cases k)
    case (Suc j)
    then show ?thesis by (auto dest: bspec [of _ _ "unat a + j"])
  qed simp
  then show ?thesis by (simp add: flat_check_def ram_of_def covers_def list_all_iff)
qed

lemma flat_read_ram_of [eval_simps]:
  "flat_read (ram_of n ps) a k =
     (if k = 0 \<or> unat a + k \<le> unat n then Some (map (bytes_at ps) [unat a..<unat a + k]) else None)"
  by (simp add: flat_read_def) (simp add: ram_of_def)

section \<open>Filling RAM from a file\<close>

text \<open>A reader never takes more bytes than it was asked for, as \<^verbatim>\<open>read(2)\<close> promises.\<close>

definition bounded_reader :: "('m, 's) reader \<Rightarrow> bool" where
  "bounded_reader rd \<longleftrightarrow> (\<forall>m s a n m' s' k. rd m s a n = (m', s', Some k) \<longrightarrow> k \<le> n)"

lemma fill_all_loop_stop [simp]:
  "count \<le> filled \<Longrightarrow> fill_all_loop rd at count m s filled = (m, s, Inr filled)"
  by (simp add: fill_all_loop.simps)

lemma fill_all_loop_bounds:
  assumes "bounded_reader rd" "filled \<le> count"
    and "fill_all_loop rd at count m s filled = (m', s', Inr done)"
  shows "filled \<le> done \<and> done \<le> count \<and>
    (done < count \<longrightarrow> (\<exists>m0 s0. rd m0 s0 (at + of_nat done) (count - done) = (m', s', Some 0)))"
  using assms
proof (induction rd at count m s filled rule: fill_all_loop.induct)
  case (1 rd at count m s filled)
  obtain m1 s1 r where rd: "rd m s (at + of_nat filled) (count - filled) = (m1, s1, r)"
    by (cases "rd m s (at + of_nat filled) (count - filled)")
  note unfolded = fill_all_loop.simps [of rd at count m s filled] fill_from_def rd
  consider "\<not> filled < count" | "filled < count" "r = Some 0"
    | taken where "filled < count" "r = Some taken" "0 < taken" "filled + taken \<le> count"
  proof -
    have "filled < count \<Longrightarrow> r \<noteq> None" using "1.prems"(3) by (cases r) (auto simp: unfolded)
    moreover have "k \<le> count - filled" if "r = Some k" for k
      using "1.prems"(1) rd that by (simp add: bounded_reader_def)
    ultimately show ?thesis
      using that "1.prems"(2) by (cases r; cases "filled < count"; cases "r = Some 0") auto
  qed
  then show ?case
  proof cases
    case (3 taken)
    with "1.IH" [of m1 "(s1, Inr taken)" s1 "Inr taken" taken] "1.prems" rd
    show ?thesis by (auto simp: unfolded)
  qed (use "1.prems" rd in \<open>auto simp: unfolded\<close>)
qed

text \<open>A source of bytes held in a list, read into the memory of regions.\<close>

definition list_read :: "(flat_ram, bytes) reader" where
  "list_read m s a n =
     (case flat_write m a (take n s) of
        (m', ok) \<Rightarrow> (m', if ok then drop n s else s, if ok then Some (length (take n s)) else None))"

lemma list_read_frame:
  "list_read m s a n = (m', s', r) \<Longrightarrow> apart a n b k \<Longrightarrow> ram_read flat_vm m' b k = ram_read flat_vm m b k"
proof -
  assume read: "list_read m s a n = (m', s', r)" and ap: "apart a n b k"
  have "m' = fst (flat_write m a (take n s))" using read by (auto simp: list_read_def split: prod.splits)
  moreover have "apart a (length (take n s)) b k" using ap by (auto simp: apart_def)
  ultimately show ?thesis using flat.write_apart [of a "take n s" b k m] by (simp add: ram_read_def)
qed

lemma list_read_range:
  "list_read m s a n = (m', s', r) \<Longrightarrow> vm_check_range flat_vm m' b k = vm_check_range flat_vm m b k"
proof -
  assume "list_read m s a n = (m', s', r)"
  then have "m' = fst (flat_write m a (take n s))" by (auto simp: list_read_def split: prod.splits)
  then show ?thesis by simp
qed

lemma list_read_bounded: "bounded_reader list_read"
  by (auto simp: bounded_reader_def list_read_def split: prod.splits if_splits)

declare ram_read_def [eval_simps] ram_holds_def [eval_simps] ram_write_def [eval_simps]

end
