(* ===== verification/Virtqueue.thy ===== *)
theory Virtqueue
  imports Guest_Ram
begin

text \<open>
  The split virtqueue, \<^verbatim>\<open>src/lingcore/src/devices/virtio/queue.rs\<close>, with the error type
  of \<^verbatim>\<open>virtio/mod.rs\<close>.  Ring indices, chain links, addresses and lengths are written
  by the guest; \<open>pop\<close> walks a chain and checks each link and buffer before a device
  sees it.

  The definitions follow the source function by function.  A failing step returns the
  error together with the state reached so far, since \<^verbatim>\<open>pop\<close> moves its cursor before the
  walk and \<^verbatim>\<open>add_used\<close> writes the element before the index.

  The lemmas characterise the walk completely (\<open>walk\<close> returns a chain if and only if the
  descriptor table holds a linked, direct, backed chain of at most \<open>size\<close> descriptors),
  give the behaviour of both cursors, and show that what \<open>add_used\<close> reports is what a
  driver reads back.
\<close>

section \<open>Definitions\<close>

datatype virtio_error =
    BadSize u16
  | BadIndex u16 u16
  | ChainTooLong u16
  | Indirect
  | UnbackedBuffer u64 u32
  | Request
  | Source
  | Ring u64

definition DESCRIPTOR_SIZE :: u64 where "DESCRIPTOR_SIZE = 16"
definition MAX_SIZE :: u16 where "MAX_SIZE = 32768"
definition NEXT :: u16 where "NEXT = 1"
definition WRITE :: u16 where "WRITE = 2"
definition INDIRECT :: u16 where "INDIRECT = 4"

record descriptor =
  addr :: u64
  len :: u32
  d_flags :: u16
  d_next :: u16

definition descriptor_from_bytes :: "bytes \<Rightarrow> descriptor" where
  "descriptor_from_bytes bs =
     \<lparr>addr = from_le (bslice 0 8 bs), len = from_le (bslice 8 4 bs),
      d_flags = from_le (bslice 12 2 bs), d_next = from_le (bslice 14 2 bs)\<rparr>"

definition writable :: "descriptor \<Rightarrow> bool" where
  "writable d \<longleftrightarrow> d_flags d AND WRITE \<noteq> 0"

record chain =
  head :: u16
  descriptors :: "descriptor list"

record queue =
  q_size :: u16
  desc_table :: u64
  avail_ring :: u64
  used_ring :: u64
  next_avail :: u16
  next_used :: u16

definition is_power_of_two :: "u16 \<Rightarrow> bool" where
  "is_power_of_two w = list_ex (\<lambda>k. w = push_bit k 1) [0..<16]"

definition queue_new :: "u16 \<Rightarrow> u64 \<Rightarrow> u64 \<Rightarrow> u64 \<Rightarrow> (queue, virtio_error) result" where
  "queue_new sz desc avail used =
     (if sz = 0 \<or> MAX_SIZE < sz \<or> \<not> is_power_of_two sz then Err (BadSize sz)
      else Ok \<lparr>q_size = sz, desc_table = desc, avail_ring = avail, used_ring = used,
               next_avail = 0, next_used = 0\<rparr>)"

definition offset :: "u64 \<Rightarrow> u64 \<Rightarrow> (u64, virtio_error) result" where
  "offset base delta = ok_or (Ring base) (checked_add base delta)"

definition read_u16 :: "'m vm \<Rightarrow> 'm \<Rightarrow> u64 \<Rightarrow> (u16, virtio_error) result" where
  "read_u16 vm m at = and_then (map_err (\<lambda>_. Ring at) (ram_read vm m at 2)) (\<lambda>bs. Ok (from_le bs))"

definition write_u16 :: "'m vm \<Rightarrow> 'm \<Rightarrow> u64 \<Rightarrow> u16 \<Rightarrow> 'm \<times> (unit, virtio_error) result" where
  "write_u16 vm m at v =
     (case ram_write vm m at (to_le 2 v) of (m', r) \<Rightarrow> (m', map_err (\<lambda>_. Ring at) r))"

definition write_u32 :: "'m vm \<Rightarrow> 'm \<Rightarrow> u64 \<Rightarrow> u32 \<Rightarrow> 'm \<times> (unit, virtio_error) result" where
  "write_u32 vm m at v =
     (case ram_write vm m at (to_le 4 v) of (m', r) \<Rightarrow> (m', map_err (\<lambda>_. Ring at) r))"

text \<open>The body of the loop in \<^verbatim>\<open>walk\<close> after its two index checks: read descriptor
  \<open>index\<close> of the table and refuse an indirect or unbacked one.\<close>

definition fetch :: "'m vm \<Rightarrow> 'm \<Rightarrow> queue \<Rightarrow> u16 \<Rightarrow> (descriptor, virtio_error) result" where
  "fetch vm m q index =
     and_then (offset (desc_table q) (ucast index * DESCRIPTOR_SIZE)) (\<lambda>at.
     and_then (map_err (\<lambda>_. Ring at) (ram_read vm m at 16)) (\<lambda>bs.
       let d = descriptor_from_bytes bs in
       if d_flags d AND INDIRECT \<noteq> 0 then Err Indirect
       else if \<not> ram_holds vm m (addr d) (ucast (len d)) then Err (UnbackedBuffer (addr d) (len d))
       else Ok d))"

function walk_loop ::
  "'m vm \<Rightarrow> 'm \<Rightarrow> queue \<Rightarrow> u16 \<Rightarrow> descriptor list \<Rightarrow> u16 \<Rightarrow> (chain, virtio_error) result" where
  "walk_loop vm m q h0 ds index =
     (if q_size q \<le> index then Err (BadIndex index (q_size q))
      else if unat (q_size q) \<le> length ds then Err (ChainTooLong (q_size q))
      else case fetch vm m q index of
             Inl e \<Rightarrow> Err e
           | Inr d \<Rightarrow>
               (if d_flags d AND NEXT = 0 then Ok \<lparr>head = h0, descriptors = ds @ [d]\<rparr>
                else walk_loop vm m q h0 (ds @ [d]) (d_next d)))"
  by pat_completeness auto
termination
  by (relation "measure (\<lambda>(vm, m, q, h0, ds, index). unat (q_size q) - length ds)") auto

declare walk_loop.simps [simp del]

definition walk :: "'m vm \<Rightarrow> 'm \<Rightarrow> queue \<Rightarrow> u16 \<Rightarrow> (chain, virtio_error) result" where
  "walk vm m q h0 = walk_loop vm m q h0 [] h0"

text \<open>\<^verbatim>\<open>Queue::pop\<close> in two steps: what it reads from the available ring, and the call.
  The cursor advances between the read of the head and the walk.\<close>

definition avail_index :: "'m vm \<Rightarrow> 'm \<Rightarrow> queue \<Rightarrow> (u16, virtio_error) result" where
  "avail_index vm m q = and_then (offset (avail_ring q) 2) (read_u16 vm m)"

definition avail_head :: "'m vm \<Rightarrow> 'm \<Rightarrow> queue \<Rightarrow> (u16, virtio_error) result" where
  "avail_head vm m q =
     (let slot = ucast (next_avail q mod q_size q) :: u64
      in and_then (offset (avail_ring q) (4 + slot * 2)) (read_u16 vm m))"

definition pop :: "'m vm \<Rightarrow> 'm \<Rightarrow> queue \<Rightarrow> queue \<times> (chain option, virtio_error) result" where
  "pop vm m q =
     (case avail_index vm m q of
        Inl e \<Rightarrow> (q, Err e)
      | Inr published \<Rightarrow>
          if next_avail q = published then (q, Ok None)
          else case avail_head vm m q of
                 Inl e \<Rightarrow> (q, Err e)
               | Inr h0 \<Rightarrow> (q\<lparr>next_avail := next_avail q + 1\<rparr>,
                           and_then (walk vm m q h0) (\<lambda>c. Ok (Some c))))"

definition undo_pop :: "queue \<Rightarrow> queue" where
  "undo_pop q = q\<lparr>next_avail := next_avail q - 1\<rparr>"

definition add_used ::
  "'m vm \<Rightarrow> 'm \<Rightarrow> queue \<Rightarrow> u16 \<Rightarrow> u32 \<Rightarrow> 'm \<times> queue \<times> (unit, virtio_error) result" where
  "add_used vm m q h0 written =
     (let slot = ucast (next_used q mod q_size q) :: u64 in
      case offset (used_ring q) (4 + slot * 8) of
        Inl e \<Rightarrow> (m, q, Err e)
      | Inr element \<Rightarrow>
          (case write_u32 vm m element (ucast h0) of
             (m1, Inl e) \<Rightarrow> (m1, q, Err e)
           | (m1, Inr _) \<Rightarrow>
               (case offset element 4 of
                  Inl e \<Rightarrow> (m1, q, Err e)
                | Inr at \<Rightarrow>
                    (case write_u32 vm m1 at written of
                       (m2, Inl e) \<Rightarrow> (m2, q, Err e)
                     | (m2, Inr _) \<Rightarrow>
                         let q' = q\<lparr>next_used := next_used q + 1\<rparr> in
                         (case offset (used_ring q) 2 of
                            Inl e \<Rightarrow> (m2, q', Err e)
                          | Inr idx \<Rightarrow>
                              (case write_u16 vm m2 idx (next_used q') of
                                 (m3, r) \<Rightarrow> (m3, q', r)))))))"

definition cursors :: "queue \<Rightarrow> u16 \<times> u16" where
  "cursors q = (next_avail q, next_used q)"

definition set_cursors :: "queue \<Rightarrow> u16 \<Rightarrow> u16 \<Rightarrow> queue" where
  "set_cursors q avail used = q\<lparr>next_avail := avail, next_used := used\<rparr>"

section \<open>Well-formed queues\<close>

text \<open>The sizes section 2.7 of virtio 1.2 allows, which \<^verbatim>\<open>Queue::new\<close> enforces and no
  operation changes.\<close>

definition queue_wf :: "queue \<Rightarrow> bool" where
  "queue_wf q \<longleftrightarrow> q_size q \<noteq> 0 \<and> q_size q \<le> MAX_SIZE \<and> is_power_of_two (q_size q)"

definition same_rings :: "queue \<Rightarrow> queue \<Rightarrow> bool" where
  "same_rings q q' \<longleftrightarrow> q_size q' = q_size q \<and> desc_table q' = desc_table q \<and>
     avail_ring q' = avail_ring q \<and> used_ring q' = used_ring q"

lemma same_rings_refl [simp]: "same_rings q q"
  by (simp add: same_rings_def)

lemma same_rings_trans [trans]: "same_rings a b \<Longrightarrow> same_rings b c \<Longrightarrow> same_rings a c"
  by (simp add: same_rings_def)

lemma same_rings_wf [wf_intros]: "queue_wf q \<Longrightarrow> same_rings q q' \<Longrightarrow> queue_wf q'"
  by (simp add: queue_wf_def same_rings_def)

lemma queue_new_wf: "queue_new s d a u = Inr q \<Longrightarrow> queue_wf q"
  by (auto simp: queue_new_def queue_wf_def not_less split: if_splits)

lemma queue_new_ok_iff: "is_ok (queue_new s d a u) \<longleftrightarrow> s \<noteq> 0 \<and> s \<le> MAX_SIZE \<and> is_power_of_two s"
  by (auto simp: queue_new_def not_less)

lemma pop_same_rings: "same_rings q (fst (pop vm m q))"
  by (auto simp: pop_def same_rings_def split: result_splits)

lemma undo_pop_same_rings [simp]: "same_rings q (undo_pop q)"
  by (simp add: undo_pop_def same_rings_def)

lemma set_cursors_same_rings [simp]: "same_rings q (set_cursors q a u)"
  by (simp add: set_cursors_def same_rings_def)

lemma add_used_same_rings: "add_used vm m q h0 n = (m', q', r) \<Longrightarrow> same_rings q q'"
  by (auto simp: add_used_def same_rings_def Let_def split: result_splits)

section \<open>The walk\<close>

text \<open>What a chain of the descriptor table is: from \<open>index\<close> each descriptor is inside
  the table, passes the checks, and either ends the chain or links to the next.\<close>

inductive linked :: "'m vm \<Rightarrow> 'm \<Rightarrow> queue \<Rightarrow> u16 \<Rightarrow> descriptor list \<Rightarrow> bool"
  for vm :: "'m vm" and m :: 'm and q :: queue where
  last: "index < q_size q \<Longrightarrow> fetch vm m q index = Inr d \<Longrightarrow> d_flags d AND NEXT = 0 \<Longrightarrow>
    linked vm m q index [d]"
| link: "index < q_size q \<Longrightarrow> fetch vm m q index = Inr d \<Longrightarrow> d_flags d AND NEXT \<noteq> 0 \<Longrightarrow>
    linked vm m q (d_next d) ds \<Longrightarrow> linked vm m q index (d # ds)"

inductive_cases linked_NilE [elim!]: "linked vm m q index []"
inductive_simps linked_Cons: "linked vm m q index (d # ds)"

lemma linked_nonempty: "linked vm m q index ds \<Longrightarrow> ds \<noteq> []"
  by (cases ds) auto

lemma linked_fetched: "linked vm m q index ds \<Longrightarrow> d \<in> set ds \<Longrightarrow> \<exists>i < q_size q. fetch vm m q i = Inr d"
  by (induction rule: linked.induct) auto

lemma walk_loop_sound:
  "walk_loop vm m q h0 ds index = Inr c \<Longrightarrow>
   \<exists>rest. linked vm m q index rest \<and> head c = h0 \<and> descriptors c = ds @ rest \<and>
          length (descriptors c) \<le> unat (q_size q)"
proof (induction vm m q h0 ds index rule: walk_loop.induct)
  case (1 vm m q h0 ds index)
  from "1.prems" obtain d where idx: "\<not> q_size q \<le> index" "\<not> unat (q_size q) \<le> length ds"
    and d: "fetch vm m q index = Inr d"
    by (auto simp: walk_loop.simps [of vm m q h0 ds index] split: result_splits)
  show ?case
  proof (cases "d_flags d AND NEXT = 0")
    case True
    with "1.prems" idx d have "c = \<lparr>head = h0, descriptors = ds @ [d]\<rparr>"
      by (simp add: walk_loop.simps [of vm m q h0 ds index])
    with idx d True show ?thesis by (auto intro: linked.last simp: not_le)
  next
    case False
    with "1.prems" idx d have "walk_loop vm m q h0 (ds @ [d]) (d_next d) = Inr c"
      by (simp add: walk_loop.simps [of vm m q h0 ds index])
    with "1.IH" idx d False obtain rest where "linked vm m q (d_next d) rest" "head c = h0"
      "descriptors c = (ds @ [d]) @ rest" "length (descriptors c) \<le> unat (q_size q)"
      by auto
    with idx d False show ?thesis by (auto intro: linked.link simp: not_le)
  qed
qed

lemma walk_loop_complete:
  "linked vm m q index rest \<Longrightarrow> length ds + length rest \<le> unat (q_size q) \<Longrightarrow>
   walk_loop vm m q h0 ds index = Inr \<lparr>head = h0, descriptors = ds @ rest\<rparr>"
proof (induction arbitrary: ds rule: linked.induct)
  case (last index d)
  then show ?case by (simp add: walk_loop.simps [of vm m q h0 ds index] leD)
next
  case (link index d rest)
  then have "walk_loop vm m q h0 (ds @ [d]) (d_next d) = Inr \<lparr>head = h0, descriptors = ds @ d # rest\<rparr>"
    by simp
  with link.hyps link.prems show ?case by (simp add: walk_loop.simps [of vm m q h0 ds index] leD)
qed

lemma walk_iff:
  "walk vm m q h0 = Inr c \<longleftrightarrow>
   head c = h0 \<and> linked vm m q h0 (descriptors c) \<and> length (descriptors c) \<le> unat (q_size q)"
  using walk_loop_sound [of vm m q h0 "[]" h0 c] walk_loop_complete [of vm m q h0 "descriptors c" "[]" h0]
  by (cases c) (auto simp: walk_def)

lemma fetch_checked:
  "fetch vm m q i = Inr d \<Longrightarrow>
   d_flags d AND INDIRECT = 0 \<and> ram_holds vm m (addr d) (ucast (len d))"
  by (auto simp: fetch_def Let_def and_then_eq_Inr split: if_splits)

section \<open>The two cursors\<close>

lemma pop_Some:
  assumes "pop vm m q = (q', Inr (Some c))"
  shows "q' = q\<lparr>next_avail := next_avail q + 1\<rparr>"
    and "avail_head vm m q = Inr (head c)"
    and "walk vm m q (head c) = Inr c"
    and "avail_index vm m q \<noteq> Inr (next_avail q)"
  using assms by (auto simp: pop_def and_then_eq_Inr walk_iff split: result_splits)

lemma pop_None: "pop vm m q = (q', Inr None) \<Longrightarrow> q' = q \<and> avail_index vm m q = Inr (next_avail q)"
  by (auto simp: pop_def and_then_eq_Inr split: result_splits)

lemma pop_moves: "fst (pop vm m q) = q \<or> fst (pop vm m q) = q\<lparr>next_avail := next_avail q + 1\<rparr>"
  by (auto simp: pop_def split: result_splits)

lemma undo_pop_after [simp]: "undo_pop (q\<lparr>next_avail := next_avail q + 1\<rparr>) = q"
  by (simp add: undo_pop_def)

lemma add_used_cursors:
  "add_used vm m q h0 n = (m', q', r) \<Longrightarrow>
   next_avail q' = next_avail q \<and> (next_used q' = next_used q \<or> next_used q' = next_used q + 1)"
  by (auto simp: add_used_def Let_def split: result_splits)

lemma add_used_ok_cursors:
  "add_used vm m q h0 n = (m', q', Inr ()) \<Longrightarrow> q' = q\<lparr>next_used := next_used q + 1\<rparr>"
  by (auto simp: add_used_def Let_def split: result_splits)

section \<open>What a driver reads back\<close>

text \<open>\<open>read_u32\<close> is the driver's read of a field of a used element; \<open>used_slot\<close> the
  address of the element the next report goes to.  Backed rings are the ones whose
  fields lie in guest RAM and do not run past the address space.\<close>

definition read_u32 :: "'m vm \<Rightarrow> 'm \<Rightarrow> u64 \<Rightarrow> (u32, virtio_error) result" where
  "read_u32 vm m at = and_then (map_err (\<lambda>_. Ring at) (ram_read vm m at 4)) (\<lambda>bs. Ok (from_le bs))"

definition used_slot :: "queue \<Rightarrow> u64" where
  "used_slot q = used_ring q + (4 + ucast (next_used q mod q_size q) * 8)"

definition used_bytes :: "queue \<Rightarrow> nat" where
  "used_bytes q = 4 + 8 * unat (q_size q)"

definition avail_bytes :: "queue \<Rightarrow> nat" where
  "avail_bytes q = 4 + 2 * unat (q_size q)"

definition used_backed :: "'m vm \<Rightarrow> 'm \<Rightarrow> queue \<Rightarrow> bool" where
  "used_backed vm m q \<longleftrightarrow> unat (used_ring q) + used_bytes q < 2 ^ 64 \<and>
     (\<forall>k n. k + n \<le> used_bytes q \<longrightarrow> vm_check_range vm m (used_ring q + of_nat k) n)"

definition avail_backed :: "'m vm \<Rightarrow> 'm \<Rightarrow> queue \<Rightarrow> bool" where
  "avail_backed vm m q \<longleftrightarrow> unat (avail_ring q) + avail_bytes q < 2 ^ 64 \<and>
     (\<forall>k n. k + n \<le> avail_bytes q \<longrightarrow> vm_check_range vm m (avail_ring q + of_nat k) n)"

lemma unat_slot:
  fixes c s :: u16 and b :: u64
  assumes "s \<noteq> 0"
  shows "unat (ucast (c mod s) :: u64) < unat s" "unat (c mod s) < unat s"
  using assms by (simp_all add: unat_ucast_up unat_mod unat_gt_0)

lemma offset_of_nat:
  assumes "unat a + k < 2 ^ 64"
  shows "offset a (of_nat k) = Inr (a + of_nat k)"
  using assms by (simp add: offset_def checked_add_eq_Some unat_of_nat)

lemma slot_delta:
  fixes c s :: u16
  shows "4 + (ucast (c mod s) :: u64) * 8 = of_nat (4 + 8 * unat (c mod s))"
    and "4 + (ucast (c mod s) :: u64) * 2 = of_nat (4 + 2 * unat (c mod s))"
  by (simp_all add: mult.commute)

text \<open>Where the ring fits the address space, \<open>add_used\<close> is three writes, the two fields
  of the element and then the index.\<close>

lemma used_addresses:
  assumes "queue_wf q" "unat (used_ring q) + used_bytes q < 2 ^ 64"
  shows "unat (used_slot q) = unat (used_ring q) + 4 + 8 * unat (next_used q mod q_size q)"
    and "unat (used_slot q) + 8 \<le> unat (used_ring q) + used_bytes q"
    and "unat (used_slot q + 4) = unat (used_slot q) + 4"
    and "unat (used_ring q + 2) = unat (used_ring q) + 2"
proof -
  have lt: "unat (next_used q mod q_size q) < unat (q_size q)"
    using assms(1) by (intro unat_slot) (simp add: queue_wf_def)
  have sz: "used_bytes q = 4 + 8 * unat (q_size q)" by (simp add: used_bytes_def)
  show at: "unat (used_slot q) = unat (used_ring q) + 4 + 8 * unat (next_used q mod q_size q)"
    unfolding used_slot_def slot_delta
    using unat_add_of_nat [of "used_ring q" "4 + 8 * unat (next_used q mod q_size q)"] lt sz assms(2)
    by simp
  show end_le: "unat (used_slot q) + 8 \<le> unat (used_ring q) + used_bytes q"
    using at lt sz by simp
  show "unat (used_slot q + 4) = unat (used_slot q) + 4"
    using unat_add_of_nat [of "used_slot q" 4] end_le assms(2) by simp
  show "unat (used_ring q + 2) = unat (used_ring q) + 2"
    using unat_add_of_nat [of "used_ring q" 2] sz assms(2) by simp
qed

lemma add_used_unfold:
  assumes "queue_wf q" "unat (used_ring q) + used_bytes q < 2 ^ 64"
  shows "add_used vm m q h n =
    (case write_u32 vm m (used_slot q) (ucast h) of
       (m1, Inl e) \<Rightarrow> (m1, q, Inl e)
     | (m1, Inr _) \<Rightarrow>
         (case write_u32 vm m1 (used_slot q + 4) n of
            (m2, Inl e) \<Rightarrow> (m2, q, Inl e)
          | (m2, Inr _) \<Rightarrow>
              (case write_u16 vm m2 (used_ring q + 2) (next_used q + 1) of
                 (m3, r) \<Rightarrow> (m3, q\<lparr>next_used := next_used q + 1\<rparr>, r))))"
proof -
  note addr = used_addresses [OF assms]
  have "offset (used_ring q) (4 + ucast (next_used q mod q_size q) * 8) = Inr (used_slot q)"
    unfolding used_slot_def slot_delta
    using addr(1,2) assms(2) by (intro offset_of_nat) linarith
  moreover have "offset (used_slot q) 4 = Inr (used_slot q + 4)"
    using offset_of_nat [of "used_slot q" 4] addr(2) assms(2) by simp
  moreover have "offset (used_ring q) 2 = Inr (used_ring q + 2)"
    using offset_of_nat [of "used_ring q" 2] addr(1,2) assms(2) by simp
  ultimately show ?thesis
    by (simp add: add_used_def Let_def)
qed

context vm_memory
begin

lemma write_u32_apart:
  "write_u32 vm m a v = (m', r) \<Longrightarrow> apart a 4 b k \<Longrightarrow> ram_read vm m' b k = ram_read vm m b k"
  using ram_write_apart [of m a "to_le 4 v" m' _ b k] by (auto simp: write_u32_def split: prod.splits)

lemma write_u16_apart:
  "write_u16 vm m a v = (m', r) \<Longrightarrow> apart a 2 b k \<Longrightarrow> ram_read vm m' b k = ram_read vm m b k"
  using ram_write_apart [of m a "to_le 2 v" m' _ b k] by (auto simp: write_u16_def split: prod.splits)

lemma write_u32_range: "write_u32 vm m a v = (m', r) \<Longrightarrow> vm_check_range vm m' b k = vm_check_range vm m b k"
  by (auto simp: write_u32_def dest: ram_write_range split: prod.splits)

lemma write_u16_range: "write_u16 vm m a v = (m', r) \<Longrightarrow> vm_check_range vm m' b k = vm_check_range vm m b k"
  by (auto simp: write_u16_def dest: ram_write_range split: prod.splits)

lemma write_u32_back: "write_u32 vm m a v = (m', Inr ()) \<Longrightarrow> ram_read vm m' a 4 = Inr (to_le 4 v)"
  using ram_write_read [of m a "to_le 4 v" m']
  by (auto simp: write_u32_def length_0_conv [symmetric] simp del: length_0_conv split: prod.splits)

lemma write_u16_back: "write_u16 vm m a v = (m', Inr ()) \<Longrightarrow> ram_read vm m' a 2 = Inr (to_le 2 v)"
  using ram_write_read [of m a "to_le 2 v" m']
  by (auto simp: write_u16_def length_0_conv [symmetric] simp del: length_0_conv split: prod.splits)

lemma write_u32_backed:
  assumes "vm_check_range vm m a 4"
  obtains m' where "write_u32 vm m a v = (m', Inr ())"
  using ram_write_backed [of m a "to_le 4 v"] assms
  by (auto simp: write_u32_def length_0_conv [symmetric] simp del: length_0_conv split: prod.splits)

lemma write_u16_backed:
  assumes "vm_check_range vm m a 2"
  obtains m' where "write_u16 vm m a v = (m', Inr ())"
  using ram_write_backed [of m a "to_le 2 v"] assms
  by (auto simp: write_u16_def length_0_conv [symmetric] simp del: length_0_conv split: prod.splits)

end

context vm_memory
begin

lemma add_used_range:
  "add_used vm m q h n = (m', q', r) \<Longrightarrow> vm_check_range vm m' b k = vm_check_range vm m b k"
  by (auto simp: add_used_def Let_def write_u32_range write_u16_range split: result_splits)

lemma add_used_apart:
  assumes "queue_wf q" "unat (used_ring q) + used_bytes q < 2 ^ 64"
    and "apart (used_ring q) (used_bytes q) b k"
    and "add_used vm m q h n = (m', q', r)"
  shows "ram_read vm m' b k = ram_read vm m b k"
proof -
  note addr = used_addresses [OF assms(1,2)]
  have ap: "apart (used_slot q) 4 b k" "apart (used_slot q + 4) 4 b k" "apart (used_ring q + 2) 2 b k"
    using assms(3) addr unfolding apart_def by auto
  show ?thesis
    using assms(4) ap unfolding add_used_unfold [OF assms(1,2)]
    by (auto simp: write_u32_apart write_u16_apart split: result_splits)
qed

lemma add_used_backed:
  assumes "queue_wf q" "used_backed vm m q"
  obtains m' where "add_used vm m q h n = (m', q\<lparr>next_used := next_used q + 1\<rparr>, Inr ())"
proof -
  have fits: "unat (used_ring q) + used_bytes q < 2 ^ 64"
    and check: "\<And>k n. k + n \<le> used_bytes q \<Longrightarrow> vm_check_range vm m (used_ring q + of_nat k) n"
    using assms(2) by (auto simp: used_backed_def)
  note addr = used_addresses [OF assms(1) fits]
  let ?k = "4 + 8 * unat (next_used q mod q_size q)"
  have "vm_check_range vm m (used_slot q) 4"
    using check [of ?k 4] addr(1,2) unfolding used_slot_def slot_delta by simp
  then obtain m1 where w1: "write_u32 vm m (used_slot q) (ucast h) = (m1, Inr ())"
    by (rule write_u32_backed)
  have "vm_check_range vm m (used_slot q + 4) 4"
    using check [of "?k + 4" 4] addr(1,2) unfolding used_slot_def slot_delta
    by (simp add: add.assoc)
  then have "vm_check_range vm m1 (used_slot q + 4) 4"
    by (simp add: write_u32_range [OF w1])
  then obtain m2 where w2: "write_u32 vm m1 (used_slot q + 4) n = (m2, Inr ())"
    by (rule write_u32_backed)
  have "vm_check_range vm m (used_ring q + 2) 2"
    using check [of 2 2] addr(1,2) by simp
  then have "vm_check_range vm m2 (used_ring q + 2) 2"
    by (simp add: write_u32_range [OF w1] write_u32_range [OF w2])
  then obtain m3 where "write_u16 vm m2 (used_ring q + 2) (next_used q + 1) = (m3, Inr ())"
    by (rule write_u16_backed)
  with w1 w2 show ?thesis
    by (intro that [of m3]) (simp add: add_used_unfold [OF assms(1) fits])
qed

lemma add_used_written:
  assumes "queue_wf q" "unat (used_ring q) + used_bytes q < 2 ^ 64"
    and "add_used vm m q h n = (m', q', Inr ())"
  shows "read_u32 vm m' (used_slot q) = Inr (ucast h)"
    and "read_u32 vm m' (used_slot q + 4) = Inr n"
    and "read_u16 vm m' (used_ring q + 2) = Inr (next_used q')"
proof -
  note addr = used_addresses [OF assms(1,2)]
  from assms(3) obtain m1 m2 where w1: "write_u32 vm m (used_slot q) (ucast h) = (m1, Inr ())"
    and w2: "write_u32 vm m1 (used_slot q + 4) n = (m2, Inr ())"
    and w3: "write_u16 vm m2 (used_ring q + 2) (next_used q + 1) = (m', Inr ())"
    and q': "q' = q\<lparr>next_used := next_used q + 1\<rparr>"
    unfolding add_used_unfold [OF assms(1,2)] by (auto split: result_splits)
  have "apart (used_ring q + 2) 2 (used_slot q) 4" "apart (used_ring q + 2) 2 (used_slot q + 4) 4"
    "apart (used_slot q + 4) 4 (used_slot q) 4"
    using addr by (auto simp: apart_def)
  then have "ram_read vm m' (used_slot q) 4 = Inr (to_le 4 (ucast h :: u32))"
    "ram_read vm m' (used_slot q + 4) 4 = Inr (to_le 4 n)"
    "ram_read vm m' (used_ring q + 2) 2 = Inr (to_le 2 (next_used q + 1))"
    using write_u32_back [OF w1] write_u32_back [OF w2] write_u16_back [OF w3]
      write_u32_apart [OF w2] write_u16_apart [OF w3] by auto
  then show "read_u32 vm m' (used_slot q) = Inr (ucast h)" "read_u32 vm m' (used_slot q + 4) = Inr n"
    "read_u16 vm m' (used_ring q + 2) = Inr (next_used q')"
    by (simp_all add: read_u32_def read_u16_def q' from_le_to_le)
qed

end

section \<open>The available ring as a FIFO\<close>

text \<open>The heads the driver has published and the device not yet taken, in order.  The
  ring holds them at the free-running indices from \<open>next_avail\<close>, which wrap at
  \<open>2 ^ 16\<close>.\<close>

definition pending_count :: "'m vm \<Rightarrow> 'm \<Rightarrow> queue \<Rightarrow> nat" where
  "pending_count vm m q =
     (case avail_index vm m q of Inl _ \<Rightarrow> 0 | Inr published \<Rightarrow> unat (published - next_avail q))"

definition pending :: "'m vm \<Rightarrow> 'm \<Rightarrow> queue \<Rightarrow> u16 list" where
  "pending vm m q =
     map (\<lambda>k. case avail_head vm m (q\<lparr>next_avail := next_avail q + of_nat k\<rparr>) of
                Inl _ \<Rightarrow> 0 | Inr h \<Rightarrow> h)
       [0..<pending_count vm m q]"

lemma avail_index_cursor [simp]:
  "avail_index vm m (q\<lparr>next_avail := a\<rparr>) = avail_index vm m q"
  "avail_index vm m (q\<lparr>next_used := u\<rparr>) = avail_index vm m q"
  by (simp_all add: avail_index_def)

lemma avail_head_cursor [simp]: "avail_head vm m (q\<lparr>next_used := u\<rparr>) = avail_head vm m q"
  by (simp add: avail_head_def)

lemma length_pending [simp]: "length (pending vm m q) = pending_count vm m q"
  by (simp add: pending_def)

lemma pending_count_step:
  assumes "avail_index vm m q = Inr p" "p \<noteq> next_avail q"
  shows "pending_count vm m q = Suc (pending_count vm m (q\<lparr>next_avail := next_avail q + 1\<rparr>))"
proof -
  have "p - next_avail q \<noteq> 0" using assms(2) by simp
  then have "unat (p - next_avail q) = Suc (unat (p - next_avail q - 1))"
    by (metis Suc_pred' unat_gt_0 unat_minus_one)
  then show ?thesis using assms(1) by (simp add: pending_count_def diff_diff_eq)
qed

lemma pending_step:
  assumes "avail_index vm m q = Inr p" "p \<noteq> next_avail q" "avail_head vm m q = Inr h"
  shows "pending vm m q = h # pending vm m (q\<lparr>next_avail := next_avail q + 1\<rparr>)"
  unfolding pending_def pending_count_step [OF assms(1,2)] map_upt_Suc
  using assms(3) by (simp add: ac_simps)

context vm_memory
begin

lemma avail_backed_index:
  assumes "avail_backed vm m q"
  obtains p where "avail_index vm m q = Inr p"
proof -
  have fits: "unat (avail_ring q) + avail_bytes q < 2 ^ 64"
    and check: "\<And>k n. k + n \<le> avail_bytes q \<Longrightarrow> vm_check_range vm m (avail_ring q + of_nat k) n"
    using assms by (auto simp: avail_backed_def)
  from check [of 2 2] have "vm_check_range vm m (avail_ring q + 2) 2" by (simp add: avail_bytes_def)
  moreover have "offset (avail_ring q) 2 = Inr (avail_ring q + 2)"
    using offset_of_nat [of "avail_ring q" 2] fits by (simp add: avail_bytes_def)
  ultimately show ?thesis
    using that by (auto simp: avail_index_def read_u16_def elim: ram_read_backed)
qed

lemma avail_backed_head:
  assumes "avail_backed vm m q" "queue_wf q"
  obtains h where "avail_head vm m q = Inr h"
proof -
  let ?k = "4 + 2 * unat (next_avail q mod q_size q)"
  have "unat (next_avail q mod q_size q) < unat (q_size q)"
    using assms(2) by (intro unat_slot) (simp add: queue_wf_def)
  then have le: "?k + 2 \<le> avail_bytes q" by (simp add: avail_bytes_def)
  then have "vm_check_range vm m (avail_ring q + of_nat ?k) 2"
    and "unat (avail_ring q) + ?k < 2 ^ 64"
    using assms(1) unfolding avail_backed_def by (blast, linarith)
  then show ?thesis
    using that offset_of_nat [of "avail_ring q" ?k]
    by (auto simp: avail_head_def Let_def slot_delta read_u16_def elim!: ram_read_backed simp del: of_nat_add of_nat_mult)
qed

text \<open>On a backed ring \<open>pop\<close> is the removal of the first pending head.\<close>

lemma pop_empty:
  assumes "avail_backed vm m q"
  shows "pending vm m q = [] \<longleftrightarrow> pop vm m q = (q, Inr None)"
proof -
  obtain p where p: "avail_index vm m q = Inr p" using avail_backed_index [OF assms] .
  have "pending vm m q = [] \<longleftrightarrow> p = next_avail q"
    using p unfolding length_0_conv [symmetric] by (simp add: pending_count_def unat_eq_zero)
  also have "\<dots> \<longleftrightarrow> pop vm m q = (q, Inr None)"
    using p by (auto simp: pop_def and_then_eq_Inr split: result_splits)
  finally show ?thesis .
qed

lemma pop_first:
  assumes "avail_backed vm m q" "queue_wf q" "pending vm m q = h # hs"
  shows "pop vm m q = (q\<lparr>next_avail := next_avail q + 1\<rparr>, and_then (walk vm m q h) (\<lambda>c. Inr (Some c)))"
    and "pending vm m (q\<lparr>next_avail := next_avail q + 1\<rparr>) = hs"
proof -
  obtain p where p: "avail_index vm m q = Inr p" using avail_backed_index [OF assms(1)] .
  obtain g where g: "avail_head vm m q = Inr g" using avail_backed_head [OF assms(1,2)] .
  have ne: "p \<noteq> next_avail q"
  proof
    assume "p = next_avail q"
    with p have "pending_count vm m q = 0" by (simp add: pending_count_def)
    with assms(3) show False by (metis length_pending list.size(3) length_0_conv list.distinct(1))
  qed
  from pending_step [OF p ne g] assms(3)
  have "g = h" and "pending vm m (q\<lparr>next_avail := next_avail q + 1\<rparr>) = hs" by simp_all
  with p g ne show "pop vm m q = (q\<lparr>next_avail := next_avail q + 1\<rparr>, and_then (walk vm m q h) (\<lambda>c. Inr (Some c)))"
    and "pending vm m (q\<lparr>next_avail := next_avail q + 1\<rparr>) = hs"
    by (simp_all add: pop_def)
qed

end

declare offset_def [eval_simps] descriptor_from_bytes_def [eval_simps] DESCRIPTOR_SIZE_def [eval_simps]
  NEXT_def [eval_simps] WRITE_def [eval_simps] INDIRECT_def [eval_simps] read_u16_def [eval_simps]
  writable_def [eval_simps]

end
