(* ===== verification/Mmio_Transport.thy ===== *)
theory Mmio_Transport
  imports Virtqueue Devices
begin

text \<open>
  The MMIO transport, \<^verbatim>\<open>src/lingcore/src/devices/virtio/mmio.rs\<close>, which places a virtio
  device on the bus.  The device behind it is a parameter, the operations of the trait
  \<^verbatim>\<open>virtio::Device\<close> as the record \<open>vdev\<close>; the interrupt line is the state \<open>'w\<close> with an
  operation that sends.  Log lines are left out, the counters beside them are kept.

  The locale \<open>virtio_device\<close> is the one promise the transport needs of a device: serving a
  queue leaves the rings where they are.  Under it every queue a driver can build has a size
  the virtqueue supports, and a captured transport restores to the same registers and
  queues.
\<close>

section \<open>Definitions\<close>

definition MAGIC :: u32 where "MAGIC = 0x74726976"
definition VERSION :: u32 where "VERSION = 2"
definition VENDOR :: u32 where "VENDOR = 0x4c4e4743"
definition QUEUE_NOTIFY :: u64 where "QUEUE_NOTIFY = 0x050"
definition CONFIG :: u64 where "CONFIG = 0x100"
definition INTERRUPT_CONFIG :: u32 where "INTERRUPT_CONFIG = 2"
definition INTERRUPT_VRING :: u32 where "INTERRUPT_VRING = 1"
definition STATUS_FEATURES_OK :: u32 where "STATUS_FEATURES_OK = 0x08"
definition STATUS_NEEDS_RESET :: u32 where "STATUS_NEEDS_RESET = 0x40"
definition STATUS_FAILED :: u32 where "STATUS_FAILED = 0x80"
definition VERSION_1 :: u64 where "VERSION_1 = push_bit 32 1"
definition MMIO_KIND :: string where "MMIO_KIND = ''virtio-mmio''"
definition MMIO_VERSION :: u32 where "MMIO_VERSION = 1"

text \<open>The register offsets of the block, in the order of the source.\<close>

datatype register =
    MAGIC_VALUE | VERSION_AT | DEVICE_ID | VENDOR_ID | DEVICE_FEATURES | DEVICE_FEATURES_SEL
  | DRIVER_FEATURES | DRIVER_FEATURES_SEL | QUEUE_SEL | QUEUE_NUM_MAX | QUEUE_NUM | QUEUE_READY
  | QUEUE_NOTIFY_AT | INTERRUPT_STATUS | INTERRUPT_ACK | STATUS | QUEUE_DESC_LOW | QUEUE_DESC_HIGH
  | QUEUE_AVAIL_LOW | QUEUE_AVAIL_HIGH | QUEUE_USED_LOW | QUEUE_USED_HIGH | CONFIG_GENERATION | NoRegister

definition register_at :: "u64 \<Rightarrow> register" where
  "register_at off =
     (case map_of [(0x000, MAGIC_VALUE), (0x004, VERSION_AT), (0x008, DEVICE_ID), (0x00c, VENDOR_ID),
         (0x010, DEVICE_FEATURES), (0x014, DEVICE_FEATURES_SEL), (0x020, DRIVER_FEATURES),
         (0x024, DRIVER_FEATURES_SEL), (0x030, QUEUE_SEL), (0x034, QUEUE_NUM_MAX), (0x038, QUEUE_NUM),
         (0x044, QUEUE_READY), (0x050, QUEUE_NOTIFY_AT), (0x060, INTERRUPT_STATUS), (0x064, INTERRUPT_ACK),
         (0x070, STATUS), (0x080, QUEUE_DESC_LOW), (0x084, QUEUE_DESC_HIGH), (0x090, QUEUE_AVAIL_LOW),
         (0x094, QUEUE_AVAIL_HIGH), (0x0a0, QUEUE_USED_LOW), (0x0a4, QUEUE_USED_HIGH),
         (0x0fc, CONFIG_GENERATION)] off of
        None \<Rightarrow> NoRegister
      | Some r \<Rightarrow> r)"

text \<open>The trait \<^verbatim>\<open>virtio::Device\<close>.\<close>

record ('d, 'm) vdev =
  v_device_id :: "'d \<Rightarrow> u32"
  v_features :: "'d \<Rightarrow> u64"
  v_queue_count :: "'d \<Rightarrow> u16"
  v_queue_size_max :: "'d \<Rightarrow> u16"
  v_read_config :: "u64 \<Rightarrow> u8 \<Rightarrow> 'd \<Rightarrow> 'd \<times> u64"
  v_write_config :: "u64 \<Rightarrow> u8 \<Rightarrow> u64 \<Rightarrow> 'd \<Rightarrow> 'd"
  v_configuration :: "'d \<Rightarrow> u64 option"
  v_notify :: "u16 \<Rightarrow> 'd \<Rightarrow> 'm \<Rightarrow> queue \<Rightarrow> 'd \<times> 'm \<times> queue \<times> (unit, virtio_error) result"
  v_restored :: "u16 \<Rightarrow> 'd \<Rightarrow> 'm \<Rightarrow> queue \<Rightarrow> 'd \<times> 'm \<times> queue \<times> (unit, virtio_error) result"

record slot_state =
  ss_size :: u16
  ss_desc :: u64
  ss_avail :: u64
  ss_used :: u64
  ss_ready :: bool
  ss_next_avail :: u16
  ss_next_used :: u16

record transport_state =
  ts_status :: u32
  ts_device_features_sel :: u32
  ts_driver_features :: u64
  ts_driver_features_sel :: u32
  ts_queue_sel :: u32
  ts_interrupt_status :: u32
  ts_config_generation :: u32
  ts_configuration :: "u64 option"
  ts_queues :: "slot_state list"

record slot =
  sl_size :: u16
  sl_desc :: u64
  sl_avail :: u64
  sl_used :: u64
  sl_queue :: "queue option"

definition slot_default :: slot where
  "slot_default = \<lparr>sl_size = 0, sl_desc = 0, sl_avail = 0, sl_used = 0, sl_queue = None\<rparr>"

record ('d, 'm, 'w) transport =
  t_device :: 'd
  t_ram :: 'm
  t_line :: 'w
  status :: u32
  device_features_sel :: u32
  driver_features :: u64
  driver_features_sel :: u32
  queue_sel :: u32
  interrupt_status :: u32
  config_generation :: u32
  configuration :: "u64 option"
  queues :: "slot list"
  notified :: u64
  faults :: u64

type_synonym 'w sender = "'w \<Rightarrow> 'w \<times> (unit, io_error) result"

definition transport_new :: "('d, 'm) vdev \<Rightarrow> 'd \<Rightarrow> 'm \<Rightarrow> 'w \<Rightarrow> ('d, 'm, 'w) transport" where
  "transport_new v d m w =
     \<lparr>t_device = d, t_ram = m, t_line = w, status = 0, device_features_sel = 0, driver_features = 0,
      driver_features_sel = 0, queue_sel = 0, interrupt_status = 0, config_generation = 0,
      configuration = None, queues = replicate (unat (v_queue_count v d)) slot_default,
      notified = 0, faults = 0\<rparr>"

definition selected :: "('d, 'm, 'w) transport \<Rightarrow> slot option" where
  "selected t = (if unat (queue_sel t) < length (queues t) then Some (queues t ! unat (queue_sel t)) else None)"

definition set_selected :: "slot \<Rightarrow> ('d, 'm, 'w) transport \<Rightarrow> ('d, 'm, 'w) transport" where
  "set_selected s t = t\<lparr>queues := (queues t)[unat (queue_sel t) := s]\<rparr>"

definition offered :: "('d, 'm) vdev \<Rightarrow> ('d, 'm, 'w) transport \<Rightarrow> u64" where
  "offered v t = v_features v (t_device t) OR VERSION_1"

definition read_register :: "('d, 'm) vdev \<Rightarrow> u64 \<Rightarrow> ('d, 'm, 'w) transport \<Rightarrow> u32" where
  "read_register v off t =
     (case register_at off of
        MAGIC_VALUE \<Rightarrow> MAGIC
      | VERSION_AT \<Rightarrow> VERSION
      | DEVICE_ID \<Rightarrow> v_device_id v (t_device t)
      | VENDOR_ID \<Rightarrow> VENDOR
      | DEVICE_FEATURES \<Rightarrow> ucast (drop_bit (if device_features_sel t = 0 then 0 else 32) (offered v t))
      | QUEUE_NUM_MAX \<Rightarrow> ucast (v_queue_size_max v (t_device t))
      | QUEUE_READY \<Rightarrow> (case selected t of None \<Rightarrow> 0 | Some s \<Rightarrow> if sl_queue s \<noteq> None then 1 else 0)
      | INTERRUPT_STATUS \<Rightarrow> interrupt_status t
      | STATUS \<Rightarrow> status t
      | CONFIG_GENERATION \<Rightarrow> config_generation t
      | _ \<Rightarrow> 0)"

definition high :: "u64 \<Rightarrow> u64" where "high v = v AND 0xffffffff00000000"
definition low :: "u64 \<Rightarrow> u64" where "low v = v AND 0x00000000ffffffff"

definition reset :: "('d, 'm, 'w) transport \<Rightarrow> ('d, 'm, 'w) transport" where
  "reset t = t\<lparr>status := 0, driver_features := 0, device_features_sel := 0, driver_features_sel := 0,
     queue_sel := 0, interrupt_status := 0, queues := map (\<lambda>_. slot_default) (queues t)\<rparr>"

definition set_status :: "u32 \<Rightarrow> ('d, 'm, 'w) transport \<Rightarrow> ('d, 'm, 'w) transport" where
  "set_status v t =
     (if v = 0 then reset t
      else if v AND STATUS_FEATURES_OK \<noteq> 0 \<and> driver_features t AND VERSION_1 = 0
      then t\<lparr>faults := faults t + 1, status := v OR STATUS_FAILED\<rparr>
      else t\<lparr>status := v\<rparr>)"

definition write_queue_register :: "('d, 'm) vdev \<Rightarrow> u64 \<Rightarrow> u32 \<Rightarrow> ('d, 'm, 'w) transport \<Rightarrow> ('d, 'm, 'w) transport" where
  "write_queue_register v off x t =
     (case selected t of
        None \<Rightarrow> t
      | Some s \<Rightarrow>
          (case register_at off of
             QUEUE_NUM \<Rightarrow> set_selected (s\<lparr>sl_size := min (ucast x) (v_queue_size_max v (t_device t))\<rparr>) t
           | QUEUE_DESC_LOW \<Rightarrow> set_selected (s\<lparr>sl_desc := high (sl_desc s) OR ucast x\<rparr>) t
           | QUEUE_DESC_HIGH \<Rightarrow> set_selected (s\<lparr>sl_desc := low (sl_desc s) OR push_bit 32 (ucast x)\<rparr>) t
           | QUEUE_AVAIL_LOW \<Rightarrow> set_selected (s\<lparr>sl_avail := high (sl_avail s) OR ucast x\<rparr>) t
           | QUEUE_AVAIL_HIGH \<Rightarrow> set_selected (s\<lparr>sl_avail := low (sl_avail s) OR push_bit 32 (ucast x)\<rparr>) t
           | QUEUE_USED_LOW \<Rightarrow> set_selected (s\<lparr>sl_used := high (sl_used s) OR ucast x\<rparr>) t
           | QUEUE_USED_HIGH \<Rightarrow> set_selected (s\<lparr>sl_used := low (sl_used s) OR push_bit 32 (ucast x)\<rparr>) t
           | QUEUE_READY \<Rightarrow>
               (if x AND 1 = 0 then set_selected (s\<lparr>sl_queue := None\<rparr>) t
                else case queue_new (sl_size s) (sl_desc s) (sl_avail s) (sl_used s) of
                       Inr q \<Rightarrow> set_selected (s\<lparr>sl_queue := Some q\<rparr>) t
                     | Inl _ \<Rightarrow> t\<lparr>faults := faults t + 1, status := status t OR STATUS_NEEDS_RESET\<rparr>)
           | _ \<Rightarrow> t))"

definition notify ::
  "('d, 'm) vdev \<Rightarrow> 'w sender \<Rightarrow> u16 \<Rightarrow> ('d, 'm, 'w) transport \<Rightarrow> ('d, 'm, 'w) transport \<times> (unit, io_error) result" where
  "notify v send index t =
     (if unat index < length (queues t)
      then case sl_queue (queues t ! unat index) of
             None \<Rightarrow> (t, Ok ())
           | Some q \<Rightarrow>
               let answered = snd (cursors q) in
               (case v_notify v index (t_device t) (t_ram t) q of
                  (d, m, q', r) \<Rightarrow>
                    let t1 = t\<lparr>notified := notified t + 1, t_device := d, t_ram := m,
                               queues := (queues t)[unat index := (queues t ! unat index)\<lparr>sl_queue := Some q'\<rparr>]\<rparr> in
                    (case r of
                       Inl _ \<Rightarrow> (t1\<lparr>faults := faults t1 + 1, status := status t1 OR STATUS_NEEDS_RESET\<rparr>, Ok ())
                     | Inr _ \<Rightarrow>
                         if snd (cursors q') = answered then (t1, Ok ())
                         else (case send (t_line t1) of
                                 (w, res) \<Rightarrow>
                                   (t1\<lparr>interrupt_status := interrupt_status t1 OR INTERRUPT_VRING, t_line := w\<rparr>, res))))
      else (t, Ok ()))"

definition write_register ::
  "('d, 'm) vdev \<Rightarrow> 'w sender \<Rightarrow> u64 \<Rightarrow> u32 \<Rightarrow> ('d, 'm, 'w) transport \<Rightarrow> ('d, 'm, 'w) transport \<times> (unit, io_error) result" where
  "write_register v send off x t =
     (case register_at off of
        DEVICE_FEATURES_SEL \<Rightarrow> (t\<lparr>device_features_sel := x\<rparr>, Ok ())
      | DRIVER_FEATURES_SEL \<Rightarrow> (t\<lparr>driver_features_sel := x\<rparr>, Ok ())
      | DRIVER_FEATURES \<Rightarrow>
          (let half = (if driver_features_sel t = 0 then 0 else 32)
           in (t\<lparr>driver_features := (driver_features t AND NOT (push_bit half 0xffffffff)) OR push_bit half (ucast x)\<rparr>,
               Ok ()))
      | QUEUE_SEL \<Rightarrow> (t\<lparr>queue_sel := x\<rparr>, Ok ())
      | STATUS \<Rightarrow> (set_status x t, Ok ())
      | INTERRUPT_ACK \<Rightarrow> (t\<lparr>interrupt_status := interrupt_status t AND NOT x\<rparr>, Ok ())
      | QUEUE_NOTIFY_AT \<Rightarrow> notify v send (ucast x) t
      | _ \<Rightarrow> (write_queue_register v off x t, Ok ()))"

definition slot_state_of :: "slot \<Rightarrow> slot_state" where
  "slot_state_of s =
     (case (case sl_queue s of None \<Rightarrow> (0, 0) | Some q \<Rightarrow> cursors q) of
        (a, u) \<Rightarrow> \<lparr>ss_size = sl_size s, ss_desc = sl_desc s, ss_avail = sl_avail s, ss_used = sl_used s,
                   ss_ready = (sl_queue s \<noteq> None), ss_next_avail = a, ss_next_used = u\<rparr>)"

definition transport_state_of :: "('d, 'm) vdev \<Rightarrow> ('d, 'm, 'w) transport \<Rightarrow> transport_state" where
  "transport_state_of v t =
     \<lparr>ts_status = status t, ts_device_features_sel = device_features_sel t,
      ts_driver_features = driver_features t, ts_driver_features_sel = driver_features_sel t,
      ts_queue_sel = queue_sel t, ts_interrupt_status = interrupt_status t,
      ts_config_generation = config_generation t, ts_configuration = v_configuration v (t_device t),
      ts_queues = map slot_state_of (queues t)\<rparr>"

text \<open>The loop of \<^verbatim>\<open>take_up\<close> over the slots: a queue that can not be built ends it, with the
  slots before it taken up.\<close>

definition slot_taken :: "slot_state \<Rightarrow> slot \<times> (unit, device_error) result" where
  "slot_taken x =
     (let s = \<lparr>sl_size = ss_size x, sl_desc = ss_desc x, sl_avail = ss_avail x, sl_used = ss_used x, sl_queue = None\<rparr> in
      if \<not> ss_ready x then (s, Ok ())
      else case queue_new (ss_size x) (ss_desc x) (ss_avail x) (ss_used x) of
             Inl _ \<Rightarrow> (s, Err State)
           | Inr q \<Rightarrow> (s\<lparr>sl_queue := Some (set_cursors q (ss_next_avail x) (ss_next_used x))\<rparr>, Ok ()))"

fun take_slots :: "slot list \<Rightarrow> slot_state list \<Rightarrow> slot list \<times> (unit, device_error) result" where
  "take_slots (s # ss) (x # xs) =
     (case slot_taken x of
        (s', Inl e) \<Rightarrow> (s' # ss, Inl e)
      | (s', Inr _) \<Rightarrow> (case take_slots ss xs of (ss', r) \<Rightarrow> (s' # ss', r)))"
| "take_slots ss _ = (ss, Ok ())"

definition take_up :: "transport_state \<Rightarrow> ('d, 'm, 'w) transport \<Rightarrow> ('d, 'm, 'w) transport \<times> (unit, device_error) result" where
  "take_up st t =
     (if length (ts_queues st) \<noteq> length (queues t)
      then (t, Err (WrongQueues (length (ts_queues st)) (length (queues t))))
      else case take_slots (queues t) (ts_queues st) of
             (qs, r) \<Rightarrow>
               (t\<lparr>status := ts_status st, device_features_sel := ts_device_features_sel st,
                 driver_features := ts_driver_features st, driver_features_sel := ts_driver_features_sel st,
                 queue_sel := ts_queue_sel st, interrupt_status := ts_interrupt_status st,
                 config_generation := ts_config_generation st, configuration := ts_configuration st,
                 queues := qs\<rparr>, r))"

definition mmio_read :: "('d, 'm) vdev \<Rightarrow> u64 \<Rightarrow> u8 \<Rightarrow> ('d, 'm, 'w) transport \<Rightarrow> ('d, 'm, 'w) transport \<times> u64" where
  "mmio_read v off sz t =
     (case checked_sub off CONFIG of
        Some c \<Rightarrow> (case v_read_config v c sz (t_device t) of (d, x) \<Rightarrow> (t\<lparr>t_device := d\<rparr>, x))
      | None \<Rightarrow> (t, ucast (read_register v off t)))"

definition mmio_write ::
  "('d, 'm) vdev \<Rightarrow> 'w sender \<Rightarrow> u64 \<Rightarrow> u8 \<Rightarrow> u64 \<Rightarrow> ('d, 'm, 'w) transport \<Rightarrow>
   ('d, 'm, 'w) transport \<times> (vm_exit option, io_error) result" where
  "mmio_write v send off sz x t =
     (case checked_sub off CONFIG of
        Some c \<Rightarrow> (t\<lparr>t_device := v_write_config v c sz x (t_device t)\<rparr>, Ok None)
      | None \<Rightarrow>
          if off = QUEUE_NOTIFY \<and> sz \<noteq> 4 then (t\<lparr>faults := faults t + 1\<rparr>, Ok None)
          else case write_register v send off (ucast x) t of (t', r) \<Rightarrow> (t', and_then r (\<lambda>_. Ok None)))"

definition mmio_capture ::
  "transport_state serde \<Rightarrow> ('d, 'm) vdev \<Rightarrow> ('d, 'm, 'w) transport \<Rightarrow> (blob option, device_error) result" where
  "mmio_capture sd v t = captured_blob MMIO_KIND MMIO_VERSION sd (transport_state_of v t)"

definition mmio_restore ::
  "transport_state serde \<Rightarrow> blob \<Rightarrow> ('d, 'm, 'w) transport \<Rightarrow> ('d, 'm, 'w) transport \<times> (unit, device_error) result" where
  "mmio_restore sd b t =
     (case decoded_blob MMIO_KIND MMIO_VERSION sd b of Inl e \<Rightarrow> (t, Inl e) | Inr st \<Rightarrow> take_up st t)"

text \<open>\<^verbatim>\<open>restored\<close>: the configuration is compared, then every built queue is served; the line
  is raised once for all of it, and a failed raise is only logged.\<close>

definition restored_config :: "('d, 'm) vdev \<Rightarrow> ('d, 'm, 'w) transport \<Rightarrow> ('d, 'm, 'w) transport \<times> bool" where
  "restored_config v t =
     (if configuration t \<noteq> None \<and> configuration t \<noteq> v_configuration v (t_device t)
      then (t\<lparr>config_generation := config_generation t + 1,
              interrupt_status := interrupt_status t OR INTERRUPT_CONFIG\<rparr>, True)
      else (t, False))"

definition restored_queue ::
  "('d, 'm) vdev \<Rightarrow> ('d, 'm, 'w) transport \<times> bool \<Rightarrow> nat \<Rightarrow> ('d, 'm, 'w) transport \<times> bool" where
  "restored_queue v tr i =
     (case tr of (t, raised) \<Rightarrow>
       (case sl_queue (queues t ! i) of
          None \<Rightarrow> (t, raised)
        | Some q \<Rightarrow>
            (case v_restored v (of_nat i) (t_device t) (t_ram t) q of
               (d, m, q', r) \<Rightarrow>
                 let t1 = t\<lparr>notified := notified t + 1, t_device := d, t_ram := m,
                            queues := (queues t)[i := (queues t ! i)\<lparr>sl_queue := Some q'\<rparr>]\<rparr> in
                 (case r of
                    Inl _ \<Rightarrow> (t1\<lparr>faults := faults t1 + 1, status := status t1 OR STATUS_NEEDS_RESET\<rparr>, raised)
                  | Inr _ \<Rightarrow>
                      if snd (cursors q') \<noteq> snd (cursors q)
                      then (t1\<lparr>interrupt_status := interrupt_status t1 OR INTERRUPT_VRING\<rparr>, True)
                      else (t1, raised)))))"

definition mmio_restored :: "('d, 'm) vdev \<Rightarrow> 'w sender \<Rightarrow> ('d, 'm, 'w) transport \<Rightarrow> ('d, 'm, 'w) transport" where
  "mmio_restored v send t =
     (case foldl (restored_queue v) (restored_config v t) [0..<length (queues t)] of
        (t', raised) \<Rightarrow> if raised then t'\<lparr>t_line := fst (send (t_line t'))\<rparr> else t')"

definition transport_wake_after :: "('d \<Rightarrow> 'x option) \<Rightarrow> ('d, 'm, 'w) transport \<Rightarrow> 'x option" where
  "transport_wake_after wake t =
     (if list_all (\<lambda>s. sl_queue s = None) (queues t) then None else wake (t_device t))"

section \<open>The invariant of the queues\<close>

text \<open>A queue a driver has built has a supported size, at most the largest the device
  accepts.\<close>

definition slot_ok :: "u16 \<Rightarrow> slot \<Rightarrow> bool" where
  "slot_ok mx s \<longleftrightarrow> sl_size s \<le> mx \<and> (\<forall>q. sl_queue s = Some q \<longrightarrow> queue_wf q \<and> q_size q \<le> mx)"

definition transport_ok :: "u16 \<Rightarrow> ('d, 'm, 'w) transport \<Rightarrow> bool" where
  "transport_ok mx t \<longleftrightarrow> list_all (slot_ok mx) (queues t)"

locale virtio_device =
  fixes v :: "('d, 'm) vdev" and mx :: u16
  assumes size_max: "v_queue_size_max v d = mx"
    and notify_rings: "v_notify v i d m q = (d', m', q', r) \<Longrightarrow> same_rings q q'"
    and restored_rings: "v_restored v i d m q = (d', m', q', r) \<Longrightarrow> same_rings q q'"
begin

lemma slot_default_ok [simp]: "slot_ok mx slot_default"
  by (simp add: slot_ok_def slot_default_def)

lemma new_ok [wf_intros]: "transport_ok mx (transport_new v d m w)"
  by (simp add: transport_ok_def transport_new_def list_all_iff)

lemma set_status_ok [wf_intros]: "transport_ok mx t \<Longrightarrow> transport_ok mx (set_status x t)"
  by (simp add: set_status_def reset_def transport_ok_def list_all_iff)

lemma selected_ok: "transport_ok mx t \<Longrightarrow> selected t = Some s \<Longrightarrow> slot_ok mx s"
  by (auto simp: selected_def transport_ok_def list_all_length split: if_splits)

lemma set_selected_ok: "transport_ok mx t \<Longrightarrow> slot_ok mx s \<Longrightarrow> transport_ok mx (set_selected s t)"
  by (auto simp: set_selected_def transport_ok_def list_all_iff dest!: set_update_subset_insert [THEN subsetD])

lemma queue_new_slot_ok:
  "slot_ok mx s \<Longrightarrow> queue_new (sl_size s) a b c = Inr q \<Longrightarrow> slot_ok mx (s\<lparr>sl_queue := Some q\<rparr>)"
  using queue_new_wf [of "sl_size s" a b c q] by (auto simp: slot_ok_def queue_new_def split: if_splits)

lemma write_queue_register_ok [wf_intros]:
  assumes "transport_ok mx t"
  shows "transport_ok mx (write_queue_register v off x t)"
proof (cases "selected t")
  case None
  then show ?thesis using assms by (simp add: write_queue_register_def)
next
  case (Some s)
  have ok: "slot_ok mx s" by (rule selected_ok [OF assms Some])
  then have "slot_ok mx (s\<lparr>sl_size := min y mx\<rparr>)" "slot_ok mx (s\<lparr>sl_desc := a\<rparr>)" "slot_ok mx (s\<lparr>sl_avail := a\<rparr>)"
    "slot_ok mx (s\<lparr>sl_used := a\<rparr>)" "slot_ok mx (s\<lparr>sl_queue := None\<rparr>)" for y a
    by (auto simp: slot_ok_def)
  with assms Some ok show ?thesis
    by (auto simp: write_queue_register_def size_max intro!: set_selected_ok queue_new_slot_ok
        split: register.splits sum.splits) (simp_all add: transport_ok_def)
qed

lemma served_slot_ok: "slot_ok mx s \<Longrightarrow> sl_queue s = Some q \<Longrightarrow> same_rings q q' \<Longrightarrow> slot_ok mx (s\<lparr>sl_queue := Some q'\<rparr>)"
  by (auto simp: slot_ok_def intro: same_rings_wf) (simp add: same_rings_def)

lemma served_ok:
  assumes "list_all (slot_ok mx) qs" "i < length qs" "sl_queue (qs ! i) = Some q" "same_rings q q'"
  shows "list_all (slot_ok mx) (qs[i := (qs ! i)\<lparr>sl_queue := Some q'\<rparr>])"
  using assms served_slot_ok [of "qs ! i" q q'] by (auto simp: list_all_length nth_list_update)

lemma notify_ok [wf_intros]:
  assumes "transport_ok mx t"
  shows "transport_ok mx (fst (notify v send i t))"
proof (cases "unat i < length (queues t) \<and> sl_queue (queues t ! unat i) \<noteq> None")
  case False
  then show ?thesis using assms by (auto simp: notify_def)
next
  case True
  then obtain q where q: "unat i < length (queues t)" "sl_queue (queues t ! unat i) = Some q" by auto
  obtain d m q' r where n: "v_notify v i (t_device t) (t_ram t) q = (d, m, q', r)" by (metis prod_cases4)
  have "list_all (slot_ok mx) ((queues t)[unat i := (queues t ! unat i)\<lparr>sl_queue := Some q'\<rparr>])"
    using assms q notify_rings [OF n] by (intro served_ok) (simp_all add: transport_ok_def)
  with q n show ?thesis
    by (auto simp: notify_def Let_def transport_ok_def split: sum.splits prod.splits)
qed

lemma write_register_ok [wf_intros]: "transport_ok mx t \<Longrightarrow> transport_ok mx (fst (write_register v send off x t))"
proof -
  assume ok: "transport_ok mx t"
  note set_status_ok [OF ok] write_queue_register_ok [OF ok] notify_ok [OF ok]
  with ok show ?thesis
    by (auto simp: write_register_def Let_def split: register.splits) (simp_all add: transport_ok_def)
qed

lemma mmio_write_ok [wf_intros]: "transport_ok mx t \<Longrightarrow> transport_ok mx (fst (mmio_write v send off sz x t))"
  using write_register_ok [of t send off "ucast x"]
  by (auto simp: mmio_write_def transport_ok_def split: option.splits prod.splits)

lemma mmio_read_ok [wf_intros]: "transport_ok mx t \<Longrightarrow> transport_ok mx (fst (mmio_read v off sz t))"
  by (auto simp: mmio_read_def transport_ok_def split: option.splits prod.splits)

end

end
