(* ===== verification/Queue_Loop.thy ===== *)
theory Queue_Loop
  imports Virtqueue
begin

text \<open>
  The loop every virtio device runs when its queue is notified,
  \<^verbatim>\<open>while let Some(chain) = queue.pop(ram)? { ... }\<close>, and the contract between a
  queue and the device that serves its chains.

  A device contributes the body of the loop: its state, guest memory, the queue and a
  chain go in, and come out with \<open>Inr True\<close> to take the next chain, \<open>Inr False\<close> to
  return without an error, or an error.  The loop may run as long as the driver adds
  chains, so it carries fuel; \<open>None\<close> is a loop which has not ended.

  The locale \<open>chain_server\<close> states what a body promises: it writes only the writable
  buffers of its chain and the used ring, keeps the rings where they are, and either
  reports its chain or puts it back.  Its lemmas hold of every device which keeps the
  promise: the loop ends within the number of pending chains, and the used ring advances
  by as many chains as were taken.
\<close>

section \<open>Definitions\<close>

type_synonym ('m, 'd) body =
  "'d \<Rightarrow> 'm \<Rightarrow> queue \<Rightarrow> chain \<Rightarrow> 'd \<times> 'm \<times> queue \<times> (bool, virtio_error) result"

primrec pop_loop ::
  "nat \<Rightarrow> 'm vm \<Rightarrow> ('m, 'd) body \<Rightarrow> 'd \<Rightarrow> 'm \<Rightarrow> queue \<Rightarrow>
   ('d \<times> 'm \<times> queue \<times> (unit, virtio_error) result) option" where
  "pop_loop 0 vm body d m q = None"
| "pop_loop (Suc fuel) vm body d m q =
     (case pop vm m q of
        (q1, Inl e) \<Rightarrow> Some (d, m, q1, Inl e)
      | (q1, Inr None) \<Rightarrow> Some (d, m, q1, Inr ())
      | (q1, Inr (Some c)) \<Rightarrow>
          (case body d m q1 c of
             (d', m', q', Inl e) \<Rightarrow> Some (d', m', q', Inl e)
           | (d', m', q', Inr go) \<Rightarrow>
               (if go then pop_loop fuel vm body d' m' q' else Some (d', m', q', Inr ()))))"

text \<open>The loop of a device whose body may not return.\<close>

primrec opt_loop :: "nat \<Rightarrow> 'm vm \<Rightarrow> ('d \<Rightarrow> 'm \<Rightarrow> queue \<Rightarrow> chain \<Rightarrow> ('d \<times> 'm \<times> queue \<times> (bool, virtio_error) result) option) \<Rightarrow>
    'd \<Rightarrow> 'm \<Rightarrow> queue \<Rightarrow> ('d \<times> 'm \<times> queue \<times> (unit, virtio_error) result) option" where
  "opt_loop 0 vm body d m q = None"
| "opt_loop (Suc fuel) vm body d m q =
     (case pop vm m q of
        (q1, Inl e) \<Rightarrow> Some (d, m, q1, Inl e)
      | (q1, Inr None) \<Rightarrow> Some (d, m, q1, Ok ())
      | (q1, Inr (Some c)) \<Rightarrow>
          (case body d m q1 c of
             None \<Rightarrow> None
           | Some (d', m', q', Inl e) \<Rightarrow> Some (d', m', q', Inl e)
           | Some (d', m', q', Inr go) \<Rightarrow> (if go then opt_loop fuel vm body d' m' q' else Some (d', m', q', Ok ()))))"

text \<open>The loop which pops only while the device has something to write:
  \<^verbatim>\<open>while !waiting.is_empty() { let Some(chain) = queue.pop(ram)? else { break }; ... }\<close>.\<close>

primrec while_loop :: "nat \<Rightarrow> ('d \<Rightarrow> bool) \<Rightarrow> 'm vm \<Rightarrow> ('m, 'd) body \<Rightarrow> 'd \<Rightarrow> 'm \<Rightarrow> queue \<Rightarrow>
    ('d \<times> 'm \<times> queue \<times> (unit, virtio_error) result) option" where
  "while_loop 0 todo vm body d m q = None"
| "while_loop (Suc fuel) todo vm body d m q =
     (if \<not> todo d then Some (d, m, q, Ok ())
      else case pop vm m q of
        (q1, Inl e) \<Rightarrow> Some (d, m, q1, Inl e)
      | (q1, Inr None) \<Rightarrow> Some (d, m, q1, Ok ())
      | (q1, Inr (Some c)) \<Rightarrow>
          (case body d m q1 c of
             (d', m', q', Inl e) \<Rightarrow> Some (d', m', q', Inl e)
           | (d', m', q', Inr _) \<Rightarrow> while_loop fuel todo vm body d' m' q'))"

lemma opt_loop_pop_loop:
  assumes "\<And>d m q c. body d m q c \<noteq> None"
  shows "opt_loop fuel vm body d m q = pop_loop fuel vm (\<lambda>d m q c. the (body d m q c)) d m q"
proof (induction fuel arbitrary: d m q)
  case (Suc fuel)
  obtain q1 r where p: "pop vm m q = (q1, r)" by fastforce
  show ?case
  proof (cases "\<exists>c. r = Inr (Some c)")
    case True
    then obtain c where c: "r = Inr (Some c)" by blast
    obtain d' m' q' r' where "body d m q1 c = Some (d', m', q', r')" using assms [of d m q1 c] by auto
    with p c Suc.IH show ?thesis by (cases r') simp_all
  qed (use p in \<open>auto split: sum.splits option.splits\<close>)
qed simp

section \<open>A layout the device does not disturb\<close>

text \<open>What a driver sets up: backed rings which do not overlap, and writable buffers
  clear of the available ring and the descriptor table.\<close>

definition table_bytes :: "queue \<Rightarrow> nat" where
  "table_bytes q = 16 * unat (q_size q)"

definition buffers_clear :: "descriptor list \<Rightarrow> u64 \<Rightarrow> nat \<Rightarrow> bool" where
  "buffers_clear ds b k \<longleftrightarrow> list_all (\<lambda>d. writable d \<longrightarrow> apart (addr d) (unat (len d)) b k) ds"

definition layout_ok :: "'m vm \<Rightarrow> 'm \<Rightarrow> queue \<Rightarrow> bool" where
  "layout_ok vm m q \<longleftrightarrow>
     queue_wf q \<and> used_backed vm m q \<and> avail_backed vm m q \<and>
     unat (desc_table q) + table_bytes q < 2 ^ 64 \<and>
     apart (used_ring q) (used_bytes q) (avail_ring q) (avail_bytes q) \<and>
     apart (used_ring q) (used_bytes q) (desc_table q) (table_bytes q) \<and>
     (\<forall>i d. i < q_size q \<longrightarrow> fetch vm m q i = Inr d \<longrightarrow>
        buffers_clear [d] (avail_ring q) (avail_bytes q) \<and>
        buffers_clear [d] (desc_table q) (table_bytes q))"

lemma apart_inside:
  "apart a n b k \<Longrightarrow> unat b \<le> unat c \<Longrightarrow> unat c + j \<le> unat b + k \<Longrightarrow> apart a n c j"
  by (auto simp: apart_def)

lemma buffers_clear_inside:
  "buffers_clear ds b k \<Longrightarrow> unat b \<le> unat c \<Longrightarrow> unat c + j \<le> unat b + k \<Longrightarrow> buffers_clear ds c j"
  unfolding buffers_clear_def by (auto simp: list_all_iff dest: apart_inside)

lemma layout_ok_cursor:
  "same_rings q q' \<Longrightarrow> layout_ok vm m q \<Longrightarrow> layout_ok vm m q'"
  by (auto simp: layout_ok_def same_rings_def queue_wf_def used_backed_def avail_backed_def
      table_bytes_def used_bytes_def avail_bytes_def fetch_def)

text \<open>Two memories in which the available ring and the descriptor table read the same
  hold the same pending heads and the same chains.\<close>

definition same_view :: "'m vm \<Rightarrow> 'm \<Rightarrow> 'm \<Rightarrow> queue \<Rightarrow> bool" where
  "same_view vm m m' q \<longleftrightarrow> (\<forall>b k. vm_check_range vm m' b k = vm_check_range vm m b k) \<and>
     (\<forall>b k. unat (avail_ring q) \<le> unat b \<longrightarrow> unat b + k \<le> unat (avail_ring q) + avail_bytes q \<longrightarrow>
        ram_read vm m' b k = ram_read vm m b k) \<and>
     (\<forall>b k. unat (desc_table q) \<le> unat b \<longrightarrow> unat b + k \<le> unat (desc_table q) + table_bytes q \<longrightarrow>
        ram_read vm m' b k = ram_read vm m b k)"

lemma same_view_fetch:
  assumes "same_view vm m m' q" "unat (desc_table q) + table_bytes q < 2 ^ 64" "i < q_size q"
  shows "fetch vm m' q i = fetch vm m q i"
proof -
  have lt: "unat i < unat (q_size q)" using assms(3) by (simp add: word_less_nat_alt)
  have delta: "ucast i * DESCRIPTOR_SIZE = of_nat (16 * unat i)"
    by (simp add: DESCRIPTOR_SIZE_def mult.commute)
  have off: "offset (desc_table q) (ucast i * DESCRIPTOR_SIZE) = Inr (desc_table q + of_nat (16 * unat i))"
    unfolding delta using assms(2) lt by (intro offset_of_nat) (simp add: table_bytes_def)
  have "unat (desc_table q + of_nat (16 * unat i)) = unat (desc_table q) + 16 * unat i"
    using assms(2) lt by (intro unat_add_of_nat) (simp add: table_bytes_def)
  with lt assms(1)
  have "ram_read vm m' (desc_table q + of_nat (16 * unat i)) 16 = ram_read vm m (desc_table q + of_nat (16 * unat i)) 16"
    by (simp add: same_view_def table_bytes_def)
  moreover have "ram_holds vm m' = ram_holds vm m"
    using assms(1) by (intro ext) (simp add: ram_holds_def same_view_def)
  ultimately show ?thesis
    by (simp only: fetch_def off and_then_Inr)
qed

lemma same_view_avail_index:
  assumes "same_view vm m m' q" "unat (avail_ring q) + avail_bytes q < 2 ^ 64"
  shows "avail_index vm m' q = avail_index vm m q"
proof -
  have "unat (avail_ring q + 2) = unat (avail_ring q) + 2"
    using unat_add_of_nat [of "avail_ring q" 2] assms(2) by (simp add: avail_bytes_def)
  with assms(1) have "ram_read vm m' (avail_ring q + 2) 2 = ram_read vm m (avail_ring q + 2) 2"
    by (simp add: same_view_def avail_bytes_def)
  moreover have "offset (avail_ring q) 2 = Inr (avail_ring q + 2)"
    using offset_of_nat [of "avail_ring q" 2] assms(2) by (simp add: avail_bytes_def)
  ultimately show ?thesis by (simp add: avail_index_def read_u16_def)
qed

lemma same_view_layout:
  assumes "same_view vm m m' q" "layout_ok vm m q"
  shows "layout_ok vm m' q"
  using assms same_view_fetch [OF assms(1)]
  by (auto simp: layout_ok_def used_backed_def avail_backed_def same_view_def)

section \<open>The contract of a device\<close>

locale chain_server = vm_memory vm for vm :: "'m vm" +
  fixes body :: "('m, 'd) body"
  assumes body_range:
      "body d m q c = (d', m', q', r) \<Longrightarrow> vm_check_range vm m' b k = vm_check_range vm m b k"
    and body_frame:
      "body d m q c = (d', m', q', r) \<Longrightarrow> queue_wf q \<Longrightarrow>
       unat (used_ring q) + used_bytes q < 2 ^ 64 \<Longrightarrow>
       list_all (\<lambda>x. ram_holds vm m (addr x) (ucast (len x))) (descriptors c) \<Longrightarrow>
       buffers_clear (descriptors c) b k \<Longrightarrow> apart (used_ring q) (used_bytes q) b k \<Longrightarrow>
       ram_read vm m' b k = ram_read vm m b k"
    and body_rings: "body d m q c = (d', m', q', r) \<Longrightarrow> same_rings q q'"
    and body_served:
      "body d m q c = (d', m', q', Inr True) \<Longrightarrow> cursors q' = (next_avail q, next_used q + 1)"
    and body_put_back:
      "body d m q c = (d', m', q', Inr False) \<Longrightarrow> cursors q' = (next_avail q - 1, next_used q)"
begin

lemma popped_held:
  assumes "pop vm m q = (q1, Inr (Some c))"
  shows "list_all (\<lambda>x. ram_holds vm m (addr x) (ucast (len x))) (descriptors c)"
    and "x \<in> set (descriptors c) \<Longrightarrow> \<exists>i < q_size q. fetch vm m q i = Inr x"
  using pop_Some(3) [OF assms] by (auto simp: walk_iff list_all_iff dest: linked_fetched fetch_checked)

lemma body_same_view:
  assumes "layout_ok vm m q" "pop vm m q = (q1, Inr (Some c))" "body d m q1 c = (d', m', q', r)"
  shows "same_view vm m m' q"
proof -
  have q1: "q1 = q\<lparr>next_avail := next_avail q + 1\<rparr>" by (rule pop_Some(1) [OF assms(2)])
  have fits: "queue_wf q1" "unat (used_ring q1) + used_bytes q1 < 2 ^ 64"
    using assms(1) by (simp_all add: q1 layout_ok_def queue_wf_def used_backed_def used_bytes_def)
  have each: "buffers_clear [x] (avail_ring q) (avail_bytes q) \<and> buffers_clear [x] (desc_table q) (table_bytes q)"
    if "x \<in> set (descriptors c)" for x
    using assms(1) popped_held(2) [OF assms(2) that] unfolding layout_ok_def by blast
  then have clear: "buffers_clear (descriptors c) (avail_ring q) (avail_bytes q)"
    "buffers_clear (descriptors c) (desc_table q) (table_bytes q)"
    by (auto simp: buffers_clear_def list_all_iff)
  have used: "apart (used_ring q1) (used_bytes q1) (avail_ring q) (avail_bytes q)"
    "apart (used_ring q1) (used_bytes q1) (desc_table q) (table_bytes q)"
    using assms(1) by (simp_all add: q1 layout_ok_def used_bytes_def)
  note frame = body_frame [OF assms(3) fits popped_held(1) [OF assms(2)]]
  show ?thesis
    unfolding same_view_def
  proof (intro conjI allI impI)
    show "vm_check_range vm m' b k = vm_check_range vm m b k" for b k by (rule body_range [OF assms(3)])
    show "ram_read vm m' b k = ram_read vm m b k"
      if "unat (avail_ring q) \<le> unat b" "unat b + k \<le> unat (avail_ring q) + avail_bytes q" for b k
      using buffers_clear_inside [OF clear(1) that] apart_inside [OF used(1) that] by (rule frame)
    show "ram_read vm m' b k = ram_read vm m b k"
      if "unat (desc_table q) \<le> unat b" "unat b + k \<le> unat (desc_table q) + table_bytes q" for b k
      using buffers_clear_inside [OF clear(2) that] apart_inside [OF used(2) that] by (rule frame)
  qed
qed

lemma step_layout:
  assumes "layout_ok vm m q" "pop vm m q = (q1, Inr (Some c))" "body d m q1 c = (d', m', q', r)"
  shows "layout_ok vm m' q'" "avail_index vm m' q' = avail_index vm m q" "same_rings q q'"
proof -
  have view: "same_view vm m m' q" by (rule body_same_view [OF assms])
  show rings: "same_rings q q'"
    using pop_same_rings [of q vm m] assms(2) by (auto intro: same_rings_trans [OF _ body_rings [OF assms(3)]])
  then show "layout_ok vm m' q'"
    by (rule layout_ok_cursor [OF _ same_view_layout [OF view assms(1)]])
  have "unat (avail_ring q) + avail_bytes q < 2 ^ 64"
    using assms(1) by (simp add: layout_ok_def avail_backed_def)
  with rings same_view_avail_index [OF view]
  show "avail_index vm m' q' = avail_index vm m q"
    by (simp add: avail_index_def same_rings_def)
qed

text \<open>Enough fuel is one more than the pending chains: the loop ends whatever the device
  does with each of them.\<close>

lemma loop_ends:
  "layout_ok vm m q \<Longrightarrow> pending_count vm m q < fuel \<Longrightarrow> pop_loop fuel vm body d m q \<noteq> None"
proof (induction fuel arbitrary: d m q)
  case 0
  then show ?case by simp
next
  case (Suc fuel)
  obtain q1 r where p: "pop vm m q = (q1, r)" by (cases "pop vm m q")
  show ?case
  proof (cases "\<exists>c. r = Inr (Some c)")
    case False
    with p show ?thesis by (auto split: sum.splits option.splits)
  next
    case True
    then obtain c where c: "r = Inr (Some c)" by blast
    obtain d' m' q' r' where b: "body d m q1 c = (d', m', q', r')" by (metis prod_cases4)
    show ?thesis
    proof (cases "r' = Inr True")
      case False
      with p c b show ?thesis by (auto split: sum.splits)
    next
      case go: True
      have p': "pop vm m q = (q1, Inr (Some c))" using p c by simp
      note next_ok = step_layout [OF Suc.prems(1) p' b]
      obtain pub where pub: "avail_index vm m q = Inr pub" "pub \<noteq> next_avail q"
        using p' by (auto simp: pop_def split: result_splits)
      have "next_avail q' = next_avail q + 1"
        using body_served [of d m q1 c d' m' q'] b go pop_Some(1) [OF p'] by (simp add: cursors_def)
      then have "pending_count vm m' q' = pending_count vm m (q\<lparr>next_avail := next_avail q + 1\<rparr>)"
        using next_ok(2) pub(1) by (simp add: pending_count_def)
      then have "pending_count vm m' q' < fuel"
        using pending_count_step [OF pub] Suc.prems(2) by simp
      with Suc.IH [OF next_ok(1)] p' b go show ?thesis by simp
    qed
  qed
qed

lemma while_loop_ends:
  assumes "\<And>d m q c. todo d \<Longrightarrow> snd (snd (snd (body d m q c))) \<noteq> Inr False"
  shows "layout_ok vm m q \<Longrightarrow> pending_count vm m q < fuel \<Longrightarrow> while_loop fuel todo vm body d m q \<noteq> None"
proof (induction fuel arbitrary: d m q)
  case (Suc fuel)
  obtain q1 r where p: "pop vm m q = (q1, r)" by fastforce
  show ?case
  proof (cases "todo d \<and> (\<exists>c. r = Inr (Some c))")
    case True
    then obtain c where c: "r = Inr (Some c)" by blast
    have p': "pop vm m q = (q1, Inr (Some c))" using p c by simp
    obtain d' m' q' r' where b: "body d m q1 c = (d', m', q', r')" by (metis prod_cases4)
    note next_ok = step_layout [OF Suc.prems(1) p' b]
    have "while_loop fuel todo vm body d' m' q' \<noteq> None" if "r' = Inr True"
    proof -
      obtain pub where pub: "avail_index vm m q = Inr pub" "pub \<noteq> next_avail q"
        using p' by (auto simp: pop_def split: result_splits)
      have "next_avail q' = next_avail q + 1"
        using body_served [of d m q1 c d' m' q'] b that pop_Some(1) [OF p'] by (simp add: cursors_def)
      then have "pending_count vm m' q' = pending_count vm m (q\<lparr>next_avail := next_avail q + 1\<rparr>)"
        using next_ok(2) pub(1) by (simp add: pending_count_def)
      then show ?thesis
        using pending_count_step [OF pub] Suc.prems(2) by (intro Suc.IH [OF next_ok(1)]) simp
    qed
    moreover have "r' \<noteq> Inr False" using assms [of d m q1 c] True b by simp
    ultimately show ?thesis using True p' b by (auto split: sum.splits)
  qed (use p in \<open>auto split: sum.splits option.splits\<close>)
qed simp

text \<open>A loop which returns without an error has reported every chain it has taken.\<close>

lemma loop_accounts:
  "pop_loop fuel vm body d m q = Some (d', m', q', Inr ()) \<Longrightarrow>
   same_rings q q' \<and> next_used q' - next_used q = next_avail q' - next_avail q"
proof (induction fuel arbitrary: d m q)
  case 0
  then show ?case by simp
next
  case (Suc fuel)
  obtain q1 r where p: "pop vm m q = (q1, r)" by (cases "pop vm m q")
  with Suc.prems consider "r = Inr None" | c where "r = Inr (Some c)"
    by (cases r; cases "projr r") auto
  then show ?case
  proof cases
    case 1
    with p Suc.prems pop_None [of vm m q q1] show ?thesis by simp
  next
    case (2 c)
    have q1: "q1 = q\<lparr>next_avail := next_avail q + 1\<rparr>" using p 2 by (simp add: pop_Some(1))
    then have rings1: "same_rings q q1" by (simp add: same_rings_def)
    obtain da ma qa ra where b: "body d m q1 c = (da, ma, qa, ra)" by (metis prod_cases4)
    note rings = same_rings_trans [OF rings1 body_rings [OF b]]
    from Suc.prems p 2 b consider
        "ra = Inr True" "pop_loop fuel vm body da ma qa = Some (d', m', q', Inr ())"
      | "ra = Inr False" "qa = q'"
      by (auto split: sum.splits if_splits)
    then show ?thesis
    proof cases
      case 1
      have eqs: "next_avail qa = next_avail q + 1" "next_used qa = next_used q + 1"
        using body_served [of d m q1 c da ma qa] b 1(1) q1 by (simp_all add: cursors_def)
      have "next_used q' - (next_used q + 1) = next_avail q' - (next_avail q + 1)"
        using Suc.IH [OF 1(2)] unfolding eqs by simp
      then have "next_used q' - next_used q = next_avail q' - next_avail q"
        by (simp add: diff_diff_eq [symmetric])
      with Suc.IH [OF 1(2)] rings show ?thesis using same_rings_trans by blast
    next
      case 2
      with body_put_back [of d m q1 c da ma qa] b q1 rings show ?thesis by (simp add: cursors_def)
    qed
  qed
qed

text \<open>Whatever the result, the rings are where they were.\<close>

lemma loop_rings: "pop_loop fuel vm body d m q = Some (d', m', q', r) \<Longrightarrow> same_rings q q'"
proof (induction fuel arbitrary: d m q)
  case (Suc fuel)
  obtain q1 x where p: "pop vm m q = (q1, x)" by fastforce
  then have rings1: "same_rings q q1" using pop_same_rings [of q vm m] by simp
  show ?case
  proof (cases "\<exists>c. x = Inr (Some c)")
    case False
    with Suc.prems p rings1 show ?thesis by (auto split: sum.splits option.splits)
  next
    case True
    then obtain c where c: "x = Inr (Some c)" by blast
    obtain da ma qa ra where b: "body d m q1 c = (da, ma, qa, ra)" by (metis prod_cases4)
    note rings = same_rings_trans [OF rings1 body_rings [OF b]]
    from Suc.prems p c b consider "pop_loop fuel vm body da ma qa = Some (d', m', q', r)" | "qa = q'"
      by (auto split: sum.splits if_splits)
    then show ?thesis using Suc.IH same_rings_trans [OF rings] rings by cases auto
  qed
qed simp

text \<open>If no chain is put back, an error-free loop has drained the ring.\<close>

lemma loop_drains:
  assumes "\<And>d m q c. snd (snd (snd (body d m q c))) \<noteq> Inr False"
  shows "layout_ok vm m q \<Longrightarrow> pop_loop fuel vm body d m q = Some (d', m', q', Inr ()) \<Longrightarrow>
    avail_index vm m q = Inr (next_avail q') \<and> pending vm m' q' = []"
proof (induction fuel arbitrary: d m q)
  case 0
  then show ?case by simp
next
  case (Suc fuel)
  obtain q1 r where p: "pop vm m q = (q1, r)" by (cases "pop vm m q")
  with Suc.prems consider "r = Inr None" | c where "r = Inr (Some c)"
    by (cases r; cases "projr r") auto
  then show ?case
  proof cases
    case 1
    with p Suc.prems pop_None [of vm m q q1] show ?thesis
      by (simp add: pending_def pending_count_def)
  next
    case (2 c)
    obtain da ma qa ra where b: "body d m q1 c = (da, ma, qa, ra)" by (metis prod_cases4)
    with assms [of d m q1 c] have "ra \<noteq> Inr False" by simp
    with Suc.prems(2) p 2 b have rec: "pop_loop fuel vm body da ma qa = Some (d', m', q', Inr ())"
      by (auto split: sum.splits if_splits)
    have p': "pop vm m q = (q1, Inr (Some c))" using p 2 by simp
    note next_ok = step_layout [OF Suc.prems(1) p' b]
    from Suc.IH [OF next_ok(1) rec] next_ok(2) show ?thesis by simp
  qed
qed

end

text \<open>Most bodies work on the buffers of their chain and then report it, fail before, or put it
  back.\<close>

definition touches :: "'m vm \<Rightarrow> 'm \<Rightarrow> 'm \<Rightarrow> chain \<Rightarrow> bool" where
  "touches vm m m1 c \<longleftrightarrow> (\<forall>b k. vm_check_range vm m1 b k = vm_check_range vm m b k) \<and>
     (\<forall>b k. buffers_clear (descriptors c) b k \<longrightarrow> ram_read vm m1 b k = ram_read vm m b k)"

lemma touches_refl [simp]: "touches vm m m c"
  by (simp add: touches_def)

definition body_shape :: "'m vm \<Rightarrow> 'm \<Rightarrow> queue \<Rightarrow> chain \<Rightarrow> 'm \<Rightarrow> queue \<Rightarrow> (bool, virtio_error) result \<Rightarrow> bool" where
  "body_shape vm m q c m' q' r \<longleftrightarrow>
     (m' = m \<and> q' = q \<and> (\<exists>e. r = Inl e)) \<or> (m' = m \<and> q' = undo_pop q \<and> r = Inr False) \<or>
     (\<exists>m1 n r'. touches vm m m1 c \<and> add_used vm m1 q (head c) n = (m', q', r') \<and> r = map_sum id (\<lambda>_. True) r')"

lemma reported_iff [simp]:
  "Inr b = map_sum id (\<lambda>_. True) r \<longleftrightarrow> b \<and> r = Inr ()" "map_sum id (\<lambda>_. True) r = Inr b \<longleftrightarrow> b \<and> r = Inr ()"
  by (cases r; auto)+

context vm_memory
begin

lemma chain_serverI:
  assumes shape: "\<And>d m q c d' m' q' r. body d m q c = (d', m', q', r) \<Longrightarrow> body_shape vm m q c m' q' r"
  shows "chain_server vm body"
proof
  fix d m q c d' m' q' r b k
  assume "body d m q c = (d', m', q', r)"
  note s = shape [OF this, unfolded body_shape_def]
  show "vm_check_range vm m' b k = vm_check_range vm m b k"
    using s by (auto simp: touches_def dest: add_used_range)
  show "same_rings q q'" using s by (auto dest: add_used_same_rings)
  assume "queue_wf q" "unat (used_ring q) + used_bytes q < 2 ^ 64"
    "buffers_clear (descriptors c) b k" "apart (used_ring q) (used_bytes q) b k"
  with s show "ram_read vm m' b k = ram_read vm m b k"
    by (auto simp: touches_def dest: add_used_apart)
next
  fix d m q c d' m' q'
  assume "body d m q c = (d', m', q', Inr True)"
  from shape [OF this] show "cursors q' = (next_avail q, next_used q + 1)"
    by (auto simp: body_shape_def cursors_def dest: add_used_ok_cursors)
next
  fix d m q c d' m' q'
  assume "body d m q c = (d', m', q', Inr False)"
  from shape [OF this] show "cursors q' = (next_avail q - 1, next_used q)"
    by (auto simp: body_shape_def cursors_def undo_pop_def)
qed

end

section \<open>A ring with one chain\<close>

text \<open>A queue of two descriptors in 256 bytes of RAM: one published chain, a readable
  buffer of 16 bytes linked to a writable one of a single byte.\<close>

definition demo_queue :: queue where
  "demo_queue = \<lparr>q_size = 2, desc_table = 16, avail_ring = 48, used_ring = 64,
                 next_avail = 0, next_used = 0\<rparr>"

definition demo_ram :: flat_ram where
  "demo_ram = ram_of 256
     [(16, to_le 8 (96 :: u64) @ to_le 4 (16 :: u32) @ to_le 2 NEXT @ to_le 2 (1 :: u16)),
      (32, to_le 8 (128 :: u64) @ to_le 4 (1 :: u32) @ to_le 2 WRITE @ to_le 2 (0 :: u16)),
      (50, to_le 2 (1 :: u16))]"

definition demo_chain :: chain where
  "demo_chain = \<lparr>head = 0, descriptors =
     [\<lparr>addr = 96, len = 16, d_flags = 1, d_next = 1\<rparr>, \<lparr>addr = 128, len = 1, d_flags = 2, d_next = 0\<rparr>]\<rparr>"

lemma demo_queue_simps:
  "q_size demo_queue = 2" "next_avail demo_queue = 0" "next_used demo_queue = 0"
  by (simp_all add: demo_queue_def)

lemma demo_fetch:
  "fetch flat_vm demo_ram demo_queue 0 = Inr \<lparr>addr = 96, len = 16, d_flags = 1, d_next = 1\<rparr>"
  "fetch flat_vm demo_ram demo_queue 1 = Inr \<lparr>addr = 128, len = 1, d_flags = 2, d_next = 0\<rparr>"
  by (simp_all add: fetch_def demo_queue_def demo_ram_def eval_simps)

lemma demo_avail:
  "avail_index flat_vm demo_ram demo_queue = Inr 1" "avail_head flat_vm demo_ram demo_queue = Inr 0"
  by (simp_all add: avail_index_def avail_head_def demo_queue_def demo_ram_def eval_simps)

lemma demo_walk: "walk flat_vm demo_ram demo_queue 0 = Inr demo_chain"
  by (simp add: walk_iff linked_Cons linked.intros demo_chain_def demo_fetch NEXT_def demo_queue_simps)

lemma demo_pop:
  "pop flat_vm demo_ram demo_queue = (demo_queue\<lparr>next_avail := 1\<rparr>, Inr (Some demo_chain))"
  by (simp add: pop_def demo_avail demo_walk) (simp add: demo_queue_def)

lemma demo_pending: "pending_count flat_vm demo_ram demo_queue = 1"
  by (simp add: pending_count_def demo_avail) (simp add: demo_queue_def)

lemma demo_wf: "queue_wf demo_queue"
  by (simp add: queue_wf_def demo_queue_def MAX_SIZE_def is_power_of_two_def upt_rec)

lemma demo_backed: "used_backed flat_vm demo_ram demo_queue" "avail_backed flat_vm demo_ram demo_queue"
  by (auto simp: used_backed_def avail_backed_def demo_ram_def demo_queue_def used_bytes_def
      avail_bytes_def unat_word_ariths unat_of_nat)

lemma demo_layout: "layout_ok flat_vm demo_ram demo_queue"
proof -
  have "i = 0 \<or> i = 1" if "i < (2 :: u16)" for i
    using that by (auto simp: word_less_nat_alt word_unat_eq_iff)
  then have "buffers_clear [d] (avail_ring demo_queue) (avail_bytes demo_queue) \<and>
      buffers_clear [d] (desc_table demo_queue) (table_bytes demo_queue)"
    if "i < q_size demo_queue" "fetch flat_vm demo_ram demo_queue i = Inr d" for i d
    using that demo_fetch unfolding demo_queue_simps
    by (fastforce simp: buffers_clear_def writable_def WRITE_def apart_def table_bytes_def
        avail_bytes_def demo_queue_def)
  with demo_wf demo_backed show ?thesis
    by (simp add: layout_ok_def) (simp add: table_bytes_def used_bytes_def avail_bytes_def apart_def demo_queue_def)
qed

section \<open>Properties of the queue\<close>


text \<open>Property C2. A chain \<^verbatim>\<open>Queue::pop\<close> hands to a device is not empty, has at most
  \<^verbatim>\<open>size\<close> descriptors, none of them indirect and every buffer inside guest RAM; the
  available cursor has advanced by one and nothing else of the queue has changed.\<close>

theorem pop_hands_out_checked_chains:
  assumes "pop vm m q = (q', Inr (Some c))"
  shows "descriptors c \<noteq> [] \<and> length (descriptors c) \<le> unat (q_size q) \<and>
    list_all (\<lambda>d. d_flags d AND INDIRECT = 0 \<and> ram_holds vm m (addr d) (ucast (len d))) (descriptors c) \<and>
    q' = q\<lparr>next_avail := next_avail q + 1\<rparr>"
  using pop_Some [OF assms]
  by (auto simp: walk_iff list_all_iff dest: linked_nonempty linked_fetched fetch_checked)

theorem pop_hands_out_checked_chains_witness:
  "descriptors demo_chain \<noteq> [] \<and> length (descriptors demo_chain) \<le> 2 \<and>
   list_all (\<lambda>d. ram_holds flat_vm demo_ram (addr d) (ucast (len d))) (descriptors demo_chain)"
  using pop_hands_out_checked_chains [OF demo_pop] by (simp add: demo_queue_simps list_all_iff)

text \<open>Property C3. On a backed available ring \<^verbatim>\<open>Queue::pop\<close> is a FIFO over the published
  heads: with none pending it returns nothing and changes nothing; otherwise it takes the
  first head, whether or not the chain there is well formed, so that a malformed chain is
  reported once and the next call goes on behind it.\<close>

theorem pop_is_fifo:
  assumes "vm_memory vm" "avail_backed vm m q" "queue_wf q"
  shows "pop vm m q =
      (case pending vm m q of
         [] \<Rightarrow> (q, Inr None)
       | h # _ \<Rightarrow> (q\<lparr>next_avail := next_avail q + 1\<rparr>, and_then (walk vm m q h) (\<lambda>c. Inr (Some c)))) \<and>
    pending vm m (fst (pop vm m q)) = tl (pending vm m q)"
  using vm_memory.pop_empty [OF assms(1,2)] vm_memory.pop_first [OF assms]
  by (cases "pending vm m q") simp_all

theorem pop_is_fifo_witness:
  "pending flat_vm demo_ram (fst (pop flat_vm demo_ram demo_queue)) = tl (pending flat_vm demo_ram demo_queue) \<and>
   length (pending flat_vm demo_ram demo_queue) = 1"
  using pop_is_fifo [OF flat.vm_memory_axioms demo_backed(2) demo_wf, THEN conjunct2]
  by (simp add: demo_pending)

text \<open>After \<^verbatim>\<open>undo_pop\<close> the next \<^verbatim>\<open>pop\<close> on the same memory returns the chain
  put back, and the used ring has not moved.\<close>

lemma undo_pop_returns_chain:
  assumes "pop vm m q = (q', Inr (Some c))"
  shows "pop vm m (undo_pop q') = (q', Inr (Some c)) \<and> snd (cursors (undo_pop q')) = snd (cursors q)"
  using assms pop_Some(1) [OF assms] by (simp add: cursors_def)

text \<open>Property C4. On a used ring in guest RAM \<^verbatim>\<open>add_used\<close> succeeds, and a driver then
  reads back the head and the length in the element and the advanced index, while every
  range outside the ring reads as before.\<close>

theorem add_used_reads_back:
  assumes "vm_memory vm" "queue_wf q" "used_backed vm m q"
  shows "\<exists>m'. add_used vm m q h n = (m', q\<lparr>next_used := next_used q + 1\<rparr>, Inr ()) \<and>
    read_u32 vm m' (used_slot q) = Inr (ucast h) \<and> read_u32 vm m' (used_slot q + 4) = Inr n \<and>
    read_u16 vm m' (used_ring q + 2) = Inr (next_used q + 1) \<and>
    (\<forall>b k. apart (used_ring q) (used_bytes q) b k \<longrightarrow> ram_read vm m' b k = ram_read vm m b k)"
proof -
  have fits: "unat (used_ring q) + used_bytes q < 2 ^ 64" using assms(3) by (simp add: used_backed_def)
  obtain m' where m': "add_used vm m q h n = (m', q\<lparr>next_used := next_used q + 1\<rparr>, Inr ())"
    using vm_memory.add_used_backed [OF assms] .
  with vm_memory.add_used_written [OF assms(1,2) fits m'] vm_memory.add_used_apart [OF assms(1,2) fits _ m']
  show ?thesis by auto
qed

theorem add_used_reads_back_witness:
  "\<exists>m'. fst (add_used flat_vm demo_ram demo_queue 0 7) = m' \<and> read_u32 flat_vm m' (used_slot demo_queue + 4) = Inr 7"
  using add_used_reads_back [OF flat.vm_memory_axioms demo_wf demo_backed(1), of 0 7] by fastforce

end
