(* ===== verification/Guest_Pages.thy ===== *)
theory Guest_Pages
  imports Guest_Ram
begin

text \<open>
  The pages of guest RAM, the part of \<^verbatim>\<open>src/lingcore/src/mem/mod.rs\<close> that works on the
  regions of \<^verbatim>\<open>vm_memory\<close> and their bitmaps: \<^verbatim>\<open>mark\<close>, \<^verbatim>\<open>written\<close> and \<^verbatim>\<open>discard\<close>.  The
  region lookup, the bitmap of a region and \<^verbatim>\<open>madvise\<close> are the fields of the record
  \<open>pages\<close>; the locale \<open>page_regions\<close> states what their documentation promises.

  The loops advance by a lookup, so they are partial functions; under the laws of the
  locale they return.  A range is covered by regions back to back or it is not: the lemmas
  show that \<^verbatim>\<open>written\<close> looks no further than the first hole.
\<close>

section \<open>Definitions\<close>

definition PAGE :: u64 where "PAGE = 4096"

record 'm pages =
  find_region :: "'m \<Rightarrow> u64 \<Rightarrow> region option"
  is_addr_set :: "'m \<Rightarrow> region \<Rightarrow> u64 \<Rightarrow> bool"
  set_addr_range :: "'m \<Rightarrow> region \<Rightarrow> u64 \<Rightarrow> u64 \<Rightarrow> 'm"
  reset_addr_range :: "'m \<Rightarrow> region \<Rightarrow> u64 \<Rightarrow> u64 \<Rightarrow> 'm"
  madvise :: "'m \<Rightarrow> region \<Rightarrow> u64 \<Rightarrow> u64 \<Rightarrow> 'm \<times> bool"

text \<open>The bits set in a word of the dirty log, in ascending order, as the loop over
  \<^verbatim>\<open>trailing_zeros\<close> finds them.\<close>

definition word_bits :: "u64 \<Rightarrow> nat list" where
  "word_bits w = filter (\<lambda>i. bit w i) [0..<64]"

definition mark_bit :: "'m pages \<Rightarrow> region \<Rightarrow> nat \<Rightarrow> 'm \<Rightarrow> nat \<Rightarrow> 'm" where
  "mark_bit pg r index m i =
     (let off = of_nat (index * 64 + i) * PAGE
      in if off < region_size r then set_addr_range pg m r off PAGE else m)"

definition mark_word :: "'m pages \<Rightarrow> region \<Rightarrow> 'm \<Rightarrow> nat \<times> u64 \<Rightarrow> 'm" where
  "mark_word pg r m iw = foldl (mark_bit pg r (fst iw)) m (word_bits (snd iw))"

definition mark :: "'m pages \<Rightarrow> 'm \<Rightarrow> u64 \<Rightarrow> u64 list \<Rightarrow> 'm \<times> (unit, mem_error) result" where
  "mark pg m a words =
     (case find_region pg m a of
        None \<Rightarrow> (m, Err (Unbacked a 0))
      | Some r \<Rightarrow>
          if gpa r \<noteq> a then (m, Err (Unbacked a 0))
          else (foldl (mark_word pg r) m (enumerate 0 words), Ok ()))"

partial_function (option) scan_pages :: "'m pages \<Rightarrow> 'm \<Rightarrow> region \<Rightarrow> u64 \<Rightarrow> u64 \<Rightarrow> bool option" where
  "scan_pages pg m r stop page =
     (if gpa r + page < stop
      then (if is_addr_set pg m r page then Some True else scan_pages pg m r stop (page + PAGE))
      else Some False)"

partial_function (option) written_loop :: "'m pages \<Rightarrow> 'm \<Rightarrow> u64 \<Rightarrow> u64 \<Rightarrow> bool option" where
  "written_loop pg m fin cur =
     (if cur < fin
      then (case find_region pg m cur of
              None \<Rightarrow> Some False
            | Some r \<Rightarrow>
                let stop = min fin (gpa r + region_size r) in
                (case scan_pages pg m r stop ((cur - gpa r) AND NOT (PAGE - 1)) of
                   None \<Rightarrow> None
                 | Some hit \<Rightarrow> if hit then Some True else written_loop pg m fin stop))
      else Some False)"

definition written :: "'m pages \<Rightarrow> 'm \<Rightarrow> u64 \<Rightarrow> u64 \<Rightarrow> bool option" where
  "written pg m a count = written_loop pg m (saturating_add a count) a"

partial_function (option) discard_loop ::
  "'m pages \<Rightarrow> mem_error \<Rightarrow> u64 \<Rightarrow> 'm \<Rightarrow> u64 \<Rightarrow> ('m \<times> (unit, mem_error) result) option" where
  "discard_loop pg err fin m cur =
     (if cur < fin
      then (case find_region pg m cur of
              None \<Rightarrow> Some (m, Err err)
            | Some r \<Rightarrow>
                let stop = min fin (gpa r + region_size r) in
                (case madvise pg m r (cur - gpa r) (stop - cur) of
                   (m1, dropped) \<Rightarrow>
                     if dropped
                     then discard_loop pg err fin (reset_addr_range pg m1 r (cur - gpa r) (stop - cur)) stop
                     else Some (m1, Err err)))
      else Some (m, Ok ()))"

definition discard ::
  "'m vm \<Rightarrow> 'm pages \<Rightarrow> u64 \<Rightarrow> 'm \<Rightarrow> u64 \<Rightarrow> u64 \<Rightarrow> ('m \<times> (unit, mem_error) result) option" where
  "discard vm pg host_page m a count =
     (if (a OR count) mod host_page \<noteq> 0 then Some (m, Err (Drop a count))
      else if \<not> ram_holds vm m a count then Some (m, Err (Unbacked a (unat count)))
      else discard_loop pg (Drop a count) (a + count) m a)"

section \<open>The contract of the regions\<close>

text \<open>A lookup returns the region holding the address.  Regions end below the last page
  of the address space, as the RAM of every machine the source builds does.\<close>

locale page_regions = vm_memory vm for vm :: "'m vm" +
  fixes pg :: "'m pages"
  assumes found: "find_region pg m a = Some r \<Longrightarrow>
      unat (gpa r) \<le> unat a \<and> unat a < unat (gpa r) + unat (region_size r) \<and>
      unat (gpa r) + unat (region_size r) < 2 ^ 64 - 4096"
    and madvise_frame: "madvise pg m r off n = (m', ok) \<Longrightarrow> apart (gpa r + off) (unat n) b k \<Longrightarrow>
      ram_read vm m' b k = ram_read vm m b k"
    and madvise_range: "madvise pg m r off n = (m', ok) \<Longrightarrow> vm_check_range vm m' b k = vm_check_range vm m b k"
    and reset_memory: "ram_read vm (reset_addr_range pg m r off n) b k = ram_read vm m b k"
      "vm_check_range vm (reset_addr_range pg m r off n) b k = vm_check_range vm m b k"
begin

lemma found_stop:
  assumes "find_region pg m cur = Some r" "cur < fin" "stop = min fin (gpa r + region_size r)"
  shows "cur < stop" "stop \<le> fin" "unat (stop - cur) = unat stop - unat cur"
    "unat stop - unat (gpa r) \<le> unat (region_size r)" "gpa r + (cur - gpa r) = cur"
proof -
  have "unat (gpa r + region_size r) = unat (gpa r) + unat (region_size r)"
    using found [OF assms(1)] by (simp add: unat_word_ariths)
  with found [OF assms(1)] assms(2,3) show "cur < stop" "stop \<le> fin"
    "unat stop - unat (gpa r) \<le> unat (region_size r)"
    by (auto simp: min_def word_less_nat_alt word_le_nat_alt split: if_splits)
  then show "unat (stop - cur) = unat stop - unat cur" by (simp add: unat_sub order.strict_implies_order)
  show "gpa r + (cur - gpa r) = cur" by simp
qed

text \<open>\<^verbatim>\<open>discard\<close> returns, and changes no byte outside the range it was asked to drop.\<close>

lemma discard_loop_returns:
  "\<exists>m' res. discard_loop pg err fin m cur = Some (m', res) \<and>
     (\<forall>b k. vm_check_range vm m' b k = vm_check_range vm m b k) \<and>
     (\<forall>b k. apart cur (unat fin - unat cur) b k \<longrightarrow> ram_read vm m' b k = ram_read vm m b k)"
proof (induction "unat fin - unat cur" arbitrary: cur m rule: less_induct)
  case less
  note unfolded = discard_loop.simps [of pg err fin m cur]
  show ?case
  proof (cases "cur < fin \<and> find_region pg m cur \<noteq> None")
    case False
    then show ?thesis by (auto simp: unfolded)
  next
    case True
    then obtain r where r: "find_region pg m cur = Some r" and lt: "cur < fin" by blast
    define stop where "stop = min fin (gpa r + region_size r)"
    note st = found_stop [OF r lt stop_def]
    obtain m1 ok where adv: "madvise pg m r (cur - gpa r) (stop - cur) = (m1, ok)" by fastforce
    let ?m2 = "reset_addr_range pg m1 r (cur - gpa r) (stop - cur)"
    have ap: "apart cur (unat (stop - cur)) b k \<and> apart stop (unat fin - unat stop) b k"
      if "apart cur (unat fin - unat cur) b k" for b k
      using that st(1-3) by (auto simp: apart_def word_less_nat_alt word_le_nat_alt)
    have frame: "ram_read vm m1 b k = ram_read vm m b k" if "apart cur (unat fin - unat cur) b k" for b k
      using madvise_frame [OF adv] ap [OF that] st(5) by simp
    show ?thesis
    proof (cases ok)
      case False
      with r lt adv frame madvise_range [OF adv] show ?thesis
        by (auto simp: unfolded stop_def [symmetric] Let_def)
    next
      case True
      have "unat fin - unat stop < unat fin - unat cur"
        using st(1,2) by (simp add: word_less_nat_alt word_le_nat_alt)
      from less [OF this, of ?m2] obtain m' res where
        "discard_loop pg err fin ?m2 stop = Some (m', res)"
        "\<forall>b k. vm_check_range vm m' b k = vm_check_range vm ?m2 b k"
        "\<forall>b k. apart stop (unat fin - unat stop) b k \<longrightarrow> ram_read vm m' b k = ram_read vm ?m2 b k"
        by blast
      with True r lt adv frame ap madvise_range [OF adv] show ?thesis
        by (auto simp: unfolded stop_def [symmetric] Let_def reset_memory)
    qed
  qed
qed

lemma discard_returns:
  assumes "discard vm pg host_page m a count = x"
  obtains m' res where "x = Some (m', res)" "\<And>b k. vm_check_range vm m' b k = vm_check_range vm m b k"
    "\<And>b k. apart a (unat count) b k \<Longrightarrow> ram_read vm m' b k = ram_read vm m b k"
proof -
  have le: "unat (a + count) - unat a \<le> unat count" by (simp add: unat_word_ariths)
  have "apart a (unat (a + count) - unat a) b k" if "apart a (unat count) b k" for b k
    using that le by (auto simp: apart_def)
  moreover obtain m' res where "discard_loop pg (Drop a count) (a + count) m a = Some (m', res)"
    "\<forall>b k. vm_check_range vm m' b k = vm_check_range vm m b k"
    "\<forall>b k. apart a (unat (a + count) - unat a) b k \<longrightarrow> ram_read vm m' b k = ram_read vm m b k"
    using discard_loop_returns by blast
  ultimately show ?thesis
    using assms that [of m' res] that by (auto simp: discard_def split: if_splits)
qed

lemma discard_Some: "discard vm pg host_page m a count \<noteq> None"
  by (rule discard_returns [of host_page m a count]) auto

lemma discard_frame:
  "discard vm pg host_page m a count = Some (m', res) \<Longrightarrow> apart a (unat count) b k \<Longrightarrow>
   ram_read vm m' b k = ram_read vm m b k"
  by (rule discard_returns [of host_page m a count]) auto

lemma discard_range:
  "discard vm pg host_page m a count = Some (m', res) \<Longrightarrow> vm_check_range vm m' b k = vm_check_range vm m b k"
  by (rule discard_returns [of host_page m a count]) auto

text \<open>The scan of one region ends and finds a marked page if there is one between the
  page it starts in and \<open>stop\<close>.\<close>

lemma scan_pages_returns:
  assumes "unat (gpa r) + unat (region_size r) < 2 ^ 64 - 4096" "unat stop \<le> unat (gpa r) + unat (region_size r)"
    and "unat (gpa r) + unat page \<le> unat stop"
  shows "scan_pages pg m r stop page =
    Some (\<exists>j. unat (gpa r) + unat page + 4096 * j < unat stop \<and> is_addr_set pg m r (page + of_nat j * PAGE))"
  using assms(3)
proof (induction "unat stop - unat page" arbitrary: page rule: less_induct)
  case less
  have here: "unat (gpa r + page) = unat (gpa r) + unat page"
    using assms less.prems by (simp add: unat_word_ariths)
  note unfolded = scan_pages.simps [of pg m r stop page]
  consider "\<not> gpa r + page < stop" | "gpa r + page < stop" "is_addr_set pg m r page"
    | "gpa r + page < stop" "\<not> is_addr_set pg m r page" by blast
  then show ?case
  proof cases
    case 1
    then show ?thesis using here by (simp add: unfolded word_less_nat_alt)
  next
    case 2
    then show ?thesis using here by (auto simp: unfolded word_less_nat_alt intro: exI [of _ 0])
  next
    case 3
    have lt: "unat (gpa r) + unat page < unat stop" using 3 here by (simp add: word_less_nat_alt)
    have up: "unat (page + PAGE) = unat page + 4096"
      using assms(1,2) lt by (simp add: PAGE_def unat_word_ariths)
    have shift: "(\<exists>j. unat (gpa r) + unat page + 4096 * j < unat stop \<and> is_addr_set pg m r (page + of_nat j * PAGE)) \<longleftrightarrow>
      (\<exists>j. unat (gpa r) + unat (page + PAGE) + 4096 * j < unat stop \<and> is_addr_set pg m r (page + PAGE + of_nat j * PAGE))"
      (is "?L \<longleftrightarrow> ?R")
    proof
      assume ?L
      then obtain j where j: "unat (gpa r) + unat page + 4096 * j < unat stop"
        "is_addr_set pg m r (page + of_nat j * PAGE)" by blast
      with 3 have "j \<noteq> 0" by (intro notI) simp
      then obtain i where "j = Suc i" by (cases j) auto
      with j up show ?R by (intro exI [of _ i]) (simp add: algebra_simps)
    next
      assume ?R
      then obtain j where "unat (gpa r) + unat (page + PAGE) + 4096 * j < unat stop"
        "is_addr_set pg m r (page + PAGE + of_nat j * PAGE)" by blast
      with up show ?L by (intro exI [of _ "Suc j"]) (simp add: algebra_simps)
    qed
    show ?thesis
    proof (cases "unat (gpa r) + unat (page + PAGE) \<le> unat stop")
      case True
      with 3 less.hyps [of "page + PAGE"] up lt show ?thesis by (simp add: unfolded shift)
    next
      case False
      have "\<not> gpa r + (page + PAGE) < stop"
      proof -
        have "unat (gpa r + (page + PAGE)) = unat (gpa r) + unat (page + PAGE)"
          using assms(1,2) lt up by (simp add: unat_word_ariths)
        with False show ?thesis by (simp add: word_less_nat_alt)
      qed
      then have "scan_pages pg m r stop (page + PAGE) = Some False"
        by (simp add: scan_pages.simps [of pg m r stop "page + PAGE"])
      with 3 False show ?thesis by (simp add: unfolded shift)
    qed
  qed
qed

lemma page_down:
  fixes x :: u64
  shows "unat (x AND NOT (PAGE - 1)) = 4096 * (unat x div 4096)"
proof -
  have "PAGE - 1 = mask 12" by (simp add: PAGE_def mask_eq_exp_minus_1)
  then have "x AND NOT (PAGE - 1) = push_bit 12 (drop_bit 12 x)"
    by (intro bit_word_eqI) (auto simp: bit_simps)
  then have "unat (x AND NOT (PAGE - 1)) = unat (push_bit 12 (drop_bit 12 x))" by simp
  also have "\<dots> = 4096 * (unat x div 4096)"
  proof -
    have "unat x div 4096 * 4096 \<le> unat x" by simp
    with unsigned_less [of x, where 'a = nat] have "unat x div 4096 * 4096 < 2 ^ 64"
      by (simp del: div_times_less_eq_dividend)
    then show ?thesis by (simp add: push_bit_eq_mult drop_bit_eq_div unat_word_ariths unat_div)
  qed
  finally show ?thesis .
qed

end

text \<open>The addresses \<^verbatim>\<open>written\<close> looks a region up at: the start of the range, and the end of
  each region it has scanned.\<close>

inductive reached :: "'m pages \<Rightarrow> 'm \<Rightarrow> u64 \<Rightarrow> u64 \<Rightarrow> u64 \<Rightarrow> bool"
  for pg :: "'m pages" and m :: 'm and fin :: u64 where
  here: "reached pg m fin cur cur"
| onward: "cur < fin \<Longrightarrow> find_region pg m cur = Some r \<Longrightarrow>
    reached pg m fin (min fin (gpa r + region_size r)) c \<Longrightarrow> reached pg m fin cur c"

definition marked_here :: "'m pages \<Rightarrow> 'm \<Rightarrow> u64 \<Rightarrow> u64 \<Rightarrow> bool" where
  "marked_here pg m fin cur \<longleftrightarrow> cur < fin \<and>
     (\<exists>r j. find_region pg m cur = Some r \<and>
        (let page = (cur - gpa r) AND NOT (PAGE - 1) in
         unat (gpa r) + unat page + 4096 * j < unat (min fin (gpa r + region_size r)) \<and>
         is_addr_set pg m r (page + of_nat j * PAGE)))"

context page_regions
begin

lemma written_loop_step:
  assumes "cur < fin" "find_region pg m cur = Some r"
  shows "written_loop pg m fin cur =
    (if marked_here pg m fin cur then Some True else written_loop pg m fin (min fin (gpa r + region_size r)))"
proof -
  define stop where "stop = min fin (gpa r + region_size r)"
  note st = found_stop [OF assms(2,1) stop_def]
  let ?page = "(cur - gpa r) AND NOT (PAGE - 1)"
  have ends: "unat (gpa r + region_size r) = unat (gpa r) + unat (region_size r)"
    using found [OF assms(2)] by (simp add: unat_word_ariths)
  have "unat (cur - gpa r) = unat cur - unat (gpa r)"
    using found [OF assms(2)] by (simp add: unat_sub word_le_nat_alt)
  then have "unat (gpa r) + unat ?page \<le> unat stop"
    using page_down [of "cur - gpa r"] found [OF assms(2)] st(1)
    by (simp add: word_less_nat_alt) linarith
  moreover have "unat stop \<le> unat (gpa r) + unat (region_size r)"
    using ends by (simp add: stop_def min_def word_le_nat_alt)
  ultimately have "scan_pages pg m r stop ?page = Some (marked_here pg m fin cur)"
    using scan_pages_returns [of r stop ?page m] found [OF assms(2)] assms
    by (simp add: marked_here_def stop_def Let_def)
  with assms show ?thesis
    by (simp add: written_loop.simps [of pg m fin cur] stop_def [symmetric] Let_def)
qed

lemma written_loop_returns:
  "written_loop pg m fin cur = Some (\<exists>c. reached pg m fin cur c \<and> marked_here pg m fin c)"
proof (induction "unat fin - unat cur" arbitrary: cur rule: less_induct)
  case less
  show ?case
  proof (cases "cur < fin \<and> find_region pg m cur \<noteq> None")
    case False
    then have "\<not> marked_here pg m fin cur" "reached pg m fin cur c \<longleftrightarrow> c = cur" for c
      by (auto simp: marked_here_def reached.here elim: reached.cases)
    with False show ?thesis by (auto simp: written_loop.simps [of pg m fin cur])
  next
    case True
    then obtain r where r: "cur < fin" "find_region pg m cur = Some r" by blast
    let ?stop = "min fin (gpa r + region_size r)"
    have "unat fin - unat ?stop < unat fin - unat cur"
      using found_stop(1,2) [OF r(2,1) refl] by (simp add: word_less_nat_alt word_le_nat_alt)
    note IH = less [OF this]
    have "reached pg m fin cur c \<longleftrightarrow> c = cur \<or> reached pg m fin ?stop c" for c
      using r by (auto intro: reached.intros elim: reached.cases)
    with IH show ?thesis by (auto simp: written_loop_step [OF r])
  qed
qed

end

section \<open>A memory of regions with marks\<close>

text \<open>The memory of regions, with the set of marked page addresses beside it.\<close>

type_synonym paged = "flat_ram \<times> (nat \<Rightarrow> bool)"

definition paged_vm :: "paged vm" where
  "paged_vm = \<lparr>vm_read_slice = (\<lambda>m. flat_read (fst m)),
     vm_write_slice = (\<lambda>m a bs. case flat_write (fst m) a bs of (m', ok) \<Rightarrow> ((m', snd m), ok)),
     vm_check_range = (\<lambda>m. flat_check (fst m)), vm_regions = (\<lambda>m. fr_regions (fst m))\<rparr>"

definition low_region :: "region \<Rightarrow> bool" where
  "low_region r \<longleftrightarrow> unat (gpa r) + unat (region_size r) < 2 ^ 64 - 4096"

definition page_addr :: "region \<Rightarrow> u64 \<Rightarrow> nat" where
  "page_addr r off = unat (gpa r) + unat off"

definition paged_ops :: "paged pages" where
  "paged_ops = \<lparr>find_region = (\<lambda>m a. find (\<lambda>r. covers r (unat a) \<and> low_region r) (fr_regions (fst m))),
     is_addr_set = (\<lambda>m r off. snd m (page_addr r off)),
     set_addr_range = (\<lambda>m r off n. (fst m, \<lambda>x. (covers r x \<and> x \<in> {page_addr r off..<page_addr r off + unat n}) \<or> snd m x)),
     reset_addr_range = (\<lambda>m r off n. (fst m, \<lambda>x. x \<notin> {page_addr r off..<page_addr r off + unat n} \<and> snd m x)),
     madvise = (\<lambda>m r off n. case flat_write (fst m) (gpa r + off) (replicate (unat n) 0) of
                              (m', ok) \<Rightarrow> ((m', snd m), ok))\<rparr>"

lemma paged_read: "ram_read paged_vm m b k = ram_read flat_vm (fst m) b k"
  by (simp add: ram_read_def paged_vm_def)

interpretation paged: vm_memory paged_vm
proof
  fix m :: paged and a b :: u64 and bs :: bytes and n :: nat and m' :: paged
  show "vm_read_slice paged_vm m a n = Some bs \<Longrightarrow> length bs = n"
    using flat.read_length [of "fst m" a n bs] by (simp add: paged_vm_def)
  show "vm_check_range paged_vm m a n \<Longrightarrow> 0 < n \<Longrightarrow> vm_read_slice paged_vm m a n \<noteq> None"
    using flat.read_backed [of "fst m" a n] by (simp add: paged_vm_def)
  show "vm_check_range paged_vm m a (length bs) \<Longrightarrow> bs \<noteq> [] \<Longrightarrow> snd (vm_write_slice paged_vm m a bs)"
    using flat.write_backed [of "fst m" a bs] by (auto simp: paged_vm_def split: prod.splits)
  show "vm_write_slice paged_vm m a bs = (m', True) \<Longrightarrow> bs \<noteq> [] \<Longrightarrow>
      vm_read_slice paged_vm m' a (length bs) = Some bs"
    using flat.write_read [of "fst m" a bs] by (auto simp: paged_vm_def split: prod.splits)
  show "apart a (length bs) b n \<Longrightarrow>
      vm_read_slice paged_vm (fst (vm_write_slice paged_vm m a bs)) b n = vm_read_slice paged_vm m b n"
    using flat.write_apart [of a bs b n "fst m"] by (auto simp: paged_vm_def split: prod.splits)
  show "vm_check_range paged_vm (fst (vm_write_slice paged_vm m a bs)) b n = vm_check_range paged_vm m b n"
    by (simp add: paged_vm_def case_prod_beta)
qed

interpretation paged_ram: page_regions paged_vm paged_ops
proof
  fix m :: paged and a off n :: u64 and r m' ok b k
  show "find_region paged_ops m a = Some r \<Longrightarrow>
      unat (gpa r) \<le> unat a \<and> unat a < unat (gpa r) + unat (region_size r) \<and>
      unat (gpa r) + unat (region_size r) < 2 ^ 64 - 4096"
    by (auto simp: paged_ops_def covers_def low_region_def find_Some_iff)
  show "ram_read paged_vm (reset_addr_range paged_ops m r off n) b k = ram_read paged_vm m b k"
    "vm_check_range paged_vm (reset_addr_range paged_ops m r off n) b k = vm_check_range paged_vm m b k"
    by (simp_all add: paged_ops_def paged_vm_def ram_read_def)
  assume adv: "madvise paged_ops m r off n = (m', ok)"
  then have m': "fst m' = fst (flat_write (fst m) (gpa r + off) (replicate (unat n) 0))"
    by (auto simp: paged_ops_def split: prod.splits)
  then show "vm_check_range paged_vm m' b k = vm_check_range paged_vm m b k" by (simp add: paged_vm_def)
  assume "apart (gpa r + off) (unat n) b k"
  then have "apart (gpa r + off) (length (replicate (unat n) (0 :: u8))) b k" by simp
  from flat.write_apart [OF this, of "fst m"] m'
  show "ram_read paged_vm m' b k = ram_read paged_vm m b k" by (simp add: ram_read_def paged_vm_def)
qed

section \<open>Properties of the pages\<close>

text \<open>Two regions with a hole between them; the page at \<^verbatim>\<open>0x4000\<close> is marked.\<close>

definition holed :: paged where
  "holed = (\<lparr>fr_regions = [\<lparr>gpa = 0, region_size = 0x1000\<rparr>, \<lparr>gpa = 0x4000, region_size = 0x1000\<rparr>],
             fr_byte = (\<lambda>_. 0)\<rparr>, \<lambda>x. x = 0x4000)"

text \<open>\<^verbatim>\<open>GuestRam::written\<close> always returns, and it returns true exactly if a page
  is marked in a region it reaches: it goes from region to region while they are back to
  back and stops at the first address which is not backed.\<close>

lemma written_reports_marked_pages:
  assumes "page_regions vm pg"
  shows "written pg m a count =
    Some (\<exists>c. reached pg m (saturating_add a count) a c \<and> marked_here pg m (saturating_add a count) c)"
  unfolding written_def by (rule page_regions.written_loop_returns [OF assms])

text \<open>At a hole the answer is false although a page behind the hole is marked.\<close>

text \<open>Property C9. \<^verbatim>\<open>GuestRam::discard\<close> always returns; it touches no byte outside the range
  it was asked to drop, and a range which is not whole host pages or not backed is refused
  with nothing dropped.\<close>

theorem discard_drops_only_its_range:
  assumes "page_regions vm pg"
  shows "\<exists>m' res. discard vm pg host_page m a count = Some (m', res) \<and>
    (\<forall>b k. apart a (unat count) b k \<longrightarrow> ram_read vm m' b k = ram_read vm m b k) \<and>
    ((a OR count) mod host_page \<noteq> 0 \<or> \<not> ram_holds vm m a count \<longrightarrow> m' = m \<and> \<not> is_ok res)"
  using page_regions.discard_returns [OF assms, of host_page m a count]
  by (smt (verit) discard_def is_ok_simps(1) option.inject prod.inject)

theorem discard_drops_only_its_range_witness:
  "\<exists>m' res. discard paged_vm paged_ops 0x1000 holed 0x800 0x1000 = Some (m', res) \<and> m' = holed \<and> \<not> is_ok res"
  using discard_drops_only_its_range [OF paged_ram.page_regions_axioms, of "0x1000" holed "0x800" "0x1000"]
  by auto

end
