(* ===== verification/Virtio_Balloon.thy ===== *)
theory Virtio_Balloon
  imports Queue_Loop Guest_Pages
begin

text \<open>
  The balloon, \<^verbatim>\<open>src/lingcore/src/devices/virtio/balloon.rs\<close>, and the entropy device,
  \<^verbatim>\<open>src/lingcore/src/devices/virtio/entropy.rs\<close>: two devices which only drain their queue.
  The balloon drops the pages a guest reports free through \<^verbatim>\<open>GuestRam::discard\<close>; the entropy
  device fills writable buffers from its source file, a reader as in the block device.

  Both keep the contract of \<open>chain_server\<close>, so their notifications end, report every chain
  taken and leave the ring drained.
\<close>

section \<open>The balloon\<close>

definition BALLOON_DEVICE_ID :: u32 where "BALLOON_DEVICE_ID = 5"
definition FEATURE_REPORTING :: u64 where "FEATURE_REPORTING = push_bit 5 1"
definition REPORTING :: u16 where "REPORTING = 2"
definition PFN_SHIFT :: nat where "PFN_SHIFT = 12"

record balloon =
  reported :: u64
  refused :: u64

definition balloon_new :: balloon where
  "balloon_new = \<lparr>reported = 0, refused = 0\<rparr>"

text \<open>\<open>drop\<close> is \<^verbatim>\<open>GuestRam::discard\<close> of a range: the memory after it, and whether it
  succeeded.  It is the total function \<open>dropped\<close> below for the pages of the model.\<close>

type_synonym 'm dropper = "'m \<Rightarrow> u64 \<Rightarrow> u64 \<Rightarrow> 'm \<times> bool"

definition dropped :: "'m vm \<Rightarrow> 'm pages \<Rightarrow> u64 \<Rightarrow> 'm dropper" where
  "dropped vm pg host_page m a count =
     (case discard vm pg host_page m a count of
        None \<Rightarrow> (m, False)
      | Some (m', res) \<Rightarrow> (m', is_ok res))"

primrec ranges_loop :: "'m dropper \<Rightarrow> descriptor list \<Rightarrow> balloon \<Rightarrow> 'm \<Rightarrow> u64 \<Rightarrow> balloon \<times> 'm \<times> u64" where
  "ranges_loop dr [] b m pages = (b, m, pages)"
| "ranges_loop dr (d # ds) b m pages =
     (let n = ucast (len d) :: u64 in
      if \<not> writable d \<or> n = 0 then ranges_loop dr ds (b\<lparr>refused := refused b + 1\<rparr>) m pages
      else case dr m (addr d) n of
             (m', False) \<Rightarrow> ranges_loop dr ds (b\<lparr>refused := refused b + 1\<rparr>) m' pages
           | (m', True) \<Rightarrow> ranges_loop dr ds b m' (pages + drop_bit PFN_SHIFT n))"

definition ranges :: "'m dropper \<Rightarrow> chain \<Rightarrow> balloon \<Rightarrow> 'm \<Rightarrow> balloon \<times> 'm \<times> u64" where
  "ranges dr c b m = ranges_loop dr (descriptors c) b m 0"

definition balloon_body :: "'m vm \<Rightarrow> 'm dropper \<Rightarrow> u16 \<Rightarrow> ('m, balloon) body" where
  "balloon_body vm dr index b m q c =
     (case (if index = REPORTING
            then (case ranges dr c b m of (b1, m1, pages) \<Rightarrow> (b1\<lparr>reported := reported b1 + pages\<rparr>, m1))
            else (b\<lparr>refused := refused b + 1\<rparr>, m)) of
        (b1, m1) \<Rightarrow>
          (case add_used vm m1 q (head c) 0 of
             (m2, q', Inl e) \<Rightarrow> (b1, m2, q', Inl e)
           | (m2, q', Inr _) \<Rightarrow> (b1, m2, q', Inr True)))"

definition balloon_notify ::
  "nat \<Rightarrow> 'm vm \<Rightarrow> 'm dropper \<Rightarrow> u16 \<Rightarrow> balloon \<Rightarrow> 'm \<Rightarrow> queue \<Rightarrow>
   (balloon \<times> 'm \<times> queue \<times> (unit, virtio_error) result) option" where
  "balloon_notify fuel vm dr index b m q = pop_loop fuel vm (balloon_body vm dr index) b m q"

section \<open>The entropy device\<close>

definition ENTROPY_DEVICE_ID :: u32 where "ENTROPY_DEVICE_ID = 4"

primrec entropy_fill ::
  "('m, 's) reader \<Rightarrow> descriptor list \<Rightarrow> 'm \<Rightarrow> 's \<Rightarrow> u32 \<Rightarrow> 'm \<times> 's \<times> (u32, virtio_error) result" where
  "entropy_fill rd [] m s n = (m, s, Inr n)"
| "entropy_fill rd (d # ds) m s n =
     (if writable d
      then let want = unat (len d) in
           (case fill_from rd m s (addr d) want of
              (m', s', Inl _) \<Rightarrow> (m', s', Inl Source)
            | (m', s', Inr taken) \<Rightarrow>
                (if taken < want then (m', s', Inr (n + of_nat taken))
                 else entropy_fill rd ds m' s' (n + of_nat taken)))
      else entropy_fill rd ds m s n)"

definition entropy_body :: "'m vm \<Rightarrow> ('m, 's) reader \<Rightarrow> ('m, 's) body" where
  "entropy_body vm rd s m q c =
     (case entropy_fill rd (descriptors c) m s 0 of
        (m1, s1, Inl e) \<Rightarrow> (s1, m1, q, Inl e)
      | (m1, s1, Inr n) \<Rightarrow>
          (case add_used vm m1 q (head c) n of
             (m2, q', Inl e) \<Rightarrow> (s1, m2, q', Inl e)
           | (m2, q', Inr _) \<Rightarrow> (s1, m2, q', Inr True)))"

definition entropy_notify ::
  "nat \<Rightarrow> 'm vm \<Rightarrow> ('m, 's) reader \<Rightarrow> 's \<Rightarrow> 'm \<Rightarrow> queue \<Rightarrow>
   ('s \<times> 'm \<times> queue \<times> (unit, virtio_error) result) option" where
  "entropy_notify fuel vm rd s m q = pop_loop fuel vm (entropy_body vm rd) s m q"

section \<open>Their contracts\<close>

locale dropper = vm_memory vm for vm :: "'m vm" +
  fixes dr :: "'m dropper" and index :: u16
  assumes drop_frame: "dr m a n = (m', ok) \<Longrightarrow> apart a (unat n) b k \<Longrightarrow> ram_read vm m' b k = ram_read vm m b k"
    and drop_range: "dr m a n = (m', ok) \<Longrightarrow> vm_check_range vm m' b k = vm_check_range vm m b k"
begin

lemma ranges_loop_range:
  "ranges_loop dr ds bl m p = (bl', m', p') \<Longrightarrow> vm_check_range vm m' b k = vm_check_range vm m b k"
  by (induction ds arbitrary: bl m p) (auto simp: Let_def drop_range split: prod.splits bool.splits if_splits)

lemma ranges_loop_frame:
  "ranges_loop dr ds bl m p = (bl', m', p') \<Longrightarrow> buffers_clear ds b k \<Longrightarrow> ram_read vm m' b k = ram_read vm m b k"
proof (induction ds arbitrary: bl m p)
  case (Cons d ds)
  have ap: "apart (addr d) (unat (ucast (len d) :: u64)) b k" if "writable d"
    using Cons.prems(2) that by (simp add: buffers_clear_def unat_ucast_up)
  have "buffers_clear ds b k" using Cons.prems(2) by (simp add: buffers_clear_def)
  with Cons.IH Cons.prems(1) drop_frame [OF _ ap] show ?case
    by (auto simp: Let_def split: prod.splits bool.splits if_splits)
qed simp

end

sublocale dropper \<subseteq> chain_server vm "balloon_body vm dr index"
proof
  fix d m q c d' m' q' r b k
  assume body: "balloon_body vm dr index d m q c = (d', m', q', r)"
  show "vm_check_range vm m' b k = vm_check_range vm m b k"
    using body
    by (auto simp: balloon_body_def ranges_def add_used_range ranges_loop_range split: result_splits)
  show "same_rings q q'"
    using body by (auto simp: balloon_body_def dest: add_used_same_rings split: result_splits)
  assume used: "queue_wf q" "unat (used_ring q) + used_bytes q < 2 ^ 64"
      "apart (used_ring q) (used_bytes q) b k"
    and clear: "buffers_clear (descriptors c) b k"
  show "ram_read vm m' b k = ram_read vm m b k"
    using body add_used_apart [OF used] ranges_loop_frame [OF _ clear]
    by (auto simp: balloon_body_def ranges_def split: result_splits)
next
  fix d m q c d' m' q'
  assume "balloon_body vm dr index d m q c = (d', m', q', Inr True)"
  then show "cursors q' = (next_avail q, next_used q + 1)"
    by (auto simp: balloon_body_def cursors_def dest: add_used_ok_cursors split: result_splits)
next
  fix d m q c d' m' q'
  assume "balloon_body vm dr index d m q c = (d', m', q', Inr False)"
  then show "cursors q' = (next_avail q - 1, next_used q)"
    by (auto simp: balloon_body_def split: result_splits)
qed

locale entropy_source = vm_memory vm for vm :: "'m vm" +
  fixes rd :: "('m, 's) reader"
  assumes rd_frame: "rd m s a n = (m', s', r) \<Longrightarrow> apart a n b k \<Longrightarrow> ram_read vm m' b k = ram_read vm m b k"
    and rd_range: "rd m s a n = (m', s', r) \<Longrightarrow> vm_check_range vm m' b k = vm_check_range vm m b k"
begin

lemma entropy_fill_range:
  "entropy_fill rd ds m s w = (m', s', r) \<Longrightarrow> vm_check_range vm m' b k = vm_check_range vm m b k"
  by (induction ds arbitrary: m s w) (auto simp: Let_def fill_from_def rd_range split: result_splits)

lemma entropy_fill_frame:
  "entropy_fill rd ds m s w = (m', s', r) \<Longrightarrow> buffers_clear ds b k \<Longrightarrow> ram_read vm m' b k = ram_read vm m b k"
proof (induction ds arbitrary: m s w)
  case (Cons d ds)
  have ap: "writable d \<Longrightarrow> apart (addr d) (unat (len d)) b k" and "buffers_clear ds b k"
    using Cons.prems(2) by (simp_all add: buffers_clear_def)
  with Cons.IH Cons.prems(1) rd_frame [OF _ ap] show ?case
    by (auto simp: Let_def fill_from_def split: result_splits)
qed simp

end

sublocale entropy_source \<subseteq> chain_server vm "entropy_body vm rd"
proof
  fix d m q c d' m' q' r b k
  assume body: "entropy_body vm rd d m q c = (d', m', q', r)"
  show "vm_check_range vm m' b k = vm_check_range vm m b k"
    using body by (auto simp: entropy_body_def add_used_range entropy_fill_range split: result_splits)
  show "same_rings q q'"
    using body by (auto simp: entropy_body_def dest: add_used_same_rings split: result_splits)
  assume used: "queue_wf q" "unat (used_ring q) + used_bytes q < 2 ^ 64"
      "apart (used_ring q) (used_bytes q) b k"
    and clear: "buffers_clear (descriptors c) b k"
  show "ram_read vm m' b k = ram_read vm m b k"
    using body add_used_apart [OF used] entropy_fill_frame [OF _ clear]
    by (auto simp: entropy_body_def split: result_splits)
next
  fix d m q c d' m' q'
  assume "entropy_body vm rd d m q c = (d', m', q', Inr True)"
  then show "cursors q' = (next_avail q, next_used q + 1)"
    by (auto simp: entropy_body_def cursors_def dest: add_used_ok_cursors split: result_splits)
next
  fix d m q c d' m' q'
  assume "entropy_body vm rd d m q c = (d', m', q', Inr False)"
  then show "cursors q' = (next_avail q - 1, next_used q)"
    by (auto simp: entropy_body_def split: result_splits)
qed

section \<open>The devices on the memories of the model\<close>

context page_regions
begin

lemma dropped_dropper: "dropper vm (dropped vm pg host_page)"
proof
  fix m a n m' ok b k
  assume dr: "dropped vm pg host_page m a n = (m', ok)"
  obtain m1 res where d: "discard vm pg host_page m a n = Some (m1, res)"
    using discard_Some [of host_page m a n] by fastforce
  with dr have m': "m' = m1" by (simp add: dropped_def)
  show "vm_check_range vm m' b k = vm_check_range vm m b k" using discard_range [OF d] m' by simp
  assume "apart a (unat n) b k"
  then show "ram_read vm m' b k = ram_read vm m b k" using discard_frame [OF d] m' by simp
qed

end

interpretation paged_balloon: dropper paged_vm "dropped paged_vm paged_ops 0x1000" REPORTING
  by (rule paged_ram.dropped_dropper)

interpretation list_entropy: entropy_source flat_vm list_read
  by unfold_locales (fact list_read_frame list_read_range)+

context dropper
begin

lemma balloon_drains:
  assumes "layout_ok vm m q" "pending_count vm m q < fuel"
  shows "\<exists>b' m' q' r. balloon_notify fuel vm dr index b m q = Some (b', m', q', r) \<and>
    (r = Inr () \<longrightarrow> pending vm m' q' = [] \<and> next_used q' - next_used q = next_avail q' - next_avail q)"
proof -
  have "snd (snd (snd (balloon_body vm dr index d m q c))) \<noteq> Inr False" for d m q c
    by (auto simp: balloon_body_def split: result_splits)
  note drains = loop_drains [OF this assms(1)]
  obtain b' m' q' r where "balloon_notify fuel vm dr index b m q = Some (b', m', q', r)"
    using loop_ends [OF assms] unfolding balloon_notify_def by (metis option.exhaust prod_cases4)
  then show ?thesis using drains loop_accounts unfolding balloon_notify_def by blast
qed

end

context entropy_source
begin

lemma entropy_drains:
  assumes "layout_ok vm m q" "pending_count vm m q < fuel"
  shows "\<exists>s' m' q' r. entropy_notify fuel vm rd s m q = Some (s', m', q', r) \<and>
    (r = Inr () \<longrightarrow> pending vm m' q' = [] \<and> next_used q' - next_used q = next_avail q' - next_avail q)"
proof -
  have "snd (snd (snd (entropy_body vm rd d m q c))) \<noteq> Inr False" for d m q c
    by (auto simp: entropy_body_def split: result_splits)
  note drains = loop_drains [OF this assms(1)]
  obtain s' m' q' r where "entropy_notify fuel vm rd s m q = Some (s', m', q', r)"
    using loop_ends [OF assms] unfolding entropy_notify_def by (metis option.exhaust prod_cases4)
  then show ?thesis using drains loop_accounts unfolding entropy_notify_def by blast
qed

end

section \<open>Properties\<close>

text \<open>Property C8. A notification of the balloon ends within the pending chains; without an
  error it leaves the available ring empty and has reported each chain once.  The pages
  dropped are those of writable buffers only.\<close>

theorem balloon_notify_drains:
  assumes "page_regions vm pg" "layout_ok vm m q" "pending_count vm m q < fuel"
  shows "\<exists>b' m' q' r. balloon_notify fuel vm (dropped vm pg host_page) index b m q = Some (b', m', q', r) \<and>
    (r = Inr () \<longrightarrow> pending vm m' q' = [] \<and> next_used q' - next_used q = next_avail q' - next_avail q)"
  by (rule dropper.balloon_drains [OF page_regions.dropped_dropper [OF assms(1)] assms(2,3)])

lemma paged_access:
  "ram_read paged_vm (m, k) = ram_read flat_vm m" "ram_holds paged_vm (m, k) = ram_holds flat_vm m"
  "vm_check_range paged_vm (m, k) = flat_check m" "read_u16 paged_vm (m, k) = read_u16 flat_vm m"
  by (auto simp: fun_eq_iff paged_read ram_holds_def read_u16_def) (simp_all add: paged_vm_def)

lemma paged_same:
  "fetch paged_vm (m, k) q i = fetch flat_vm m q i" "avail_index paged_vm (m, k) q = avail_index flat_vm m q"
  "used_backed paged_vm (m, k) q = used_backed flat_vm m q"
  "avail_backed paged_vm (m, k) q = avail_backed flat_vm m q"
  unfolding fetch_def avail_index_def used_backed_def avail_backed_def paged_access by simp_all

theorem balloon_notify_drains_witness:
  "\<exists>b' m' q' r. balloon_notify 2 paged_vm (dropped paged_vm paged_ops 0x1000) REPORTING balloon_new
     (demo_ram, \<lambda>_. False) demo_queue = Some (b', m', q', r)"
proof -
  have "layout_ok paged_vm (demo_ram, \<lambda>_. False) demo_queue"
    using demo_layout by (simp add: layout_ok_def paged_same)
  moreover have "pending_count paged_vm (demo_ram, \<lambda>_. False) demo_queue < 2"
    using demo_pending by (simp add: pending_count_def paged_same)
  ultimately show ?thesis
    using balloon_notify_drains [OF paged_ram.page_regions_axioms, of "(demo_ram, \<lambda>_. False)" demo_queue 2
        "0x1000" REPORTING balloon_new] by blast
qed

text \<open>A notification of the entropy device ends within the pending chains;
  without an error it leaves the available ring empty and has reported each chain once.\<close>

lemma entropy_notify_drains:
  assumes "entropy_source vm rd" "layout_ok vm m q" "pending_count vm m q < fuel"
  shows "\<exists>s' m' q' r. entropy_notify fuel vm rd s m q = Some (s', m', q', r) \<and>
    (r = Inr () \<longrightarrow> pending vm m' q' = [] \<and> next_used q' - next_used q = next_avail q' - next_avail q)"
  by (rule entropy_source.entropy_drains [OF assms])

end
