(* ===== verification/Block_Throttle.thy ===== *)
theory Block_Throttle
  imports Prelude Complex_Main
begin

text \<open>
  The rate limiter of a disk, \<^verbatim>\<open>Bucket\<close> and \<^verbatim>\<open>Throttle\<close> of
  \<^verbatim>\<open>src/lingcore/src/devices/virtio/block.rs\<close>.  The source counts tokens in
  \<^verbatim>\<open>f64\<close>; here they are exact rationals, so rounding is the one thing left out.
  Every reading of the clock is an argument, in seconds.

  The lemmas bound what a bucket lets through: over any sequence of requests the tokens
  granted are at most one second's worth, plus what the elapsed time earned, plus the debt
  the last request may leave.
\<close>

section \<open>Definitions\<close>

record rate =
  rate_bytes :: u64
  rate_requests :: u64

record bucket =
  b_rate :: u64
  held :: rat
  filled :: rat

definition as_f64 :: "u64 \<Rightarrow> rat" where
  "as_f64 w = of_nat (unat w)"

definition bucket_new :: "rat \<Rightarrow> u64 \<Rightarrow> bucket" where
  "bucket_new now r = \<lparr>b_rate = r, held = as_f64 r, filled = now\<rparr>"

text \<open>The refill at the start of \<^verbatim>\<open>Bucket::take\<close>; \<^verbatim>\<open>duration_since\<close> is zero for a clock
  which has gone back.\<close>

definition bucket_fill :: "rat \<Rightarrow> bucket \<Rightarrow> bucket" where
  "bucket_fill now b =
     (let r = as_f64 (b_rate b);
          earned = max 0 (now - filled b) * r
      in b\<lparr>held := min (held b + earned) r, filled := now\<rparr>)"

definition bucket_take :: "rat \<Rightarrow> u64 \<Rightarrow> bucket \<Rightarrow> bucket \<times> rat option" where
  "bucket_take now cost b =
     (let b1 = bucket_fill now b;
          r = as_f64 (b_rate b);
          want = min (as_f64 cost) r
      in if want > held b1 then (b1, Some ((want - held b1) / r))
         else (b1\<lparr>held := held b1 - as_f64 cost\<rparr>, None))"

definition bucket_refund :: "u64 \<Rightarrow> bucket \<Rightarrow> bucket" where
  "bucket_refund cost b = b\<lparr>held := min (held b + as_f64 cost) (as_f64 (b_rate b))\<rparr>"

record throttle =
  t_bytes :: "bucket option"
  t_requests :: "bucket option"

text \<open>\<open>clock\<close> reads the host clock; it is read once for each bucket consulted.\<close>

type_synonym 'w clock = "'w \<Rightarrow> 'w \<times> rat"

definition bucket_if :: "'w clock \<Rightarrow> u64 \<Rightarrow> 'w \<Rightarrow> 'w \<times> bucket option" where
  "bucket_if clock r w =
     (if r > 0 then (case clock w of (w', now) \<Rightarrow> (w', Some (bucket_new now r))) else (w, None))"

definition throttle_new :: "'w clock \<Rightarrow> rate \<Rightarrow> 'w \<Rightarrow> 'w \<times> throttle" where
  "throttle_new clock r w =
     (case bucket_if clock (rate_bytes r) w of (w1, by) \<Rightarrow>
      (case bucket_if clock (rate_requests r) w1 of (w2, rq) \<Rightarrow>
        (w2, \<lparr>t_bytes = by, t_requests = rq\<rparr>)))"

text \<open>\<^verbatim>\<open>self.bytes.as_mut().and_then(|bucket| bucket.take(cost))\<close>.\<close>

definition take_opt ::
  "'w clock \<Rightarrow> u64 \<Rightarrow> bucket option \<Rightarrow> 'w \<Rightarrow> 'w \<times> bucket option \<times> rat option" where
  "take_opt clock cost ob w =
     (case ob of
        None \<Rightarrow> (w, None, None)
      | Some b \<Rightarrow>
          (case clock w of (w', now) \<Rightarrow>
           (case bucket_take now cost b of (b', wait) \<Rightarrow> (w', Some b', wait))))"

definition throttle_take ::
  "'w clock \<Rightarrow> u64 \<Rightarrow> throttle \<Rightarrow> 'w \<Rightarrow> 'w \<times> throttle \<times> rat option" where
  "throttle_take clock cost t w =
     (case take_opt clock 1 (t_requests t) w of
        (w1, rq, Some wait) \<Rightarrow> (w1, t\<lparr>t_requests := rq\<rparr>, Some wait)
      | (w1, rq, None) \<Rightarrow>
          (case take_opt clock cost (t_bytes t) w1 of
             (w2, by, Some wait) \<Rightarrow>
               (w2, t\<lparr>t_requests := map_option (bucket_refund 1) rq, t_bytes := by\<rparr>, Some wait)
           | (w2, by, None) \<Rightarrow> (w2, t\<lparr>t_requests := rq, t_bytes := by\<rparr>, None)))"

section \<open>What a bucket lets through\<close>

definition bucket_wf :: "bucket \<Rightarrow> bool" where
  "bucket_wf b \<longleftrightarrow> b_rate b \<noteq> 0 \<and> held b \<le> as_f64 (b_rate b)"

lemma as_f64_nonneg [simp]: "0 \<le> as_f64 w"
  by (simp add: as_f64_def del: of_nat_unat)

lemma as_f64_pos: "w \<noteq> 0 \<Longrightarrow> 0 < as_f64 w"
  by (simp add: as_f64_def unat_gt_0 del: of_nat_unat)

lemma bucket_new_wf [wf_intros]: "r \<noteq> 0 \<Longrightarrow> bucket_wf (bucket_new now r)"
  by (simp add: bucket_wf_def bucket_new_def)

lemma bucket_take_wf [wf_intros]:
  assumes "bucket_wf b"
  shows "bucket_wf (fst (bucket_take now cost b))"
proof -
  let ?h = "min (held b + max 0 (now - filled b) * as_f64 (b_rate b)) (as_f64 (b_rate b))"
  have "?h \<le> as_f64 (b_rate b)" by simp
  with as_f64_nonneg [of cost] have "?h - as_f64 cost \<le> as_f64 (b_rate b)" by linarith
  with assms show ?thesis by (simp add: bucket_wf_def bucket_take_def bucket_fill_def Let_def)
qed

lemma bucket_refund_wf [wf_intros]: "bucket_wf b \<Longrightarrow> bucket_wf (bucket_refund cost b)"
  by (simp add: bucket_wf_def bucket_refund_def)

text \<open>A refused request is told to wait, and after that wait the same request passes.\<close>

lemma bucket_take_wait:
  assumes "bucket_wf b" "bucket_take now cost b = (b', Some wait)" "now + wait \<le> later"
  shows "0 < wait \<and> snd (bucket_take later cost b') = None"
proof -
  let ?r = "as_f64 (b_rate b)" and ?want = "min (as_f64 cost) (as_f64 (b_rate b))"
  have r: "0 < ?r" using assms(1) by (simp add: bucket_wf_def as_f64_pos)
  have b': "b_rate b' = b_rate b" "filled b' = now" and lt: "held b' < ?want"
    and wait: "wait = (?want - held b') / ?r"
    using assms(2) by (auto simp: bucket_take_def bucket_fill_def Let_def split: if_splits)
  have pos: "0 < wait" using wait lt r by simp
  have "?want - held b' = wait * ?r" using wait r by simp
  also have "\<dots> \<le> max 0 (later - now) * ?r"
    using assms(3) pos r by (intro mult_right_mono) auto
  finally have "?want \<le> min (held b' + max 0 (later - now) * ?r) ?r" by simp
  then show ?thesis using pos b' by (auto simp: bucket_take_def bucket_fill_def Let_def not_less min_le_iff_disj)
qed

text \<open>A run of requests \<open>(now, cost)\<close> against one bucket, with the sum granted.\<close>

primrec bucket_run :: "(rat \<times> u64) list \<Rightarrow> bucket \<Rightarrow> bucket \<times> rat" where
  "bucket_run [] b = (b, 0)"
| "bucket_run (x # xs) b =
     (case bucket_take (fst x) (snd x) b of (b1, w) \<Rightarrow>
      (case bucket_run xs b1 of (b2, granted) \<Rightarrow>
        (b2, granted + (case w of None \<Rightarrow> as_f64 (snd x) | Some _ \<Rightarrow> 0))))"

lemma bucket_take_accounts:
  assumes "bucket_take now cost b = (b', w)" "filled b \<le> now"
  shows "b_rate b' = b_rate b" "filled b' = now"
    and "held b' + (case w of None \<Rightarrow> as_f64 cost | Some _ \<Rightarrow> 0) \<le>
         held b + (now - filled b) * as_f64 (b_rate b)"
  using assms by (auto simp: bucket_take_def bucket_fill_def Let_def split: if_splits)

lemma bucket_run_accounts:
  assumes "sorted (filled b # map fst xs)" "bucket_run xs b = (b', granted)"
  shows "held b' + granted \<le> held b + (last (filled b # map fst xs) - filled b) * as_f64 (b_rate b)"
  using assms
proof (induction xs arbitrary: b granted)
  case Nil
  then show ?case by simp
next
  case (Cons x xs)
  obtain b1 w where t: "bucket_take (fst x) (snd x) b = (b1, w)" by fastforce
  obtain granted' where run: "bucket_run xs b1 = (b', granted')"
    and granted: "granted = granted' + (case w of None \<Rightarrow> as_f64 (snd x) | Some _ \<Rightarrow> 0)"
    using Cons.prems(2) t by (auto split: prod.splits)
  have le: "filled b \<le> fst x" using Cons.prems(1) by simp
  note acc = bucket_take_accounts [OF t le]
  have "held b' + granted' \<le> held b1 + (last (filled b1 # map fst xs) - filled b1) * as_f64 (b_rate b1)"
    using Cons.IH [OF _ run] Cons.prems(1) acc(2) by simp
  with acc have "held b' + granted \<le> held b + (fst x - filled b) * as_f64 (b_rate b) +
      (last (fst x # map fst xs) - fst x) * as_f64 (b_rate b)"
    by (simp add: granted)
  then show ?case by (simp add: algebra_simps)
qed

text \<open>A bucket in debt grants nothing, so a granted request leaves at most its own cost
  of debt.\<close>

lemma bucket_take_debt:
  assumes "bucket_wf b" "bucket_take now cost b = (b', None)"
  shows "as_f64 (b_rate b) - as_f64 cost \<le> held b' \<or> 0 \<le> held b'"
  using assms by (auto simp: bucket_take_def bucket_fill_def Let_def min_def split: if_splits)

end
