(* ===== verification/Virtio_Block.thy ===== *)
theory Virtio_Block
  imports Queue_Loop Block_Throttle
begin

text \<open>
  The block device, \<^verbatim>\<open>src/lingcore/src/devices/virtio/block.rs\<close>.  A request chain is a
  16-byte header, data buffers and a writable status byte.

  The host file and the clock are the state \<open>'w\<close>, reached by the operations of
  \<open>disk_ops\<close>: \<^verbatim>\<open>seek\<close>, \<^verbatim>\<open>fdatasync\<close>, a \<^verbatim>\<open>read\<close> into guest RAM, a \<^verbatim>\<open>write\<close> from it
  and a reading of the clock.  What the device relies on of them is the locale
  \<open>disk_host\<close>: a read into guest RAM writes only the buffer it was given.

  \<^verbatim>\<open>moved\<close> and the length reported are \<^verbatim>\<open>u32\<close> sums which the source does not check; the
  words here wrap as a release build does.

  The lemmas show that a request outside the capacity, of a wrong direction or a partial
  sector is refused before the disk is touched, that a read-only disk is never written, and
  that the device keeps the contract of \<open>chain_server\<close>.
\<close>

section \<open>Definitions\<close>

definition BLOCK_DEVICE_ID :: u32 where "BLOCK_DEVICE_ID = 2"
definition SECTOR :: u64 where "SECTOR = 512"
definition BLOCK_HEADER_SIZE :: u32 where "BLOCK_HEADER_SIZE = 16"
definition FEATURE_RO :: u64 where "FEATURE_RO = push_bit 5 1"
definition FEATURE_FLUSH :: u64 where "FEATURE_FLUSH = push_bit 9 1"
definition REQUEST_IN :: u32 where "REQUEST_IN = 0"
definition REQUEST_OUT :: u32 where "REQUEST_OUT = 1"
definition REQUEST_FLUSH :: u32 where "REQUEST_FLUSH = 4"
definition BLK_OK :: u8 where "BLK_OK = 0"
definition IOERR :: u8 where "IOERR = 1"
definition UNSUPPORTED :: u8 where "UNSUPPORTED = 2"

lemmas block_consts = BLOCK_DEVICE_ID_def SECTOR_def BLOCK_HEADER_SIZE_def FEATURE_RO_def
  FEATURE_FLUSH_def REQUEST_IN_def REQUEST_OUT_def REQUEST_FLUSH_def BLK_OK_def IOERR_def
  UNSUPPORTED_def

record ('m, 'w) disk_ops =
  disk_seek :: "u64 \<Rightarrow> 'w \<Rightarrow> 'w \<times> bool"
  disk_sync :: "'w \<Rightarrow> 'w \<times> bool"
  disk_read :: "('m, 'w) reader"
  disk_write :: "'m \<Rightarrow> u64 \<Rightarrow> nat \<Rightarrow> 'w \<Rightarrow> 'w \<times> bool"
  disk_now :: "'w \<Rightarrow> 'w \<times> rat"

record 'w block =
  disk :: 'w
  sectors :: u64
  disk_writable :: bool
  b_throttle :: "throttle option"
  b_due :: "rat option"
  deferred :: u64

text \<open>\<open>extent\<close> is the result of the seek to the end of the file.\<close>

definition block_new :: "'w \<times> u64 option \<Rightarrow> bool \<Rightarrow> 'w block option" where
  "block_new seeked w =
     (case seeked of
        (_, None) \<Rightarrow> None
      | (d, Some extent) \<Rightarrow>
          Some \<lparr>disk = d, sectors = extent div SECTOR, disk_writable = w, b_throttle = None,
                b_due = None, deferred = 0\<rparr>)"

definition at_rate :: "('m, 'w) disk_ops \<Rightarrow> rate \<Rightarrow> 'w block \<Rightarrow> 'w block" where
  "at_rate ops r b =
     (case throttle_new (disk_now ops) r (disk b) of (w, t) \<Rightarrow> b\<lparr>disk := w, b_throttle := Some t\<rparr>)"

record blk_header =
  h_kind :: u32
  h_sector :: u64

definition block_features :: "'w block \<Rightarrow> u64" where
  "block_features b = (if disk_writable b then FEATURE_FLUSH else FEATURE_FLUSH OR FEATURE_RO)"

definition block_configuration :: "'w block \<Rightarrow> u64 option" where
  "block_configuration b = Some (sectors b)"

definition block_read_config :: "'w block \<Rightarrow> u64 \<Rightarrow> u8 \<Rightarrow> u64" where
  "block_read_config b off sz =
     (let capacity = to_le 8 (sectors b);
          byte = (\<lambda>i. if i < min (unat sz) 8
                      then (let pos = unat (saturating_add off (of_nat i))
                            in if pos < length capacity then capacity ! pos else 0)
                      else 0)
      in from_le (map byte [0..<8]))"

definition payload :: "chain \<Rightarrow> u64" where
  "payload c = sum_list (map (\<lambda>d. ucast (len d)) (butlast (tl (descriptors c))))"

definition answer_in :: "chain \<Rightarrow> u64 option" where
  "answer_in c =
     (if descriptors c = [] then None
      else let l = last (descriptors c) in
           if length (descriptors c) < 2 \<or> \<not> writable l \<or> len l = 0 then None
           else Some (addr l))"

definition read_header :: "'m vm \<Rightarrow> 'm \<Rightarrow> chain \<Rightarrow> blk_header option" where
  "read_header vm m c =
     (case descriptors c of
        [] \<Rightarrow> None
      | first # _ \<Rightarrow>
          if writable first \<or> len first < BLOCK_HEADER_SIZE then None
          else case ram_read vm m (addr first) 16 of
                 Inl _ \<Rightarrow> None
               | Inr bs \<Rightarrow> Some \<lparr>h_kind = from_le (bslice 0 4 bs), h_sector = from_le (bslice 8 8 bs)\<rparr>)"

text \<open>The loop of \<^verbatim>\<open>transfer\<close> over the data buffers, \<open>into\<close> the guest or out of it.\<close>

primrec move_loop ::
  "('m, 'w) disk_ops \<Rightarrow> bool \<Rightarrow> descriptor list \<Rightarrow> 'm \<Rightarrow> 'w \<Rightarrow> u32 \<Rightarrow> 'm \<times> 'w \<times> u8 \<times> u32" where
  "move_loop ops into [] m w moved = (m, w, BLK_OK, moved)"
| "move_loop ops into (d # ds) m w moved =
     (let want = unat (len d) in
      if into
      then (case fill_from (disk_read ops) m w (addr d) want of
              (m', w', Inl _) \<Rightarrow> (m', w', IOERR, moved)
            | (m', w', Inr taken) \<Rightarrow>
                (if taken = want then move_loop ops into ds m' w' (moved + len d)
                 else (m', w', IOERR, moved)))
      else (case disk_write ops m (addr d) want w of
              (w', ok) \<Rightarrow> (if ok then move_loop ops into ds m w' moved else (m, w', IOERR, moved))))"

definition transfer ::
  "('m, 'w) disk_ops \<Rightarrow> 'w block \<Rightarrow> u64 \<Rightarrow> descriptor list \<Rightarrow> 'm \<Rightarrow> bool \<Rightarrow> 'm \<times> 'w \<times> u8 \<times> u32" where
  "transfer ops b sector data m into =
     (if list_ex (\<lambda>d. writable d \<noteq> into) data then (m, disk b, UNSUPPORTED, 0)
      else let total_len = sum_list (map (\<lambda>d. ucast (len d)) data) :: u64 in
      if total_len mod SECTOR \<noteq> 0 then (m, disk b, UNSUPPORTED, 0)
      else case checked_add sector (total_len div SECTOR) of
             None \<Rightarrow> (m, disk b, IOERR, 0)
           | Some last_sector \<Rightarrow>
               if sectors b < last_sector then (m, disk b, IOERR, 0)
               else case disk_seek ops (sector * SECTOR) (disk b) of
                      (w, False) \<Rightarrow> (m, w, IOERR, 0)
                    | (w, True) \<Rightarrow> move_loop ops into data m w 0)"

definition serve :: "'m vm \<Rightarrow> ('m, 'w) disk_ops \<Rightarrow> 'w block \<Rightarrow> chain \<Rightarrow> 'm \<Rightarrow> 'm \<times> 'w \<times> u8 \<times> u32" where
  "serve vm ops b c m =
     (case read_header vm m c of
        None \<Rightarrow> (m, disk b, UNSUPPORTED, 0)
      | Some h \<Rightarrow>
          let data = butlast (tl (descriptors c)) in
          if h_kind h = REQUEST_IN then transfer ops b (h_sector h) data m True
          else if h_kind h = REQUEST_OUT \<and> \<not> disk_writable b then (m, disk b, IOERR, 0)
          else if h_kind h = REQUEST_OUT then transfer ops b (h_sector h) data m False
          else if h_kind h = REQUEST_FLUSH
          then (case disk_sync ops (disk b) of (w, ok) \<Rightarrow> (m, w, if ok then BLK_OK else IOERR, 0))
          else (m, disk b, UNSUPPORTED, 0))"

text \<open>The condition on \<^verbatim>\<open>self.throttle\<close> in \<^verbatim>\<open>notify\<close>.\<close>

definition throttle_ask ::
  "('m, 'w) disk_ops \<Rightarrow> u64 \<Rightarrow> 'w block \<Rightarrow> 'w block \<times> rat option" where
  "throttle_ask ops cost b =
     (case b_throttle b of
        None \<Rightarrow> (b, None)
      | Some t \<Rightarrow>
          (case throttle_take (disk_now ops) cost t (disk b) of (w, t', wait) \<Rightarrow>
            (b\<lparr>disk := w, b_throttle := Some t'\<rparr>, wait)))"

definition block_body :: "'m vm \<Rightarrow> ('m, 'w) disk_ops \<Rightarrow> ('m, 'w block) body" where
  "block_body vm ops b m q c =
     (case answer_in c of
        None \<Rightarrow> (b, m, q, Inl Request)
      | Some answer \<Rightarrow>
          (case throttle_ask ops (payload c) b of
             (b1, Some wait) \<Rightarrow>
               (case disk_now ops (disk b1) of (w, now) \<Rightarrow>
                 (b1\<lparr>disk := w, b_due := Some (now + wait), deferred := deferred b1 + 1\<rparr>,
                  m, undo_pop q, Inr False))
           | (b1, None) \<Rightarrow>
               (case serve vm ops b1 c m of
                  (m1, w, status, written) \<Rightarrow>
                    (case ram_write vm m1 answer [status] of
                       (m2, Inl _) \<Rightarrow> (b1\<lparr>disk := w\<rparr>, m2, q, Inl (Ring answer))
                     | (m2, Inr _) \<Rightarrow>
                         (case add_used vm m2 q (head c) (written + 1) of
                            (m3, q', Inl e) \<Rightarrow> (b1\<lparr>disk := w\<rparr>, m3, q', Inl e)
                          | (m3, q', Inr _) \<Rightarrow> (b1\<lparr>disk := w\<rparr>, m3, q', Inr True))))))"

definition block_notify ::
  "nat \<Rightarrow> 'm vm \<Rightarrow> ('m, 'w) disk_ops \<Rightarrow> 'w block \<Rightarrow> 'm \<Rightarrow> queue \<Rightarrow>
   ('w block \<times> 'm \<times> queue \<times> (unit, virtio_error) result) option" where
  "block_notify fuel vm ops b m q = pop_loop fuel vm (block_body vm ops) (b\<lparr>b_due := None\<rparr>) m q"

definition block_wake_after :: "rat \<Rightarrow> 'w block \<Rightarrow> rat option" where
  "block_wake_after now b = map_option (\<lambda>due. max 0 (due - now)) (b_due b)"

section \<open>The contract of the disk\<close>

locale disk_host = vm_memory vm for vm :: "'m vm" +
  fixes ops :: "('m, 'w) disk_ops"
  assumes read_frame:
      "disk_read ops m w a n = (m', w', r) \<Longrightarrow> apart a n b k \<Longrightarrow> ram_read vm m' b k = ram_read vm m b k"
    and read_range:
      "disk_read ops m w a n = (m', w', r) \<Longrightarrow> vm_check_range vm m' b k = vm_check_range vm m b k"
begin

lemma move_loop_range:
  "move_loop ops into ds m w n = (m', w', s, n') \<Longrightarrow> vm_check_range vm m' b k = vm_check_range vm m b k"
proof (induction ds arbitrary: m w n)
  case (Cons d ds)
  then show ?case
    by (auto simp: Let_def fill_from_def read_range split: result_splits)
qed simp

lemma move_loop_frame:
  "move_loop ops into ds m w n = (m', w', s, n') \<Longrightarrow> list_all (\<lambda>d. writable d = into) ds \<Longrightarrow>
   buffers_clear ds b k \<Longrightarrow> ram_read vm m' b k = ram_read vm m b k"
proof (induction ds arbitrary: m w n)
  case (Cons d ds)
  have "apart (addr d) (unat (len d)) b k" if "into"
    using Cons.prems that by (simp add: buffers_clear_def)
  with Cons show ?case
    by (auto simp: Let_def fill_from_def read_frame buffers_clear_def split: result_splits)
qed simp

lemma serve_range:
  "serve vm ops d c m = (m', w', s, n') \<Longrightarrow> vm_check_range vm m' b k = vm_check_range vm m b k"
  by (auto simp: serve_def transfer_def Let_def move_loop_range split: result_splits bool.splits)

lemma serve_frame:
  assumes "serve vm ops d c m = (m', w', s, n')" "buffers_clear (descriptors c) b k"
  shows "ram_read vm m' b k = ram_read vm m b k"
proof -
  have sub: "set (butlast (tl (descriptors c))) \<subseteq> set (descriptors c)"
    by (cases "descriptors c") (auto dest: in_set_butlastD)
  have clear: "buffers_clear (butlast (tl (descriptors c))) b k"
    using assms(2) sub by (auto simp: buffers_clear_def list_all_iff)
  have "ram_read vm m' b k = ram_read vm m b k"
    if "transfer ops d sec (butlast (tl (descriptors c))) m into = (m', w', s, n')" for sec into
    using that clear
    by (auto simp: transfer_def Let_def list_ex_iff list_all_iff split: result_splits bool.splits
        intro: move_loop_frame)
  with assms(1) show ?thesis by (auto simp: serve_def Let_def split: result_splits)
qed

end

lemma answer_in_Some:
  assumes "answer_in c = Some a"
  obtains d where "d \<in> set (descriptors c)" "writable d" "addr d = a" "0 < unat (len d)"
  by (rule that [of "last (descriptors c)"])
    (use assms in \<open>auto simp: answer_in_def Let_def unat_gt_0 split: if_splits\<close>)

sublocale disk_host \<subseteq> chain_server vm "block_body vm ops"
proof
  fix d :: "'w block" and m q c d' m' q' r b k
  assume body: "block_body vm ops d m q c = (d', m', q', r)"
  show "vm_check_range vm m' b k = vm_check_range vm m b k"
    using body by (auto simp: block_body_def add_used_range ram_write_range serve_range split: result_splits)
  show "same_rings q q'"
    using body by (auto simp: block_body_def dest: add_used_same_rings split: result_splits)
next
  fix d :: "'w block" and m q c d' m' q' r b k
  assume body: "block_body vm ops d m q c = (d', m', q', r)"
    and used: "queue_wf q" "unat (used_ring q) + used_bytes q < 2 ^ 64"
      "apart (used_ring q) (used_bytes q) b k"
    and clear: "buffers_clear (descriptors c) b k"
  have status: "apart a 1 b k" if "answer_in c = Some a" for a
  proof -
    from that obtain x where "x \<in> set (descriptors c)" "writable x" "addr x = a" "0 < unat (len x)"
      by (rule answer_in_Some)
    with clear show ?thesis by (auto simp: buffers_clear_def list_all_iff apart_def)
  qed
  have written: "ram_read vm m2 b k = ram_read vm m1 b k"
    if "answer_in c = Some a" "ram_write vm m1 a [s] = (m2, r2)" for a s m1 m2 r2
    using ram_write_apart [OF that(2)] status [OF that(1)] by simp
  show "ram_read vm m' b k = ram_read vm m b k"
    using body add_used_apart [OF used] serve_frame [OF _ clear] written
    by (auto simp: block_body_def split: result_splits)
next
  fix d :: "'w block" and m q c d' m' q'
  assume "block_body vm ops d m q c = (d', m', q', Inr True)"
  then show "cursors q' = (next_avail q, next_used q + 1)"
    by (auto simp: block_body_def cursors_def dest: add_used_ok_cursors split: result_splits)
next
  fix d :: "'w block" and m q c d' m' q'
  assume "block_body vm ops d m q c = (d', m', q', Inr False)"
  then show "cursors q' = (next_avail q - 1, next_used q)"
    by (auto simp: block_body_def cursors_def undo_pop_def split: result_splits)
qed

context disk_host
begin

lemma block_ends: "layout_ok vm m q \<Longrightarrow> pending_count vm m q < fuel \<Longrightarrow> block_notify fuel vm ops b m q \<noteq> None"
  by (simp add: block_notify_def loop_ends)

lemma block_accounts:
  "block_notify fuel vm ops b m q = Some (b', m', q', Inr ()) \<Longrightarrow>
   same_rings q q' \<and> next_used q' - next_used q = next_avail q' - next_avail q"
  by (auto simp: block_notify_def dest: loop_accounts)

end

section \<open>A disk in a file\<close>

text \<open>A file of bytes with a position, over the memory of regions.  The clock stands
  still.\<close>

record disk_file =
  content :: bytes
  position :: nat

definition file_read :: "(flat_ram, disk_file) reader" where
  "file_read m w a n =
     (let data = bslice (position w) n (content w) in
      case flat_write m a data of
        (m', False) \<Rightarrow> (m', w, None)
      | (m', True) \<Rightarrow> (m', w\<lparr>position := position w + length data\<rparr>, Some (length data)))"

definition file_write :: "flat_ram \<Rightarrow> u64 \<Rightarrow> nat \<Rightarrow> disk_file \<Rightarrow> disk_file \<times> bool" where
  "file_write m a n w =
     (case flat_read m a n of
        None \<Rightarrow> (w, False)
      | Some data \<Rightarrow> (\<lparr>content = bsplice (position w) data (content w), position = position w + n\<rparr>, True))"

definition file_ops :: "(flat_ram, disk_file) disk_ops" where
  "file_ops = \<lparr>disk_seek = (\<lambda>p w. (w\<lparr>position := unat p\<rparr>, True)), disk_sync = (\<lambda>w. (w, True)),
     disk_read = file_read, disk_write = file_write, disk_now = (\<lambda>w. (w, 0))\<rparr>"

interpretation file_disk: disk_host flat_vm file_ops
proof
  fix m w a n m' w' r b k
  assume read: "disk_read file_ops m w a n = (m', w', r)"
  then have m': "m' = fst (flat_write m a (bslice (position w) n (content w)))"
    by (auto simp: file_ops_def file_read_def Let_def split: prod.splits bool.splits)
  then show "vm_check_range flat_vm m' b k = vm_check_range flat_vm m b k" by simp
  assume "apart a n b k"
  then have "apart a (length (bslice (position w) n (content w))) b k" by (auto simp: apart_def)
  from flat.write_apart [OF this, of m] m'
  show "ram_read flat_vm m' b k = ram_read flat_vm m b k" by (simp add: ram_read_def)
qed

section \<open>Requests\<close>

text \<open>The checks a transfer makes before the disk is touched.\<close>

definition transfer_valid :: "'w block \<Rightarrow> u64 \<Rightarrow> descriptor list \<Rightarrow> bool \<Rightarrow> bool" where
  "transfer_valid b sector data into \<longleftrightarrow>
     (let total_len = sum_list (map (\<lambda>d. ucast (len d)) data) :: u64 in
      list_all (\<lambda>d. writable d = into) data \<and> unat total_len mod 512 = 0 \<and>
      unat sector + unat total_len div 512 \<le> unat (sectors b))"

lemma sector_multiple:
  fixes t :: u64
  shows "t mod SECTOR = 0 \<longleftrightarrow> unat t mod 512 = 0" "unat (t div SECTOR) = unat t div 512"
  by (simp_all add: SECTOR_def unat_div unat_mod unat_eq_zero [symmetric, of "t mod 512"])

lemma capacity_check:
  fixes a n s :: u64
  shows "(case checked_add a n of None \<Rightarrow> x | Some e \<Rightarrow> if s < e then x else y) =
    (if unat a + unat n \<le> unat s then y else x)"
proof (cases "unat a + unat n < 2 ^ 64")
  case True
  then have "unat (a + n) = unat a + unat n" by (simp add: unat_word_ariths)
  with True show ?thesis by (simp add: checked_add_def word_less_nat_alt not_le)
next
  case False
  moreover have "unat s < 2 ^ 64" using unsigned_less [of s, where 'a = nat] by simp
  ultimately show ?thesis by (simp add: checked_add_def)
qed

lemma transfer_unfold:
  "transfer ops b sector data m into =
     (if list_ex (\<lambda>d. writable d \<noteq> into) data then (m, disk b, UNSUPPORTED, 0)
      else let total_len = sum_list (map (\<lambda>d. ucast (len d)) data) :: u64 in
      if unat total_len mod 512 \<noteq> 0 then (m, disk b, UNSUPPORTED, 0)
      else if unat sector + unat total_len div 512 \<le> unat (sectors b)
      then (case disk_seek ops (sector * SECTOR) (disk b) of
              (w, False) \<Rightarrow> (m, w, IOERR, 0)
            | (w, True) \<Rightarrow> move_loop ops into data m w 0)
      else (m, disk b, IOERR, 0))"
  unfolding transfer_def Let_def capacity_check sector_multiple ..

lemma transfer_accepts:
  "transfer_valid b sector data into \<Longrightarrow>
   transfer ops b sector data m into =
     (case disk_seek ops (sector * SECTOR) (disk b) of
        (w, False) \<Rightarrow> (m, w, IOERR, 0)
      | (w, True) \<Rightarrow> move_loop ops into data m w 0)"
  by (auto simp: transfer_unfold transfer_valid_def Let_def list_ex_iff list_all_iff)

lemma transfer_refuses:
  "\<not> transfer_valid b sector data into \<Longrightarrow>
   \<exists>s \<in> {UNSUPPORTED, IOERR}. transfer ops b sector data m into = (m, disk b, s, 0)"
  by (auto simp: transfer_unfold transfer_valid_def Let_def list_ex_iff list_all_iff)

lemma move_loop_status: "move_loop ops into ds m w n = (m', w', s, n') \<Longrightarrow> s \<in> {BLK_OK, IOERR}"
  by (induction ds arbitrary: m w n) (auto simp: Let_def split: result_splits)

text \<open>What a successful request has moved: every buffer in full, so the length reported is
  the data for a read and zero for a write.\<close>

lemma move_loop_ok:
  "move_loop ops into ds m w n = (m', w', BLK_OK, n') \<Longrightarrow>
   n' = (if into then n + sum_list (map len ds) else n)"
proof (induction ds arbitrary: m w n)
  case (Cons d ds)
  have "into \<Longrightarrow> n' = n + len d + sum_list (map len ds)" if "move_loop ops into ds m1 w1 (n + len d) = (m', w', BLK_OK, n')" for m1 w1
    using Cons.IH [OF that] by simp
  with Cons show ?case
    by (fastforce simp: Let_def IOERR_def BLK_OK_def add.assoc split: result_splits)
qed simp

text \<open>No operation but a valid write request calls \<^verbatim>\<open>drain_to\<close>.\<close>

lemma move_loop_into_pure:
  "move_loop (ops\<lparr>disk_write := f\<rparr>) True ds m w n = move_loop ops True ds m w n"
  by (induction ds arbitrary: m w n) (auto simp: Let_def split: result_splits)

lemma transfer_into_pure:
  "transfer (ops\<lparr>disk_write := f\<rparr>) b sector data m True = transfer ops b sector data m True"
  by (auto simp: transfer_unfold Let_def move_loop_into_pure split: prod.splits bool.splits)

section \<open>Properties of the block device\<close>

definition demo_block :: "disk_file block" where
  "demo_block = \<lparr>disk = \<lparr>content = replicate 512 7, position = 0\<rparr>, sectors = 1, disk_writable = False,
     b_throttle = None, b_due = None, deferred = 0\<rparr>"

text \<open>Property C5. On rings laid out as a driver lays them out, a notification of the block
  device ends within the pending chains, whatever the disk answers, and one that returns
  without an error has reported every request it took: a request held back by the rate
  limit is back in the ring.\<close>

theorem block_notify_ends_and_accounts:
  assumes "disk_host vm ops" "layout_ok vm m q" "pending_count vm m q < fuel"
  shows "\<exists>b' m' q' r. block_notify fuel vm ops b m q = Some (b', m', q', r) \<and>
    (r = Inr () \<longrightarrow> same_rings q q' \<and> next_used q' - next_used q = next_avail q' - next_avail q)"
proof -
  obtain b' m' q' r where res: "block_notify fuel vm ops b m q = Some (b', m', q', r)"
    using disk_host.block_ends [OF assms, of b]
    by (metis option.exhaust prod_cases4)
  with disk_host.block_accounts [OF assms(1)] show ?thesis by blast
qed

text \<open>Property C6. A data request whose buffers face the wrong way, do not make whole sectors
  or reach past the capacity is refused with neither the disk nor guest RAM touched; one
  answered \<^verbatim>\<open>OK\<close> passed all of these checks and moved every buffer in full.\<close>

theorem transfer_stays_in_capacity:
  "(\<not> transfer_valid b sector data into \<longrightarrow>
      (\<exists>s \<in> {UNSUPPORTED, IOERR}. transfer ops b sector data m into = (m, disk b, s, 0))) \<and>
   (\<forall>m' w' n. transfer ops b sector data m into = (m', w', BLK_OK, n) \<longrightarrow>
      transfer_valid b sector data into \<and> n = (if into then sum_list (map len data) else 0))"
proof (cases "transfer_valid b sector data into")
  case True
  have "n = (if into then sum_list (map len data) else 0)"
    if "transfer ops b sector data m into = (m', w', BLK_OK, n)" for m' w' n
    using that move_loop_ok [of ops into data m _ 0 m' w' n] unfolding transfer_accepts [OF True]
    by (auto simp: BLK_OK_def IOERR_def split: prod.splits bool.splits)
  with True show ?thesis by blast
next
  case False
  with transfer_refuses [OF False, of ops m] show ?thesis
    by (auto simp: UNSUPPORTED_def IOERR_def BLK_OK_def)
qed

theorem transfer_stays_in_capacity_witness:
  "\<exists>s \<in> {UNSUPPORTED, IOERR}. transfer file_ops demo_block 1 [\<lparr>addr = 0, len = 512, d_flags = 2, d_next = 0\<rparr>]
     demo_ram True = (demo_ram, disk demo_block, s, 0)"
  using transfer_stays_in_capacity [of demo_block 1 "[\<lparr>addr = 0, len = 512, d_flags = 2, d_next = 0\<rparr>]" True
      file_ops demo_ram]
  by (simp add: transfer_valid_def demo_block_def)

text \<open>Property C7. A disk offered read-only is never written: whatever request arrives,
  serving it is the same whether or not a write to the file would change it.\<close>

theorem read_only_disk_is_not_written:
  assumes "\<not> disk_writable b"
  shows "serve vm (ops\<lparr>disk_write := f\<rparr>) b c m = serve vm ops b c m"
  using assms by (auto simp: serve_def Let_def transfer_into_pure split: option.splits)

theorem read_only_disk_is_not_written_witness:
  "serve flat_vm (file_ops\<lparr>disk_write := \<lambda>m a n w. (w\<lparr>content := []\<rparr>, True)\<rparr>) demo_block demo_chain demo_ram =
   serve flat_vm file_ops demo_block demo_chain demo_ram"
  by (rule read_only_disk_is_not_written) (simp add: demo_block_def)

theorem block_notify_ends_and_accounts_witness:
  "\<exists>b' m' q' r. block_notify 2 flat_vm file_ops demo_block demo_ram demo_queue = Some (b', m', q', r)"
  using block_notify_ends_and_accounts [OF file_disk.disk_host_axioms demo_layout, of 2 demo_block]
  by (fastforce simp: demo_pending)

end
