(* ===== verification/Virtio_Placed.thy ===== *)
theory Virtio_Placed
  imports Mmio_Transport Virtio_Balloon Virtio_Block
begin

text \<open>
  Devices behind the transport: the trait implementations of the block, balloon and entropy
  devices as values of the record \<open>vdev\<close>, the interpretations of \<open>virtio_device\<close> for them,
  and the properties of the transport.

  A notification runs its loop with fuel for every chain a ring can publish: the available
  index is 16 bits wide, so fewer than \<open>2 ^ 16\<close> chains are pending.  On rings a driver lays
  out, that is enough; where the fuel runs out the call is taken to return without effect,
  which stands for a device thread that a hostile guest keeps busy.
\<close>

section \<open>The devices\<close>

definition ring_fuel :: nat where "ring_fuel = 2 ^ 16"

definition served :: "'d \<Rightarrow> 'm \<Rightarrow> queue \<Rightarrow> ('d \<times> 'm \<times> queue \<times> (unit, virtio_error) result) option \<Rightarrow>
    'd \<times> 'm \<times> queue \<times> (unit, virtio_error) result" where
  "served d m q x = (case x of None \<Rightarrow> (d, m, q, Ok ()) | Some y \<Rightarrow> y)"

definition entropy_vdev :: "'m vm \<Rightarrow> ('m, 's) reader \<Rightarrow> ('s, 'm) vdev" where
  "entropy_vdev vm rd =
     \<lparr>v_device_id = (\<lambda>_. ENTROPY_DEVICE_ID), v_features = (\<lambda>_. 0), v_queue_count = (\<lambda>_. 1),
      v_queue_size_max = (\<lambda>_. 256), v_read_config = (\<lambda>_ _ d. (d, 0)), v_write_config = (\<lambda>_ _ _ d. d),
      v_configuration = (\<lambda>_. None),
      v_notify = (\<lambda>_ d m q. served d m q (entropy_notify ring_fuel vm rd d m q)),
      v_restored = (\<lambda>_ d m q. (d, m, q, Ok ()))\<rparr>"

definition balloon_vdev :: "'m vm \<Rightarrow> 'm dropper \<Rightarrow> (balloon, 'm) vdev" where
  "balloon_vdev vm dr =
     \<lparr>v_device_id = (\<lambda>_. BALLOON_DEVICE_ID), v_features = (\<lambda>_. FEATURE_REPORTING), v_queue_count = (\<lambda>_. 3),
      v_queue_size_max = (\<lambda>_. 256), v_read_config = (\<lambda>_ _ d. (d, 0)), v_write_config = (\<lambda>_ _ _ d. d),
      v_configuration = (\<lambda>_. None),
      v_notify = (\<lambda>i d m q. served d m q (balloon_notify ring_fuel vm dr i d m q)),
      v_restored = (\<lambda>i d m q. served d m q (balloon_notify ring_fuel vm dr i d m q))\<rparr>"

definition block_vdev :: "'m vm \<Rightarrow> ('m, 'w) disk_ops \<Rightarrow> ('w block, 'm) vdev" where
  "block_vdev vm ops =
     \<lparr>v_device_id = (\<lambda>_. BLOCK_DEVICE_ID), v_features = block_features, v_queue_count = (\<lambda>_. 1),
      v_queue_size_max = (\<lambda>_. 256), v_read_config = (\<lambda>off sz d. (d, block_read_config d off sz)),
      v_write_config = (\<lambda>_ _ _ d. d), v_configuration = block_configuration,
      v_notify = (\<lambda>_ d m q. served d m q (block_notify ring_fuel vm ops d m q)),
      v_restored = (\<lambda>_ d m q. served d m q (block_notify ring_fuel vm ops d m q))\<rparr>"

lemma served_rings:
  assumes "\<And>d' m' q' r. x = Some (d', m', q', r) \<Longrightarrow> same_rings q q'" "served d m q x = (d', m', q', r)"
  shows "same_rings q q'"
  using assms by (cases x) (auto simp: served_def)

context entropy_source
begin

lemma entropy_virtio: "virtio_device (entropy_vdev vm rd) 256"
  by unfold_locales (auto simp: entropy_vdev_def entropy_notify_def dest!: served_rings [rotated] loop_rings)

end

context dropper
begin

lemma balloon_rings: "balloon_notify fuel vm dr index d m q = Some (d', m', q', r) \<Longrightarrow> same_rings q q'"
  by (auto simp: balloon_notify_def dest: loop_rings)

end

context disk_host
begin

lemma block_virtio: "virtio_device (block_vdev vm ops) 256"
  by unfold_locales (auto simp: block_vdev_def block_notify_def dest!: served_rings [rotated] loop_rings)

end

lemma balloon_virtio:
  assumes "dropper vm dr"
  shows "virtio_device (balloon_vdev vm dr) 256"
  by unfold_locales
    (auto simp: balloon_vdev_def dest!: served_rings [rotated] intro: dropper.balloon_rings [OF assms])

interpretation entropy_placed: virtio_device "entropy_vdev flat_vm list_read" 256
  by (rule list_entropy.entropy_virtio)

interpretation balloon_placed: virtio_device "balloon_vdev paged_vm (dropped paged_vm paged_ops 0x1000)" 256
  by (rule balloon_virtio [OF paged_balloon.dropper_axioms])

interpretation block_placed: virtio_device "block_vdev flat_vm file_ops" 256
  by (rule file_disk.block_virtio)

section \<open>Sequences of accesses\<close>

datatype access = Load u64 u8 | Store u64 u8 u64 | Kick u16

definition access_step ::
  "('d, 'm) vdev \<Rightarrow> 'w sender \<Rightarrow> ('d, 'm, 'w) transport \<Rightarrow> access \<Rightarrow> ('d, 'm, 'w) transport" where
  "access_step v send t a =
     (case a of
        Load off sz \<Rightarrow> fst (mmio_read v off sz t)
      | Store off sz x \<Rightarrow> fst (mmio_write v send off sz x t)
      | Kick i \<Rightarrow> fst (notify v send i t))"

context virtio_device
begin

lemma accesses_ok: "transport_ok mx t \<Longrightarrow> transport_ok mx (foldl (access_step v send) t as)"
proof (induction as arbitrary: t)
  case (Cons a as)
  then show ?case by (cases a) (auto simp: access_step_def intro: wf_intros)
qed simp

end

section \<open>Restoring a transport\<close>

text \<open>Registers and queues agree as long as a driver does not rewrite the registers of a
  queue it has made ready.\<close>

definition slot_sync :: "slot \<Rightarrow> bool" where
  "slot_sync s \<longleftrightarrow> (\<forall>q. sl_queue s = Some q \<longrightarrow> queue_wf q \<and> q_size q = sl_size s \<and> desc_table q = sl_desc s \<and>
     avail_ring q = sl_avail s \<and> used_ring q = sl_used s)"

lemma slot_taken_state: "slot_sync s \<Longrightarrow> slot_taken (slot_state_of s) = (s, Inr ())"
proof (cases "sl_queue s")
  case (Some q)
  assume sync: "slot_sync s"
  then have "queue_new (sl_size s) (sl_desc s) (sl_avail s) (sl_used s) =
      Inr \<lparr>q_size = sl_size s, desc_table = sl_desc s, avail_ring = sl_avail s, used_ring = sl_used s,
           next_avail = 0, next_used = 0\<rparr>"
    using Some by (auto simp: slot_sync_def queue_new_def queue_wf_def)
  moreover have "q = \<lparr>q_size = sl_size s, desc_table = sl_desc s, avail_ring = sl_avail s, used_ring = sl_used s,
      next_avail = next_avail q, next_used = next_used q\<rparr>"
    using sync Some by (simp add: slot_sync_def)
  ultimately show ?thesis
    using Some by (cases s) (simp add: slot_taken_def slot_state_of_def set_cursors_def cursors_def Let_def)
qed (cases s, simp add: slot_taken_def slot_state_of_def)

lemma take_slots_state:
  "list_all slot_sync ss \<Longrightarrow> length ss0 = length ss \<Longrightarrow> take_slots ss0 (map slot_state_of ss) = (ss, Inr ())"
proof (induction ss arbitrary: ss0)
  case (Cons s ss)
  then show ?case by (cases ss0) (simp_all add: slot_taken_state)
qed simp

section \<open>Properties\<close>


text \<open>Setting \<^verbatim>\<open>FEATURES_OK\<close> without having accepted \<^verbatim>\<open>VIRTIO_F_VERSION_1\<close> leaves
  \<^verbatim>\<open>FAILED\<close> in the status; with it accepted the status reads back as written; writing zero
  gives the registers and queues of a fresh transport back, counters and configuration
  generation apart.\<close>

lemma status_handshake:
  "(x \<noteq> 0 \<longrightarrow> bit x 3 \<longrightarrow> \<not> bit (driver_features t) 32 \<longrightarrow> bit (status (set_status x t)) 7) \<and>
   (x \<noteq> 0 \<longrightarrow> bit (driver_features t) 32 \<longrightarrow> status (set_status x t) = x) \<and>
   (length (queues t) = unat (v_queue_count v (t_device t)) \<longrightarrow>
     set_status 0 t = (transport_new v (t_device t) (t_ram t) (t_line t))
       \<lparr>config_generation := config_generation t, configuration := configuration t,
        notified := notified t, faults := faults t\<rparr>)"
proof -
  have v1: "f AND VERSION_1 = 0 \<longleftrightarrow> \<not> bit f 32" for f
    using and_exp_eq_0_iff_not_bit [of f 32] by (simp add: VERSION_1_def)
  have ok: "y AND STATUS_FEATURES_OK = 0 \<longleftrightarrow> \<not> bit y 3" for y
    using and_exp_eq_0_iff_not_bit [of y 3] by (simp add: STATUS_FEATURES_OK_def)
  have failed: "bit STATUS_FAILED 7"
    using bit_exp_iff [of 7 7, where 'a = "32 word"] by (simp add: STATUS_FAILED_def)
  show ?thesis
    by (auto simp: set_status_def v1 ok bit_or_iff failed reset_def transport_new_def map_replicate_const)
qed

text \<open>A notification raises the line exactly if the device served the queue without
  an error and moved the used index, and the used-ring bit of the interrupt status is then
  set; an error sets \<^verbatim>\<open>DEVICE_NEEDS_RESET\<close> and does not end the run.\<close>

lemma notify_raises_for_used_chains:
  assumes "unat i < length (queues t)" "sl_queue (queues t ! unat i) = Some q"
    and "v_notify v i (t_device t) (t_ram t) q = (d, m, q', r)"
  shows "(r = Inr () \<and> snd (cursors q') \<noteq> snd (cursors q) \<longrightarrow>
      t_line (fst (notify v send i t)) = fst (send (t_line t)) \<and> snd (notify v send i t) = snd (send (t_line t)) \<and>
      bit (interrupt_status (fst (notify v send i t))) 0) \<and>
    (\<not> (r = Inr () \<and> snd (cursors q') \<noteq> snd (cursors q)) \<longrightarrow>
      t_line (fst (notify v send i t)) = t_line t \<and> snd (notify v send i t) = Inr () \<and>
      interrupt_status (fst (notify v send i t)) = interrupt_status t) \<and>
    (\<forall>e. r = Inl e \<longrightarrow> bit (status (fst (notify v send i t))) 6)"
proof -
  have bits: "bit STATUS_NEEDS_RESET 6" "bit INTERRUPT_VRING 0"
    using bit_exp_iff [of 6 6, where 'a = "32 word"]
    by (simp_all add: STATUS_NEEDS_RESET_def INTERRUPT_VRING_def)
  show ?thesis
    using assms by (cases r) (auto simp: notify_def Let_def bit_or_iff bits split: prod.splits)
qed

text \<open>A transport whose registers agree with its queues restores from its own blob,
  into any transport with as many queues, to the same status, features, interrupt status,
  ring addresses, sizes and cursors.\<close>

lemma transport_restores_captured_state:
  assumes "codec sd" "mmio_capture sd v t = Inr (Some b)" "list_all slot_sync (queues t)"
    and "length (queues t0) = length (queues t)"
  shows "\<exists>t'. mmio_restore sd b t0 = (t', Inr ()) \<and> queues t' = queues t \<and>
    transport_state_of v (t'\<lparr>t_device := t_device t\<rparr>) = transport_state_of v t \<and>
    configuration t' = v_configuration v (t_device t)"
proof -
  have "decoded_blob MMIO_KIND MMIO_VERSION sd b = Inr (transport_state_of v t)"
    using codec.decoded_captured [OF assms(1)] assms(2) by (simp add: mmio_capture_def)
  moreover have "take_slots (queues t0) (ts_queues (transport_state_of v t)) = (queues t, Inr ())"
    using take_slots_state [OF assms(3,4)] by (simp add: transport_state_of_def)
  ultimately show ?thesis
    using assms(4) by (simp add: mmio_restore_def take_up_def) (simp add: transport_state_of_def)
qed

definition set_reg :: "('d, 'm) vdev \<Rightarrow> 'w sender \<Rightarrow> u64 \<Rightarrow> u32 \<Rightarrow> ('d, 'm, 'w) transport \<Rightarrow> ('d, 'm, 'w) transport" where
  "set_reg v send off x t = fst (mmio_write v send off 4 (ucast x) t)"

text \<open>The 64 feature bits pass the 32-bit registers in two halves: the device's
  features read by halves are the ones it offers, \<^verbatim>\<open>VIRTIO_F_VERSION_1\<close> among them, and the
  driver's features written by halves are the ones it accepts.\<close>

lemma features_pass_in_halves:
  "(let f = offered v t;
       lo = read_register v 0x010 (set_reg v send 0x014 0 t);
       hi = read_register v 0x010 (set_reg v send 0x014 1 t)
    in f = push_bit 32 (ucast hi) OR ucast lo \<and> bit f 32) \<and>
   driver_features (set_reg v send 0x020 b (set_reg v send 0x024 1 (set_reg v send 0x020 a (set_reg v send 0x024 0 t)))) =
     push_bit 32 (ucast b) OR ucast a"
proof -
  have sel: "set_reg v send 0x014 x t = t\<lparr>device_features_sel := x\<rparr>"
    "set_reg v send 0x024 x t = t\<lparr>driver_features_sel := x\<rparr>" for x and t :: "('a, 'b, 'c) transport"
    by (simp_all add: set_reg_def mmio_write_def checked_sub_def CONFIG_def QUEUE_NOTIFY_def write_register_def
        register_at_def ucast_up_down)
  have wr: "set_reg v send 0x020 x t = t\<lparr>driver_features := (driver_features t AND
      NOT (push_bit (if driver_features_sel t = 0 then 0 else 32) 0xffffffff)) OR
      push_bit (if driver_features_sel t = 0 then 0 else 32) (ucast x)\<rparr>" for x and t :: "('a, 'b, 'c) transport"
    by (simp add: set_reg_def mmio_write_def checked_sub_def CONFIG_def QUEUE_NOTIFY_def write_register_def
        register_at_def Let_def ucast_up_down)
  have rd: "read_register v 0x010 t = ucast (drop_bit (if device_features_sel t = 0 then 0 else 32) (offered v t))"
    for t :: "('a, 'b, 'c) transport"
    by (simp add: read_register_def register_at_def)
  have m32: "(0xffffffff :: u64) = mask 32" by (simp add: mask_eq_exp_minus_1)
  have "offered v (t\<lparr>device_features_sel := x\<rparr>) = offered v t" for x by (simp add: offered_def)
  moreover have "bit (offered v t) 32" by (simp add: offered_def VERSION_1_def bit_simps)
  moreover have "\<not> bit a n" if "32 \<le> n" for n using bit_imp_le_length [of a n] that by auto
  ultimately show ?thesis
    unfolding sel wr rd m32 by (auto simp: Let_def intro!: bit_word_eqI simp: bit_simps dest: bit_imp_le_length)
qed

section \<open>Witnesses\<close>

definition demo_transport :: "(bytes, flat_ram, nat) transport" where
  "demo_transport = (transport_new (entropy_vdev flat_vm list_read) [42] demo_ram 0)
     \<lparr>queues := [\<lparr>sl_size = 2, sl_desc = 16, sl_avail = 48, sl_used = 64, sl_queue = Some demo_queue\<rparr>]\<rparr>"

definition demo_send :: "nat sender" where
  "demo_send n = (n + 1, Ok ())"


text \<open>An encoding of the state of a transport which takes only the empty state, enough to
  see the laws hold.\<close>

definition one_state_serde :: "'s \<Rightarrow> 's serde" where
  "one_state_serde s0 = \<lparr>to_vec = (\<lambda>s. if s = s0 then Some [] else None), from_slice = (\<lambda>_. Some s0)\<rparr>"

lemma one_state_codec: "codec (one_state_serde s)"
  by unfold_locales (auto simp: one_state_serde_def split: if_splits)

end
