(* ===== verification/Vsock_Connection.thy ===== *)
theory Vsock_Connection
  imports Prelude
begin

text \<open>
  A vsock connection: the packet header of \<^verbatim>\<open>src/lingcore/src/devices/virtio/vsock/packet.rs\<close>
  and the state machine of \<^verbatim>\<open>src/lingcore/src/devices/virtio/vsock/connection.rs\<close>.  A
  connection touches no ring and no socket; it counts credit, holds the bytes of the guest
  until the host end takes them, and decides what to answer.

  The lemmas give the round trip of the header, the bound of the bytes held, the credit
  rule in both directions, the integrity of the byte stream and the stages a connection
  goes through.
\<close>

section \<open>Packets\<close>

definition ROOM :: nat where "ROOM = 44"
definition STREAM :: u16 where "STREAM = 1"
definition HOST_CID :: u64 where "HOST_CID = 2"

datatype op = ReqOp | RespOp | ResetOp | ShutdownOp | DataOp | CreditUpdateOp | CreditRequestOp

definition op_number :: "op \<Rightarrow> u16" where
  "op_number x = (case x of ReqOp \<Rightarrow> 1 | RespOp \<Rightarrow> 2 | ResetOp \<Rightarrow> 3 | ShutdownOp \<Rightarrow> 4 | DataOp \<Rightarrow> 5
     | CreditUpdateOp \<Rightarrow> 6 | CreditRequestOp \<Rightarrow> 7)"

definition op_from_number :: "u16 \<Rightarrow> op option" where
  "op_from_number n =
     (if n = 1 then Some ReqOp else if n = 2 then Some RespOp else if n = 3 then Some ResetOp
      else if n = 4 then Some ShutdownOp else if n = 5 then Some DataOp else if n = 6 then Some CreditUpdateOp
      else if n = 7 then Some CreditRequestOp else None)"

record header =
  src_cid :: u64
  dst_cid :: u64
  src_port :: u32
  dst_port :: u32
  h_len :: u32
  h_type :: u16
  h_op :: op
  h_flags :: u32
  buf_alloc :: u32
  fwd_cnt :: u32

definition header_read :: "bytes \<Rightarrow> header option" where
  "header_read bs =
     (if length bs < ROOM then None
      else case op_from_number (from_le (bslice 30 2 bs)) of
             None \<Rightarrow> None
           | Some x \<Rightarrow>
               Some \<lparr>src_cid = from_le (bslice 0 8 bs), dst_cid = from_le (bslice 8 8 bs),
                     src_port = from_le (bslice 16 4 bs), dst_port = from_le (bslice 20 4 bs),
                     h_len = from_le (bslice 24 4 bs), h_type = from_le (bslice 28 2 bs), h_op = x,
                     h_flags = from_le (bslice 32 4 bs), buf_alloc = from_le (bslice 36 4 bs),
                     fwd_cnt = from_le (bslice 40 4 bs)\<rparr>)"

definition header_bytes :: "header \<Rightarrow> bytes" where
  "header_bytes h = to_le 8 (src_cid h) @ to_le 8 (dst_cid h) @ to_le 4 (src_port h) @ to_le 4 (dst_port h) @
     to_le 4 (h_len h) @ to_le 2 (h_type h) @ to_le 2 (op_number (h_op h)) @ to_le 4 (h_flags h) @
     to_le 4 (buf_alloc h) @ to_le 4 (fwd_cnt h)"

text \<open>\<^verbatim>\<open>write\<close> overwrites the front of its buffer; \<open>None\<close> is the panic on a short one.\<close>

definition header_write :: "header \<Rightarrow> bytes \<Rightarrow> bytes option" where
  "header_write h bs = (if length bs < ROOM then None else Some (bsplice 0 (header_bytes h) bs))"

definition answer :: "op \<Rightarrow> header \<Rightarrow> header" where
  "answer x h = \<lparr>src_cid = dst_cid h, dst_cid = src_cid h, src_port = dst_port h, dst_port = src_port h,
     h_len = 0, h_type = STREAM, h_op = x, h_flags = 0, buf_alloc = 0, fwd_cnt = 0\<rparr>"

section \<open>Connections\<close>

definition WINDOW :: u32 where "WINDOW = 65536"
definition SHUTDOWN_RECEIVE :: u32 where "SHUTDOWN_RECEIVE = 1"
definition SHUTDOWN_SEND :: u32 where "SHUTDOWN_SEND = 2"
definition SHUTDOWN_BOTH :: u32 where "SHUTDOWN_BOTH = SHUTDOWN_RECEIVE OR SHUTDOWN_SEND"

datatype stage = Asking | Open | Closed

datatype answer_of = Reply header | Took | Opened | DropConn | Nothing

record connection =
  guest_port :: u32
  host_port :: u32
  guest_cid :: u64
  stage :: stage
  guest_shut :: u32
  host_shut :: u32
  peer_window :: u32
  peer_taken :: u32
  sent :: u32
  taken :: u32
  c_pending :: bytes

definition connection_new :: "u64 \<Rightarrow> header \<Rightarrow> connection" where
  "connection_new cid asked =
     \<lparr>guest_port = src_port asked, host_port = dst_port asked, guest_cid = cid, stage = Open, guest_shut = 0,
      host_shut = 0, peer_window = buf_alloc asked, peer_taken = fwd_cnt asked, sent = 0, taken = 0, c_pending = []\<rparr>"

definition connection_asking :: "u64 \<Rightarrow> u32 \<Rightarrow> u32 \<Rightarrow> connection" where
  "connection_asking cid gp hp =
     \<lparr>guest_port = gp, host_port = hp, guest_cid = cid, stage = Asking, guest_shut = 0, host_shut = 0,
      peer_window = 0, peer_taken = 0, sent = 0, taken = 0, c_pending = []\<rparr>"

definition to_guest :: "op \<Rightarrow> connection \<Rightarrow> header" where
  "to_guest x c = \<lparr>src_cid = HOST_CID, dst_cid = guest_cid c, src_port = host_port c, dst_port = guest_port c,
     h_len = 0, h_type = STREAM, h_op = x, h_flags = 0, buf_alloc = WINDOW, fwd_cnt = taken c\<rparr>"

definition opened :: "connection \<Rightarrow> header" where "opened c = to_guest RespOp c"
definition asks :: "connection \<Rightarrow> header" where "asks c = to_guest ReqOp c"
definition conn_ports :: "connection \<Rightarrow> u32 \<times> u32" where "conn_ports c = (guest_port c, host_port c)"
definition conn_done :: "connection \<Rightarrow> bool" where "conn_done c \<longleftrightarrow> stage c = Closed"

definition waiting_on_guest :: "connection \<Rightarrow> bool" where
  "waiting_on_guest c \<longleftrightarrow> stage c = Asking \<or> host_shut c = SHUTDOWN_BOTH"

definition guest_sends_no_more :: "connection \<Rightarrow> bool" where
  "guest_sends_no_more c \<longleftrightarrow> guest_shut c AND SHUTDOWN_SEND \<noteq> 0"

definition guest_closed :: "connection \<Rightarrow> bool" where
  "guest_closed c \<longleftrightarrow> guest_shut c = SHUTDOWN_BOTH"

definition guest_sent :: "header \<Rightarrow> bytes \<Rightarrow> connection \<Rightarrow> connection \<times> answer_of" where
  "guest_sent h p c0 =
     (let c = c0\<lparr>peer_window := buf_alloc h, peer_taken := fwd_cnt h\<rparr> in
      case h_op h of
        ReqOp \<Rightarrow> (c, Reply (to_guest ResetOp c))
      | ResetOp \<Rightarrow> (c\<lparr>stage := Closed\<rparr>, DropConn)
      | ShutdownOp \<Rightarrow> (c\<lparr>guest_shut := guest_shut c OR (h_flags h AND SHUTDOWN_BOTH)\<rparr>, Nothing)
      | DataOp \<Rightarrow>
          (if stage c \<noteq> Open \<or> guest_sends_no_more c then (c, Reply (to_guest ResetOp c))
           else if unat (h_len h) \<noteq> length p then (c\<lparr>stage := Closed\<rparr>, Reply (to_guest ResetOp c))
           else if unat WINDOW < length (c_pending c) + length p then (c\<lparr>stage := Closed\<rparr>, Reply (to_guest ResetOp c))
           else (c\<lparr>c_pending := c_pending c @ p\<rparr>, Took))
      | CreditRequestOp \<Rightarrow> (c, Reply (to_guest CreditUpdateOp c))
      | CreditUpdateOp \<Rightarrow> (c, Nothing)
      | RespOp \<Rightarrow> (if stage c \<noteq> Asking then (c, Reply (to_guest ResetOp c)) else (c\<lparr>stage := Open\<rparr>, Opened)))"

definition conn_waiting :: "connection \<Rightarrow> bytes" where "conn_waiting c = c_pending c"

definition forwarded :: "nat \<Rightarrow> connection \<Rightarrow> connection \<times> header" where
  "forwarded n c =
     (let k = min n (length (c_pending c));
          c' = c\<lparr>c_pending := drop k (c_pending c), taken := taken c + of_nat k\<rparr>
      in (c', to_guest CreditUpdateOp c'))"

definition room :: "connection \<Rightarrow> u32" where
  "room c =
     (if guest_shut c AND SHUTDOWN_RECEIVE \<noteq> 0 \<or> host_shut c AND SHUTDOWN_SEND \<noteq> 0 then 0
      else saturating_sub (peer_window c) (sent c - peer_taken c))"

definition host_sent :: "u32 \<Rightarrow> connection \<Rightarrow> connection \<times> header" where
  "host_sent n c = (let c' = c\<lparr>sent := sent c + n\<rparr> in (c', (to_guest DataOp c')\<lparr>h_len := n\<rparr>))"

definition to_guest_shutdown :: "connection \<Rightarrow> header" where
  "to_guest_shutdown c = (to_guest ShutdownOp c)\<lparr>h_flags := host_shut c\<rparr>"

definition host_sends_no_more :: "connection \<Rightarrow> connection \<times> header" where
  "host_sends_no_more c = (let c' = c\<lparr>host_shut := host_shut c OR SHUTDOWN_SEND\<rparr> in (c', to_guest_shutdown c'))"

definition host_receives_no_more :: "connection \<Rightarrow> connection \<times> header" where
  "host_receives_no_more c =
     (let c' = c\<lparr>host_shut := host_shut c OR SHUTDOWN_RECEIVE, c_pending := []\<rparr> in (c', to_guest_shutdown c'))"

definition finished :: "connection \<Rightarrow> connection \<times> header option" where
  "finished c =
     (let neither = guest_sends_no_more c \<and> host_shut c AND SHUTDOWN_SEND \<noteq> 0 in
      if \<not> neither \<or> c_pending c \<noteq> [] \<or> host_shut c = SHUTDOWN_BOTH then (c, None)
      else let c' = c\<lparr>host_shut := SHUTDOWN_BOTH\<rparr> in (c', Some (to_guest_shutdown c')))"

definition host_done :: "connection \<Rightarrow> connection \<times> header" where
  "host_done c = (c\<lparr>stage := Closed\<rparr>, to_guest ResetOp (c\<lparr>stage := Closed\<rparr>))"

section \<open>The header round trip\<close>

lemma op_number_inverse: "op_from_number (op_number x) = Some x"
  by (cases x) (simp_all add: op_number_def op_from_number_def)

lemma op_from_number_inverse: "op_from_number n = Some x \<Longrightarrow> op_number x = n"
  by (auto simp: op_number_def op_from_number_def split: if_splits)

lemma length_header_bytes [simp]: "length (header_bytes h) = ROOM"
  by (simp add: header_bytes_def ROOM_def)

lemma header_fields:
  assumes "take ROOM bs = header_bytes h"
  shows "bslice 0 8 bs = to_le 8 (src_cid h)" "bslice 8 8 bs = to_le 8 (dst_cid h)"
    "bslice 16 4 bs = to_le 4 (src_port h)" "bslice 20 4 bs = to_le 4 (dst_port h)"
    "bslice 24 4 bs = to_le 4 (h_len h)" "bslice 28 2 bs = to_le 2 (h_type h)"
    "bslice 30 2 bs = to_le 2 (op_number (h_op h))" "bslice 32 4 bs = to_le 4 (h_flags h)"
    "bslice 36 4 bs = to_le 4 (buf_alloc h)" "bslice 40 4 bs = to_le 4 (fwd_cnt h)"
proof -
  have inside: "bslice i n bs = bslice i n (header_bytes h)" if "i + n \<le> 44" for i n
    using that unfolding assms [symmetric] bslice_def by (simp add: drop_take ROOM_def min_def)
  show "bslice 0 8 bs = to_le 8 (src_cid h)" "bslice 8 8 bs = to_le 8 (dst_cid h)"
    "bslice 16 4 bs = to_le 4 (src_port h)" "bslice 20 4 bs = to_le 4 (dst_port h)"
    "bslice 24 4 bs = to_le 4 (h_len h)" "bslice 28 2 bs = to_le 2 (h_type h)"
    "bslice 30 2 bs = to_le 2 (op_number (h_op h))" "bslice 32 4 bs = to_le 4 (h_flags h)"
    "bslice 36 4 bs = to_le 4 (buf_alloc h)" "bslice 40 4 bs = to_le 4 (fwd_cnt h)"
    by (simp_all add: inside) (simp_all add: header_bytes_def bslice_append_right bslice_def)
qed

lemma header_read_write:
  assumes "header_write h bs = Some bs'"
  shows "header_read bs' = Some h"
proof -
  have len: "ROOM \<le> length bs" and bs': "bs' = header_bytes h @ drop ROOM bs"
    using assms by (auto simp: header_write_def bsplice_def split: if_splits)
  then have t: "take ROOM bs' = header_bytes h" and "ROOM \<le> length bs'" by (simp_all add: ROOM_def)
  then show ?thesis
    unfolding header_read_def header_fields [OF t] by (simp add: from_le_to_le op_number_inverse)
qed

lemma to_le_bslice:
  assumes "i + n \<le> length bs" "8 * n = LENGTH('a::len)"
  shows "to_le n (from_le (bslice i n bs) :: 'a word) = bslice i n bs"
  using to_le_from_le [of "bslice i n bs", where 'a = 'a] assms by simp

lemma header_write_read:
  assumes "header_read bs = Some h"
  shows "header_write h bs = Some bs"
proof -
  have len: "44 \<le> length bs" and op: "op_from_number (from_le (bslice 30 2 bs)) = Some (h_op h)"
    using assms by (auto simp: header_read_def ROOM_def split: if_splits option.splits)
  have "header_bytes h = bslice 0 8 bs @ bslice 8 8 bs @ bslice 16 4 bs @ bslice 20 4 bs @ bslice 24 4 bs @
      bslice 28 2 bs @ bslice 30 2 bs @ bslice 32 4 bs @ bslice 36 4 bs @ bslice 40 4 bs"
    using assms len op_from_number_inverse [OF op]
    by (auto simp: header_read_def header_bytes_def to_le_bslice split: if_splits option.splits)
  also have "\<dots> = take 44 bs"
  proof -
    have join: "bslice i a bs @ bslice j b bs = bslice i (a + b) bs" if "j = i + a" for i j a b
      unfolding that bslice_def by (simp add: take_add add.commute)
    show ?thesis by (simp add: join) (simp add: bslice_0_take)
  qed
  finally show ?thesis using len by (simp add: header_write_def bsplice_def ROOM_def)
qed

section \<open>Runs of a connection\<close>

text \<open>What the device does with a connection, one event at a time.  Beside the connection a
  run keeps the bytes accepted from the guest and those handed to the host end.\<close>

datatype event =
    FromGuest header bytes
  | Forward nat
  | ToGuest u32
  | HostEof
  | HostBroken
  | Finish
  | HostDone

record run =
  conn :: connection
  accepted :: bytes
  delivered :: bytes

definition event_step :: "event \<Rightarrow> run \<Rightarrow> run" where
  "event_step e r =
     (case e of
        FromGuest h p \<Rightarrow>
          (case guest_sent h p (conn r) of (c, a) \<Rightarrow>
            r\<lparr>conn := c, accepted := accepted r @ (if a = Took then p else [])\<rparr>)
      | Forward n \<Rightarrow> r\<lparr>conn := fst (forwarded n (conn r)), delivered := delivered r @ take n (c_pending (conn r))\<rparr>
      | ToGuest n \<Rightarrow> r\<lparr>conn := fst (host_sent n (conn r))\<rparr>
      | HostEof \<Rightarrow> r\<lparr>conn := fst (host_sends_no_more (conn r))\<rparr>
      | HostBroken \<Rightarrow> r\<lparr>conn := fst (host_receives_no_more (conn r))\<rparr>
      | Finish \<Rightarrow> r\<lparr>conn := fst (finished (conn r))\<rparr>
      | HostDone \<Rightarrow> r\<lparr>conn := fst (host_done (conn r))\<rparr>)"

definition run_events :: "event list \<Rightarrow> connection \<Rightarrow> run" where
  "run_events es c = foldl (\<lambda>r e. event_step e r) \<lparr>conn = c, accepted = [], delivered = []\<rparr> es"

definition fresh :: "connection \<Rightarrow> bool" where
  "fresh c \<longleftrightarrow> c_pending c = [] \<and> taken c = 0 \<and> stage c \<noteq> Closed"

lemma guest_sent_fields:
  assumes "guest_sent h p c = (c', a)"
  shows "c_pending c' = c_pending c @ (if a = Took then p else [])" "taken c' = taken c"
    "a = Took \<Longrightarrow> length (c_pending c') \<le> unat WINDOW" "stage c = Closed \<Longrightarrow> stage c' = Closed"
    "host_shut c' = host_shut c" "sent c' = sent c" "conn_ports c' = conn_ports c"
  using assms by (auto simp: guest_sent_def Let_def not_less conn_ports_def split: op.splits if_splits)

text \<open>The bytes held never exceed the window the guest was told.\<close>

lemma event_step_bound:
  "length (c_pending (conn r)) \<le> unat WINDOW \<Longrightarrow> length (c_pending (conn (event_step e r))) \<le> unat WINDOW"
proof (cases e)
  case (FromGuest h p)
  assume bound: "length (c_pending (conn r)) \<le> unat WINDOW"
  obtain c a where g: "guest_sent h p (conn r) = (c, a)" by fastforce
  with bound guest_sent_fields(1,3) [OF g] FromGuest show ?thesis
    by (cases "a = Took") (auto simp: event_step_def)
qed (auto simp: event_step_def forwarded_def host_sent_def host_sends_no_more_def host_receives_no_more_def
      finished_def host_done_def Let_def)

text \<open>What was accepted is what was delivered, then what is held, as long as the host end
  takes bytes; the credit returned counts the bytes delivered.\<close>

definition stream_ok :: "run \<Rightarrow> bool" where
  "stream_ok r \<longleftrightarrow> accepted r = delivered r @ c_pending (conn r) \<and> taken (conn r) = of_nat (length (delivered r))"

lemma event_step_stream:
  assumes "stream_ok r" "e \<noteq> HostBroken"
  shows "stream_ok (event_step e r)"
proof (cases e)
  case (FromGuest h p)
  then show ?thesis using assms(1) guest_sent_fields(1,2) [of h p "conn r"]
    by (auto simp: event_step_def stream_ok_def split: prod.splits)
next
  case (Forward n)
  have "take n xs @ drop (min n (length xs)) xs = xs" for xs :: bytes by (simp add: min_def)
  with Forward assms(1) show ?thesis
    by (simp add: event_step_def stream_ok_def forwarded_def Let_def min.commute)
qed (use assms in \<open>auto simp: event_step_def stream_ok_def host_sent_def host_sends_no_more_def finished_def
      host_done_def Let_def\<close>)

lemma event_step_closed: "stage (conn r) = Closed \<Longrightarrow> stage (conn (event_step e r)) = Closed"
  by (cases e)
    (auto simp: event_step_def forwarded_def host_sent_def host_sends_no_more_def host_receives_no_more_def
      finished_def host_done_def Let_def dest: guest_sent_fields(4) split: prod.splits)

section \<open>Properties\<close>

text \<open>A header written to the front of a buffer reads back, and a header read from a
  buffer writes the same bytes again; a buffer shorter than the header, or an operation the
  kernel does not name, is refused.\<close>

lemma header_round_trip:
  "(header_write h bs = Some bs' \<longrightarrow> header_read bs' = Some h \<and> drop ROOM bs' = drop ROOM bs) \<and>
   (header_read bs = Some h \<longrightarrow> header_write h bs = Some bs) \<and>
   (length bs < ROOM \<longrightarrow> header_read bs = None)"
proof (intro conjI impI)
  assume w: "header_write h bs = Some bs'"
  then show "header_read bs' = Some h" by (rule header_read_write)
  from w show "drop ROOM bs' = drop ROOM bs" by (auto simp: header_write_def bsplice_def split: if_splits)
next
  assume "header_read bs = Some h"
  then show "header_write h bs = Some bs" by (rule header_write_read)
qed (simp add: header_read_def)

text \<open>Property C13. Whatever guest and host do with a connection, it never holds more than
  \<^verbatim>\<open>WINDOW\<close> bytes of the guest.\<close>

theorem connection_holds_at_most_window:
  assumes "fresh c"
  shows "length (conn_waiting (conn (run_events es c))) \<le> 65536"
proof -
  have "length (c_pending (conn (run_events es c))) \<le> unat WINDOW"
    using assms
  proof (induction es rule: rev_induct)
    case Nil
    then show ?case by (simp add: run_events_def fresh_def)
  next
    case (snoc e es)
    then show ?case using event_step_bound [of "run_events es c" e] by (simp add: run_events_def)
  qed
  then show ?thesis by (simp add: conn_waiting_def WINDOW_def)
qed

theorem connection_holds_at_most_window_witness:
  "length (conn_waiting (conn (run_events [Forward 1, HostEof] (connection_asking 3 1 2)))) \<le> 65536"
  by (rule connection_holds_at_most_window) (simp add: fresh_def connection_asking_def)

text \<open>Property C14. The byte stream of the guest reaches the host end unaltered and in order:
  the bytes accepted are those delivered followed by those held, and the credit told to the
  guest counts exactly the bytes delivered, modulo \<open>2 ^ 32\<close>, as long as the host end has not
  refused bytes.\<close>

theorem connection_stream_integrity:
  assumes "fresh c" "HostBroken \<notin> set es"
  shows "accepted (run_events es c) = delivered (run_events es c) @ conn_waiting (conn (run_events es c)) \<and>
    fwd_cnt (snd (forwarded 0 (conn (run_events es c)))) = of_nat (length (delivered (run_events es c)))"
proof -
  have "stream_ok (run_events es c)"
    using assms(2)
  proof (induction es rule: rev_induct)
    case Nil
    then show ?case using assms(1) by (simp add: run_events_def stream_ok_def fresh_def)
  next
    case (snoc e es)
    then show ?case using event_step_stream [of "run_events es c" e] by (auto simp: run_events_def)
  qed
  then show ?thesis by (simp add: stream_ok_def conn_waiting_def forwarded_def to_guest_def Let_def)
qed

theorem connection_stream_integrity_witness:
  "accepted (run_events [Forward 1] (connection_asking 3 1 2)) =
   delivered (run_events [Forward 1] (connection_asking 3 1 2))"
  using connection_stream_integrity [of "connection_asking 3 1 2" "[Forward 1]"]
  by (simp add: fresh_def connection_asking_def conn_waiting_def run_events_def event_step_def forwarded_def)

text \<open>A guest which keeps to its credit is never refused for it: data of as many
  bytes as its header says, on an open direction, is taken whenever it fits the window beyond
  the bytes already delivered.\<close>

lemma credit_obeying_data_is_taken:
  assumes "accepted r = delivered r @ c_pending (conn r)" "stage (conn r) = Open" "\<not> guest_sends_no_more (conn r)"
    and "h_op h = DataOp" "unat (h_len h) = length p"
    and "length (accepted r) + length p - length (delivered r) \<le> 65536"
  shows "snd (guest_sent h p (conn r)) = Took"
  using assms by (simp add: guest_sent_def Let_def WINDOW_def guest_sends_no_more_def)

text \<open>The host never sends beyond the guest's credit: after sending at most \<^verbatim>\<open>room\<close>
  bytes, the bytes outstanding are within the window the guest announced; a direction shut by
  either end leaves no room.\<close>

lemma host_stays_within_credit:
  assumes "unat n \<le> unat (room c)" "n \<noteq> 0"
  shows "(let c' = fst (host_sent n c) in unat (sent c' - peer_taken c') \<le> unat (peer_window c')) \<and>
    guest_shut c AND SHUTDOWN_RECEIVE = 0 \<and> host_shut c AND SHUTDOWN_SEND = 0"
proof -
  have open_: "guest_shut c AND SHUTDOWN_RECEIVE = 0" "host_shut c AND SHUTDOWN_SEND = 0"
    using assms by (auto simp: room_def unat_eq_zero split: if_splits)
  let ?out = "sent c - peer_taken c"
  have le: "unat n \<le> unat (peer_window c) - unat ?out" "0 < unat n"
    using assms open_ by (simp_all add: room_def unat_saturating_sub unat_gt_0)
  have "unat ?out + unat n < 2 ^ 32"
    using le unsigned_less [of "peer_window c", where 'a = nat] by simp
  then have "unat (?out + n) = unat ?out + unat n" by (simp add: unat_word_ariths)
  with le open_ show ?thesis by (simp add: host_sent_def Let_def add_diff_eq [symmetric] diff_add_eq)
qed

text \<open>A closed connection stays closed, and a shutdown of both directions is sent at
  most once, only after neither end sends and every byte held was written.\<close>

lemma closing_is_final:
  "(stage (conn r) = Closed \<longrightarrow> stage (conn (foldl (\<lambda>r e. event_step e r) r es)) = Closed) \<and>
   (\<forall>h. snd (finished c) = Some h \<longrightarrow>
      guest_sends_no_more c \<and> c_pending c = [] \<and> h_flags h = SHUTDOWN_BOTH \<and> snd (finished (fst (finished c))) = None)"
proof -
  have "stage (conn r) = Closed \<longrightarrow> stage (conn (foldl (\<lambda>r e. event_step e r) r es)) = Closed"
    by (induction es arbitrary: r) (auto simp: event_step_closed)
  then show ?thesis
    by (auto simp: finished_def Let_def to_guest_shutdown_def split: if_splits)
qed

end
