(* ===== verification/Chain_Bytes.thy ===== *)
theory Chain_Bytes
  imports Queue_Loop
begin

text \<open>
  The bytes of a chain.  The network, vsock and console devices all read the readable buffers
  of a chain into one run of bytes and write a run of bytes into the writable ones; the two
  loops are modelled here once, after \<^verbatim>\<open>read_packet\<close> and \<^verbatim>\<open>write_fully\<close> of
  \<^verbatim>\<open>vsock/device.rs\<close> (\<^verbatim>\<open>frame_from\<close> and \<^verbatim>\<open>frame_into\<close> of \<^verbatim>\<open>net/device.rs\<close>
  have the same ones, with another bound).

  The lemmas show that the loops touch only the writable buffers, and that a driver which
  gathers those buffers finds the bytes written, in order.
\<close>

section \<open>Definitions\<close>

primrec read_parts :: "nat \<Rightarrow> 'm vm \<Rightarrow> 'm \<Rightarrow> descriptor list \<Rightarrow> bytes \<Rightarrow> (bytes, virtio_error) result" where
  "read_parts cap vm m [] whole = Ok whole"
| "read_parts cap vm m (d # ds) whole =
     (if writable d then read_parts cap vm m ds whole
      else if cap < length whole + unat (len d) then Err Request
      else and_then (map_err (\<lambda>_. Ring (addr d)) (ram_read vm m (addr d) (unat (len d)))) (\<lambda>part.
           read_parts cap vm m ds (whole @ part)))"

definition writable_room :: "chain \<Rightarrow> nat" where
  "writable_room c = sum_list (map (\<lambda>d. unat (len d)) (filter writable (descriptors c)))"

primrec write_parts :: "'m vm \<Rightarrow> bytes \<Rightarrow> descriptor list \<Rightarrow> 'm \<Rightarrow> nat \<Rightarrow> 'm \<times> (nat, virtio_error) result" where
  "write_parts vm whole [] m n = (m, Ok n)"
| "write_parts vm whole (d # ds) m n =
     (if \<not> writable d \<or> n = length whole then write_parts vm whole ds m n
      else let r = min (unat (len d)) (length whole - n) in
           (case ram_write vm m (addr d) (bslice n r whole) of
              (m', Inl _) \<Rightarrow> (m', Err (Ring (addr d)))
            | (m', Inr _) \<Rightarrow> write_parts vm whole ds m' (n + r)))"

section \<open>What a driver finds\<close>

text \<open>The bytes a driver finds in the first \<open>k\<close> bytes of the writable buffers of a chain.\<close>

primrec gather :: "'m vm \<Rightarrow> 'm \<Rightarrow> descriptor list \<Rightarrow> nat \<Rightarrow> (bytes, mem_error) result" where
  "gather vm m [] k = Ok []"
| "gather vm m (d # ds) k =
     (if \<not> writable d \<or> k = 0 then gather vm m ds k
      else let r = min (unat (len d)) k in
           and_then (ram_read vm m (addr d) r) (\<lambda>part.
           and_then (gather vm m ds (k - r)) (\<lambda>rest. Ok (part @ rest))))"

primrec buffers_apart :: "descriptor list \<Rightarrow> bool" where
  "buffers_apart [] = True"
| "buffers_apart (d # ds) \<longleftrightarrow>
     (writable d \<longrightarrow> len d \<noteq> 0 \<and> buffers_clear ds (addr d) (unat (len d))) \<and> buffers_apart ds"

lemma bslice_add: "bslice n (a + b) xs = bslice n a xs @ bslice (n + a) b xs"
  by (simp add: bslice_def take_add add.commute)

lemma bslice_join: "n + a \<le> k \<Longrightarrow> bslice n a xs @ bslice (n + a) (k - (n + a)) xs = bslice n (k - n) xs"
  using bslice_add [of n a "k - (n + a)" xs] by simp

context vm_memory
begin

lemma write_parts_range:
  "write_parts vm whole ds m n = (m', r) \<Longrightarrow> vm_check_range vm m' b k = vm_check_range vm m b k"
proof (induction ds arbitrary: m n)
  case (Cons d ds)
  then show ?case
    by (auto simp: Let_def dest: ram_write_range split: prod.splits sum.splits if_splits)
qed simp

lemma write_parts_frame:
  "write_parts vm whole ds m n = (m', r) \<Longrightarrow> buffers_clear ds b k \<Longrightarrow> ram_read vm m' b k = ram_read vm m b k"
proof (induction ds arbitrary: m n)
  case (Cons d ds)
  have ap: "apart (addr d) (length (bslice n (min (unat (len d)) (length whole - n)) whole)) b k" if "writable d"
    using Cons.prems(2) that by (auto simp: buffers_clear_def apart_def)
  have "buffers_clear ds b k" using Cons.prems(2) by (simp add: buffers_clear_def)
  with Cons.IH Cons.prems(1) ram_write_apart [OF _ ap] show ?case
    by (auto simp: Let_def split: prod.splits sum.splits if_splits)
qed simp

lemma write_parts_count:
  "write_parts vm whole ds m n = (m', Inr n') \<Longrightarrow> n \<le> length whole \<Longrightarrow>
   n' = min (length whole) (n + sum_list (map (\<lambda>d. unat (len d)) (filter writable ds)))"
proof (induction ds arbitrary: m n)
  case (Cons d ds)
  then show ?case by (fastforce simp: Let_def split: prod.splits sum.splits if_splits)
qed simp

lemma gather_cong:
  "(\<And>d k. d \<in> set ds \<Longrightarrow> writable d \<Longrightarrow> k \<le> unat (len d) \<Longrightarrow> ram_read vm m' (addr d) k = ram_read vm m (addr d) k) \<Longrightarrow>
   gather vm m' ds k = gather vm m ds k"
  by (induction ds arbitrary: k) (auto simp: Let_def)

lemma write_parts_gather:
  "write_parts vm whole ds m n = (m', Inr n') \<Longrightarrow> n \<le> length whole \<Longrightarrow> buffers_apart ds \<Longrightarrow>
   gather vm m' ds (n' - n) = Inr (bslice n (n' - n) whole)"
proof (induction ds arbitrary: m n)
  case (Cons d ds)
  show ?case
  proof (cases "\<not> writable d \<or> n = length whole")
    case True
    moreover have "n' = n" if "n = length whole"
      using write_parts_count [OF Cons.prems(1,2)] that by simp
    ultimately show ?thesis using Cons by auto
  next
    case False
    let ?r = "min (unat (len d)) (length whole - n)"
    have r: "0 < ?r" using False Cons.prems(2,3) by (auto simp: unat_gt_0)
    obtain m1 where w: "ram_write vm m (addr d) (bslice n ?r whole) = (m1, Inr ())"
        and rest: "write_parts vm whole ds m1 (n + ?r) = (m', Inr n')"
      using Cons.prems(1) False by (auto simp: Let_def split: prod.splits sum.splits)
    have le: "n + ?r \<le> length whole" using Cons.prems(2) by simp
    have n': "n + ?r \<le> n'" "n' \<le> length whole" using write_parts_count [OF rest le] le by simp_all
    have "length (bslice n ?r whole) = ?r" using Cons.prems(2) by simp
    with ram_write_read [OF w] r have "ram_read vm m1 (addr d) ?r = Inr (bslice n ?r whole)"
      by (metis less_numeral_extra(3) list.size(3))
    moreover have "buffers_clear ds (addr d) ?r"
      using Cons.prems(3) False buffers_clear_inside [of ds "addr d" "unat (len d)" "addr d" ?r] by simp
    ultimately have here: "ram_read vm m' (addr d) ?r = Inr (bslice n ?r whole)"
      using write_parts_frame [OF rest] by simp
    have r': "min (unat (len d)) (n' - n) = ?r"
      using n' write_parts_count [OF rest le] by (auto simp: min_def split: if_splits)
    have "gather vm m' ds (n' - (n + ?r)) = Inr (bslice (n + ?r) (n' - (n + ?r)) whole)"
      using Cons.IH [OF rest le] Cons.prems(3) by simp
    moreover have "bslice n ?r whole @ bslice (n + ?r) (n' - (n + ?r)) whole = bslice n (n' - n) whole"
      by (rule bslice_join [OF n'(1)])
    ultimately show ?thesis
      using False r n' here r' by (auto simp: Let_def diff_diff_left)
  qed
qed (simp add: bslice_def)

end

end
