(* ===== verification/Rust_Text.thy ===== *)
theory Rust_Text
  imports Prelude
begin

text \<open>
  The string functions of the Rust standard library the sources use: \<^verbatim>\<open>str::from_utf8\<close>,
  \<^verbatim>\<open>split_whitespace\<close>, \<^verbatim>\<open>eq_ignore_ascii_case\<close>, \<^verbatim>\<open>u32::from_str\<close> and the decimal form of
  an integer.  A string is the list of its Unicode scalar values.

  The lemmas show that text of ASCII bytes decodes to those bytes, that words joined by spaces
  split into those words, and that the decimal form of a number parses back to it.
\<close>

section \<open>Definitions\<close>

primrec digits :: "nat \<Rightarrow> nat \<Rightarrow> bytes" where
  "digits 0 k = []"
| "digits (Suc f) k = (if k < 10 then [of_nat (48 + k)] else digits f (k div 10) @ [of_nat (48 + k mod 10)])"

text \<open>A continuation byte, and the value it carries.\<close>

definition cont :: "nat \<Rightarrow> nat \<Rightarrow> u8 \<Rightarrow> bool" where
  "cont lo hi b \<longleftrightarrow> lo \<le> unat b \<and> unat b \<le> hi"

definition tail6 :: "u8 \<Rightarrow> nat" where
  "tail6 b = unat b mod 64"

text \<open>The well-formed sequences of table 3-7 of the Unicode standard; anything else is an error.\<close>

fun utf8 :: "bytes \<Rightarrow> nat list option" where
  "utf8 [] = Some []"
| "utf8 (a # bs) =
     (let n = unat a in
      if n < 0x80 then map_option ((#) n) (utf8 bs)
      else if 0xC2 \<le> n \<and> n \<le> 0xDF
      then (case bs of
              c # rest \<Rightarrow> if cont 0x80 0xBF c then map_option ((#) ((n - 0xC0) * 64 + tail6 c)) (utf8 rest) else None
            | _ \<Rightarrow> None)
      else if 0xE0 \<le> n \<and> n \<le> 0xEF
      then (case bs of
              c # d # rest \<Rightarrow>
                if cont (if n = 0xE0 then 0xA0 else 0x80) (if n = 0xED then 0x9F else 0xBF) c \<and> cont 0x80 0xBF d
                then map_option ((#) ((n - 0xE0) * 4096 + tail6 c * 64 + tail6 d)) (utf8 rest) else None
            | _ \<Rightarrow> None)
      else if 0xF0 \<le> n \<and> n \<le> 0xF4
      then (case bs of
              c # d # e # rest \<Rightarrow>
                if cont (if n = 0xF0 then 0x90 else 0x80) (if n = 0xF4 then 0x8F else 0xBF) c \<and> cont 0x80 0xBF d \<and> cont 0x80 0xBF e
                then map_option ((#) ((n - 0xF0) * 262144 + tail6 c * 4096 + tail6 d * 64 + tail6 e)) (utf8 rest) else None
            | _ \<Rightarrow> None)
      else None)"

text \<open>\<^verbatim>\<open>String::from_utf8_lossy\<close>: the longest start of a well-formed sequence which is not one, or
  a byte which starts none, becomes a replacement character.\<close>

definition REPLACEMENT :: nat where "REPLACEMENT = 0xFFFD"

fun utf8_lossy :: "bytes \<Rightarrow> nat list" where
  "utf8_lossy [] = []"
| "utf8_lossy (a # bs) =
     (let n = unat a in
      if n < 0x80 then n # utf8_lossy bs
      else if 0xC2 \<le> n \<and> n \<le> 0xDF
      then (case bs of
              c # rest \<Rightarrow> if cont 0x80 0xBF c then ((n - 0xC0) * 64 + tail6 c) # utf8_lossy rest else REPLACEMENT # utf8_lossy bs
            | [] \<Rightarrow> [REPLACEMENT])
      else if 0xE0 \<le> n \<and> n \<le> 0xEF
      then (case bs of
              c # rest \<Rightarrow>
                if cont (if n = 0xE0 then 0xA0 else 0x80) (if n = 0xED then 0x9F else 0xBF) c
                then (case rest of
                        d # more_bytes \<Rightarrow>
                          if cont 0x80 0xBF d then ((n - 0xE0) * 4096 + tail6 c * 64 + tail6 d) # utf8_lossy more_bytes
                          else REPLACEMENT # utf8_lossy rest
                      | [] \<Rightarrow> [REPLACEMENT])
                else REPLACEMENT # utf8_lossy bs
            | [] \<Rightarrow> [REPLACEMENT])
      else if 0xF0 \<le> n \<and> n \<le> 0xF4
      then (case bs of
              c # rest \<Rightarrow>
                if cont (if n = 0xF0 then 0x90 else 0x80) (if n = 0xF4 then 0x8F else 0xBF) c
                then (case rest of
                        d # rest2 \<Rightarrow>
                          if cont 0x80 0xBF d
                          then (case rest2 of
                                  e # rest3 \<Rightarrow>
                                    if cont 0x80 0xBF e
                                    then ((n - 0xF0) * 262144 + tail6 c * 4096 + tail6 d * 64 + tail6 e) # utf8_lossy rest3
                                    else REPLACEMENT # utf8_lossy rest2
                                | [] \<Rightarrow> [REPLACEMENT])
                          else REPLACEMENT # utf8_lossy rest
                      | [] \<Rightarrow> [REPLACEMENT])
                else REPLACEMENT # utf8_lossy bs
            | [] \<Rightarrow> [REPLACEMENT])
      else REPLACEMENT # utf8_lossy bs)"

text \<open>The property \<^verbatim>\<open>White_Space\<close> of Unicode.\<close>

definition is_space :: "nat \<Rightarrow> bool" where
  "is_space c \<longleftrightarrow> (9 \<le> c \<and> c \<le> 13) \<or> c = 0x20 \<or> c = 0x85 \<or> c = 0xA0 \<or> c = 0x1680 \<or> (0x2000 \<le> c \<and> c \<le> 0x200A) \<or>
     c = 0x2028 \<or> c = 0x2029 \<or> c = 0x202F \<or> c = 0x205F \<or> c = 0x3000"

function split_whitespace :: "nat list \<Rightarrow> nat list list" where
  "split_whitespace cs =
     (case dropWhile is_space cs of
        [] \<Rightarrow> []
      | w \<Rightarrow> takeWhile (\<lambda>c. \<not> is_space c) w # split_whitespace (dropWhile (\<lambda>c. \<not> is_space c) w))"
  by pat_completeness auto
termination
proof (relation "measure length", goal_cases)
  case (2 cs x xs)
  then have "\<not> is_space x" using hd_dropWhile [of is_space cs] by (metis list.distinct(1) list.sel(1))
  moreover have "length (x # xs) \<le> length cs" using 2 length_dropWhile_le [of is_space cs] by simp
  ultimately show ?case using length_dropWhile_le [of "\<lambda>c. \<not> is_space c" xs] by simp
qed simp

declare split_whitespace.simps [simp del]

definition trim :: "nat list \<Rightarrow> nat list" where
  "trim s = rev (dropWhile is_space (rev (dropWhile is_space s)))"

definition ascii_lower :: "nat \<Rightarrow> nat" where
  "ascii_lower c = (if 65 \<le> c \<and> c \<le> 90 then c + 32 else c)"

definition eq_ignore_ascii_case :: "nat list \<Rightarrow> nat list \<Rightarrow> bool" where
  "eq_ignore_ascii_case a b \<longleftrightarrow> map ascii_lower a = map ascii_lower b"

definition is_digit :: "nat \<Rightarrow> bool" where
  "is_digit c \<longleftrightarrow> 48 \<le> c \<and> c \<le> 57"

definition decimal :: "nat list \<Rightarrow> nat" where
  "decimal cs = foldl (\<lambda>n c. 10 * n + (c - 48)) 0 cs"

definition parse_u32 :: "nat list \<Rightarrow> u32 option" where
  "parse_u32 cs =
     (let ds = (case cs of [] \<Rightarrow> [] | c # rest \<Rightarrow> if c = 43 then rest else cs)
      in if ds \<noteq> [] \<and> list_all is_digit ds \<and> decimal ds < 2 ^ 32 then Some (of_nat (decimal ds)) else None)"

section \<open>Lemmas\<close>

lemma utf8_ascii: "list_all (\<lambda>b. unat b < 128) bs \<Longrightarrow> utf8 bs = Some (map unat bs)"
  by (induction bs) (auto simp: Let_def)

lemma utf8_lossy_ascii: "list_all (\<lambda>b. unat b < 128) bs \<Longrightarrow> utf8_lossy bs = map unat bs"
  by (induction bs) auto

lemma utf8_lossy_nonempty: "utf8_lossy bs = [] \<longleftrightarrow> bs = []"
  by (cases bs) (simp_all add: Let_def split: list.splits)

lemma split_whitespace_empty: "list_all is_space cs \<Longrightarrow> split_whitespace cs = []"
proof -
  assume "list_all is_space cs"
  then have "dropWhile is_space cs = []" by (simp add: list_all_iff dropWhile_eq_Nil_conv)
  then show ?thesis by (subst split_whitespace.simps) (simp only: list.case)
qed

lemma split_whitespace_word:
  assumes "w \<noteq> []" "list_all (\<lambda>c. \<not> is_space c) w" "rest = [] \<or> is_space (List.hd rest)"
  shows "split_whitespace (w @ rest) = w # split_whitespace rest"
proof -
  have w: "\<forall>c \<in> set w. \<not> is_space c" using assms(2) by (simp add: list_all_iff)
  then have "dropWhile is_space (w @ rest) = w @ rest" using assms(1) by (cases w) auto
  moreover have "takeWhile (\<lambda>c. \<not> is_space c) (w @ rest) = w" "dropWhile (\<lambda>c. \<not> is_space c) (w @ rest) = rest"
    using w assms(3) by (cases rest; simp add: takeWhile_append dropWhile_append)+
  moreover have "w @ rest \<noteq> []" using assms(1) by simp
  ultimately show ?thesis by (subst split_whitespace.simps) (auto split: list.splits)
qed

lemma split_whitespace_space: "is_space c \<Longrightarrow> split_whitespace (c # cs) = split_whitespace cs"
  by (subst (1 2) split_whitespace.simps) simp

lemma unat_digit: "k < 10 \<Longrightarrow> unat (of_nat (48 + k) :: u8) = 48 + k"
  by (simp only: unat_of_nat take_bit_eq_mod) simp

lemma digits_are_digits: "list_all is_digit (map unat (digits f k))"
proof (induction f arbitrary: k)
  case (Suc f)
  have "k < 10 \<Longrightarrow> unat (of_nat (48 + k) :: u8) = 48 + k" "unat (of_nat (48 + k mod 10) :: u8) = 48 + k mod 10"
    using unat_digit [of k] unat_digit [of "k mod 10"] by simp_all
  with Suc show ?case by (auto simp: is_digit_def)
qed simp

lemma decimal_digits: "k < 10 ^ f \<Longrightarrow> decimal (map unat (digits f k)) = k"
proof (induction f arbitrary: k)
  case (Suc f)
  have u: "k < 10 \<Longrightarrow> unat (of_nat (48 + k) :: u8) = 48 + k" "unat (of_nat (48 + k mod 10) :: u8) = 48 + k mod 10"
    using unat_digit [of k] unat_digit [of "k mod 10"] by simp_all
  show ?case
  proof (cases "k < 10")
    case True
    with u(1) show ?thesis by (simp add: decimal_def)
  next
    case False
    have "k div 10 < 10 ^ f" using Suc.prems by (simp add: div_less_iff_less_mult mult.commute)
    from Suc.IH [OF this] False u(2) show ?thesis by (simp add: decimal_def)
  qed
qed (simp add: decimal_def)

lemma digits_nonempty: "digits (Suc f) k \<noteq> []"
  by simp

lemma parse_digits:
  assumes "k < 10 ^ Suc f" "k < 2 ^ 32"
  shows "parse_u32 (map unat (digits (Suc f) k)) = Some (of_nat k)"
proof -
  let ?ds = "map unat (digits (Suc f) k)"
  have ds: "list_all is_digit ?ds" "?ds \<noteq> []" using digits_are_digits [of "Suc f" k] digits_nonempty [of f k] by simp_all
  then obtain c rest where c: "?ds = c # rest" "c \<noteq> 43" by (cases ?ds) (auto simp: is_digit_def)
  then show ?thesis using ds decimal_digits [OF assms(1)] assms(2) by (simp add: parse_u32_def del: digits.simps)
qed

end
