(* ===== verification/Vsock_Device.thy ===== *)
theory Vsock_Device
  imports Vsock_Connection Chain_Bytes Rust_Text "HOL-Library.AList" "HOL-Library.Sublist"
begin

text \<open>
  The vsock device, \<^verbatim>\<open>src/lingcore/src/devices/virtio/vsock/device.rs\<close>, with the two
  functions of \<^verbatim>\<open>host.rs\<close> that write to a host stream.

  The endpoint, the streams and the clock of the host are the state \<open>'w\<close>, reached by the
  operations of \<open>vhost\<close>; a stream is a handle \<open>'s\<close>.  The eventfd of the kick only wakes the
  device thread and is left out, as are the log lines.  The map \<^verbatim>\<open>open\<close> is an association
  list with distinct keys; its order stands for the iteration order of the hash map, and
  nothing proved depends on it.

  The lemmas bound the packets held and the connections open, show that a port handed out is
  free, and that packets reach the receive ring in the order they were queued, cut to the
  buffers the guest offers.
\<close>

section \<open>Definitions\<close>

definition VSOCK :: u32 where "VSOCK = 19"
definition RX :: u16 where "RX = 0"
definition TX :: u16 where "TX = 1"
definition EVT :: u16 where "EVT = 2"
definition QUEUES :: u16 where "QUEUES = 3"
definition TRANSPORT_RESET :: u32 where "TRANSPORT_RESET = 0"
definition PACKET :: nat where "PACKET = 65536"
definition HOST_SIDE :: u32 where "HOST_SIDE = push_bit 30 1"
definition PATIENCE :: nat where "PATIENCE = 2000000000"
definition CONNECTIONS :: nat where "CONNECTIONS = 1024"
definition WAITING :: nat where "WAITING = 1024"

text \<open>Errors of a stream: \<^verbatim>\<open>WouldBlock\<close>, and any other.\<close>

datatype stream_error = WouldBlock | Failed

record ('w, 's) vhost =
  ep_connect :: "u32 \<Rightarrow> 'w \<Rightarrow> 'w \<times> 's option"
  ep_incoming :: "'w \<Rightarrow> 'w \<times> (u32 \<times> 's) option"
  ep_acknowledges :: bool
  st_write :: "'s \<Rightarrow> bytes \<Rightarrow> 'w \<Rightarrow> 'w \<times> (nat, stream_error) result"
  st_write_all :: "'s \<Rightarrow> bytes \<Rightarrow> 'w \<Rightarrow> 'w \<times> (unit, stream_error) result"
  st_read :: "'s \<Rightarrow> nat \<Rightarrow> 'w \<Rightarrow> 'w \<times> (bytes, stream_error) result"
  st_shutdown_write :: "'s \<Rightarrow> 'w \<Rightarrow> 'w"
  now_ns :: "'w \<Rightarrow> 'w \<times> nat"

record 's held =
  connection :: connection
  stream :: 's
  since :: "nat option"
  write_shut :: bool

type_synonym ports = "u32 \<times> u32"

record ('w, 's) vsock =
  v_guest_cid :: u64
  v_world :: 'w
  v_open :: "(ports \<times> 's held) list"
  v_waiting :: "(header \<times> bytes) list"
  v_dropped :: u64
  v_short :: u64
  last_port :: u32
  reset_owed :: bool

definition vsock_new :: "u64 \<Rightarrow> 'w \<Rightarrow> ('w, 's) vsock" where
  "vsock_new cid w = \<lparr>v_guest_cid = cid, v_world = w, v_open = [], v_waiting = [], v_dropped = 0, v_short = 0,
     last_port = 0, reset_owed = False\<rparr>"

definition next_port :: "u32 \<Rightarrow> u32" where
  "next_port p = ((p + 1) AND NOT (push_bit 31 1)) OR HOST_SIDE"

primrec free_port_loop :: "nat \<Rightarrow> (u32 \<Rightarrow> bool) \<Rightarrow> u32 \<Rightarrow> u32" where
  "free_port_loop 0 used p = p"
| "free_port_loop (Suc n) used p = (if used (next_port p) then free_port_loop n used (next_port p) else next_port p)"

definition free_port :: "u32 \<Rightarrow> ('w, 's) vsock \<Rightarrow> ('w, 's) vsock \<times> u32" where
  "free_port gp v =
     (let p = free_port_loop CONNECTIONS (\<lambda>hp. map_of (v_open v) (gp, hp) \<noteq> None) (last_port v)
      in (v\<lparr>last_port := p\<rparr>, p))"

definition owe :: "header \<Rightarrow> bytes \<Rightarrow> ('w, 's) vsock \<Rightarrow> ('w, 's) vsock" where
  "owe h p v =
     (if WAITING \<le> length (v_waiting v) then v\<lparr>v_dropped := v_dropped v + 1\<rparr>
      else v\<lparr>v_waiting := v_waiting v @ [(h, p)]\<rparr>)"

definition owe_all :: "header list \<Rightarrow> ('w, 's) vsock \<Rightarrow> ('w, 's) vsock" where
  "owe_all hs v = foldl (\<lambda>v h. owe h [] v) v hs"

definition takes_more :: "('w, 's) vsock \<Rightarrow> bool" where
  "takes_more v \<longleftrightarrow> length (v_waiting v) < WAITING"

definition held_new :: "connection \<Rightarrow> 's \<Rightarrow> 's held" where
  "held_new c s = \<lparr>connection = c, stream = s, since = None, write_shut = False\<rparr>"

definition open_insert :: "ports \<Rightarrow> 's held \<Rightarrow> ('w, 's) vsock \<Rightarrow> ('w, 's) vsock" where
  "open_insert k x v = v\<lparr>v_open := AList.update k x (v_open v)\<rparr>"

definition open_remove :: "ports \<Rightarrow> ('w, 's) vsock \<Rightarrow> ('w, 's) vsock" where
  "open_remove k v = v\<lparr>v_open := AList.delete k (v_open v)\<rparr>"

text \<open>\<^verbatim>\<open>take_incoming\<close>: each round opens a connection, so the bound on the open ones ends
  it.  The rounds are counted for recursion; \<open>CONNECTIONS\<close> of them are never used up.\<close>

primrec take_incoming_loop :: "nat \<Rightarrow> ('w, 's) vhost \<Rightarrow> ('w, 's) vsock \<Rightarrow> ('w, 's) vsock" where
  "take_incoming_loop 0 h v = v"
| "take_incoming_loop (Suc n) h v =
     (if length (v_open v) < CONNECTIONS
      then (case ep_incoming h (v_world v) of
              (w, None) \<Rightarrow> v\<lparr>v_world := w\<rparr>
            | (w, Some (gp, s)) \<Rightarrow>
                (case free_port gp (v\<lparr>v_world := w\<rparr>) of
                   (v1, hp) \<Rightarrow>
                     let c = connection_asking (v_guest_cid v1) gp hp in
                     take_incoming_loop n h (owe (asks c) [] (open_insert (gp, hp) (held_new c s) v1))))
      else v)"

definition take_incoming :: "('w, 's) vhost \<Rightarrow> ('w, 's) vsock \<Rightarrow> ('w, 's) vsock" where
  "take_incoming h v = take_incoming_loop CONNECTIONS h v"

text \<open>\<^verbatim>\<open>expire\<close>: \<^verbatim>\<open>since\<close> is set on the first call that finds a connection waiting.\<close>

definition expire_mark :: "nat \<Rightarrow> 's held \<Rightarrow> 's held" where
  "expire_mark now x =
     (if waiting_on_guest (connection x)
      then x\<lparr>since := Some (case since x of None \<Rightarrow> now | Some t \<Rightarrow> t)\<rparr> else x\<lparr>since := None\<rparr>)"

definition expired :: "nat \<Rightarrow> 's held \<Rightarrow> bool" where
  "expired now x \<longleftrightarrow> waiting_on_guest (connection x) \<and>
     (case since x of None \<Rightarrow> False | Some t \<Rightarrow> PATIENCE \<le> now - t)"

definition expire :: "nat \<Rightarrow> ('w, 's) vsock \<Rightarrow> ('w, 's) vsock" where
  "expire now v =
     (let marked = map (\<lambda>(k, x). (k, expire_mark now x)) (v_open v);
          over = filter (\<lambda>(k, x). expired now x) marked;
          v1 = v\<lparr>v_open := filter (\<lambda>(k, x). \<not> expired now x) marked\<rparr>
      in owe_all (map (\<lambda>(k, x). snd (host_done (connection x))) over) v1)"

text \<open>Functions of \<^verbatim>\<open>host.rs\<close>.\<close>

definition host_write :: "('w, 's) vhost \<Rightarrow> 's \<Rightarrow> bytes \<Rightarrow> 'w \<Rightarrow> 'w \<times> (nat, stream_error) result" where
  "host_write h s bs w =
     (case st_write h s bs w of
        (w', Inl WouldBlock) \<Rightarrow> (w', Ok 0)
      | (w', r) \<Rightarrow> (w', r))"

definition acknowledge :: "('w, 's) vhost \<Rightarrow> 's \<Rightarrow> u32 \<Rightarrow> 'w \<Rightarrow> 'w \<times> (unit, stream_error) result" where
  "acknowledge h s port w = st_write_all h s ([79, 75, 32] @ digits 10 (unat port) @ [10]) w"

text \<open>The branch of \<^verbatim>\<open>took\<close> for a connection already open on the ports.\<close>

definition took_open :: "('w, 's) vhost \<Rightarrow> header \<Rightarrow> bytes \<Rightarrow> ports \<Rightarrow> 's held \<Rightarrow> ('w, 's) vsock \<Rightarrow> ('w, 's) vsock" where
  "took_open h pk p k x v =
     (case guest_sent pk p (connection x) of
        (c, a) \<Rightarrow>
          (case (case a of
                   Reply r \<Rightarrow> (c, v_world v, Some r, conn_done c)
                 | Opened \<Rightarrow>
                     (if ep_acknowledges h
                      then (case acknowledge h (stream x) (snd (conn_ports c)) (v_world v) of
                              (w, Inl _) \<Rightarrow> (case host_done c of (c', r) \<Rightarrow> (c', w, Some r, True))
                            | (w, Inr _) \<Rightarrow> (c, w, None, conn_done c))
                      else (c, v_world v, None, conn_done c))
                 | _ \<Rightarrow> (c, v_world v, None, conn_done c)) of
             (c', w, reply, fin) \<Rightarrow>
               let v1 = open_insert k (x\<lparr>connection := c'\<rparr>) (v\<lparr>v_world := w\<rparr>);
                   v2 = (case reply of None \<Rightarrow> v1 | Some r \<Rightarrow> owe r [] v1)
               in if fin then open_remove k v2 else v2))"

definition took :: "('w, 's) vhost \<Rightarrow> header \<Rightarrow> bytes \<Rightarrow> ('w, 's) vsock \<Rightarrow> ('w, 's) vsock" where
  "took h pk p v =
     (if dst_cid pk \<noteq> HOST_CID \<or> h_type pk \<noteq> STREAM then owe (answer ResetOp pk) [] v
      else let k = (src_port pk, dst_port pk) in
      case map_of (v_open v) k of
        Some x \<Rightarrow> took_open h pk p k x v
      | None \<Rightarrow>
          if h_op pk \<noteq> ReqOp then owe (answer ResetOp pk) [] v
          else if CONNECTIONS \<le> length (v_open v) then owe (answer ResetOp pk) [] v
          else (case ep_connect h (dst_port pk) (v_world v) of
                  (w, None) \<Rightarrow> owe (answer ResetOp pk) [] (v\<lparr>v_world := w\<rparr>)
                | (w, Some s) \<Rightarrow>
                    let c = connection_new (v_guest_cid v) pk
                    in owe (opened c) [] (open_insert k (held_new c s) (v\<lparr>v_world := w\<rparr>))))"

text \<open>\<^verbatim>\<open>carry\<close> for one connection: the headers it queues, and whether it is gone.\<close>

definition carry_write :: "('w, 's) vhost \<Rightarrow> 's held \<Rightarrow> 'w \<Rightarrow> 's held \<times> 'w \<times> header list" where
  "carry_write h x w =
     (if conn_waiting (connection x) = [] then (x, w, [])
      else case host_write h (stream x) (conn_waiting (connection x)) w of
             (w', Inl _) \<Rightarrow> (case host_receives_no_more (connection x) of (c, r) \<Rightarrow> (x\<lparr>connection := c\<rparr>, w', [r]))
           | (w', Inr n) \<Rightarrow>
               (if n = 0 then (x, w', [])
                else (case forwarded n (connection x) of (c, r) \<Rightarrow> (x\<lparr>connection := c\<rparr>, w', [r]))))"

definition carry_one :: "('w, 's) vhost \<Rightarrow> 's held \<Rightarrow> 'w \<Rightarrow> 's held \<times> 'w \<times> header list \<times> bool" where
  "carry_one h x w =
     (case carry_write h x w of
        (x1, w1, hs) \<Rightarrow>
          if conn_waiting (connection x1) \<noteq> [] then (x1, w1, hs, False)
          else case (if guest_sends_no_more (connection x1) \<and> \<not> write_shut x1
                     then (x1\<lparr>write_shut := True\<rparr>, st_shutdown_write h (stream x1) w1) else (x1, w1)) of
                 (x2, w2) \<Rightarrow>
                   if guest_closed (connection x2) then (x2, w2, hs, True)
                   else case finished (connection x2) of
                          (c, None) \<Rightarrow> (x2\<lparr>connection := c\<rparr>, w2, hs, False)
                        | (c, Some r) \<Rightarrow> (x2\<lparr>connection := c\<rparr>, w2, hs @ [r], False))"

primrec carry_all ::
  "('w, 's) vhost \<Rightarrow> (ports \<times> 's held) list \<Rightarrow> 'w \<Rightarrow> (ports \<times> 's held) list \<times> 'w \<times> header list \<times> header list" where
  "carry_all h [] w = ([], w, [], [])"
| "carry_all h (kx # xs) w =
     (case carry_one h (snd kx) w of
        (x, w1, hs, gone) \<Rightarrow>
          (case carry_all h xs w1 of
             (xs', w2, hs', last_hs) \<Rightarrow>
               if gone then (xs', w2, hs @ hs', snd (host_done (connection x)) # last_hs)
               else ((fst kx, x) # xs', w2, hs @ hs', last_hs)))"

definition carry :: "('w, 's) vhost \<Rightarrow> ('w, 's) vsock \<Rightarrow> ('w, 's) vsock" where
  "carry h v =
     (case carry_all h (v_open v) (v_world v) of
        (xs, w, hs, last_hs) \<Rightarrow> owe_all (hs @ last_hs) (v\<lparr>v_open := xs, v_world := w\<rparr>))"

definition pump_one :: "('w, 's) vhost \<Rightarrow> 's held \<Rightarrow> 'w \<Rightarrow> 's held \<times> 'w \<times> (header \<times> bytes) list" where
  "pump_one h x w =
     (let r = min (unat (room (connection x))) PACKET in
      if r = 0 then (x, w, [])
      else case st_read h (stream x) r w of
             (w', Inr []) \<Rightarrow> (case host_sends_no_more (connection x) of (c, pk) \<Rightarrow> (x\<lparr>connection := c\<rparr>, w', [(pk, [])]))
           | (w', Inr bs) \<Rightarrow>
               (case host_sent (of_nat (length bs)) (connection x) of (c, pk) \<Rightarrow> (x\<lparr>connection := c\<rparr>, w', [(pk, bs)]))
           | (w', Inl WouldBlock) \<Rightarrow> (x, w', [])
           | (w', Inl Failed) \<Rightarrow> (case host_sends_no_more (connection x) of (c, pk) \<Rightarrow> (x\<lparr>connection := c\<rparr>, w', [(pk, [])])))"

primrec pump_all ::
  "('w, 's) vhost \<Rightarrow> nat \<Rightarrow> (ports \<times> 's held) list \<Rightarrow> 'w \<Rightarrow> (ports \<times> 's held) list \<times> 'w \<times> (header \<times> bytes) list" where
  "pump_all h k [] w = ([], w, [])"
| "pump_all h k (kx # xs) w =
     (if WAITING \<le> k then (kx # xs, w, [])
      else case pump_one h (snd kx) w of
             (x, w1, ps) \<Rightarrow>
               (case pump_all h (k + length ps) xs w1 of
                  (xs', w2, ps') \<Rightarrow> ((fst kx, x) # xs', w2, ps @ ps')))"

definition pump :: "('w, 's) vhost \<Rightarrow> ('w, 's) vsock \<Rightarrow> ('w, 's) vsock" where
  "pump h v =
     (case pump_all h (length (v_waiting v)) (v_open v) (v_world v) of
        (xs, w, ps) \<Rightarrow> foldl (\<lambda>v (pk, p). owe pk p v) (v\<lparr>v_open := xs, v_world := w\<rparr>) ps)"

text \<open>Packets and the rings.\<close>

definition read_packet :: "'m vm \<Rightarrow> 'm \<Rightarrow> chain \<Rightarrow> ((header \<times> bytes) option, virtio_error) result" where
  "read_packet vm m c =
     and_then (read_parts (ROOM + PACKET) vm m (descriptors c) []) (\<lambda>whole.
       Ok (case header_read whole of None \<Rightarrow> None | Some pk \<Rightarrow> Some (pk, drop ROOM whole)))"

definition write_fully :: "'m vm \<Rightarrow> chain \<Rightarrow> bytes \<Rightarrow> 'm \<Rightarrow> 'm \<times> (u32, virtio_error) result" where
  "write_fully vm c whole m =
     (case write_parts vm whole (descriptors c) m 0 of
        (m', Inl e) \<Rightarrow> (m', Inl e)
      | (m', Inr n) \<Rightarrow> (m', if n \<noteq> length whole then Err Request else Ok (of_nat n)))"

definition write_packet :: "'m vm \<Rightarrow> chain \<Rightarrow> header \<Rightarrow> bytes \<Rightarrow> 'm \<Rightarrow> 'm \<times> (u32, virtio_error) result" where
  "write_packet vm c pk p m = write_fully vm c (header_bytes pk @ p) m"

definition write_event :: "'m vm \<Rightarrow> chain \<Rightarrow> u32 \<Rightarrow> 'm \<Rightarrow> 'm \<times> (u32, virtio_error) result" where
  "write_event vm c i m = write_fully vm c (to_le 4 i) m"

text \<open>One round of \<^verbatim>\<open>give\<close> once a chain was popped.  The loop pops only while \<open>waiting\<close> is
  not empty, so the first branch is never taken.\<close>

definition give_one :: "'m vm \<Rightarrow> ('m, ('w, 's) vsock) body" where
  "give_one vm v m q c =
     (case v_waiting v of
        [] \<Rightarrow> (v, m, undo_pop q, Inr False)
      | (pk, p) # rest \<Rightarrow>
          let space = writable_room c in
          if space < (if p = [] then ROOM else ROOM + 1)
          then (case add_used vm m q (head c) 0 of
                  (m1, q1, Inl e) \<Rightarrow> (v\<lparr>v_short := v_short v + 1\<rparr>, m1, q1, Inl e)
                | (m1, q1, Inr _) \<Rightarrow> (v\<lparr>v_short := v_short v + 1\<rparr>, m1, q1, Inr True))
          else
            let fits = min (length p) (space - ROOM);
                pk' = pk\<lparr>h_len := of_nat fits\<rparr>;
                v0 = v\<lparr>v_waiting := (pk', p) # rest\<rparr> in
            (case write_packet vm c pk' (take fits p) m of
               (m1, Inl e) \<Rightarrow> (v0, m1, q, Inl e)
             | (m1, Inr n) \<Rightarrow>
                 (case add_used vm m1 q (head c) n of
                    (m2, q1, Inl e) \<Rightarrow> (v0, m2, q1, Inl e)
                  | (m2, q1, Inr _) \<Rightarrow>
                      (v\<lparr>v_waiting := (if fits < length p then (pk', drop fits p) # rest else rest)\<rparr>,
                       m2, q1, Inr True))))"

definition give :: "nat \<Rightarrow> 'm vm \<Rightarrow> ('w, 's) vsock \<Rightarrow> 'm \<Rightarrow> queue \<Rightarrow>
    (('w, 's) vsock \<times> 'm \<times> queue \<times> (unit, virtio_error) result) option" where
  "give fuel vm v m q = while_loop fuel (\<lambda>v. v_waiting v \<noteq> []) vm (give_one vm) v m q"

definition take_body :: "'m vm \<Rightarrow> ('w, 's) vhost \<Rightarrow> ('m, ('w, 's) vsock) body" where
  "take_body vm h v m q c =
     (case read_packet vm m c of
        Inl e \<Rightarrow> (v, m, q, Inl e)
      | Inr x \<Rightarrow>
          let v1 = (case x of None \<Rightarrow> v | Some (pk, p) \<Rightarrow> took h pk p v) in
          (case add_used vm m q (head c) 0 of
             (m1, q1, Inl e) \<Rightarrow> (v1, m1, q1, Inl e)
           | (m1, q1, Inr _) \<Rightarrow> (v1, m1, q1, Inr True)))"

definition take_tx :: "nat \<Rightarrow> 'm vm \<Rightarrow> ('w, 's) vhost \<Rightarrow> ('w, 's) vsock \<Rightarrow> 'm \<Rightarrow> queue \<Rightarrow>
    (('w, 's) vsock \<times> 'm \<times> queue \<times> (unit, virtio_error) result) option" where
  "take_tx fuel vm h v m q = pop_loop fuel vm (take_body vm h) v m q"

definition post_reset :: "'m vm \<Rightarrow> ('w, 's) vsock \<Rightarrow> 'm \<Rightarrow> queue \<Rightarrow>
    ('w, 's) vsock \<times> 'm \<times> queue \<times> (unit, virtio_error) result" where
  "post_reset vm v m q =
     (if \<not> reset_owed v then (v, m, q, Ok ())
      else case pop vm m q of
             (q1, Inl e) \<Rightarrow> (v, m, q1, Inl e)
           | (q1, Inr None) \<Rightarrow> (v, m, q1, Ok ())
           | (q1, Inr (Some c)) \<Rightarrow>
               (case write_event vm c TRANSPORT_RESET m of
                  (m1, Inl e) \<Rightarrow> (v, m1, q1, Inl e)
                | (m1, Inr n) \<Rightarrow>
                    (case add_used vm m1 q1 (head c) n of
                       (m2, q2, Inl e) \<Rightarrow> (v, m2, q2, Inl e)
                     | (m2, q2, Inr _) \<Rightarrow> (v\<lparr>reset_owed := False\<rparr>, m2, q2, Ok ()))))"

definition vsock_read_config :: "u64 \<Rightarrow> u8 \<Rightarrow> ('w, 's) vsock \<Rightarrow> u64" where
  "vsock_read_config off sz v =
     (let bs = to_le 8 (v_guest_cid v) in
      foldl (\<lambda>acc step. acc OR push_bit (step * 8)
               (ucast (if unat (off + of_nat step) < 8 then bs ! unat (off + of_nat step) else 0)))
        0 [0..<unat sz])"

definition expire_now :: "('w, 's) vhost \<Rightarrow> ('w, 's) vsock \<Rightarrow> ('w, 's) vsock" where
  "expire_now h v = (case now_ns h (v_world v) of (w, t) \<Rightarrow> expire t (v\<lparr>v_world := w\<rparr>))"

definition vsock_notify :: "nat \<Rightarrow> 'm vm \<Rightarrow> ('w, 's) vhost \<Rightarrow> u16 \<Rightarrow> ('w, 's) vsock \<Rightarrow> 'm \<Rightarrow> queue \<Rightarrow>
    (('w, 's) vsock \<times> 'm \<times> queue \<times> (unit, virtio_error) result) option" where
  "vsock_notify fuel vm h index v m q =
     (if index = TX
      then (case take_tx fuel vm h v m q of
              None \<Rightarrow> None
            | Some (v1, m1, q1, Inl e) \<Rightarrow> Some (v1, m1, q1, Inl e)
            | Some (v1, m1, q1, Inr _) \<Rightarrow>
                Some (expire_now h (pump h (carry h (take_incoming h v1))), m1, q1, Ok ()))
      else if index = RX then give fuel vm (expire_now h (pump h (carry h (take_incoming h v)))) m q
      else if index = EVT then Some (post_reset vm v m q)
      else Some (v, m, q, Ok ()))"

definition vsock_restored :: "'m vm \<Rightarrow> u16 \<Rightarrow> ('w, 's) vsock \<Rightarrow> 'm \<Rightarrow> queue \<Rightarrow>
    ('w, 's) vsock \<times> 'm \<times> queue \<times> (unit, virtio_error) result" where
  "vsock_restored vm index v m q =
     (let v1 = v\<lparr>v_open := [], v_waiting := [], reset_owed := True\<rparr>
      in if index = EVT then post_reset vm v1 m q else (v1, m, q, Ok ()))"

definition vsock_wake_after :: "nat \<Rightarrow> ('w, 's) vsock \<Rightarrow> nat option" where
  "vsock_wake_after now v =
     (let ts = map (\<lambda>(k, x). case since x of Some t \<Rightarrow> t + PATIENCE - now | None \<Rightarrow> PATIENCE)
                 (filter (\<lambda>(k, x). waiting_on_guest (connection x)) (v_open v))
      in if ts = [] then None else Some (Min (set ts)))"

section \<open>Host ports\<close>

text \<open>The ports tried are consecutive in the range of \<open>2 ^ 30\<close> ports with \<^verbatim>\<open>HOST_SIDE\<close> set.\<close>

lemma unat_next_port: "unat (next_port p) = 2 ^ 30 + (unat p + 1) mod 2 ^ 30"
proof -
  have "next_port p = push_bit 30 1 OR take_bit 30 (p + 1)"
  proof (rule bit_word_eqI)
    fix n assume "n < LENGTH(32)"
    then have "n < 30 \<or> n = 30 \<or> n = 31" by auto
    then show "bit (next_port p) n = bit (push_bit 30 1 OR take_bit 30 (p + 1)) n"
      by (simp only: next_port_def HOST_SIDE_def bit_or_iff bit_and_iff bit_not_iff_eq bit_push_bit_iff
          bit_take_bit_iff) (auto simp: bit_1_iff)
  qed
  also have "\<dots> = push_bit 30 1 + take_bit 30 (p + 1)"
    by (rule disjunctive_add [symmetric]) (simp only: bit_push_bit_iff bit_take_bit_iff, auto)
  finally have eq: "next_port p = push_bit 30 1 + take_bit 30 (p + 1)" .
  have low: "unat (take_bit 30 (p + 1)) = (unat p + 1) mod 2 ^ 30"
    by (simp add: unsigned_take_bit_eq take_bit_eq_mod unat_word_ariths mod_mod_cancel)
  then have "unat (take_bit 30 (p + 1)) < 2 ^ 30" by simp
  then show ?thesis unfolding eq by (simp add: unat_word_ariths low)
qed

lemma mod_wrap_step: "(N + a mod N + 1) mod N = (a + 1) mod (N :: nat)"
proof -
  have "(N + a mod N + 1) mod N = ((a mod N + 1) + N) mod N" by (simp add: algebra_simps)
  also have "\<dots> = (a + 1) mod N" by (simp only: mod_add_self2 mod_add_left_eq)
  finally show ?thesis .
qed

lemma mod_window_inj:
  assumes "(a + i) mod N = (a + j) mod N" "i < N" "j < (N :: nat)"
  shows "i = j"
proof -
  have "i mod N = j mod N" using assms(1) by (simp add: nat_mod_eq_iff)
  with assms(2,3) show ?thesis by simp
qed

lemma unat_next_ports: "unat ((next_port ^^ Suc i) p) = 2 ^ 30 + (unat p + 1 + i) mod 2 ^ 30"
proof (induction i)
  case 0
  then show ?case by (simp add: unat_next_port)
next
  case (Suc i)
  have "unat ((next_port ^^ Suc (Suc i)) p) = 2 ^ 30 + (2 ^ 30 + (unat p + 1 + i) mod 2 ^ 30 + 1) mod 2 ^ 30"
    by (simp only: funpow.simps(2) [of "Suc i"] o_apply unat_next_port Suc.IH)
  also have "(2 ^ 30 + (unat p + 1 + i) mod 2 ^ 30 + 1) mod 2 ^ 30 = (unat p + 1 + Suc i) mod 2 ^ 30"
    by (simp only: mod_wrap_step) simp
  finally show ?case .
qed

lemma next_ports_inj: "inj_on (\<lambda>i. (next_port ^^ Suc i) p) {..<CONNECTIONS}"
proof (rule inj_onI)
  fix i j assume ij: "i \<in> {..<CONNECTIONS}" "j \<in> {..<CONNECTIONS}" "(next_port ^^ Suc i) p = (next_port ^^ Suc j) p"
  then have "(unat p + 1 + i) mod 2 ^ 30 = (unat p + 1 + j) mod 2 ^ 30"
    using unat_next_ports [of i p] unat_next_ports [of j p] by simp
  then show "i = j" using ij(1,2) by (intro mod_window_inj [of "unat p + 1" i "2 ^ 30" j]) (simp_all add: CONNECTIONS_def)
qed

lemma free_port_loop_free:
  "\<exists>i < n. \<not> used ((next_port ^^ Suc i) p) \<Longrightarrow> \<not> used (free_port_loop n used p)"
proof (induction n arbitrary: p)
  case (Suc n)
  show ?case
  proof (cases "used (next_port p)")
    case True
    from Suc.prems obtain i where i: "i < Suc n" "\<not> used ((next_port ^^ Suc i) p)" by blast
    with True obtain j where j: "i = Suc j" by (cases i) auto
    with i have "\<not> used ((next_port ^^ Suc j) (next_port p))" by (simp add: funpow_swap1)
    with i j Suc.IH [of "next_port p"] True show ?thesis by auto
  qed simp
qed simp

lemma free_port_is_free:
  assumes "length (v_open v) < CONNECTIONS" "free_port gp v = (v', hp)"
  shows "map_of (v_open v) (gp, hp) = None"
proof -
  let ?used = "\<lambda>hp. map_of (v_open v) (gp, hp) \<noteq> None"
  let ?f = "\<lambda>i. (next_port ^^ Suc i) (last_port v)"
  have "\<exists>i < CONNECTIONS. \<not> ?used (?f i)"
  proof (rule ccontr)
    assume "\<not> ?thesis"
    then have "(\<lambda>i. (gp, ?f i)) ` {..<CONNECTIONS} \<subseteq> fst ` set (v_open v)"
      by (auto simp: map_of_eq_None_iff)
    then have "card ((\<lambda>i. (gp, ?f i)) ` {..<CONNECTIONS}) \<le> card (fst ` set (v_open v))"
      by (intro card_mono) auto
    also have "\<dots> \<le> length (v_open v)" by (metis card_length length_map set_map)
    also have "card ((\<lambda>i. (gp, ?f i)) ` {..<CONNECTIONS}) = CONNECTIONS"
      using next_ports_inj [of "last_port v"] by (subst card_image) (auto simp: inj_on_def)
    finally show False using assms(1) by simp
  qed
  then have "\<not> ?used (free_port_loop CONNECTIONS ?used (last_port v))" by (rule free_port_loop_free)
  with assms(2) show ?thesis by (auto simp: free_port_def Let_def)
qed

section \<open>The invariant\<close>

text \<open>Every connection is filed under its ports and holds at most its window, and neither the
  connections nor the packets for the guest pass their bounds.\<close>

definition held_ok :: "ports \<times> 's held \<Rightarrow> bool" where
  "held_ok kx \<longleftrightarrow> conn_ports (connection (snd kx)) = fst kx \<and> length (c_pending (connection (snd kx))) \<le> unat WINDOW"

definition packet_ok :: "header \<times> bytes \<Rightarrow> bool" where
  "packet_ok hp \<longleftrightarrow> length (snd hp) \<le> PACKET"

definition vsock_wf :: "('w, 's) vsock \<Rightarrow> bool" where
  "vsock_wf v \<longleftrightarrow> length (v_waiting v) \<le> WAITING \<and> list_all packet_ok (v_waiting v) \<and>
     length (v_open v) \<le> CONNECTIONS \<and> distinct (map fst (v_open v)) \<and> list_all held_ok (v_open v)"

definition open_wf :: "(ports \<times> 's held) list \<Rightarrow> bool" where
  "open_wf xs \<longleftrightarrow> length xs \<le> CONNECTIONS \<and> distinct (map fst xs) \<and> list_all held_ok xs"

lemma vsock_wf_alt:
  "vsock_wf v \<longleftrightarrow> length (v_waiting v) \<le> WAITING \<and> list_all packet_ok (v_waiting v) \<and> open_wf (v_open v)"
  by (simp add: vsock_wf_def open_wf_def)

lemma vsock_wf_frame [simp]:
  "vsock_wf (v\<lparr>v_world := w\<rparr>) = vsock_wf v" "vsock_wf (v\<lparr>v_dropped := n\<rparr>) = vsock_wf v"
  "vsock_wf (v\<lparr>v_short := n\<rparr>) = vsock_wf v" "vsock_wf (v\<lparr>last_port := p\<rparr>) = vsock_wf v"
  "vsock_wf (v\<lparr>reset_owed := b\<rparr>) = vsock_wf v"
  by (simp_all add: vsock_wf_def)

lemma owe_open [simp]: "v_open (owe h p v) = v_open v" "v_world (owe h p v) = v_world v"
  by (simp_all add: owe_def)

lemma owe_wf: "vsock_wf v \<Longrightarrow> length p \<le> PACKET \<Longrightarrow> vsock_wf (owe h p v)"
  by (auto simp: owe_def vsock_wf_alt packet_ok_def)

lemma owe_empty_wf [intro]: "vsock_wf v \<Longrightarrow> vsock_wf (owe h [] v)"
  by (rule owe_wf) simp_all

lemma owe_all_wf: "vsock_wf v \<Longrightarrow> vsock_wf (owe_all hs v)"
  unfolding owe_all_def by (induction hs arbitrary: v) auto

lemma owe_packets_wf:
  "vsock_wf v \<Longrightarrow> list_all packet_ok ps \<Longrightarrow> vsock_wf (foldl (\<lambda>v (pk, p). owe pk p v) v ps)"
  by (induction ps arbitrary: v) (auto simp: packet_ok_def owe_wf)

lemma update_absent: "map_of xs k = None \<Longrightarrow> AList.update k x xs = xs @ [(k, x)]"
  by (induction xs) (auto split: if_splits)

lemma length_update_present: "map_of xs k \<noteq> None \<Longrightarrow> length (AList.update k x xs) = length xs"
  by (induction xs) (auto split: if_splits)

lemma update_set: "set (AList.update k x xs) \<subseteq> insert (k, x) (set xs)"
  by (induction xs) auto

lemma open_insert_wf:
  assumes "vsock_wf v" "held_ok (k, x)" "map_of (v_open v) k \<noteq> None \<or> length (v_open v) < CONNECTIONS"
  shows "vsock_wf (open_insert k x v)"
proof -
  have "length (AList.update k x (v_open v)) \<le> CONNECTIONS"
    using assms(1,3) by (cases "map_of (v_open v) k = None") (auto simp: update_absent length_update_present vsock_wf_def)
  moreover have "list_all held_ok (AList.update k x (v_open v))"
    using assms(1,2) update_set [of k x "v_open v"] by (auto simp: vsock_wf_def list_all_iff)
  ultimately show ?thesis
    using assms(1) by (simp add: open_insert_def vsock_wf_def distinct_update)
qed

lemma open_remove_wf: "vsock_wf v \<Longrightarrow> vsock_wf (open_remove k v)"
  unfolding open_remove_def vsock_wf_def
  by (auto simp: AList.delete_eq list_all_iff distinct_map_filter intro: le_trans [OF length_filter_le])

lemma held_new_ok: "conn_ports c = k \<Longrightarrow> c_pending c = [] \<Longrightarrow> held_ok (k, held_new c s)"
  by (simp add: held_ok_def held_new_def)

lemma connection_asking_ok: "conn_ports (connection_asking cid gp hp) = (gp, hp)" "c_pending (connection_asking cid gp hp) = []"
  by (simp_all add: connection_asking_def conn_ports_def)

lemma connection_new_ok: "conn_ports (connection_new cid pk) = (src_port pk, dst_port pk)" "c_pending (connection_new cid pk) = []"
  by (simp_all add: connection_new_def conn_ports_def)

lemma free_port_frame: "free_port gp v = (v', hp) \<Longrightarrow> v' = v\<lparr>last_port := hp\<rparr>"
  by (auto simp: free_port_def Let_def)

lemma take_incoming_loop_wf: "vsock_wf v \<Longrightarrow> vsock_wf (take_incoming_loop n h v)"
proof (induction n arbitrary: v)
  case (Suc n)
  show ?case
  proof (cases "length (v_open v) < CONNECTIONS")
    case True
    obtain w x where inc: "ep_incoming h (v_world v) = (w, x)" by fastforce
    show ?thesis
    proof (cases x)
      case (Some y)
      obtain gp s where y: "y = (gp, s)" by fastforce
      obtain v1 hp where fp: "free_port gp (v\<lparr>v_world := w\<rparr>) = (v1, hp)" by fastforce
      then have v1: "v1 = v\<lparr>v_world := w, last_port := hp\<rparr>" by (simp add: free_port_frame)
      let ?c = "connection_asking (v_guest_cid v1) gp hp"
      have "vsock_wf (open_insert (gp, hp) (held_new ?c s) v1)"
        using Suc.prems True v1 by (intro open_insert_wf held_new_ok connection_asking_ok) auto
      with Suc.IH True inc Some y fp show ?thesis by (simp add: Let_def owe_empty_wf)
    qed (use Suc.prems True inc in simp)
  qed (use Suc.prems in simp)
qed simp

lemma take_incoming_wf: "vsock_wf v \<Longrightarrow> vsock_wf (take_incoming h v)"
  unfolding take_incoming_def by (rule take_incoming_loop_wf)

lemma guest_sent_window:
  assumes "guest_sent pk p c = (c', a)" "length (c_pending c) \<le> unat WINDOW"
  shows "length (c_pending c') \<le> unat WINDOW"
  using guest_sent_fields(1,3) [OF assms(1)] assms(2) by (cases "a = Took") auto

lemma host_done_keeps: "host_done c = (c', r) \<Longrightarrow> conn_ports c' = conn_ports c \<and> c_pending c' = c_pending c"
  by (auto simp: host_done_def conn_ports_def)

lemma took_open_wf:
  assumes "vsock_wf v" "map_of (v_open v) k = Some x"
  shows "vsock_wf (took_open h pk p k x v)"
proof -
  obtain c a where g: "guest_sent pk p (connection x) = (c, a)" by fastforce
  have x: "held_ok (k, x)"
    using assms map_of_SomeD [OF assms(2)] by (auto simp: vsock_wf_def list_all_iff)
  have c: "held_ok (k, x\<lparr>connection := c\<rparr>)"
    using x guest_sent_window [OF g] guest_sent_fields(7) [OF g] by (simp add: held_ok_def)
  have ins: "vsock_wf (open_insert k (x\<lparr>connection := c'\<rparr>) (v\<lparr>v_world := w\<rparr>))"
    if "held_ok (k, x\<lparr>connection := c'\<rparr>)" for c' w
    using that assms by (intro open_insert_wf) auto
  have fin: "held_ok (k, x\<lparr>connection := fst (host_done c)\<rparr>)"
    using c host_done_keeps [of c "fst (host_done c)" "snd (host_done c)"] by (simp add: held_ok_def)
  show ?thesis
    unfolding took_open_def g prod.case
    using ins [OF c] ins [OF fin] ins [OF c, of "v_world v"]
    by (auto simp: Let_def intro!: open_remove_wf owe_empty_wf split: answer_of.splits prod.splits sum.splits)
qed

lemma took_wf: "vsock_wf v \<Longrightarrow> vsock_wf (took h pk p v)"
  unfolding took_def
  by (auto simp: Let_def intro!: owe_empty_wf took_open_wf open_insert_wf held_new_ok connection_new_ok
      split: option.splits prod.splits)

text \<open>A pass over the connections keeps them filed if it keeps each of them.\<close>

lemma open_wf_ConsI:
  "open_wf (kx # xs) \<Longrightarrow> held_ok (fst kx, x) \<Longrightarrow> set (map fst xs') \<subseteq> set (map fst xs) \<Longrightarrow> length xs' \<le> length xs \<Longrightarrow>
   open_wf xs' \<Longrightarrow> open_wf ((fst kx, x) # xs')"
  by (auto simp: open_wf_def)

lemma open_wf_tl: "open_wf (kx # xs) \<Longrightarrow> open_wf xs" "open_wf (kx # xs) \<Longrightarrow> held_ok (fst kx, snd kx)"
  by (auto simp: open_wf_def)

lemma open_wf_filter: "open_wf xs \<Longrightarrow> open_wf (filter P xs)"
  by (auto simp: open_wf_def list_all_iff distinct_map_filter intro: le_trans [OF length_filter_le])

definition keeps_conn :: "'s held \<Rightarrow> 's held \<Rightarrow> bool" where
  "keeps_conn x x' \<longleftrightarrow> conn_ports (connection x') = conn_ports (connection x) \<and>
     length (c_pending (connection x')) \<le> length (c_pending (connection x))"

lemma keeps_conn_ok: "keeps_conn x x' \<Longrightarrow> held_ok (k, x) \<Longrightarrow> held_ok (k, x')"
  by (simp add: keeps_conn_def held_ok_def)

lemma keeps_conn_trans: "keeps_conn x y \<Longrightarrow> keeps_conn y z \<Longrightarrow> keeps_conn x z"
  by (simp add: keeps_conn_def)

lemma carry_write_keeps: "carry_write h x w = (x', w', hs) \<Longrightarrow> keeps_conn x x'"
  by (auto simp: carry_write_def keeps_conn_def conn_ports_def forwarded_def host_receives_no_more_def Let_def
      split: if_splits prod.splits sum.splits)

lemma finished_keeps: "finished c = (c', r) \<Longrightarrow> conn_ports c' = conn_ports c \<and> c_pending c' = c_pending c"
  by (auto simp: finished_def conn_ports_def Let_def split: if_splits)

lemma carry_one_keeps: "carry_one h x w = (x', w', hs, gone) \<Longrightarrow> keeps_conn x x'"
  unfolding carry_one_def
  by (auto simp: keeps_conn_def dest!: carry_write_keeps finished_keeps
      split: prod.splits if_splits option.splits)

lemma pump_one_keeps: "pump_one h x w = (x', w', ps) \<Longrightarrow> keeps_conn x x'"
  by (auto simp: pump_one_def keeps_conn_def conn_ports_def host_sent_def host_sends_no_more_def Let_def
      split: prod.splits if_splits sum.splits list.splits stream_error.splits)

lemma carry_all_wf:
  "carry_all h xs w = (xs', w', hs, ls) \<Longrightarrow> open_wf xs \<Longrightarrow>
   open_wf xs' \<and> set (map fst xs') \<subseteq> set (map fst xs) \<and> length xs' \<le> length xs"
proof (induction xs arbitrary: w xs' w' hs ls)
  case (Cons kx xs)
  obtain x w1 hs1 gone where one: "carry_one h (snd kx) w = (x, w1, hs1, gone)" by (metis prod_cases4)
  obtain ys w2 hs2 ls2 where rest: "carry_all h xs w1 = (ys, w2, hs2, ls2)" by (metis prod_cases4)
  note tl = open_wf_tl [OF Cons.prems(2)]
  have ih: "open_wf ys \<and> set (map fst ys) \<subseteq> set (map fst xs) \<and> length ys \<le> length xs" by (rule Cons.IH [OF rest tl(1)])
  have "held_ok (fst kx, x)" by (rule keeps_conn_ok [OF carry_one_keeps [OF one] tl(2)])
  with ih have "open_wf ((fst kx, x) # ys)" by (intro open_wf_ConsI [OF Cons.prems(2)]) auto
  with Cons.prems(1) ih one rest show ?case by (cases gone) (auto intro: subset_insertI2 simp del: set_map simp: set_map [symmetric])
qed simp

lemma carry_wf: "vsock_wf v \<Longrightarrow> vsock_wf (carry h v)"
  by (auto simp: carry_def vsock_wf_alt dest!: carry_all_wf intro!: owe_all_wf [unfolded vsock_wf_alt] split: prod.splits)

lemma expire_wf: "vsock_wf v \<Longrightarrow> vsock_wf (expire now v)"
proof -
  assume wf: "vsock_wf v"
  let ?marked = "map (\<lambda>(k, x). (k, expire_mark now x)) (v_open v)"
  have "map fst ?marked = map fst (v_open v)" by (induction "v_open v") auto
  moreover have "list_all held_ok ?marked"
    using wf by (auto simp: vsock_wf_def list_all_iff held_ok_def expire_mark_def)
  ultimately have "open_wf ?marked"
    using wf unfolding open_wf_def vsock_wf_def by (simp only: length_map simp_thms)
  then have "open_wf (filter (\<lambda>(k, x). \<not> expired now x) ?marked)" by (rule open_wf_filter)
  with wf show ?thesis
    unfolding expire_def Let_def by (intro owe_all_wf) (simp add: vsock_wf_alt)
qed

text \<open>A stream reads at most what was asked for, as the Rust documentation of \<^verbatim>\<open>Read::read\<close>
  promises.\<close>

locale byte_streams =
  fixes h :: "('w, 's) vhost"
  assumes read_at_most: "st_read h s n w = (w', Inr bs) \<Longrightarrow> length bs \<le> n"
begin

lemma pump_one_packets: "pump_one h x w = (x', w', ps) \<Longrightarrow> list_all packet_ok ps \<and> length ps \<le> 1"
  by (auto simp: pump_one_def packet_ok_def Let_def dest!: read_at_most
      split: prod.splits if_splits sum.splits list.splits stream_error.splits)

lemma pump_all_wf:
  "pump_all h k xs w = (xs', w', ps) \<Longrightarrow> open_wf xs \<Longrightarrow>
   open_wf xs' \<and> map fst xs' = map fst xs \<and> list_all packet_ok ps \<and> (k \<le> WAITING \<longrightarrow> k + length ps \<le> WAITING)"
proof (induction xs arbitrary: k w xs' w' ps)
  case (Cons kx xs)
  show ?case
  proof (cases "WAITING \<le> k")
    case False
    obtain x w1 ps1 where one: "pump_one h (snd kx) w = (x, w1, ps1)" by (metis prod_cases3)
    obtain ys w2 ps2 where rest: "pump_all h (k + length ps1) xs w1 = (ys, w2, ps2)" by (metis prod_cases3)
    note tl = open_wf_tl [OF Cons.prems(2)]
    note ih = Cons.IH [OF rest tl(1)]
    have "held_ok (fst kx, x)" by (rule keeps_conn_ok [OF pump_one_keeps [OF one] tl(2)])
    moreover have "length ys = length xs" using ih by (metis length_map)
    ultimately have "open_wf ((fst kx, x) # ys)" using ih by (intro open_wf_ConsI [OF Cons.prems(2)]) auto
    with Cons.prems(1) ih one rest False pump_one_packets [OF one] show ?thesis by auto
  qed (use Cons.prems in auto)
qed simp

lemma pump_wf: "vsock_wf v \<Longrightarrow> vsock_wf (pump h v)"
  unfolding pump_def
  by (auto simp: vsock_wf_alt dest!: pump_all_wf intro!: owe_packets_wf [unfolded vsock_wf_alt] split: prod.splits)

text \<open>What the host sends is never dropped: \<^verbatim>\<open>pump\<close> stops reading when the queue of
  packets is full.\<close>

lemma owe_packets_room:
  "length (v_waiting v) + length ps \<le> WAITING \<Longrightarrow>
   v_waiting (foldl (\<lambda>v (pk, p). owe pk p v) v ps) = v_waiting v @ ps \<and>
   v_dropped (foldl (\<lambda>v (pk, p). owe pk p v) v ps) = v_dropped v"
  by (induction ps arbitrary: v) (auto simp: owe_def)

lemma pump_drops_nothing:
  assumes "vsock_wf v"
  shows "v_dropped (pump h v) = v_dropped v \<and> prefix (v_waiting v) (v_waiting (pump h v))"
proof -
  obtain xs w ps where p: "pump_all h (length (v_waiting v)) (v_open v) (v_world v) = (xs, w, ps)" by (metis prod_cases3)
  have "length (v_waiting v) + length ps \<le> WAITING"
    using pump_all_wf [OF p] assms by (auto simp: vsock_wf_alt)
  then show ?thesis
    unfolding pump_def p using owe_packets_room [of "v\<lparr>v_open := xs, v_world := w\<rparr>" ps] by simp
qed

lemma serve_wf: "vsock_wf v \<Longrightarrow> vsock_wf (expire_now h (pump h (carry h (take_incoming h v))))"
  unfolding expire_now_def by (auto intro!: expire_wf pump_wf carry_wf take_incoming_wf split: prod.splits)

end

section \<open>Packets in the rings\<close>

context vm_memory
begin

lemma write_fully_range: "write_fully vm c whole m = (m', r) \<Longrightarrow> vm_check_range vm m' b k = vm_check_range vm m b k"
  by (auto simp: write_fully_def dest: write_parts_range split: prod.splits sum.splits)

lemma write_fully_frame:
  "write_fully vm c whole m = (m', r) \<Longrightarrow> buffers_clear (descriptors c) b k \<Longrightarrow> ram_read vm m' b k = ram_read vm m b k"
  by (auto simp: write_fully_def dest: write_parts_frame split: prod.splits sum.splits)

end

locale vsock_rings = vm_memory vm + byte_streams h for vm :: "'m vm" and h :: "('w, 's) vhost"

sublocale vsock_rings \<subseteq> tx: chain_server vm "take_body vm h"
proof
  fix d :: "('w, 's) vsock" and m q c d' m' q' r b k
  assume body: "take_body vm h d m q c = (d', m', q', r)"
  show "vm_check_range vm m' b k = vm_check_range vm m b k"
    using body by (auto simp: take_body_def Let_def add_used_range split: result_splits)
  show "same_rings q q'"
    using body by (auto simp: take_body_def Let_def dest: add_used_same_rings split: result_splits)
  assume used: "queue_wf q" "unat (used_ring q) + used_bytes q < 2 ^ 64"
      "apart (used_ring q) (used_bytes q) b k"
  show "ram_read vm m' b k = ram_read vm m b k"
    using body add_used_apart [OF used] by (auto simp: take_body_def Let_def split: result_splits)
next
  fix d :: "('w, 's) vsock" and m q c d' m' q'
  assume "take_body vm h d m q c = (d', m', q', Inr True)"
  then show "cursors q' = (next_avail q, next_used q + 1)"
    by (auto simp: take_body_def Let_def cursors_def dest: add_used_ok_cursors split: result_splits)
next
  fix d :: "('w, 's) vsock" and m q c d' m' q'
  assume "take_body vm h d m q c = (d', m', q', Inr False)"
  then show "cursors q' = (next_avail q - 1, next_used q)"
    by (auto simp: take_body_def Let_def split: result_splits)
qed

sublocale vsock_rings \<subseteq> rx: chain_server vm "give_one vm :: ('m, ('w, 's) vsock) body"
proof
  fix d :: "('w, 's) vsock" and m q c d' m' q' r b k
  assume body: "give_one vm d m q c = (d', m', q', r)"
  show "vm_check_range vm m' b k = vm_check_range vm m b k"
    using body by (auto simp: give_one_def write_packet_def Let_def add_used_range write_fully_range
        split: result_splits list.splits)
  show "same_rings q q'"
    using body by (auto simp: give_one_def Let_def dest: add_used_same_rings split: result_splits list.splits)
  assume used: "queue_wf q" "unat (used_ring q) + used_bytes q < 2 ^ 64"
      "apart (used_ring q) (used_bytes q) b k"
    and clear: "buffers_clear (descriptors c) b k"
  show "ram_read vm m' b k = ram_read vm m b k"
    using body add_used_apart [OF used] write_fully_frame [OF _ clear]
    by (auto simp: give_one_def write_packet_def Let_def split: result_splits list.splits)
next
  fix d :: "('w, 's) vsock" and m q c d' m' q'
  assume "give_one vm d m q c = (d', m', q', Inr True)"
  then show "cursors q' = (next_avail q, next_used q + 1)"
    by (auto simp: give_one_def Let_def cursors_def dest: add_used_ok_cursors split: result_splits list.splits)
next
  fix d :: "('w, 's) vsock" and m q c d' m' q'
  assume "give_one vm d m q c = (d', m', q', Inr False)"
  then show "cursors q' = (next_avail q - 1, next_used q)"
    by (auto simp: give_one_def Let_def cursors_def undo_pop_def split: result_splits list.splits)
qed

lemma give_one_wf: "vsock_wf v \<Longrightarrow> give_one vm v m q c = (v', m', q', r) \<Longrightarrow> vsock_wf v'"
  by (auto simp: give_one_def vsock_wf_alt packet_ok_def Let_def split: result_splits list.splits)

lemma give_one_goes_on: "v_waiting v \<noteq> [] \<Longrightarrow> snd (snd (snd (give_one vm v m q c))) \<noteq> Inr False"
  by (auto simp: give_one_def Let_def split: result_splits list.splits)

lemma give_wf: "give fuel vm v m q = Some (v', m', q', r) \<Longrightarrow> vsock_wf v \<Longrightarrow> vsock_wf v'"
  unfolding give_def
proof (induction fuel arbitrary: v m q)
  case (Suc fuel)
  then show ?case by (auto split: result_splits dest: give_one_wf)
qed simp

lemma take_body_wf: "vsock_wf v \<Longrightarrow> take_body vm h v m q c = (v', m', q', r) \<Longrightarrow> vsock_wf v'"
  by (auto simp: take_body_def Let_def took_wf split: result_splits)

lemma take_tx_wf: "take_tx fuel vm h v m q = Some (v', m', q', r) \<Longrightarrow> vsock_wf v \<Longrightarrow> vsock_wf v'"
  unfolding take_tx_def
proof (induction fuel arbitrary: v m q)
  case (Suc fuel)
  then show ?case by (auto split: result_splits dest: take_body_wf)
qed simp

lemma post_reset_wf: "post_reset vm v m q = (v', m', q', r) \<Longrightarrow> vsock_wf v \<Longrightarrow> vsock_wf v'"
  by (auto simp: post_reset_def split: result_splits)

context vsock_rings
begin

lemma give_ends:
  "layout_ok vm m q \<Longrightarrow> pending_count vm m q < fuel \<Longrightarrow> give fuel vm (v :: ('w, 's) vsock) m q \<noteq> None"
  unfolding give_def by (rule rx.while_loop_ends [OF give_one_goes_on])

lemma notify_wf:
  "vsock_notify fuel vm h i v m q = Some (v', m', q', r) \<Longrightarrow> vsock_wf v \<Longrightarrow> vsock_wf v'"
  by (auto simp: vsock_notify_def serve_wf dest: take_tx_wf give_wf post_reset_wf split: result_splits)

lemma notify_ends:
  assumes "layout_ok vm m q" "pending_count vm m q < fuel"
  shows "vsock_notify fuel vm h i v m q \<noteq> None"
proof -
  obtain a where "take_tx fuel vm h v m q = Some a"
    using tx.loop_ends [OF assms, folded take_tx_def, of v] by blast
  moreover obtain a1 a2 a3 a4 where "post_reset vm v m q = (a1, a2, a3, a4)" by (metis prod_cases4)
  ultimately show ?thesis
    using give_ends [OF assms] unfolding vsock_notify_def by (cases a) (auto split: sum.split)
qed

lemma give_one_packet:
  assumes "give_one vm v m q c = (v', m', q', Inr True)" "v_waiting v = (pk, p) # rest"
    and "(if p = [] then ROOM else ROOM + 1) \<le> writable_room c"
    and "queue_wf q" "unat (used_ring q) + used_bytes q < 2 ^ 64"
    and "buffers_apart (descriptors c)" "buffers_clear (descriptors c) (used_ring q) (used_bytes q)"
  defines "fits \<equiv> min (length p) (writable_room c - ROOM)"
  shows "gather vm m' (descriptors c) (ROOM + fits) = Inr (header_bytes (pk\<lparr>h_len := of_nat fits\<rparr>) @ take fits p)"
    and "v_waiting v' = (if fits < length p then (pk\<lparr>h_len := of_nat fits\<rparr>, drop fits p) # rest else rest)"
proof -
  let ?pk = "pk\<lparr>h_len := of_nat fits\<rparr>" and ?whole = "header_bytes (pk\<lparr>h_len := of_nat fits\<rparr>) @ take fits p"
  have "\<not> writable_room c < (if p = [] then ROOM else ROOM + 1)" using assms(3) by simp
  then obtain m1 n where w: "write_fully vm c ?whole m = (m1, Inr n)"
      and u: "add_used vm m1 q (head c) n = (m', q', Inr ())"
      and v': "v' = v\<lparr>v_waiting := (if fits < length p then (?pk, drop fits p) # rest else rest)\<rparr>"
    using assms(1,2) unfolding give_one_def write_packet_def Let_def fits_def
    by (auto split: prod.splits sum.splits)
  show "v_waiting v' = (if fits < length p then (?pk, drop fits p) # rest else rest)" using v' by simp
  have len: "length ?whole = ROOM + fits" by (simp add: fits_def)
  obtain "write_parts vm ?whole (descriptors c) m 0 = (m1, Inr (length ?whole))"
    using w by (auto simp: write_fully_def split: prod.splits sum.splits if_splits)
  from write_parts_gather [OF this _ assms(6)]
  have "gather vm m1 (descriptors c) (ROOM + fits) = Inr ?whole"
    unfolding len by (simp add: bslice_all len del: length_append)
  moreover have "gather vm m' (descriptors c) (ROOM + fits) = gather vm m1 (descriptors c) (ROOM + fits)"
    using assms(7) by (intro gather_cong add_used_apart [OF assms(4,5) _ u])
      (auto simp: buffers_clear_def list_all_iff apart_def)
  ultimately show "gather vm m' (descriptors c) (ROOM + fits) = Inr ?whole" by simp
qed

end

section \<open>A host of pipes\<close>

text \<open>Streams numbered by \<open>nat\<close>, each with the bytes the host side has sent and the bytes
  it has received; every port connects and nothing asks for a connection.\<close>

type_synonym pipes = "nat \<Rightarrow> bytes \<times> bytes"

definition pipe_host :: "(pipes, nat) vhost" where
  "pipe_host = \<lparr>ep_connect = (\<lambda>p w. (w, Some (unat p))), ep_incoming = (\<lambda>w. (w, None)), ep_acknowledges = True,
     st_write = (\<lambda>s bs w. (w(s := (fst (w s), snd (w s) @ bs)), Ok (length bs))),
     st_write_all = (\<lambda>s bs w. (w(s := (fst (w s), snd (w s) @ bs)), Ok ())),
     st_read = (\<lambda>s n w. (w(s := (drop n (fst (w s)), snd (w s))), if fst (w s) = [] then Err WouldBlock else Ok (take n (fst (w s))))),
     st_shutdown_write = (\<lambda>s w. w), now_ns = (\<lambda>w. (w, 0))\<rparr>"

interpretation pipes_on_flat: vsock_rings flat_vm pipe_host
  by unfold_locales (auto simp: pipe_host_def split: if_splits)

section \<open>Properties\<close>

text \<open>Property C15. A notification of the vsock device on any queue ends within the chains
  pending there, and whatever the guest has written and the host has sent it keeps the device
  within its bounds: at most 1024 packets of at most 64 KiB wait for the guest, at most 1024
  connections are open, each under its own pair of ports and holding at most its window.\<close>

theorem vsock_notify_keeps_bounds:
  assumes "vsock_rings vm h" "layout_ok vm m q" "pending_count vm m q < fuel" "vsock_wf v"
  shows "\<exists>v' m' q' r. vsock_notify fuel vm h i v m q = Some (v', m', q', r) \<and>
    length (v_waiting v') \<le> 1024 \<and> list_all (\<lambda>(pk, p). length p \<le> 65536) (v_waiting v') \<and>
    length (v_open v') \<le> 1024 \<and> distinct (map fst (v_open v')) \<and>
    list_all (\<lambda>(k, x). conn_ports (connection x) = k \<and> length (conn_waiting (connection x)) \<le> 65536) (v_open v')"
proof -
  obtain v' m' q' r where n: "vsock_notify fuel vm h i v m q = Some (v', m', q', r)"
    using vsock_rings.notify_ends [OF assms(1-3), of i v] by (metis option.exhaust prod_cases4)
  from vsock_rings.notify_wf [OF assms(1) n assms(4)] have "vsock_wf v'" .
  with n show ?thesis
    by (auto simp: vsock_wf_def WAITING_def CONNECTIONS_def packet_ok_def PACKET_def held_ok_def conn_waiting_def
        WINDOW_def list_all_iff)
qed

lemma vsock_new_wf: "vsock_wf (vsock_new cid w)"
  by (simp add: vsock_wf_def vsock_new_def)

theorem vsock_notify_keeps_bounds_witness:
  "\<exists>v' m' q' r. vsock_notify 2 flat_vm pipe_host TX (vsock_new 3 (\<lambda>_. ([], []))) demo_ram demo_queue = Some (v', m', q', r) \<and>
    length (v_waiting v') \<le> 1024"
  using vsock_notify_keeps_bounds [OF pipes_on_flat.vsock_rings_axioms demo_layout, of 2 "vsock_new 3 (\<lambda>_. ([], []))" TX]
  by (fastforce simp: demo_pending vsock_new_wf)

text \<open>While fewer than 1024 connections are open, the port \<^verbatim>\<open>free_port\<close> hands
  out for a connection the host asks for is in the range of host ports and is not in use with
  that guest port, wherever the last one was: the search wraps inside the range.\<close>

lemma free_port_finds_unused:
  assumes "length (v_open v) < 1024"
  shows "map_of (v_open v) (gp, snd (free_port gp v)) = None \<and>
    2 ^ 30 \<le> unat (snd (free_port gp v)) \<and> unat (snd (free_port gp v)) < 2 ^ 31"
proof -
  have range: "2 ^ 30 \<le> unat (free_port_loop (Suc n) used p) \<and> unat (free_port_loop (Suc n) used p) < 2 ^ 31"
    for n used p
    by (induction n arbitrary: p) (simp_all add: unat_next_port)
  obtain n where n: "CONNECTIONS = Suc n" by (metis CONNECTIONS_def not0_implies_Suc zero_neq_numeral)
  have "map_of (v_open v) (gp, snd (free_port gp v)) = None"
    using free_port_is_free [of v gp "fst (free_port gp v)"] assms by (simp add: CONNECTIONS_def)
  moreover have "\<exists>used p. snd (free_port gp v) = free_port_loop (Suc n) used p"
    unfolding free_port_def Let_def n by auto
  ultimately show ?thesis using range by metis
qed

text \<open>What \<^verbatim>\<open>give\<close> puts into a receive chain is the packet at the front of the
  line: the writable buffers, in order, hold its header with the length of the part that fits
  followed by that part of the payload; the rest of the payload stays at the front of the
  line, so that no byte is lost, repeated or reordered by a small buffer.\<close>

lemma give_splits_packets_in_order:
  assumes "vsock_rings vm h" "give_one vm v m q c = (v', m', q', Inr True)" "v_waiting v = (pk, p) # rest"
    and "(if p = [] then ROOM else ROOM + 1) \<le> writable_room c"
    and "queue_wf q" "unat (used_ring q) + used_bytes q < 2 ^ 64"
    and "buffers_apart (descriptors c)" "buffers_clear (descriptors c) (used_ring q) (used_bytes q)"
  shows "\<exists>part left. p = part @ left \<and> length part = min (length p) (writable_room c - ROOM) \<and>
    gather vm m' (descriptors c) (ROOM + length part) =
      Inr (header_bytes (pk\<lparr>h_len := of_nat (length part)\<rparr>) @ part) \<and>
    v_waiting v' = (if left = [] then rest else (pk\<lparr>h_len := of_nat (length part)\<rparr>, left) # rest)"
proof (intro exI conjI)
  let ?fits = "min (length p) (writable_room c - ROOM)"
  note given = vsock_rings.give_one_packet [OF assms]
  show "p = take ?fits p @ drop ?fits p" by simp
  show len: "length (take ?fits p) = ?fits" by simp
  show "gather vm m' (descriptors c) (ROOM + length (take ?fits p)) =
      Inr (header_bytes (pk\<lparr>h_len := of_nat (length (take ?fits p))\<rparr>) @ take ?fits p)"
    using given(1) unfolding len .
  show "v_waiting v' = (if drop ?fits p = [] then rest
      else (pk\<lparr>h_len := of_nat (length (take ?fits p))\<rparr>, drop ?fits p) # rest)"
    using given(2) unfolding len by auto
qed

text \<open>A receive chain of a single buffer of 46 bytes, and a packet of 3 bytes.\<close>

definition demo_rx_chain :: chain where
  "demo_rx_chain = \<lparr>head = 0, descriptors = [\<lparr>addr = 128, len = 46, d_flags = 2, d_next = 0\<rparr>]\<rparr>"

definition demo_packet :: header where
  "demo_packet = \<lparr>src_cid = 2, dst_cid = 3, src_port = 1, dst_port = 2, h_len = 3, h_type = 1, h_op = DataOp,
      h_flags = 0, buf_alloc = 8, fwd_cnt = 7\<rparr>"

definition demo_vsock :: "(pipes, nat) vsock" where
  "demo_vsock = (vsock_new 3 (\<lambda>_. ([], [])))\<lparr>v_waiting := [(demo_packet, [7, 8, 9])]\<rparr>"

lemma demo_write_fully:
  assumes "length whole = 46"
  shows "\<exists>m1. write_fully flat_vm demo_rx_chain whole demo_ram = (m1, Inr 46)"
proof -
  have "writable \<lparr>addr = 128, len = 46, d_flags = 2, d_next = 0\<rparr>" by (simp add: writable_def WRITE_def)
  moreover have "ram_write flat_vm demo_ram 128 whole = (fst (vm_write_slice flat_vm demo_ram 128 whole), Inr ())"
    using assms by (intro flat.ram_write_backed) (auto simp: demo_ram_def)
  ultimately show ?thesis
    using assms by (simp add: write_fully_def demo_rx_chain_def Let_def bslice_def)
qed

lemma demo_give:
  obtains m' where "give_one flat_vm demo_vsock demo_ram demo_queue demo_rx_chain =
    (demo_vsock\<lparr>v_waiting := [(demo_packet\<lparr>h_len := 2\<rparr>, [9])]\<rparr>, m', demo_queue\<lparr>next_used := 1\<rparr>, Inr True)"
proof -
  have room: "writable_room demo_rx_chain = 46"
    by (simp add: writable_room_def demo_rx_chain_def writable_def WRITE_def)
  let ?whole = "header_bytes (demo_packet\<lparr>h_len := 2\<rparr>) @ [7, 8]"
  obtain m1 where w: "write_fully flat_vm demo_rx_chain ?whole demo_ram = (m1, Inr 46)"
    using demo_write_fully [of ?whole] by (auto simp: ROOM_def)
  have "used_backed flat_vm m1 demo_queue"
    using demo_backed(1) flat.write_fully_range [OF w] by (simp add: used_backed_def)
  from flat.add_used_backed [OF demo_wf this, of 0 46]
  obtain m2 where "add_used flat_vm m1 demo_queue 0 46 = (m2, demo_queue\<lparr>next_used := next_used demo_queue + 1\<rparr>, Inr ())" .
  with w have "give_one flat_vm demo_vsock demo_ram demo_queue demo_rx_chain =
    (demo_vsock\<lparr>v_waiting := [(demo_packet\<lparr>h_len := 2\<rparr>, [9])]\<rparr>, m2, demo_queue\<lparr>next_used := 1\<rparr>, Inr True)"
    by (simp add: give_one_def demo_vsock_def room ROOM_def write_packet_def demo_queue_simps)
      (simp add: demo_rx_chain_def)
  then show ?thesis by (rule that)
qed

end
