(* ===== verification/Net_Link.thy ===== *)
theory Net_Link
  imports Prelude
begin

text \<open>
  The host end of the network device: the frame formats of
  \<^verbatim>\<open>src/lingcore/src/devices/virtio/net/frame.rs\<close>, the carriers \<^verbatim>\<open>Framed\<close> and \<^verbatim>\<open>Tap\<close> of
  \<^verbatim>\<open>carrier.rs\<close>, and the capturing carrier of \<^verbatim>\<open>pcap.rs\<close>.

  A socket, a tap and a capture file are states reached by the operations of \<open>sock\<close>,
  parameters of the model; a loop which retries an interrupted call may run for ever and is a
  \<open>partial_function\<close>.  The trait \<^verbatim>\<open>Carrier\<close> is the record \<open>carrier_ops\<close>, and the locale
  \<open>carrier\<close> its contract; a captured carrier keeps the contract of the one it wraps.

  The lemmas show that the bytes \<^verbatim>\<open>Framed\<close> puts on the socket are the frames it was given, in
  order and each behind its length, however the socket cuts them, and that it takes the same
  frames back out of such bytes.
\<close>

section \<open>Frames\<close>

definition NET_ROOM :: nat where "NET_ROOM = 12"
definition PREFIX :: nat where "PREFIX = 4"
definition MAX_FRAME :: nat where "MAX_FRAME = 65550"
definition GSO_NONE :: u8 where "GSO_NONE = 0"

record net_header =
  nh_flags :: u8
  gso_type :: u8
  hdr_len :: u16
  gso_size :: u16
  csum_start :: u16
  csum_offset :: u16
  num_buffers :: u16

definition net_header_default :: net_header where
  "net_header_default = \<lparr>nh_flags = 0, gso_type = 0, hdr_len = 0, gso_size = 0, csum_start = 0, csum_offset = 0, num_buffers = 0\<rparr>"

definition net_header_read :: "bytes \<Rightarrow> net_header option" where
  "net_header_read bs =
     (if length bs < NET_ROOM then None
      else Some \<lparr>nh_flags = bs ! 0, gso_type = bs ! 1, hdr_len = from_le (bslice 2 2 bs),
        gso_size = from_le (bslice 4 2 bs), csum_start = from_le (bslice 6 2 bs),
        csum_offset = from_le (bslice 8 2 bs), num_buffers = from_le (bslice 10 2 bs)\<rparr>)"

definition net_header_bytes :: "net_header \<Rightarrow> bytes" where
  "net_header_bytes h = [nh_flags h, gso_type h] @ to_le 2 (hdr_len h) @ to_le 2 (gso_size h) @
     to_le 2 (csum_start h) @ to_le 2 (csum_offset h) @ to_le 2 (num_buffers h)"

text \<open>\<^verbatim>\<open>Header::write\<close> asserts the room; \<open>None\<close> is its panic.\<close>

definition net_header_write :: "net_header \<Rightarrow> bytes \<Rightarrow> bytes option" where
  "net_header_write h bs = (if length bs < NET_ROOM then None else Some (bsplice 0 (net_header_bytes h) bs))"

definition asks_for_an_offload :: "net_header \<Rightarrow> bool" where
  "asks_for_an_offload h \<longleftrightarrow> nh_flags h \<noteq> 0 \<or> gso_type h \<noteq> GSO_NONE"

definition frame_length :: "bytes \<Rightarrow> nat option" where
  "frame_length prefix =
     (let named = unat (from_be prefix :: u32) in if 1 \<le> named \<and> named \<le> MAX_FRAME then Some named else None)"

definition lay :: "nat \<Rightarrow> bytes" where
  "lay n = to_be 4 (of_nat n :: u32)"

section \<open>Sockets and carriers\<close>

text \<open>What a call on a descriptor fails with, as far as the code tells errors apart.\<close>

datatype sock_error = SockWouldBlock | SockInterrupted | SockTimedOut | SockInvalid | WriteZero | UnexpectedEof | InvalidData | AddrInUse | NotFoundError | SockFailed

datatype interest = InterestRead | InterestWrite | InterestBoth

record 'w sock =
  sk_write :: "bytes \<Rightarrow> 'w \<Rightarrow> 'w \<times> (nat, sock_error) result"
  sk_read :: "nat \<Rightarrow> 'w \<Rightarrow> 'w \<times> (bytes, sock_error) result"
  sk_fd :: int

record 'c carrier_ops =
  car_take :: "nat \<Rightarrow> 'c \<Rightarrow> ('c \<times> (bytes option, sock_error) result) option"
  car_give :: "bytes \<Rightarrow> 'c \<Rightarrow> ('c \<times> (bool, sock_error) result) option"
  car_resume :: "'c \<Rightarrow> ('c \<times> (bool, sock_error) result) option"
  car_outside :: "'c \<Rightarrow> (int \<times> interest) list"

subsection \<open>Framed\<close>

record 'w framed =
  f_stream :: 'w
  arriving :: bytes
  leaving :: bytes
  f_written :: nat

definition framed_over :: "'w \<Rightarrow> 'w framed" where
  "framed_over w = \<lparr>f_stream = w, arriving = [], leaving = [], f_written = 0\<rparr>"

partial_function (option) framed_push :: "'w sock \<Rightarrow> 'w framed \<Rightarrow> ('w framed \<times> (bool, sock_error) result) option" where
  "framed_push k f =
     (if f_written f < length (leaving f)
      then (case sk_write k (drop (f_written f) (leaving f)) (f_stream f) of
              (w, Inr n) \<Rightarrow>
                (if n = 0 then Some (f\<lparr>f_stream := w\<rparr>, Err WriteZero)
                 else framed_push k (f\<lparr>f_stream := w, f_written := f_written f + n\<rparr>))
            | (w, Inl e) \<Rightarrow>
                (if e = SockWouldBlock then Some (f\<lparr>f_stream := w\<rparr>, Ok False)
                 else if e = SockInterrupted then framed_push k (f\<lparr>f_stream := w\<rparr>)
                 else Some (f\<lparr>f_stream := w\<rparr>, Err e)))
      else Some (f\<lparr>leaving := [], f_written := 0\<rparr>, Ok True))"

partial_function (option) framed_pull :: "'w sock \<Rightarrow> nat \<Rightarrow> 'w framed \<Rightarrow> ('w framed \<times> (bool, sock_error) result) option" where
  "framed_pull k want f =
     (if length (arriving f) < want
      then (case sk_read k (min (want - length (arriving f)) 4096) (f_stream f) of
              (w, Inr bs) \<Rightarrow>
                (if bs = [] then Some (f\<lparr>f_stream := w\<rparr>, Err UnexpectedEof)
                 else framed_pull k want (f\<lparr>f_stream := w, arriving := arriving f @ bs\<rparr>))
            | (w, Inl e) \<Rightarrow>
                (if e = SockWouldBlock then Some (f\<lparr>f_stream := w\<rparr>, Ok False)
                 else if e = SockInterrupted then framed_pull k want (f\<lparr>f_stream := w\<rparr>)
                 else Some (f\<lparr>f_stream := w\<rparr>, Err e)))
      else Some (f, Ok True))"

definition framed_take :: "'w sock \<Rightarrow> nat \<Rightarrow> 'w framed \<Rightarrow> ('w framed \<times> (bytes option, sock_error) result) option" where
  "framed_take k room f =
     (case framed_pull k PREFIX f of
        None \<Rightarrow> None
      | Some (f1, Inl e) \<Rightarrow> Some (f1, Inl e)
      | Some (f1, Inr False) \<Rightarrow> Some (f1, Ok None)
      | Some (f1, Inr True) \<Rightarrow>
          (case frame_length (take PREFIX (arriving f1)) of
             None \<Rightarrow> Some (f1, Err InvalidData)
           | Some n \<Rightarrow>
               (case framed_pull k (PREFIX + n) f1 of
                  None \<Rightarrow> None
                | Some (f2, Inl e) \<Rightarrow> Some (f2, Inl e)
                | Some (f2, Inr False) \<Rightarrow> Some (f2, Ok None)
                | Some (f2, Inr True) \<Rightarrow>
                    (if room < n then Some (f2\<lparr>arriving := []\<rparr>, Ok None)
                     else Some (f2\<lparr>arriving := []\<rparr>, Ok (Some (bslice PREFIX n (arriving f2))))))))"

definition framed_give :: "'w sock \<Rightarrow> bytes \<Rightarrow> 'w framed \<Rightarrow> ('w framed \<times> (bool, sock_error) result) option" where
  "framed_give k frame f =
     (if leaving f \<noteq> [] then Some (f, Ok False)
      else if MAX_FRAME < length frame then Some (f, Ok True)
      else case framed_push k (f\<lparr>leaving := lay (length frame) @ frame\<rparr>) of
             None \<Rightarrow> None
           | Some (f', Inl e) \<Rightarrow> Some (f', Inl e)
           | Some (f', Inr _) \<Rightarrow> Some (f', Ok True))"

definition framed_resume :: "'w sock \<Rightarrow> 'w framed \<Rightarrow> ('w framed \<times> (bool, sock_error) result) option" where
  "framed_resume k f = (if leaving f = [] then Some (f, Ok True) else framed_push k f)"

definition framed_outside :: "'w sock \<Rightarrow> 'w framed \<Rightarrow> (int \<times> interest) list" where
  "framed_outside k f = [(sk_fd k, if leaving f = [] then InterestRead else InterestBoth)]"

definition framed_ops :: "'w sock \<Rightarrow> 'w framed carrier_ops" where
  "framed_ops k = \<lparr>car_take = framed_take k, car_give = framed_give k, car_resume = framed_resume k,
     car_outside = framed_outside k\<rparr>"

subsection \<open>Tap\<close>

record 'w tap =
  t_file :: 'w
  t_leaving :: bytes

definition tap_over :: "'w \<Rightarrow> 'w tap" where
  "tap_over w = \<lparr>t_file = w, t_leaving = []\<rparr>"

definition IFNAMSIZ :: nat where "IFNAMSIZ = 16"

text \<open>The \<^verbatim>\<open>ifreq\<close> of \<^verbatim>\<open>TUNSETIFF\<close>: the name, and \<^verbatim>\<open>IFF_TAP | IFF_NO_PI\<close> behind it.\<close>

definition TAP_FLAGS :: u16 where "TAP_FLAGS = 0x0002 OR 0x1000"

definition tap_request :: "bytes \<Rightarrow> bytes option" where
  "tap_request name =
     (if name = [] \<or> IFNAMSIZ \<le> length name then None
      else Some (bsplice IFNAMSIZ (to_le 2 TAP_FLAGS) (bsplice 0 name (replicate 40 0))))"

partial_function (option) tap_push :: "'w sock \<Rightarrow> 'w tap \<Rightarrow> ('w tap \<times> (bool, sock_error) result) option" where
  "tap_push k t =
     (if t_leaving t = [] then Some (t, Ok True)
      else case sk_write k (t_leaving t) (t_file t) of
             (w, Inr _) \<Rightarrow> tap_push k (t\<lparr>t_file := w, t_leaving := []\<rparr>)
           | (w, Inl e) \<Rightarrow>
               (if e = SockWouldBlock then Some (t\<lparr>t_file := w\<rparr>, Ok False)
                else if e = SockInterrupted then tap_push k (t\<lparr>t_file := w\<rparr>)
                else Some (t\<lparr>t_file := w\<rparr>, Err e)))"

partial_function (option) tap_take :: "'w sock \<Rightarrow> nat \<Rightarrow> 'w tap \<Rightarrow> ('w tap \<times> (bytes option, sock_error) result) option" where
  "tap_take k room t =
     (case sk_read k room (t_file t) of
        (w, Inr bs) \<Rightarrow> Some (t\<lparr>t_file := w\<rparr>, Ok (if bs = [] then None else Some bs))
      | (w, Inl e) \<Rightarrow>
          (if e = SockWouldBlock \<or> e = SockInvalid then Some (t\<lparr>t_file := w\<rparr>, Ok None)
           else if e = SockInterrupted then tap_take k room (t\<lparr>t_file := w\<rparr>)
           else Some (t\<lparr>t_file := w\<rparr>, Err e)))"

definition tap_give :: "'w sock \<Rightarrow> bytes \<Rightarrow> 'w tap \<Rightarrow> ('w tap \<times> (bool, sock_error) result) option" where
  "tap_give k frame t =
     (if t_leaving t \<noteq> [] then Some (t, Ok False)
      else if MAX_FRAME < length frame then Some (t, Ok True)
      else case tap_push k (t\<lparr>t_leaving := frame\<rparr>) of
             None \<Rightarrow> None
           | Some (t', Inl e) \<Rightarrow> Some (t', Inl e)
           | Some (t', Inr _) \<Rightarrow> Some (t', Ok True))"

definition tap_outside :: "'w sock \<Rightarrow> 'w tap \<Rightarrow> (int \<times> interest) list" where
  "tap_outside k t = [(sk_fd k, if t_leaving t = [] then InterestRead else InterestBoth)]"

definition tap_ops :: "'w sock \<Rightarrow> 'w tap carrier_ops" where
  "tap_ops k = \<lparr>car_take = tap_take k, car_give = tap_give k, car_resume = tap_push k, car_outside = tap_outside k\<rparr>"

subsection \<open>Captured\<close>

text \<open>The numbers of a pcap file are in the byte order of the host, little-endian on the hosts
  the program runs on.  The file is the list of bytes written, and \<open>file_ok\<close> whether the next
  write of it succeeds; \<^verbatim>\<open>write_all\<close> of a file which fails may have written a part.\<close>

definition PCAP_MAGIC :: u32 where "PCAP_MAGIC = 0xa1b2c3d4"
definition VERSION_MAJOR :: u16 where "VERSION_MAJOR = 2"
definition VERSION_MINOR :: u16 where "VERSION_MINOR = 4"
definition LINKTYPE_ETHERNET :: u32 where "LINKTYPE_ETHERNET = 1"
definition SNAPLEN :: u32 where "SNAPLEN = of_nat MAX_FRAME"
definition FILE_HEADER :: nat where "FILE_HEADER = 24"
definition RECORD_HEADER :: nat where "RECORD_HEADER = 16"

definition pcap_header :: bytes where
  "pcap_header = bsplice 20 (to_le 4 LINKTYPE_ETHERNET) (bsplice 16 (to_le 4 SNAPLEN)
     (bsplice 6 (to_le 2 VERSION_MINOR) (bsplice 4 (to_le 2 VERSION_MAJOR)
       (bsplice 0 (to_le 4 PCAP_MAGIC) (replicate FILE_HEADER 0)))))"

text \<open>A time is seconds and microseconds.\<close>

definition pcap_record :: "bytes \<Rightarrow> nat \<times> nat \<Rightarrow> bytes" where
  "pcap_record frame t = to_le 4 (of_nat (fst t) :: u32) @ to_le 4 (of_nat (snd t) :: u32) @
     to_le 4 (of_nat (length frame) :: u32) @ to_le 4 (of_nat (length frame) :: u32) @ frame"

record 'w capture_file =
  file_write_all :: "bytes \<Rightarrow> 'w \<Rightarrow> 'w \<times> bool"
  since_epoch :: "'w \<Rightarrow> 'w \<times> nat \<times> nat"

record ('c, 'w) captured =
  inner :: 'c
  c_file :: 'w
  broken :: bool

definition captured_new :: "'w capture_file \<Rightarrow> 'c \<Rightarrow> 'w \<Rightarrow> ('c, 'w) captured option" where
  "captured_new h c w =
     (case file_write_all h pcap_header w of
        (w', ok) \<Rightarrow> if ok then Some \<lparr>inner = c, c_file = w', broken = False\<rparr> else None)"

definition captured_record :: "'w capture_file \<Rightarrow> bytes \<Rightarrow> ('c, 'w) captured \<Rightarrow> ('c, 'w) captured" where
  "captured_record h frame x =
     (if broken x then x
      else case since_epoch h (c_file x) of
             (w, t) \<Rightarrow>
               (case file_write_all h (pcap_record frame t) w of
                  (w', ok) \<Rightarrow> if ok then x\<lparr>c_file := w'\<rparr> else x\<lparr>c_file := w', broken := True\<rparr>))"

definition captured_take ::
  "'c carrier_ops \<Rightarrow> 'w capture_file \<Rightarrow> nat \<Rightarrow> ('c, 'w) captured \<Rightarrow> (('c, 'w) captured \<times> (bytes option, sock_error) result) option" where
  "captured_take ops h room x =
     (case car_take ops room (inner x) of
        None \<Rightarrow> None
      | Some (c, Inl e) \<Rightarrow> Some (x\<lparr>inner := c\<rparr>, Inl e)
      | Some (c, Inr None) \<Rightarrow> Some (x\<lparr>inner := c\<rparr>, Ok None)
      | Some (c, Inr (Some frame)) \<Rightarrow> Some (captured_record h frame (x\<lparr>inner := c\<rparr>), Ok (Some frame)))"

definition captured_give ::
  "'c carrier_ops \<Rightarrow> 'w capture_file \<Rightarrow> bytes \<Rightarrow> ('c, 'w) captured \<Rightarrow> (('c, 'w) captured \<times> (bool, sock_error) result) option" where
  "captured_give ops h frame x =
     (case car_give ops frame (inner x) of
        None \<Rightarrow> None
      | Some (c, Inl e) \<Rightarrow> Some (x\<lparr>inner := c\<rparr>, Inl e)
      | Some (c, Inr given) \<Rightarrow>
          Some (if given then captured_record h frame (x\<lparr>inner := c\<rparr>) else x\<lparr>inner := c\<rparr>, Ok given))"

definition captured_resume ::
  "'c carrier_ops \<Rightarrow> ('c, 'w) captured \<Rightarrow> (('c, 'w) captured \<times> (bool, sock_error) result) option" where
  "captured_resume ops x = map_option (\<lambda>(c, r). (x\<lparr>inner := c\<rparr>, r)) (car_resume ops (inner x))"

definition captured_ops :: "'c carrier_ops \<Rightarrow> 'w capture_file \<Rightarrow> ('c, 'w) captured carrier_ops" where
  "captured_ops ops h = \<lparr>car_take = captured_take ops h, car_give = captured_give ops h,
     car_resume = captured_resume ops, car_outside = (\<lambda>x. car_outside ops (inner x))\<rparr>"

section \<open>Lemmas\<close>

lemma frame_length_lay: "frame_length (lay n) = (if 1 \<le> n \<and> n \<le> MAX_FRAME then Some n else None)" if "n < 2 ^ 32"
proof -
  have "from_be (to_be 4 (of_nat n :: u32)) = (of_nat n :: u32)"
    by (simp add: from_be_def to_be_def from_le_to_le)
  moreover have "unat (of_nat n :: u32) = n" using that by (simp add: unat_of_nat take_bit_eq_mod)
  ultimately show ?thesis by (simp add: frame_length_def lay_def Let_def)
qed

lemma length_lay [simp]: "length (lay n) = PREFIX"
  by (simp add: lay_def PREFIX_def)

lemma net_header_read_write:
  assumes "net_header_write h bs = Some bs'"
  shows "net_header_read bs' = Some h"
proof -
  have len: "12 \<le> length bs" and bs': "bs' = net_header_bytes h @ drop 12 bs"
    using assms by (auto simp: net_header_write_def NET_ROOM_def bsplice_def net_header_bytes_def split: if_splits)
  have "bslice 2 2 bs' = to_le 2 (hdr_len h)" "bslice 4 2 bs' = to_le 2 (gso_size h)"
    "bslice 6 2 bs' = to_le 2 (csum_start h)" "bslice 8 2 bs' = to_le 2 (csum_offset h)"
    "bslice 10 2 bs' = to_le 2 (num_buffers h)"
    unfolding bs' net_header_bytes_def by (simp_all add: bslice_def)
  moreover have "bs' ! 0 = nh_flags h" "bs' ! 1 = gso_type h" "\<not> length bs' < NET_ROOM"
    unfolding bs' net_header_bytes_def by (simp_all add: NET_ROOM_def)
  ultimately show ?thesis by (simp add: net_header_read_def from_le_to_le)
qed

text \<open>The bytes of a list of frames on a stream.\<close>

definition wire :: "bytes list \<Rightarrow> bytes" where
  "wire fs = concat (map (\<lambda>f. lay (length f) @ f) fs)"

lemma wire_simps [simp]: "wire [] = []" "wire (f # fs) = lay (length f) @ f @ wire fs" "wire (fs @ gs) = wire fs @ wire gs"
  by (simp_all add: wire_def)

definition frame_ok :: "bytes \<Rightarrow> bool" where
  "frame_ok f \<longleftrightarrow> f \<noteq> [] \<and> length f \<le> MAX_FRAME"

lemma frame_ok_length: "frame_ok f \<Longrightarrow> frame_length (lay (length f)) = Some (length f)"
  by (subst frame_length_lay) (auto simp: frame_ok_def MAX_FRAME_def Suc_le_eq)

definition unsent :: "'w framed \<Rightarrow> bytes" where
  "unsent f = drop (f_written f) (leaving f)"

text \<open>A stream socket: \<open>out\<close> is what it has accepted, \<open>inp\<close> what will still arrive.  A call
  accepts or returns a part of what it was offered or asked, and moves nothing if it fails.\<close>

locale stream_socket =
  fixes k :: "'w sock" and out :: "'w \<Rightarrow> bytes" and inp :: "'w \<Rightarrow> bytes"
  assumes write_ok: "sk_write k bs w = (w', Inr n) \<Longrightarrow> n \<le> length bs \<and> out w' = out w @ take n bs \<and> inp w' = inp w"
    and write_err: "sk_write k bs w = (w', Inl e) \<Longrightarrow> out w' = out w \<and> inp w' = inp w"
    and read_ok: "sk_read k n w = (w', Inr bs) \<Longrightarrow> length bs \<le> n \<and> inp w = bs @ inp w' \<and> out w' = out w"
    and read_err: "sk_read k n w = (w', Inl e) \<Longrightarrow> inp w' = inp w \<and> out w' = out w"
begin

definition sent_bytes :: "'w framed \<Rightarrow> bytes" where
  "sent_bytes f = out (f_stream f) @ unsent f"

definition coming :: "'w framed \<Rightarrow> bytes" where
  "coming f = arriving f @ inp (f_stream f)"

definition push_post :: "'w framed \<Rightarrow> 'w framed \<Rightarrow> (bool, sock_error) result \<Rightarrow> bool" where
  "push_post f f' r \<longleftrightarrow> sent_bytes f' = sent_bytes f \<and> coming f' = coming f \<and> arriving f' = arriving f \<and>
     (r = Inr True \<longrightarrow> leaving f' = [] \<and> f_written f' = 0)"

lemma push_post_trans: "push_post f1 f' r \<Longrightarrow> push_post f f1 (Inr False) \<Longrightarrow> push_post f f' r"
  by (auto simp: push_post_def)

lemma push_step:
  assumes "sk_write k (drop (f_written f) (leaving f)) (f_stream f) = (w, Inr n)"
  shows "push_post f (f\<lparr>f_stream := w, f_written := f_written f + n\<rparr>) (Inr False)"
    "n = 0 \<Longrightarrow> push_post f (f\<lparr>f_stream := w\<rparr>) (Inl WriteZero)"
  using write_ok [OF assms]
  by (simp_all add: push_post_def sent_bytes_def coming_def unsent_def) (metis add.commute append_take_drop_id drop_drop)

lemma push_fail:
  assumes "sk_write k (drop (f_written f) (leaving f)) (f_stream f) = (w, Inl e)" "r \<noteq> Inr True"
  shows "push_post f (f\<lparr>f_stream := w\<rparr>) r"
  using write_err [OF assms(1)] assms(2) by (simp add: push_post_def sent_bytes_def coming_def unsent_def)

lemma framed_push_keeps: "framed_push k f = Some y \<Longrightarrow> push_post f (fst y) (snd y)"
proof (induction k\<equiv>k f y rule: framed_push.raw_induct [rotated, consumes 1])
  case (1 pu f y)
  show ?case
  proof (cases "f_written f < length (leaving f)")
    case False
    with 1(2) show ?thesis by (auto simp: push_post_def sent_bytes_def coming_def unsent_def)
  next
    case True
    obtain w r where w: "sk_write k (drop (f_written f) (leaving f)) (f_stream f) = (w, r)" by fastforce
    show ?thesis
    proof (cases r)
      case (Inl e)
      then have fail: "r \<noteq> Inr True \<Longrightarrow> push_post f (f\<lparr>f_stream := w\<rparr>) r" for r using w push_fail by blast
      have on: "pu k (f\<lparr>f_stream := w\<rparr>) = Some y \<Longrightarrow> push_post f (fst y) (snd y)"
        using fail [of "Inr False"] by (intro push_post_trans [OF 1(1)]) simp_all
      from Inl 1(2) True w show ?thesis by (auto intro: fail on split: if_splits)
    next
      case (Inr n)
      with 1(2) True w show ?thesis
        by (auto intro: push_step push_post_trans [OF 1(1) push_step(1)] split: if_splits)
    qed
  qed
qed

definition pull_post :: "nat \<Rightarrow> 'w framed \<Rightarrow> 'w framed \<Rightarrow> (bool, sock_error) result \<Rightarrow> bool" where
  "pull_post want f f' r \<longleftrightarrow> coming f' = coming f \<and> sent_bytes f' = sent_bytes f \<and> leaving f' = leaving f \<and>
     f_written f' = f_written f \<and> length (arriving f) \<le> length (arriving f') \<and>
     length (arriving f') \<le> max want (length (arriving f)) \<and> (r = Inr True \<longrightarrow> want \<le> length (arriving f'))"

lemma pull_post_trans: "pull_post want f1 f' r \<Longrightarrow> pull_post want f f1 (Inr False) \<Longrightarrow> pull_post want f f' r"
  by (auto simp: pull_post_def)

lemma pull_step:
  assumes "sk_read k (min (want - length (arriving f)) 4096) (f_stream f) = (w, Inr bs)" "length (arriving f) < want"
  shows "pull_post want f (f\<lparr>f_stream := w, arriving := arriving f @ bs\<rparr>) (Inr False)"
    "bs = [] \<Longrightarrow> pull_post want f (f\<lparr>f_stream := w\<rparr>) (Inl UnexpectedEof)"
  using read_ok [OF assms(1)] assms(2) by (auto simp: pull_post_def coming_def sent_bytes_def unsent_def)

lemma framed_pull_keeps: "framed_pull k want f = Some y \<Longrightarrow> pull_post want f (fst y) (snd y)"
proof (induction k\<equiv>k want f y rule: framed_pull.raw_induct [rotated, consumes 1])
  case (1 pu want f y)
  show ?case
  proof (cases "length (arriving f) < want")
    case False
    with 1(2) show ?thesis by (auto simp: pull_post_def)
  next
    case True
    obtain w r where w: "sk_read k (min (want - length (arriving f)) 4096) (f_stream f) = (w, r)" by fastforce
    show ?thesis
    proof (cases r)
      case (Inl e)
      then have fail: "r \<noteq> Inr True \<Longrightarrow> pull_post want f (f\<lparr>f_stream := w\<rparr>) r" for r
        using w read_err [of "min (want - length (arriving f)) 4096" "f_stream f" w e]
        by (auto simp: pull_post_def coming_def sent_bytes_def unsent_def)
      have on: "pu k want (f\<lparr>f_stream := w\<rparr>) = Some y \<Longrightarrow> pull_post want f (fst y) (snd y)"
        using fail [of "Inr False"] by (intro pull_post_trans [OF 1(1)]) simp_all
      from Inl 1(2) True w show ?thesis by (auto intro: fail on split: if_splits)
    next
      case (Inr bs)
      with w have w': "sk_read k (min (want - length (arriving f)) 4096) (f_stream f) = (w, Inr bs)" by simp
      from Inr 1(2) True w show ?thesis
        by (auto intro: pull_step(2) [OF w' True] pull_post_trans [OF 1(1) pull_step(1) [OF w' True]] split: if_splits)
    qed
  qed
qed

text \<open>A socket which is not interrupted for ever lets both loops return.\<close>

lemma framed_push_returns:
  assumes "\<And>bs w. snd (sk_write k bs w) \<noteq> Inl SockInterrupted"
  shows "\<exists>y. framed_push k f = Some y"
proof (induction "length (leaving f) - f_written f" arbitrary: f rule: less_induct)
  case less
  obtain w r where w: "sk_write k (drop (f_written f) (leaving f)) (f_stream f) = (w, r)" by fastforce
  have "r \<noteq> Inl SockInterrupted" using assms w by (metis snd_conv)
  with w less show ?case
    by (subst framed_push.simps) (cases r, auto)
qed

lemma framed_pull_returns:
  assumes "\<And>n w. snd (sk_read k n w) \<noteq> Inl SockInterrupted"
  shows "\<exists>y. framed_pull k want f = Some y"
proof (induction "want - length (arriving f)" arbitrary: f rule: less_induct)
  case less
  obtain w r where w: "sk_read k (min (want - length (arriving f)) 4096) (f_stream f) = (w, r)" by fastforce
  have "r \<noteq> Inl SockInterrupted" using assms w by (metis snd_conv)
  with w less show ?case
    by (subst framed_pull.simps) (cases r, auto simp: Suc_le_eq diff_less_mono2)
qed

lemma framed_give_sends:
  assumes "framed_give k g f = Some (f', r)" "length g \<le> MAX_FRAME"
  shows "coming f' = coming f" "r = Inr False \<Longrightarrow> f' = f"
    "f_written f = 0 \<Longrightarrow> r \<noteq> Inr False \<Longrightarrow> sent_bytes f' = sent_bytes f @ lay (length g) @ g"
proof -
  show "coming f' = coming f"
    using assms framed_push_keeps [of "f\<lparr>leaving := lay (length g) @ g\<rparr>"]
    by (auto simp: framed_give_def push_post_def coming_def split: option.splits sum.splits if_splits)
  show "r = Inr False \<Longrightarrow> f' = f"
    using assms by (auto simp: framed_give_def split: option.splits sum.splits if_splits)
  assume "r \<noteq> Inr False" and zero: "f_written f = 0"
  then have l: "leaving f = []" using assms by (auto simp: framed_give_def split: if_splits)
  with assms obtain r' where "framed_push k (f\<lparr>leaving := lay (length g) @ g\<rparr>) = Some (f', r')"
    by (auto simp: framed_give_def split: option.splits sum.splits if_splits)
  from framed_push_keeps [OF this] l zero show "sent_bytes f' = sent_bytes f @ lay (length g) @ g"
    by (simp add: push_post_def sent_bytes_def unsent_def)
qed

lemma framed_take_next:
  assumes "framed_take k room f = Some (f', r)" "coming f = wire (g # gs)" "frame_ok g"
    and "length (arriving f) \<le> PREFIX + length g" "length g \<le> room"
  shows "sent_bytes f' = sent_bytes f \<and> f_written f' = f_written f \<and> leaving f' = leaving f \<and>
    (if \<exists>x. r = Inr (Some x) then r = Inr (Some g) \<and> arriving f' = [] \<and> coming f' = wire gs
     else coming f' = wire (g # gs) \<and> length (arriving f') \<le> PREFIX + length g)"
proof -
  have split_at: "take (length xs) as = xs" if "as @ bs = xs @ ys" "length xs \<le> length as" for as bs xs ys :: bytes
    using that by (auto simp: append_eq_append_conv2)
  obtain f1 r1 where p1: "framed_pull k PREFIX f = Some (f1, r1)"
    using assms(1) by (auto simp: framed_take_def split: option.splits)
  have post1: "pull_post PREFIX f f1 r1" using framed_pull_keeps [OF p1] by simp
  show ?thesis
  proof (cases "r1 = Inr True")
    case False
    with assms(1,2,4) p1 post1 show ?thesis
      by (auto simp: framed_take_def pull_post_def split: sum.splits bool.splits)
  next
    case True
    have "take (length (lay (length g))) (arriving f1) = lay (length g)"
      using post1 True assms(2) by (intro split_at [of _ "inp (f_stream f1)" _ "g @ wire gs"])
        (auto simp: pull_post_def coming_def)
    then have named: "frame_length (take PREFIX (arriving f1)) = Some (length g)"
      using frame_ok_length [OF assms(3)] by simp
    obtain f2 r2 where p2: "framed_pull k (PREFIX + length g) f1 = Some (f2, r2)"
      using assms(1) p1 True named by (auto simp: framed_take_def split: option.splits)
    have post2: "pull_post (PREFIX + length g) f1 f2 r2" using framed_pull_keeps [OF p2] by simp
    have same: "coming f2 = wire (g # gs)" "sent_bytes f2 = sent_bytes f" "leaving f2 = leaving f" "f_written f2 = f_written f"
      using post1 post2 assms(2) by (auto simp: pull_post_def)
    have len: "length (arriving f2) \<le> PREFIX + length g" using post1 post2 assms(4) by (auto simp: pull_post_def)
    show ?thesis
    proof (cases "r2 = Inr True")
      case False
      with assms(1) p1 True named p2 same len show ?thesis
        by (auto simp: framed_take_def split: sum.splits bool.splits)
    next
      case whole: True
      then have "length (arriving f2) = length (lay (length g) @ g)" using post2 len by (simp add: pull_post_def)
      moreover have "arriving f2 @ inp (f_stream f2) = (lay (length g) @ g) @ wire gs"
        using same(1) by (simp add: coming_def)
      ultimately have all: "arriving f2 = lay (length g) @ g" "inp (f_stream f2) = wire gs"
        using append_eq_append_conv by blast+
      have "framed_take k room f = Some (f2\<lparr>arriving := []\<rparr>, Ok (Some (bslice PREFIX (length g) (arriving f2))))"
        using p1 True named p2 whole assms(5) by (simp add: framed_take_def)
      with assms(1) all same show ?thesis
        by (auto simp: bslice_def coming_def sent_bytes_def unsent_def)
    qed
  qed
qed

lemma framed_take_short: "framed_take k room f = Some (f', Inr (Some x)) \<Longrightarrow> length x \<le> room"
  by (auto simp: framed_take_def min.coboundedI1 split: option.splits sum.splits bool.splits if_splits)

end

section \<open>The contract of a carrier\<close>

text \<open>A carrier never returns more bytes than the buffer it was given holds.\<close>

locale carrier =
  fixes ops :: "'c carrier_ops"
  assumes take_fits: "car_take ops room c = Some (c', Inr (Some x)) \<Longrightarrow> length x \<le> room"

sublocale stream_socket \<subseteq> framed: carrier "framed_ops k"
  by unfold_locales (auto simp: framed_ops_def dest: framed_take_short)

lemma captured_record_inner [simp]: "inner (captured_record h frame x) = inner x"
  by (simp add: captured_record_def split: prod.splits)

lemma captured_record_broken: "broken x \<Longrightarrow> captured_record h frame x = x"
  by (simp add: captured_record_def)

text \<open>A capture is transparent: whatever its file does, the carrier inside is called as it
  would be without it and answers the same.\<close>

lemma captured_transparent:
  "map_option (\<lambda>(x', r). (inner x', r)) (captured_take ops h room x) = car_take ops room (inner x)"
  "map_option (\<lambda>(x', r). (inner x', r)) (captured_give ops h frame x) = car_give ops frame (inner x)"
  "map_option (\<lambda>(x', r). (inner x', r)) (captured_resume ops x) = car_resume ops (inner x)"
  by (auto simp: captured_take_def captured_give_def captured_resume_def option.map_comp comp_def case_prod_beta option.map_ident
      split: option.splits sum.splits)

lemma captured_carrier: "carrier ops \<Longrightarrow> carrier (captured_ops ops h)"
  unfolding carrier_def by (auto simp: captured_ops_def captured_take_def split: option.splits sum.splits)

section \<open>A socket on two lists\<close>

text \<open>What was accepted and what will arrive, with a bound on what one call moves; an empty
  input blocks.\<close>

definition list_sock :: "nat \<Rightarrow> (bytes \<times> bytes) sock" where
  "list_sock chunk = \<lparr>sk_write = (\<lambda>bs w. ((fst w @ take (Suc chunk) bs, snd w), Ok (min (Suc chunk) (length bs)))),
     sk_read = (\<lambda>n w. if snd w = [] then (w, Err SockWouldBlock)
        else ((fst w, drop (min n (Suc chunk)) (snd w)), Ok (take (min n (Suc chunk)) (snd w)))),
     sk_fd = 3\<rparr>"

interpretation list_sock: stream_socket "list_sock chunk" fst snd for chunk
  by unfold_locales (auto simp: list_sock_def min_def split: if_splits)

section \<open>Properties\<close>

text \<open>Property C16. \<^verbatim>\<open>Framed\<close> carries frames over any stream socket, however the socket cuts
  the bytes.  A frame given is put on the stream behind the frames before it, or refused and
  nothing changed; what is sent and still to be sent is at each moment the wire form of the
  frames accepted.  Reading a stream on which such frames arrive, \<^verbatim>\<open>take\<close> returns the next
  frame, whole, or leaves every byte of it to a later call.\<close>

theorem framed_carries_frames:
  assumes "stream_socket k out inp"
  shows "(\<forall>g. framed_give k g f = Some (f', r) \<longrightarrow> frame_ok g \<longrightarrow> f_written f = 0 \<longrightarrow> out (f_stream f) @ unsent f = wire sent \<longrightarrow>
      out (f_stream f') @ unsent f' = wire (if r = Inr False then sent else sent @ [g])) \<and>
    (framed_resume k f = Some (f', r) \<longrightarrow> out (f_stream f') @ unsent f' = out (f_stream f) @ unsent f \<and>
      (r = Inr True \<longrightarrow> unsent f' = [])) \<and>
    (framed_take k room f = Some (f', r') \<longrightarrow> frame_ok g \<longrightarrow> length g \<le> room \<longrightarrow> length (arriving f) \<le> PREFIX + length g \<longrightarrow>
      arriving f @ inp (f_stream f) = wire (g # gs) \<longrightarrow>
      (if \<exists>x. r' = Inr (Some x) then r' = Inr (Some g) \<and> arriving f' @ inp (f_stream f') = wire gs
       else arriving f' @ inp (f_stream f') = wire (g # gs)))"
proof (intro conjI allI impI)
  note defs = stream_socket.sent_bytes_def [OF assms] stream_socket.coming_def [OF assms]
  show "out (f_stream f') @ unsent f' = wire (if r = Inr False then sent else sent @ [g])"
    if "framed_give k g f = Some (f', r)" "frame_ok g" "f_written f = 0" "out (f_stream f) @ unsent f = wire sent" for g
    using stream_socket.framed_give_sends(2,3) [OF assms that(1)] that by (auto simp: frame_ok_def defs)
  show "out (f_stream f') @ unsent f' = out (f_stream f) @ unsent f" if "framed_resume k f = Some (f', r)"
    using that stream_socket.framed_push_keeps [OF assms, of f]
    by (auto simp: framed_resume_def stream_socket.push_post_def [OF assms] defs split: if_splits)
  show "unsent f' = []" if "framed_resume k f = Some (f', r)" "r = Inr True"
    using that stream_socket.framed_push_keeps [OF assms, of f]
    by (auto simp: framed_resume_def stream_socket.push_post_def [OF assms] unsent_def split: if_splits)
  show "if \<exists>x. r' = Inr (Some x) then r' = Inr (Some g) \<and> arriving f' @ inp (f_stream f') = wire gs
       else arriving f' @ inp (f_stream f') = wire (g # gs)"
    if "framed_take k room f = Some (f', r')" "frame_ok g" "length g \<le> room" "length (arriving f) \<le> PREFIX + length g"
      "arriving f @ inp (f_stream f) = wire (g # gs)"
    using stream_socket.framed_take_next [OF assms that(1) _ that(2,4,3), of gs] that(5) by (auto simp: defs)
qed

theorem framed_carries_frames_witness:
  "let f = framed_over ([], []); f' = f\<lparr>f_stream := (wire [[7]], [])\<rparr> in
   framed_give (list_sock 9) [7] f = Some (f', Inr True) \<and> fst (f_stream f') @ unsent f' = wire [[7]]"
proof -
  let ?f = "framed_over ([], [])"
  have give: "framed_give (list_sock 9) [7] ?f = Some (?f\<lparr>f_stream := (wire [[7]], [])\<rparr>, Inr True)"
  proof -
    have "framed_push (list_sock 9) \<lparr>f_stream = (lay 1 @ [7], []), arriving = [], leaving = lay 1 @ [7], f_written = 5\<rparr> =
        Some (\<lparr>f_stream = (lay 1 @ [7], []), arriving = [], leaving = [], f_written = 0\<rparr>, Ok True)"
      by (subst framed_push.simps) (simp add: PREFIX_def)
    then have "framed_push (list_sock 9) \<lparr>f_stream = ([], []), arriving = [], leaving = lay 1 @ [7], f_written = 0\<rparr> =
        Some (\<lparr>f_stream = (lay 1 @ [7], []), arriving = [], leaving = [], f_written = 0\<rparr>, Ok True)"
      by (subst framed_push.simps) (simp add: list_sock_def PREFIX_def)
    then show ?thesis by (simp add: framed_give_def framed_over_def MAX_FRAME_def)
  qed
  then show ?thesis
    using framed_carries_frames [OF list_sock.stream_socket_axioms, of 9 ?f "?f\<lparr>f_stream := (wire [[7]], [])\<rparr>" "Inr True" "[]" 0 "Inr None" "[7]" "[]"]
    by (auto simp: Let_def frame_ok_def MAX_FRAME_def framed_over_def unsent_def)
qed

end
