(* ===== verification/Vsock_Host.thy ===== *)
theory Vsock_Host
  imports Vsock_Device Net_Link
begin

text \<open>
  The host ends of the vsock device, \<^verbatim>\<open>src/lingcore/src/devices/virtio/vsock/host.rs\<close>: the
  endpoint \<^verbatim>\<open>Sockets\<close>, which names a Unix socket after each port and reads the port an
  incoming connection asks for from its first line, the endpoint \<^verbatim>\<open>Named\<close> and the endpoint
  \<^verbatim>\<open>Closed\<close>.

  Sockets of the host are a state \<open>'w\<close> reached by the operations of \<open>unix_host\<close>; a path is a
  list of bytes.  \<^verbatim>\<open>admit\<close> does not count a connection whose \<^verbatim>\<open>set_nonblocking\<close> fails, so its
  loop ends only with the connections of the listener and is a \<open>partial_function\<close>.

  The lemmas bound the connections held, show that a line is read byte by byte up to its end,
  and that a line \<^verbatim>\<open>CONNECT <port>\<close> names its port.
\<close>

section \<open>Definitions\<close>

definition CONNECT :: "nat list" where "CONNECT = [99, 111, 110, 110, 101, 99, 116]"
definition TAKEN :: bytes where "TAKEN = [79, 75]"
definition LINE :: nat where "LINE = 32"
definition ARRIVALS :: nat where "ARRIVALS = 64"

text \<open>\<open>uh_read\<close> reads at most one byte.\<close>

record ('w, 'l, 's) unix_host =
  uh_bind :: "bytes \<Rightarrow> 'w \<Rightarrow> 'w \<times> 'l option"
  uh_connect :: "bytes \<Rightarrow> 'w \<Rightarrow> 'w \<times> 's option"
  uh_accept :: "'l \<Rightarrow> 'w \<Rightarrow> 'w \<times> ('s, sock_error) result"
  uh_nonblocking :: "'s \<Rightarrow> 'w \<Rightarrow> 'w \<times> bool"
  uh_read :: "'s \<Rightarrow> 'w \<Rightarrow> 'w \<times> (u8 option, sock_error) result"
  uh_listener_fd :: "'l \<Rightarrow> int"
  uh_stream_fd :: "'s \<Rightarrow> int"

record ('l, 's) sockets =
  prefix_path :: bytes
  listener :: "'l option"
  arrivals :: "('s \<times> bytes) list"

definition sockets_new :: "bytes \<Rightarrow> ('l, 's) sockets" where
  "sockets_new stem = \<lparr>prefix_path = stem, listener = None, arrivals = []\<rparr>"

definition sockets_listening :: "('w, 'l, 's) unix_host \<Rightarrow> bytes \<Rightarrow> 'w \<Rightarrow> 'w \<times> ('l, 's) sockets option" where
  "sockets_listening h stem w =
     (case uh_bind h stem w of
        (w', None) \<Rightarrow> (w', None)
      | (w', Some l) \<Rightarrow> (w', Some \<lparr>prefix_path = stem, listener = Some l, arrivals = []\<rparr>))"

definition named_path :: "u32 \<Rightarrow> ('l, 's) sockets \<Rightarrow> bytes" where
  "named_path port s = prefix_path s @ [95] @ digits 10 (unat port)"

partial_function (option) admit_loop ::
  "('w, 'l, 's) unix_host \<Rightarrow> 'l \<Rightarrow> 'w \<Rightarrow> ('s \<times> bytes) list \<Rightarrow> ('w \<times> ('s \<times> bytes) list) option" where
  "admit_loop h l w arrived =
     (if length arrived < ARRIVALS
      then (case uh_accept h l w of
              (w1, Inl e) \<Rightarrow> Some (w1, arrived)
            | (w1, Inr s) \<Rightarrow>
                (case uh_nonblocking h s w1 of
                   (w2, ok) \<Rightarrow> admit_loop h l w2 (if ok then arrived @ [(s, [])] else arrived)))
      else Some (w, arrived))"

definition admit :: "('w, 'l, 's) unix_host \<Rightarrow> 'w \<Rightarrow> ('l, 's) sockets \<Rightarrow> ('w \<times> ('l, 's) sockets) option" where
  "admit h w s =
     (case listener s of
        None \<Rightarrow> Some (w, s)
      | Some l \<Rightarrow>
          (case admit_loop h l w [] of
             None \<Rightarrow> None
           | Some (w', arrived) \<Rightarrow>
               let all = arrivals s @ arrived in Some (w', s\<lparr>arrivals := drop (length all - ARRIVALS) all\<rparr>)))"

text \<open>\<^verbatim>\<open>fill\<close> reads until the newline, \<^verbatim>\<open>LINE\<close> bytes, the end of the stream or an error.\<close>

function fill_line :: "('w, 'l, 's) unix_host \<Rightarrow> 's \<Rightarrow> bytes \<Rightarrow> 'w \<Rightarrow> 'w \<times> bytes \<times> bool" where
  "fill_line h s line w =
     (case uh_read h s w of
        (w1, Inr None) \<Rightarrow> (w1, line, True)
      | (w1, Inr (Some b)) \<Rightarrow>
          (let line' = line @ [b] in
           if b = 10 \<or> LINE \<le> length line' then (w1, line', True) else fill_line h s line' w1)
      | (w1, Inl e) \<Rightarrow> (w1, line, e \<noteq> SockWouldBlock))"
  by pat_completeness auto
termination
  by (relation "measure (\<lambda>(h, s, line, w). LINE - length line)") auto

declare fill_line.simps [simp del]

definition port_named :: "bytes \<Rightarrow> u32 option" where
  "port_named line =
     (case utf8 line of
        None \<Rightarrow> None
      | Some cs \<Rightarrow>
          (case split_whitespace cs of
             w # p # _ \<Rightarrow> if eq_ignore_ascii_case w CONNECT then parse_u32 p else None
           | _ \<Rightarrow> None))"

fun spoken_loop ::
  "('w, 'l, 's) unix_host \<Rightarrow> 'w \<Rightarrow> ('s \<times> bytes) list \<Rightarrow> ('s \<times> bytes) list \<Rightarrow> 'w \<times> ('s \<times> bytes) list \<times> (u32 \<times> 's) option" where
  "spoken_loop h w past [] = (w, past, None)"
| "spoken_loop h w past ((s, line) # rest) =
     (case fill_line h s line w of
        (w1, line1, False) \<Rightarrow> spoken_loop h w1 (past @ [(s, line1)]) rest
      | (w1, line1, True) \<Rightarrow>
          (case port_named line1 of
             Some port \<Rightarrow> (w1, past @ rest, Some (port, s))
           | None \<Rightarrow> spoken_loop h w1 past rest))"

definition spoken :: "('w, 'l, 's) unix_host \<Rightarrow> 'w \<Rightarrow> ('l, 's) sockets \<Rightarrow> 'w \<times> ('l, 's) sockets \<times> (u32 \<times> 's) option" where
  "spoken h w s = (case spoken_loop h w [] (arrivals s) of (w', xs, r) \<Rightarrow> (w', s\<lparr>arrivals := xs\<rparr>, r))"

definition open_stream :: "('w, 'l, 's) unix_host \<Rightarrow> bytes \<Rightarrow> 'w \<Rightarrow> 'w \<times> 's option" where
  "open_stream h path w =
     (case uh_connect h path w of
        (w1, None) \<Rightarrow> (w1, None)
      | (w1, Some s) \<Rightarrow> (case uh_nonblocking h s w1 of (w2, ok) \<Rightarrow> (w2, if ok then Some s else None)))"

definition sockets_connect :: "('w, 'l, 's) unix_host \<Rightarrow> u32 \<Rightarrow> 'w \<Rightarrow> ('l, 's) sockets \<Rightarrow> 'w \<times> 's option" where
  "sockets_connect h port w s = open_stream h (named_path port s) w"

definition sockets_incoming :: "('w, 'l, 's) unix_host \<Rightarrow> 'w \<Rightarrow> ('l, 's) sockets \<Rightarrow>
    ('w \<times> ('l, 's) sockets \<times> (u32 \<times> 's) option) option" where
  "sockets_incoming h w s = map_option (\<lambda>(w1, s1). spoken h w1 s1) (admit h w s)"

definition sockets_outside :: "('w, 'l, 's) unix_host \<Rightarrow> ('l, 's) sockets \<Rightarrow> (int \<times> interest) list" where
  "sockets_outside h s =
     (case listener s of Some l \<Rightarrow> if length (arrivals s) < ARRIVALS then [(uh_listener_fd h l, InterestRead)] else [] | None \<Rightarrow> [])
     @ map (\<lambda>(st, _). (uh_stream_fd h st, InterestRead)) (arrivals s)"

record 'l named_sockets =
  dialled :: "u32 \<Rightarrow> bytes option"
  bound :: "(u32 \<times> 'l) list"

definition named_new :: "'l named_sockets" where
  "named_new = \<lparr>dialled = (\<lambda>_. None), bound = []\<rparr>"

definition named_dial :: "u32 \<Rightarrow> bytes \<Rightarrow> 'l named_sockets \<Rightarrow> 'l named_sockets" where
  "named_dial port path n = n\<lparr>dialled := (dialled n)(port := Some path)\<rparr>"

definition named_listen :: "('w, 'l, 's) unix_host \<Rightarrow> u32 \<Rightarrow> bytes \<Rightarrow> 'w \<Rightarrow> 'l named_sockets \<Rightarrow> 'w \<times> 'l named_sockets option" where
  "named_listen h port path w n =
     (case uh_bind h path w of
        (w', None) \<Rightarrow> (w', None)
      | (w', Some l) \<Rightarrow> (w', Some (n\<lparr>bound := bound n @ [(port, l)]\<rparr>)))"

definition named_connect :: "('w, 'l, 's) unix_host \<Rightarrow> u32 \<Rightarrow> 'w \<Rightarrow> 'l named_sockets \<Rightarrow> 'w \<times> 's option" where
  "named_connect h port w n = (case dialled n port of None \<Rightarrow> (w, None) | Some path \<Rightarrow> open_stream h path w)"

primrec named_incoming_loop :: "('w, 'l, 's) unix_host \<Rightarrow> (u32 \<times> 'l) list \<Rightarrow> 'w \<Rightarrow> 'w \<times> (u32 \<times> 's) option" where
  "named_incoming_loop h [] w = (w, None)"
| "named_incoming_loop h (x # xs) w =
     (case uh_accept h (snd x) w of
        (w1, Inl e) \<Rightarrow> named_incoming_loop h xs w1
      | (w1, Inr s) \<Rightarrow>
          (case uh_nonblocking h s w1 of
             (w2, ok) \<Rightarrow> if ok then (w2, Some (fst x, s)) else named_incoming_loop h xs w2))"

definition named_incoming :: "('w, 'l, 's) unix_host \<Rightarrow> 'w \<Rightarrow> 'l named_sockets \<Rightarrow> 'w \<times> (u32 \<times> 's) option" where
  "named_incoming h w n = named_incoming_loop h (bound n) w"

definition named_outside :: "('w, 'l, 's) unix_host \<Rightarrow> 'l named_sockets \<Rightarrow> (int \<times> interest) list" where
  "named_outside h n = map (\<lambda>(_, l). (uh_listener_fd h l, InterestRead)) (bound n)"

section \<open>Lines\<close>

text \<open>A line read so far is short and has no newline; \<^verbatim>\<open>fill\<close> keeps that until the line is over.\<close>

definition part_line :: "bytes \<Rightarrow> bool" where
  "part_line line \<longleftrightarrow> length line < LINE \<and> 10 \<notin> set line"

lemma fill_line_keeps:
  "part_line line \<Longrightarrow> fill_line h s line w = (w', line', over) \<Longrightarrow>
   prefix line line' \<and> length line' \<le> LINE \<and> 10 \<notin> set (butlast line') \<and> (\<not> over \<longrightarrow> part_line line')"
proof (induction h s line w rule: fill_line.induct)
  case (1 h s line w)
  obtain w1 r where r: "uh_read h s w = (w1, r)" by fastforce
  have nl: "10 \<notin> set (butlast line)" using 1(2) in_set_butlastD by (fastforce simp: part_line_def)
  show ?case
  proof (cases "\<exists>b. r = Inr (Some b)")
    case False
    with 1(2,3) r nl show ?thesis
      by (subst (asm) fill_line.simps) (auto simp: part_line_def split: sum.splits option.splits)
  next
    case True
    then obtain b where b: "r = Inr (Some b)" by blast
    show ?thesis
    proof (cases "b = 10 \<or> LINE \<le> length (line @ [b])")
      case True
      with 1(2,3) r b show ?thesis
        by (subst (asm) fill_line.simps) (auto simp: part_line_def Let_def)
    next
      case False
      then have "fill_line h s (line @ [b]) w1 = (w', line', over)"
        using 1(3) r b by (subst (asm) fill_line.simps) (simp add: Let_def)
      from 1(1) [OF r [symmetric] b refl refl False _ this] False 1(2) show ?thesis
        by (auto simp: part_line_def append_prefixD)
    qed
  qed
qed

lemma admit_bound:
  "admit h w s = Some (w', s') \<Longrightarrow> length (arrivals s) \<le> ARRIVALS \<Longrightarrow> length (arrivals s') \<le> ARRIVALS"
  by (auto simp: admit_def Let_def split: option.splits)

lemma spoken_loop_shrinks:
  "spoken_loop h w past xs = (w', ys, r) \<Longrightarrow> length ys \<le> length past + length xs"
proof (induction xs arbitrary: w past)
  case (Cons x rest)
  obtain s line where x: "x = (s, line)" by fastforce
  obtain w1 line1 over where f: "fill_line h s line w = (w1, line1, over)" by (metis prod_cases3)
  show ?case
  proof (cases "over \<and> port_named line1 \<noteq> None")
    case True
    with Cons.prems x f show ?thesis by auto
  next
    case False
    then have "spoken_loop h w1 (if over then past else past @ [(s, line1)]) rest = (w', ys, r)"
      using Cons.prems x f by (cases over) simp_all
    from Cons.IH [OF this] show ?thesis by (simp split: if_splits)
  qed
qed simp

lemma sockets_incoming_bound:
  assumes "sockets_incoming h w s = Some (w', s', r)" "length (arrivals s) \<le> ARRIVALS"
  shows "length (arrivals s') \<le> ARRIVALS"
proof -
  obtain w1 s1 where a: "admit h w s = Some (w1, s1)" using assms(1) by (auto simp: sockets_incoming_def)
  obtain w2 xs r2 where sp: "spoken_loop h w1 [] (arrivals s1) = (w2, xs, r2)" by (metis prod_cases3)
  with a assms(1) have "s' = s1\<lparr>arrivals := xs\<rparr>" by (simp add: sockets_incoming_def spoken_def)
  with spoken_loop_shrinks [OF sp] admit_bound [OF a assms(2)] show ?thesis by simp
qed

section \<open>Properties\<close>

text \<open>An incoming connection whose line is \<^verbatim>\<open>CONNECT\<close>, a space, a port in decimal and a
  newline names that port, for each of the \<open>2 ^ 32\<close> ports; such a line has at most 19 bytes and
  is never cut by the bound on lines.\<close>

lemma connect_line_names_port:
  "port_named ([67, 79, 78, 78, 69, 67, 84, 32] @ digits 10 (unat port) @ [10]) = Some port \<and>
   length ([67, 79, 78, 78, 69, 67, 84, 32] @ digits 10 (unat port) @ [10] :: bytes) \<le> LINE"
proof -
  let ?k = "unat port" and ?word = "[67, 79, 78, 78, 69, 67, 84] :: nat list"
  have small: "?k < 2 ^ 32" using unsigned_less [of port, where 'a = nat] by simp
  have ten: "?k < 10 ^ Suc 9" using small by simp
  have d: "list_all is_digit (map unat (digits 10 ?k))" by (rule digits_are_digits)
  have utf: "utf8 ([67, 79, 78, 78, 69, 67, 84, 32] @ digits 10 ?k @ [10]) = Some (?word @ 32 # map unat (digits 10 ?k) @ [10])"
    using d by (subst utf8_ascii) (auto simp: list_all_iff is_digit_def)
  have "split_whitespace (?word @ 32 # map unat (digits 10 ?k) @ [10]) =
      ?word # split_whitespace (32 # map unat (digits 10 ?k) @ [10])"
    by (rule split_whitespace_word) (simp_all add: is_space_def)
  also have "split_whitespace (32 # map unat (digits 10 ?k) @ [10]) = split_whitespace (map unat (digits 10 ?k) @ [10])"
    by (rule split_whitespace_space) (simp add: is_space_def)
  also have "\<dots> = map unat (digits 10 ?k) # split_whitespace [10]"
    using d digits_nonempty [of 9 ?k] by (intro split_whitespace_word) (auto simp: list_all_iff is_digit_def is_space_def)
  finally have split: "split_whitespace (?word @ 32 # map unat (digits 10 ?k) @ [10]) =
      [?word, map unat (digits 10 ?k)]" by (simp add: split_whitespace_empty is_space_def)
  have "parse_u32 (map unat (digits 10 ?k)) = Some port" using parse_digits [OF ten small] by simp
  moreover have "eq_ignore_ascii_case ?word CONNECT"
    by (simp add: eq_ignore_ascii_case_def CONNECT_def ascii_lower_def)
  ultimately have "port_named ([67, 79, 78, 78, 69, 67, 84, 32] @ digits 10 ?k @ [10]) = Some port"
    unfolding port_named_def utf option.case split by simp
  moreover have "length (digits f n) \<le> f" for f n by (induction f arbitrary: n) auto
  then have "length ([67, 79, 78, 78, 69, 67, 84, 32] @ digits 10 ?k @ [10] :: bytes) \<le> 8 + 10 + 1"
    by (simp del: digits.simps)
  ultimately show ?thesis by (simp add: LINE_def del: digits.simps)
qed

end
