(* ===== verification/Virtio_Net.thy ===== *)
theory Virtio_Net
  imports Net_Link Chain_Bytes
begin

text \<open>
  The network device, \<^verbatim>\<open>src/lingcore/src/devices/virtio/net/device.rs\<close>, between its two
  rings and a carrier.

  The scratch buffers \<^verbatim>\<open>sending\<close> and \<^verbatim>\<open>receiving\<close> are left out: the first is filled before
  each use, and of the second only the part \<^verbatim>\<open>waiting\<close> names is read, so \<open>n_waiting\<close> holds that
  frame itself.  A carrier call which never returns makes the notification never return
  (\<open>None\<close>), as does fuel run out.  Only the log lines are left out.

  The lemmas show that \<^verbatim>\<open>send\<close> keeps the contract of a chain server, that \<^verbatim>\<open>receive\<close> ends once
  the carrier runs dry, and what a driver finds in a receive buffer.
\<close>

section \<open>Definitions\<close>

definition NET :: u32 where "NET = 1"
definition NET_RX :: u16 where "NET_RX = 0"
definition NET_TX :: u16 where "NET_TX = 1"
definition NET_QUEUES :: u16 where "NET_QUEUES = 2"
definition F_MAC :: u64 where "F_MAC = push_bit 5 1"
definition MAC :: nat where "MAC = 6"

record 'c net =
  mac :: "bytes option"
  n_carrier :: 'c
  n_waiting :: "bytes option"
  n_received :: u64
  n_sent :: u64
  n_dropped :: u64

definition net_new :: "bytes option \<Rightarrow> 'c \<Rightarrow> 'c net" where
  "net_new a c = \<lparr>mac = a, n_carrier = c, n_waiting = None, n_received = 0, n_sent = 0, n_dropped = 0\<rparr>"

definition frame_from :: "'m vm \<Rightarrow> 'm \<Rightarrow> chain \<Rightarrow> (bytes option, virtio_error) result" where
  "frame_from vm m c =
     and_then (read_parts (NET_ROOM + MAX_FRAME) vm m (descriptors c) []) (\<lambda>whole.
       case net_header_read (take NET_ROOM whole) of
         None \<Rightarrow> Ok None
       | Some h \<Rightarrow> if asks_for_an_offload h then Err Request else Ok (Some whole))"

definition frame_into :: "'m vm \<Rightarrow> chain \<Rightarrow> bytes \<Rightarrow> 'm \<Rightarrow> 'm \<times> (u32 option, virtio_error) result" where
  "frame_into vm c frame m =
     (if writable_room c < NET_ROOM + length frame then (m, Ok None)
      else let whole = net_header_bytes (net_header_default\<lparr>num_buffers := 1\<rparr>) @ frame in
           (case write_parts vm whole (descriptors c) m 0 of
              (m', Inl e) \<Rightarrow> (m', Inl e)
            | (m', Inr n) \<Rightarrow> (m', Ok (Some (of_nat n)))))"

text \<open>One round of \<^verbatim>\<open>send\<close>.  The carrier's call may not return; the result is then \<open>None\<close>.\<close>

definition send_body :: "'m vm \<Rightarrow> 'c carrier_ops \<Rightarrow> 'c net \<Rightarrow> 'm \<Rightarrow> queue \<Rightarrow> chain \<Rightarrow>
    ('c net \<times> 'm \<times> queue \<times> (bool, virtio_error) result) option" where
  "send_body vm ops n m q c =
     (case frame_from vm m c of
        Inl e \<Rightarrow> Some (n, m, q, Inl e)
      | Inr None \<Rightarrow>
          (case add_used vm m q (head c) 0 of
             (m1, q1, Inl e) \<Rightarrow> Some (n, m1, q1, Inl e)
           | (m1, q1, Inr _) \<Rightarrow> Some (n, m1, q1, Inr True))
      | Inr (Some whole) \<Rightarrow>
          (case car_give ops (drop NET_ROOM whole) (n_carrier n) of
             None \<Rightarrow> None
           | Some (c', Inl _) \<Rightarrow> Some (n\<lparr>n_carrier := c'\<rparr>, m, q, Inl Request)
           | Some (c', Inr False) \<Rightarrow> Some (n\<lparr>n_carrier := c'\<rparr>, m, undo_pop q, Inr False)
           | Some (c', Inr True) \<Rightarrow>
               (case add_used vm m q (head c) 0 of
                  (m1, q1, Inl e) \<Rightarrow> Some (n\<lparr>n_carrier := c'\<rparr>, m1, q1, Inl e)
                | (m1, q1, Inr _) \<Rightarrow> Some (n\<lparr>n_carrier := c', n_sent := n_sent n + 1\<rparr>, m1, q1, Inr True))))"

definition send_loop :: "nat \<Rightarrow> 'm vm \<Rightarrow> 'c carrier_ops \<Rightarrow> 'c net \<Rightarrow> 'm \<Rightarrow> queue \<Rightarrow>
    ('c net \<times> 'm \<times> queue \<times> (unit, virtio_error) result) option" where
  "send_loop fuel vm ops n m q = opt_loop fuel vm (send_body vm ops) n m q"

definition net_send :: "nat \<Rightarrow> 'm vm \<Rightarrow> 'c carrier_ops \<Rightarrow> 'c net \<Rightarrow> 'm \<Rightarrow> queue \<Rightarrow>
    ('c net \<times> 'm \<times> queue \<times> (unit, virtio_error) result) option" where
  "net_send fuel vm ops n m q =
     (case car_resume ops (n_carrier n) of
        None \<Rightarrow> None
      | Some (c, Inl _) \<Rightarrow> Some (n\<lparr>n_carrier := c\<rparr>, m, q, Inl Request)
      | Some (c, Inr False) \<Rightarrow> Some (n\<lparr>n_carrier := c\<rparr>, m, q, Ok ())
      | Some (c, Inr True) \<Rightarrow> send_loop fuel vm ops (n\<lparr>n_carrier := c\<rparr>) m q)"

text \<open>The frame \<^verbatim>\<open>receive\<close> works on: the one held, or the next of the carrier.\<close>

definition take_frame :: "'c carrier_ops \<Rightarrow> 'c net \<Rightarrow> ('c net \<times> (unit, virtio_error) result) option" where
  "take_frame ops n =
     (if n_waiting n \<noteq> None then Some (n, Ok ())
      else case car_take ops MAX_FRAME (n_carrier n) of
             None \<Rightarrow> None
           | Some (c, Inl _) \<Rightarrow> Some (n\<lparr>n_carrier := c\<rparr>, Err Request)
           | Some (c, Inr x) \<Rightarrow> Some (n\<lparr>n_carrier := c, n_waiting := x\<rparr>, Ok ()))"

text \<open>What \<^verbatim>\<open>receive\<close> does with a frame and a chain.\<close>

definition receive_one :: "'m vm \<Rightarrow> 'c net \<Rightarrow> bytes \<Rightarrow> 'm \<Rightarrow> queue \<Rightarrow> chain \<Rightarrow>
    'c net \<times> 'm \<times> queue \<times> (unit, virtio_error) result" where
  "receive_one vm n frame m q c =
     (case frame_into vm c frame m of
        (m1, Inl e) \<Rightarrow> (n, m1, q, Inl e)
      | (m1, Inr None) \<Rightarrow> (n\<lparr>n_dropped := n_dropped n + 1, n_waiting := None\<rparr>, m1, undo_pop q, Ok ())
      | (m1, Inr (Some w)) \<Rightarrow>
          (case add_used vm m1 q (head c) w of
             (m2, q1, Inl e) \<Rightarrow> (n, m2, q1, Inl e)
           | (m2, q1, Inr _) \<Rightarrow> (n\<lparr>n_received := n_received n + 1, n_waiting := None\<rparr>, m2, q1, Ok ())))"

primrec net_receive :: "nat \<Rightarrow> 'm vm \<Rightarrow> 'c carrier_ops \<Rightarrow> 'c net \<Rightarrow> 'm \<Rightarrow> queue \<Rightarrow>
    ('c net \<times> 'm \<times> queue \<times> (unit, virtio_error) result) option" where
  "net_receive 0 vm ops n m q = None"
| "net_receive (Suc fuel) vm ops n m q =
     (case take_frame ops n of
        None \<Rightarrow> None
      | Some (n1, Inl e) \<Rightarrow> Some (n1, m, q, Inl e)
      | Some (n1, Inr _) \<Rightarrow>
          (case n_waiting n1 of
             None \<Rightarrow> Some (n1, m, q, Ok ())
           | Some frame \<Rightarrow>
               (case pop vm m q of
                  (q1, Inl e) \<Rightarrow> Some (n1, m, q1, Inl e)
                | (q1, Inr None) \<Rightarrow> Some (n1, m, q1, Ok ())
                | (q1, Inr (Some c)) \<Rightarrow>
                    (case receive_one vm n1 frame m q1 c of
                       (n2, m2, q2, Inl e) \<Rightarrow> Some (n2, m2, q2, Inl e)
                     | (n2, m2, q2, Inr _) \<Rightarrow> net_receive fuel vm ops n2 m2 q2))))"

definition net_features :: "'c net \<Rightarrow> u64" where
  "net_features n = (if mac n \<noteq> None then F_MAC else 0)"

definition net_read_config :: "u64 \<Rightarrow> u8 \<Rightarrow> 'c net \<Rightarrow> u64" where
  "net_read_config off sz n =
     (let bs = (case mac n of None \<Rightarrow> replicate MAC 0 | Some a \<Rightarrow> a) in
      foldl (\<lambda>acc step. acc OR push_bit (step * 8)
               (ucast (if unat (off + of_nat step) < length bs then bs ! unat (off + of_nat step) else 0)))
        0 [0..<unat sz])"

definition net_outside :: "'c carrier_ops \<Rightarrow> 'c net \<Rightarrow> (int \<times> interest) list" where
  "net_outside ops n =
     List.map_filter (\<lambda>(fd, i).
       if n_waiting n = None then Some (fd, i)
       else case i of InterestRead \<Rightarrow> None | _ \<Rightarrow> Some (fd, InterestWrite)) (car_outside ops (n_carrier n))"

definition net_notify :: "nat \<Rightarrow> 'm vm \<Rightarrow> 'c carrier_ops \<Rightarrow> u16 \<Rightarrow> 'c net \<Rightarrow> 'm \<Rightarrow> queue \<Rightarrow>
    ('c net \<times> 'm \<times> queue \<times> (unit, virtio_error) result) option" where
  "net_notify fuel vm ops i n m q =
     (if i = NET_TX then net_send fuel vm ops n m q
      else if i = NET_RX then net_receive fuel vm ops n m q
      else Some (n, m, q, Ok ()))"

section \<open>The transmit side\<close>

text \<open>A carrier whose \<^verbatim>\<open>give\<close> returns makes each round of \<^verbatim>\<open>send\<close> one of a chain server.\<close>

locale net_host = vm_memory vm + carrier ops for vm :: "'m vm" and ops :: "'c carrier_ops" +
  assumes give_returns: "car_give ops frame c \<noteq> None"
begin

lemma send_body_returns: "send_body vm ops n m q c \<noteq> None"
  by (auto simp: send_body_def give_returns split: sum.split option.split bool.split prod.split)

lemma send_loop_pop_loop: "send_loop fuel vm ops n m q = pop_loop fuel vm (\<lambda>n m q c. the (send_body vm ops n m q c)) n m q"
  unfolding send_loop_def by (rule opt_loop_pop_loop [OF send_body_returns])

end

lemma send_body_cases:
  assumes "send_body vm ops n m q c = Some (n', m', q', r)"
  obtains (failed) "m' = m" "q' = q" "\<And>go. r \<noteq> Inr go"
  | (returned) "m' = m" "q' = undo_pop q" "r = Inr False"
  | (reported) r' where "add_used vm m q (head c) 0 = (m', q', r')" "r = map_sum id (\<lambda>_. True) r'"
  using assms by (auto simp: send_body_def split: result_splits bool.splits)

sublocale net_host \<subseteq> tx: chain_server vm "\<lambda>n m q c. the (send_body vm ops n m q c)"
proof
  fix d :: "'c net" and m q c d' m' q' r b k
  assume "the (send_body vm ops d m q c) = (d', m', q', r)"
  then have body: "send_body vm ops d m q c = Some (d', m', q', r)"
    using send_body_returns [of d m q c] by auto
  show "vm_check_range vm m' b k = vm_check_range vm m b k"
    using body by (cases rule: send_body_cases) (auto simp: add_used_range)
  show "same_rings q q'"
    using body by (cases rule: send_body_cases) (auto dest: add_used_same_rings)
  assume used: "queue_wf q" "unat (used_ring q) + used_bytes q < 2 ^ 64"
      "apart (used_ring q) (used_bytes q) b k"
  show "ram_read vm m' b k = ram_read vm m b k"
    using body by (cases rule: send_body_cases) (auto dest: add_used_apart [OF used])
next
  fix d :: "'c net" and m q c d' m' q'
  assume "the (send_body vm ops d m q c) = (d', m', q', Inr True)"
  then have "send_body vm ops d m q c = Some (d', m', q', Inr True)"
    using send_body_returns [of d m q c] by auto
  then show "cursors q' = (next_avail q, next_used q + 1)"
    by (cases rule: send_body_cases) (auto simp: cursors_def map_sum_def dest: add_used_ok_cursors split: sum.splits)
next
  fix d :: "'c net" and m q c d' m' q'
  assume "the (send_body vm ops d m q c) = (d', m', q', Inr False)"
  then have "send_body vm ops d m q c = Some (d', m', q', Inr False)"
    using send_body_returns [of d m q c] by auto
  then show "cursors q' = (next_avail q - 1, next_used q)"
    by (cases rule: send_body_cases) (auto simp: cursors_def undo_pop_def map_sum_def split: sum.splits)
qed

context net_host
begin

lemma send_ends_and_accounts:
  assumes "layout_ok vm m q" "pending_count vm m q < fuel"
  shows "\<exists>n' m' q' r. send_loop fuel vm ops n m q = Some (n', m', q', r) \<and>
    (r = Inr () \<longrightarrow> next_used q' - next_used q = next_avail q' - next_avail q)"
proof -
  obtain n' m' q' r where "send_loop fuel vm ops n m q = Some (n', m', q', r)"
    using tx.loop_ends [OF assms] unfolding send_loop_pop_loop by (metis option.exhaust prod_cases4)
  then show ?thesis using tx.loop_accounts unfolding send_loop_pop_loop by blast
qed

end

section \<open>The receive side\<close>

text \<open>A carrier which has at most \<open>k\<close> frames ready.\<close>

primrec runs_dry :: "'c carrier_ops \<Rightarrow> nat \<Rightarrow> 'c \<Rightarrow> bool" where
  "runs_dry ops 0 c \<longleftrightarrow>
     (case car_take ops MAX_FRAME c of None \<Rightarrow> False | Some (c', Inl _) \<Rightarrow> True | Some (c', Inr x) \<Rightarrow> x = None)"
| "runs_dry ops (Suc k) c \<longleftrightarrow>
     (case car_take ops MAX_FRAME c of
        None \<Rightarrow> False | Some (c', Inl _) \<Rightarrow> True | Some (c', Inr x) \<Rightarrow> x = None \<or> runs_dry ops k c')"

lemma receive_one_carrier:
  "receive_one vm n frame m q c = (n', m', q', Inr u) \<Longrightarrow> n_carrier n' = n_carrier n \<and> n_waiting n' = None"
  by (auto simp: receive_one_def split: result_splits)

text \<open>Each round takes a frame from the carrier, so \<^verbatim>\<open>receive\<close> ends when it runs dry, whatever
  the driver does with its ring.\<close>

lemma net_receive_round:
  assumes "\<And>n' m' q'. n_waiting n' = None \<Longrightarrow> n_carrier n' = n_carrier n \<Longrightarrow> net_receive fuel vm ops n' m' q' \<noteq> None"
    and "take_frame ops n0 = Some (n, r)"
  shows "net_receive (Suc fuel) vm ops n0 m q \<noteq> None"
proof (cases "\<exists>frame q1 c. r = Inr () \<and> n_waiting n = Some frame \<and> pop vm m q = (q1, Inr (Some c))")
  case True
  then obtain frame q1 c where *: "r = Inr ()" "n_waiting n = Some frame" "pop vm m q = (q1, Inr (Some c))" by blast
  obtain n2 m2 q2 r2 where one: "receive_one vm n frame m q1 c = (n2, m2, q2, r2)" by (metis prod_cases4)
  have "net_receive fuel vm ops n2 m2 q2 \<noteq> None" if "r2 = Inr u" for u
    using receive_one_carrier [OF one [unfolded that]] by (intro assms(1)) simp_all
  with * one assms(2) show ?thesis by (cases r2) auto
next
  case False
  with assms(2) show ?thesis by (auto split: result_splits)
qed

lemma net_receive_ends:
  "runs_dry ops k (n_carrier n) \<Longrightarrow> n_waiting n = None \<Longrightarrow> k < fuel \<Longrightarrow> net_receive fuel vm ops n m q \<noteq> None"
proof (induction k arbitrary: fuel n m q)
  case 0
  then obtain f where f: "fuel = Suc f" by (cases fuel) auto
  from 0 obtain c y where t: "car_take ops MAX_FRAME (n_carrier n) = Some (c, y)" "\<And>x. y \<noteq> Inr (Some x)"
    by (auto split: option.splits sum.splits)
  then show ?case using 0(2) f by (cases y) (auto simp: take_frame_def split: option.split)
next
  case (Suc k)
  then obtain f where f: "fuel = Suc f" "k < f" by (cases fuel) auto
  from Suc.prems(1) obtain c y where t: "car_take ops MAX_FRAME (n_carrier n) = Some (c, y)"
    by (auto split: option.splits)
  show ?case
  proof (cases "\<exists>x. y = Inr (Some x)")
    case True
    then obtain x where y: "y = Inr (Some x)" by blast
    with Suc.prems(1) t have dry: "runs_dry ops k c" by simp
    have tf: "take_frame ops n = Some (n\<lparr>n_carrier := c, n_waiting := Some x\<rparr>, Ok ())"
      using t y Suc.prems(2) by (simp add: take_frame_def)
    show ?thesis unfolding f(1)
      by (rule net_receive_round [OF _ tf]) (use Suc.IH dry f(2) in auto)
  next
    case False
    with t Suc.prems(2) f(1) show ?thesis by (cases y) (auto simp: take_frame_def split: option.splits)
  qed
qed

lemma length_net_header_bytes [simp]: "length (net_header_bytes h) = NET_ROOM"
  by (simp add: net_header_bytes_def NET_ROOM_def)

context vm_memory
begin

lemma receive_one_fits:
  assumes "receive_one vm n frame m q c = (n', m', q', Inr ())" "NET_ROOM + length frame \<le> writable_room c"
    and "queue_wf q" "unat (used_ring q) + used_bytes q < 2 ^ 64"
    and "buffers_apart (descriptors c)" "buffers_clear (descriptors c) (used_ring q) (used_bytes q)"
  shows "gather vm m' (descriptors c) (NET_ROOM + length frame) =
      Inr (net_header_bytes (net_header_default\<lparr>num_buffers := 1\<rparr>) @ frame)"
    and "q' = q\<lparr>next_used := next_used q + 1\<rparr>" "n' = n\<lparr>n_received := n_received n + 1, n_waiting := None\<rparr>"
proof -
  let ?whole = "net_header_bytes (net_header_default\<lparr>num_buffers := 1\<rparr>) @ frame"
  obtain m1 k where w: "write_parts vm ?whole (descriptors c) m 0 = (m1, Inr k)"
      and u: "add_used vm m1 q (head c) (of_nat k) = (m', q', Inr ())"
      and n': "n' = n\<lparr>n_received := n_received n + 1, n_waiting := None\<rparr>"
    using assms(1,2) by (auto simp: receive_one_def frame_into_def Let_def split: prod.splits sum.splits)
  show "q' = q\<lparr>next_used := next_used q + 1\<rparr>" by (rule add_used_ok_cursors [OF u])
  show "n' = n\<lparr>n_received := n_received n + 1, n_waiting := None\<rparr>" by (rule n')
  have len: "length ?whole = NET_ROOM + length frame" by simp
  have k: "k = NET_ROOM + length frame"
    using write_parts_count [OF w] assms(2) by (simp add: writable_room_def)
  from write_parts_gather [OF w _ assms(5)]
  have "gather vm m1 (descriptors c) (NET_ROOM + length frame) = Inr ?whole"
    unfolding k by (simp add: bslice_all)
  moreover have "gather vm m' (descriptors c) (NET_ROOM + length frame) = gather vm m1 (descriptors c) (NET_ROOM + length frame)"
    using assms(6) by (intro gather_cong add_used_apart [OF assms(3,4) _ u])
      (auto simp: buffers_clear_def list_all_iff apart_def)
  ultimately show "gather vm m' (descriptors c) (NET_ROOM + length frame) = Inr ?whole" by simp
qed

end

lemma receive_one_small:
  "writable_room c < NET_ROOM + length frame \<Longrightarrow>
   receive_one vm n frame m q c = (n\<lparr>n_dropped := n_dropped n + 1, n_waiting := None\<rparr>, m, undo_pop q, Ok ())"
  by (simp add: receive_one_def frame_into_def)

section \<open>The device over a socket\<close>

interpretation sock_net: net_host flat_vm "framed_ops (list_sock chunk)" for chunk
proof
  have never: "snd (sk_write (list_sock chunk) bs w) \<noteq> Inl SockInterrupted" for bs w by (simp add: list_sock_def)
  show "car_give (framed_ops (list_sock chunk)) frame c \<noteq> None" for frame c
    using list_sock.framed_push_returns [OF never]
    by (auto simp: framed_ops_def framed_give_def split: option.splits sum.splits) (metis option.simps(3))
qed

lemma net_notify_ends:
  assumes "net_host vm ops" "\<And>c. car_resume ops c \<noteq> None" "layout_ok vm m q" "pending_count vm m q < fuel"
    and "runs_dry ops k (n_carrier n)" "n_waiting n = None" "k < fuel"
  shows "net_notify fuel vm ops i n m q \<noteq> None"
proof -
  obtain c r where res: "car_resume ops (n_carrier n) = Some (c, r)" using assms(2) [of "n_carrier n"] by auto
  obtain a where "send_loop fuel vm ops (n\<lparr>n_carrier := c\<rparr>) m q = Some a"
    using net_host.send_ends_and_accounts [OF assms(1,3,4)] by blast
  with res have "net_send fuel vm ops n m q \<noteq> None"
    by (cases a) (auto simp: net_send_def split: sum.split bool.split)
  with net_receive_ends [OF assms(5-7)] show ?thesis by (auto simp: net_notify_def)
qed

section \<open>Properties\<close>

text \<open>Property C17. A frame of the carrier meeting a receive chain is either delivered whole or
  dropped whole.  If header and frame fit, the writable buffers hold, in order, a header with
  no offload and one buffer followed by the frame, the chain is reported used once and the
  frame counted; if they do not, nothing is written, the chain is the next one \<^verbatim>\<open>pop\<close> returns
  again and the drop is counted.  In both cases the carrier is read next.\<close>

theorem net_delivers_whole_frames:
  assumes "vm_memory vm" "pop vm m0 q0 = (q, Inr (Some c))" "receive_one vm n frame m q c = (n', m', q', Inr ())"
    and "queue_wf q" "unat (used_ring q) + used_bytes q < 2 ^ 64"
    and "buffers_apart (descriptors c)" "buffers_clear (descriptors c) (used_ring q) (used_bytes q)"
  shows "n_waiting n' = None \<and> n_carrier n' = n_carrier n \<and>
    (if NET_ROOM + length frame \<le> writable_room c
     then gather vm m' (descriptors c) (NET_ROOM + length frame) =
            Inr (net_header_bytes (net_header_default\<lparr>num_buffers := 1\<rparr>) @ frame) \<and>
          q' = q\<lparr>next_used := next_used q + 1\<rparr> \<and> n_received n' = n_received n + 1 \<and> n_dropped n' = n_dropped n
     else m' = m \<and> q' = q0 \<and> n_received n' = n_received n \<and> n_dropped n' = n_dropped n + 1)"
proof (cases "NET_ROOM + length frame \<le> writable_room c")
  case True
  with vm_memory.receive_one_fits [OF assms(1,3) _ assms(4-7)] show ?thesis by simp
next
  case False
  with receive_one_small [of c frame vm n m q] assms(3) pop_Some(1) [OF assms(2)] show ?thesis by auto
qed

text \<open>The frame of two bytes does not fit the single writable byte of the demonstration ring.\<close>

theorem net_delivers_whole_frames_witness:
  "n_dropped (fst (receive_one flat_vm (net_new None ()) [1, 2] demo_ram (demo_queue\<lparr>next_avail := 1\<rparr>) demo_chain)) = 1"
proof -
  let ?q = "demo_queue\<lparr>next_avail := 1\<rparr>"
  have room: "\<not> NET_ROOM + length [1 :: u8, 2] \<le> writable_room demo_chain"
    by (simp add: NET_ROOM_def writable_room_def demo_chain_def writable_def WRITE_def)
  then obtain n' m' q' where r: "receive_one flat_vm (net_new None ()) [1, 2] demo_ram ?q demo_chain = (n', m', q', Inr ())"
    by (simp add: receive_one_small)
  have "buffers_apart (descriptors demo_chain)" "buffers_clear (descriptors demo_chain) (used_ring ?q) (used_bytes ?q)"
    "queue_wf ?q" "unat (used_ring ?q) + used_bytes ?q < 2 ^ 64"
    using demo_wf by (simp_all add: demo_chain_def buffers_clear_def writable_def WRITE_def apart_def demo_queue_def used_bytes_def queue_wf_def)
  with net_delivers_whole_frames [OF flat.vm_memory_axioms demo_pop r] room r show ?thesis
    by (simp add: net_new_def)
qed

end
