(* ===== verification/Virtio_Console.thy ===== *)
theory Virtio_Console
  imports Net_Link Chain_Bytes
begin

text \<open>
  The console device with named ports, \<^verbatim>\<open>src/lingcore/src/devices/virtio/console.rs\<close>.

  The sockets of the host are a state \<open>'w\<close> reached by the operations of \<open>con_host\<close>: reaching
  the far end of a port (accepting on its socket or dialling it, with the stream made
  non-blocking), writing and reading.  A write retried while it is interrupted may never
  return, so the operations which write have \<open>None\<close> for that.  Log lines are left out.

  The lemmas show which queue belongs to which port and direction, that what the guest writes
  reaches the host end in order with at most \<^verbatim>\<open>HELD\<close> bytes kept and only the oldest lost, and
  that what the host end writes reaches the receive buffers in order.
\<close>

section \<open>Definitions\<close>

definition CONSOLE_DEVICE_ID :: u32 where "CONSOLE_DEVICE_ID = 3"
definition FEATURE_MULTIPORT :: u64 where "FEATURE_MULTIPORT = push_bit 1 1"
definition PORT0_RECEIVE :: u16 where "PORT0_RECEIVE = 0"
definition PORT0_TRANSMIT :: u16 where "PORT0_TRANSMIT = 1"
definition CONTROL_RECEIVE :: u16 where "CONTROL_RECEIVE = 2"
definition CONTROL_TRANSMIT :: u16 where "CONTROL_TRANSMIT = 3"

definition receive_of :: "u16 \<Rightarrow> u16" where
  "receive_of p = (if p = 0 then PORT0_RECEIVE else 2 + p * 2)"

definition transmit_of :: "u16 \<Rightarrow> u16" where
  "transmit_of p = (if p = 0 then PORT0_TRANSMIT else 3 + p * 2)"

definition DEVICE_READY :: u16 where "DEVICE_READY = 0"
definition DEVICE_ADD :: u16 where "DEVICE_ADD = 1"
definition PORT_READY :: u16 where "PORT_READY = 3"
definition CONSOLE_PORT :: u16 where "CONSOLE_PORT = 4"
definition PORT_OPEN :: u16 where "PORT_OPEN = 6"
definition PORT_NAME :: u16 where "PORT_NAME = 7"

definition CONTROL_SIZE :: nat where "CONTROL_SIZE = 8"
definition CHUNK :: nat where "CHUNK = 4096"
definition HELD :: nat where "HELD = 65536"

datatype reach = Listen | Dial

record 's port =
  cp_name :: bytes
  cp_at :: string
  cp_reach :: reach
  cp_listening :: bool
  cp_host :: "'s option"
  to_guest :: bytes
  to_host :: bytes
  announced :: bool

record ('w, 's) console =
  con_world :: 'w
  con_ports :: "'s port list"
  con_pending :: "bytes list"
  con_ready :: bool
  con_sent :: u64
  con_taken :: u64

text \<open>\<open>ch_bind\<close> removes the name and binds a listener; \<open>ch_accept\<close> and \<open>ch_dial\<close> return a
  stream already made non-blocking.\<close>

record ('w, 's) con_host =
  ch_bind :: "string \<Rightarrow> 'w \<Rightarrow> 'w \<times> bool"
  ch_accept :: "string \<Rightarrow> 'w \<Rightarrow> 'w \<times> 's option"
  ch_dial :: "string \<Rightarrow> 'w \<Rightarrow> 'w \<times> 's option"
  ch_write :: "'s \<Rightarrow> bytes \<Rightarrow> 'w \<Rightarrow> 'w \<times> (nat, sock_error) result"
  ch_read :: "'s \<Rightarrow> nat \<Rightarrow> 'w \<Rightarrow> 'w \<times> (bytes, sock_error) result"

definition port_new :: "bytes \<times> string \<times> reach \<Rightarrow> 's port" where
  "port_new x = \<lparr>cp_name = fst x, cp_at = fst (snd x), cp_reach = snd (snd x), cp_listening = (snd (snd x) = Listen),
     cp_host = None, to_guest = [], to_host = [], announced = False\<rparr>"

primrec bind_all :: "('w, 's) con_host \<Rightarrow> (bytes \<times> string \<times> reach) list \<Rightarrow> 'w \<Rightarrow> 'w \<times> bool" where
  "bind_all h [] w = (w, True)"
| "bind_all h (x # xs) w =
     (if snd (snd x) = Listen
      then (case ch_bind h (fst (snd x)) w of (w', ok) \<Rightarrow> if ok then bind_all h xs w' else (w', False))
      else bind_all h xs w)"

definition console_new :: "('w, 's) con_host \<Rightarrow> (bytes \<times> string \<times> reach) list \<Rightarrow> 'w \<Rightarrow> ('w, 's) console option" where
  "console_new h named w =
     (if named = [] then None
      else case bind_all h named w of
             (w', ok) \<Rightarrow>
               if ok then Some \<lparr>con_world = w', con_ports = map port_new named, con_pending = [], con_ready = False,
                 con_sent = 0, con_taken = 0\<rparr> else None)"

definition control :: "u32 \<Rightarrow> u16 \<Rightarrow> u16 \<Rightarrow> bytes option \<Rightarrow> bytes" where
  "control i ev v name = to_le 4 i @ to_le 2 ev @ to_le 2 v @ (case name of None \<Rightarrow> [] | Some n \<Rightarrow> n)"

text \<open>The messages \<^verbatim>\<open>announce\<close> queues, port by port.\<close>

primrec announce_from :: "nat \<Rightarrow> 's port list \<Rightarrow> bytes list" where
  "announce_from i [] = []"
| "announce_from i (p # ps) =
     (if announced p then announce_from (Suc i) ps
      else control (of_nat i) DEVICE_ADD 0 None # control (of_nat i) PORT_NAME 1 (Some (cp_name p)) # announce_from (Suc i) ps)"

definition announce :: "('w, 's) console \<Rightarrow> ('w, 's) console" where
  "announce c =
     (if \<not> con_ready c then c
      else c\<lparr>con_pending := con_pending c @ announce_from 0 (con_ports c),
             con_ports := map (\<lambda>p. p\<lparr>announced := True\<rparr>) (con_ports c)\<rparr>)"

definition set_port :: "nat \<Rightarrow> 's port \<Rightarrow> ('w, 's) console \<Rightarrow> ('w, 's) console" where
  "set_port i p c = c\<lparr>con_ports := (con_ports c)[i := p]\<rparr>"

text \<open>\<^verbatim>\<open>push\<close>: the loop returns what was written.\<close>

partial_function (option) write_out ::
  "('w, 's) con_host \<Rightarrow> 's \<Rightarrow> bytes \<Rightarrow> 'w \<Rightarrow> nat \<Rightarrow> ('w \<times> nat) option" where
  "write_out h s waiting w n =
     (if n < length waiting
      then (case ch_write h s (drop n waiting) w of
              (w', Inr put) \<Rightarrow> (if put = 0 then Some (w', n) else write_out h s waiting w' (n + put))
            | (w', Inl e) \<Rightarrow> (if e = SockInterrupted then write_out h s waiting w' n else Some (w', n)))
      else Some (w, n))"

definition trimmed :: "bytes \<Rightarrow> bytes" where
  "trimmed bs = drop (length bs - HELD) bs"

definition con_push :: "('w, 's) con_host \<Rightarrow> nat \<Rightarrow> ('w, 's) console \<Rightarrow> ('w, 's) console option" where
  "con_push h i c =
     (let p = con_ports c ! i; bs = trimmed (to_host p) in
      case cp_host p of
        None \<Rightarrow> Some (set_port i (p\<lparr>to_host := bs\<rparr>) c)
      | Some s \<Rightarrow>
          (case write_out h s bs (con_world c) 0 of
             None \<Rightarrow> None
           | Some (w, n) \<Rightarrow>
               Some (set_port i (p\<lparr>to_host := drop n bs\<rparr>) (c\<lparr>con_world := w, con_taken := con_taken c + of_nat n\<rparr>))))"

text \<open>\<^verbatim>\<open>accept\<close>: first every port is tried, then the ports which joined are pushed.\<close>

definition try_reach :: "('w, 's) con_host \<Rightarrow> 's port \<Rightarrow> 'w \<Rightarrow> 'w \<times> 's option" where
  "try_reach h p w =
     (if cp_listening p then ch_accept h (cp_at p) w
      else if cp_reach p = Dial then ch_dial h (cp_at p) w
      else (w, None))"

primrec reach_all :: "('w, 's) con_host \<Rightarrow> nat \<Rightarrow> 's port list \<Rightarrow> 'w \<Rightarrow> 's port list \<times> 'w \<times> nat list" where
  "reach_all h i [] w = ([], w, [])"
| "reach_all h i (p # ps) w =
     (if cp_host p \<noteq> None then (case reach_all h (Suc i) ps w of (ps', w', js) \<Rightarrow> (p # ps', w', js))
      else case try_reach h p w of
             (w1, None) \<Rightarrow> (case reach_all h (Suc i) ps w1 of (ps', w', js) \<Rightarrow> (p # ps', w', js))
           | (w1, Some s) \<Rightarrow> (case reach_all h (Suc i) ps w1 of (ps', w', js) \<Rightarrow> (p\<lparr>cp_host := Some s\<rparr> # ps', w', i # js)))"

primrec push_each :: "('w, 's) con_host \<Rightarrow> nat list \<Rightarrow> ('w, 's) console \<Rightarrow> ('w, 's) console option" where
  "push_each h [] c = Some c"
| "push_each h (j # js) c = Option.bind (con_push h j c) (push_each h js)"

definition con_accept :: "('w, 's) con_host \<Rightarrow> ('w, 's) console \<Rightarrow> ('w, 's) console option" where
  "con_accept h c =
     (case reach_all h 0 (con_ports c) (con_world c) of
        (ps, w, js) \<Rightarrow> push_each h js (c\<lparr>con_ports := ps, con_world := w\<rparr>))"

text \<open>The readable bytes of a chain; a buffer which cannot be read is skipped.\<close>

definition readable_bytes :: "'m vm \<Rightarrow> 'm \<Rightarrow> chain \<Rightarrow> bytes" where
  "readable_bytes vm m c =
     concat (map (\<lambda>d. case ram_read vm m (addr d) (unat (len d)) of Inl _ \<Rightarrow> [] | Inr part \<Rightarrow> part)
       (filter (\<lambda>d. \<not> writable d) (descriptors c)))"

definition take_from_body :: "'m vm \<Rightarrow> ('w, 's) con_host \<Rightarrow> nat \<Rightarrow> ('w, 's) console \<Rightarrow> 'm \<Rightarrow> queue \<Rightarrow> chain \<Rightarrow>
    (('w, 's) console \<times> 'm \<times> queue \<times> (bool, virtio_error) result) option" where
  "take_from_body vm h i c m q ch =
     (let p = con_ports c ! i in
      case con_push h i (set_port i (p\<lparr>to_host := to_host p @ readable_bytes vm m ch\<rparr>) c) of
        None \<Rightarrow> None
      | Some c' \<Rightarrow>
          (case add_used vm m q (head ch) 0 of
             (m', q', r) \<Rightarrow> Some (c', m', q', map_sum id (\<lambda>_. True) r)))"

definition take_from_guest :: "nat \<Rightarrow> 'm vm \<Rightarrow> ('w, 's) con_host \<Rightarrow> nat \<Rightarrow> ('w, 's) console \<Rightarrow> 'm \<Rightarrow> queue \<Rightarrow>
    (('w, 's) console \<times> 'm \<times> queue \<times> (unit, virtio_error) result) option" where
  "take_from_guest fuel vm h i c m q = opt_loop fuel vm (take_from_body vm h i) c m q"

text \<open>The writing loop of \<^verbatim>\<open>give_to_guest\<close> and \<^verbatim>\<open>control_to_guest\<close> over the writable buffers: a
  buffer which cannot be written ends it.\<close>

primrec fill_parts :: "'m vm \<Rightarrow> bytes \<Rightarrow> descriptor list \<Rightarrow> 'm \<Rightarrow> nat \<Rightarrow> 'm \<times> nat" where
  "fill_parts vm bs [] m n = (m, n)"
| "fill_parts vm bs (d # ds) m n =
     (if \<not> writable d then fill_parts vm bs ds m n
      else if length bs \<le> n then (m, n)
      else let r = min (unat (len d)) (length bs - n) in
           (case ram_write vm m (addr d) (bslice n r bs) of
              (m', Inl _) \<Rightarrow> (m', n)
            | (m', Inr _) \<Rightarrow> fill_parts vm bs ds m' (n + r)))"

definition read_host :: "('w, 's) con_host \<Rightarrow> nat \<Rightarrow> ('w, 's) console \<Rightarrow> ('w, 's) console" where
  "read_host h i c =
     (let p = con_ports c ! i in
      case cp_host p of
        None \<Rightarrow> c
      | Some s \<Rightarrow>
          (case ch_read h s CHUNK (con_world c) of
             (w, Inl _) \<Rightarrow> c\<lparr>con_world := w\<rparr>
           | (w, Inr bs) \<Rightarrow> set_port i (p\<lparr>to_guest := to_guest p @ bs\<rparr>) (c\<lparr>con_world := w\<rparr>)))"

definition give_to_one :: "'m vm \<Rightarrow> nat \<Rightarrow> ('m, ('w, 's) console) body" where
  "give_to_one vm i c m q ch =
     (let p = con_ports c ! i in
      case fill_parts vm (to_guest p) (descriptors ch) m 0 of
        (m1, n) \<Rightarrow>
          (let c' = set_port i (p\<lparr>to_guest := drop n (to_guest p)\<rparr>) (c\<lparr>con_sent := con_sent c + of_nat n\<rparr>) in
           case add_used vm m1 q (head ch) (of_nat n) of
             (m2, q', r) \<Rightarrow> (c', m2, q', map_sum id (\<lambda>_. True) r)))"

definition give_to_guest :: "nat \<Rightarrow> 'm vm \<Rightarrow> ('w, 's) con_host \<Rightarrow> nat \<Rightarrow> ('w, 's) console \<Rightarrow> 'm \<Rightarrow> queue \<Rightarrow>
    (('w, 's) console \<times> 'm \<times> queue \<times> (unit, virtio_error) result) option" where
  "give_to_guest fuel vm h i c m q =
     while_loop fuel (\<lambda>c. to_guest (con_ports c ! i) \<noteq> []) vm (give_to_one vm i) (read_host h i c) m q"

definition heard :: "u32 \<Rightarrow> u16 \<Rightarrow> ('w, 's) console \<Rightarrow> ('w, 's) console" where
  "heard i what c =
     (if what = DEVICE_READY then announce (c\<lparr>con_ready := True\<rparr>)
      else if what = PORT_READY
      then c\<lparr>con_pending := con_pending c @ [control i CONSOLE_PORT 0 None, control i PORT_OPEN 1 None]\<rparr>
      else c)"

definition control_from_body :: "'m vm \<Rightarrow> ('m, ('w, 's) console) body" where
  "control_from_body vm c m q ch =
     (let bs = readable_bytes vm m ch;
          c' = (if CONTROL_SIZE \<le> length bs then heard (from_le (bslice 0 4 bs)) (from_le (bslice 4 2 bs)) c else c)
      in case add_used vm m q (head ch) 0 of
           (m', q', r) \<Rightarrow> (c', m', q', map_sum id (\<lambda>_. True) r))"

definition control_from_guest :: "nat \<Rightarrow> 'm vm \<Rightarrow> ('w, 's) console \<Rightarrow> 'm \<Rightarrow> queue \<Rightarrow>
    (('w, 's) console \<times> 'm \<times> queue \<times> (unit, virtio_error) result) option" where
  "control_from_guest fuel vm c m q = pop_loop fuel vm (control_from_body vm) c m q"

text \<open>The first branch is never taken: the loop pops only while a message is pending.\<close>

definition control_to_one :: "'m vm \<Rightarrow> ('m, ('w, 's) console) body" where
  "control_to_one vm c m q ch =
     (case con_pending c of
        [] \<Rightarrow> (c, m, undo_pop q, Inr False)
      | message # rest \<Rightarrow>
          (case fill_parts vm message (descriptors ch) m 0 of
             (m1, n) \<Rightarrow>
               (case add_used vm m1 q (head ch) (of_nat n) of
                  (m2, q', r) \<Rightarrow> (c\<lparr>con_pending := rest\<rparr>, m2, q', map_sum id (\<lambda>_. True) r))))"

definition control_to_guest :: "nat \<Rightarrow> 'm vm \<Rightarrow> ('w, 's) console \<Rightarrow> 'm \<Rightarrow> queue \<Rightarrow>
    (('w, 's) console \<times> 'm \<times> queue \<times> (unit, virtio_error) result) option" where
  "control_to_guest fuel vm c m q = while_loop fuel (\<lambda>c. con_pending c \<noteq> []) vm (control_to_one vm) c m q"

definition console_queue_count :: "('w, 's) console \<Rightarrow> u16" where
  "console_queue_count c = 2 + 2 * of_nat (length (con_ports c))"

definition console_read_config :: "u64 \<Rightarrow> u8 \<Rightarrow> ('w, 's) console \<Rightarrow> u64" where
  "console_read_config off sz c =
     (let space = bsplice 4 (to_le 4 (of_nat (length (con_ports c)) :: u32)) (replicate 16 0) in
      foldl (\<lambda>acc i. acc OR push_bit (i * 8) (ucast (if unat off + i < 16 then space ! (unat off + i) else 0)))
        0 [0..<unat sz])"

definition console_wake_after :: "('w, 's) console \<Rightarrow> nat option" where
  "console_wake_after c =
     (if con_pending c \<noteq> [] \<or> list_ex (\<lambda>p. cp_host p = None \<and> cp_reach p = Dial) (con_ports c) then Some 10 else None)"

definition port_of_queue :: "u16 \<Rightarrow> nat" where
  "port_of_queue i = (if i = PORT0_RECEIVE \<or> i = PORT0_TRANSMIT then 0 else unat ((i - 2) div 2))"

definition console_notify :: "nat \<Rightarrow> 'm vm \<Rightarrow> ('w, 's) con_host \<Rightarrow> u16 \<Rightarrow> ('w, 's) console \<Rightarrow> 'm \<Rightarrow> queue \<Rightarrow>
    (('w, 's) console \<times> 'm \<times> queue \<times> (unit, virtio_error) result) option" where
  "console_notify fuel vm h i c0 m q =
     (case con_accept h c0 of
        None \<Rightarrow> None
      | Some c \<Rightarrow>
          (if i = CONTROL_TRANSMIT then control_from_guest fuel vm c m q
           else if i = CONTROL_RECEIVE then control_to_guest fuel vm (announce c) m q
           else let p = port_of_queue i in
             if length (con_ports c) \<le> p then Some (c, m, q, Ok ())
             else if i = receive_of (of_nat p) then give_to_guest fuel vm h p c m q
             else take_from_guest fuel vm h p c m q))"

section \<open>The queues of a port\<close>

lemma unat_double: "unat p < 2 ^ 15 - 1 \<Longrightarrow> unat (2 + p * 2 :: u16) = 2 + 2 * unat p \<and> unat (3 + p * 2 :: u16) = 3 + 2 * unat p"
  by (simp add: unat_word_ariths)

lemma port_of_queue_of:
  assumes "unat p < 2 ^ 15 - 1"
  shows "port_of_queue (receive_of p) = unat p" "port_of_queue (transmit_of p) = unat p"
    "receive_of p \<noteq> transmit_of p" "receive_of p \<notin> {CONTROL_RECEIVE, CONTROL_TRANSMIT}"
    "transmit_of p \<notin> {CONTROL_RECEIVE, CONTROL_TRANSMIT}"
proof -
  note d = unat_double [OF assms]
  have half: "unat ((2 + p * 2 - 2) div 2 :: u16) = unat p" "unat ((3 + p * 2 - 2) div 2 :: u16) = unat p"
    using assms d by (simp_all add: unat_div unat_word_ariths) 
  show "port_of_queue (receive_of p) = unat p" "port_of_queue (transmit_of p) = unat p"
    using half d by (auto simp: port_of_queue_def receive_of_def transmit_of_def PORT0_RECEIVE_def PORT0_TRANSMIT_def
        word_unat_eq_iff)
  show "receive_of p \<noteq> transmit_of p" "receive_of p \<notin> {CONTROL_RECEIVE, CONTROL_TRANSMIT}"
    "transmit_of p \<notin> {CONTROL_RECEIVE, CONTROL_TRANSMIT}"
    using d by (auto simp: receive_of_def transmit_of_def PORT0_RECEIVE_def PORT0_TRANSMIT_def CONTROL_RECEIVE_def
        CONTROL_TRANSMIT_def word_unat_eq_iff)
qed

section \<open>Bytes to the guest\<close>

lemma fill_parts_count:
  "fill_parts vm bs ds m n = (m', n') \<Longrightarrow> n \<le> length bs \<Longrightarrow> n \<le> n' \<and> n' \<le> length bs"
proof (induction ds arbitrary: m n)
  case (Cons d ds)
  then show ?case by (fastforce simp: Let_def split: prod.splits sum.splits if_splits)
qed simp

lemma gather_none [simp]: "gather vm m ds 0 = Inr []"
  by (induction ds) simp_all

context vm_memory
begin

lemma fill_parts_touches: "fill_parts vm bs ds m n = (m', n') \<Longrightarrow> descriptors c = ds \<Longrightarrow> touches vm m m' c"
proof -
  assume fill: "fill_parts vm bs ds m n = (m', n')" and c: "descriptors c = ds"
  have "vm_check_range vm m' b k = vm_check_range vm m b k" for b k
    using fill
    by (induction ds arbitrary: m n) (auto simp: Let_def dest: ram_write_range split: prod.splits sum.splits if_splits)
  moreover have "ram_read vm m' b k = ram_read vm m b k" if "buffers_clear ds b k" for b k
    using fill that
  proof (induction ds arbitrary: m n)
    case (Cons d ds)
    have ap: "apart (addr d) (length (bslice n (min (unat (len d)) (length bs - n)) bs)) b k" if "writable d"
      using Cons.prems(2) that by (auto simp: buffers_clear_def apart_def)
    have "buffers_clear ds b k" using Cons.prems(2) by (simp add: buffers_clear_def)
    with Cons.IH Cons.prems(1) ram_write_apart [OF _ ap] show ?case
      by (auto simp: Let_def split: prod.splits sum.splits if_splits)
  qed simp
  ultimately show ?thesis by (simp add: touches_def c)
qed

lemma fill_parts_gather:
  "fill_parts vm bs ds m n = (m', n') \<Longrightarrow> n \<le> length bs \<Longrightarrow> buffers_apart ds \<Longrightarrow>
   gather vm m' ds (n' - n) = Inr (bslice n (n' - n) bs)"
proof (induction ds arbitrary: m n)
  case (Cons d ds)
  show ?case
  proof (cases "writable d \<and> n < length bs")
    case False
    then show ?thesis using Cons by (auto simp: bslice_def split: if_splits)
  next
    case True
    let ?r = "min (unat (len d)) (length bs - n)"
    have r: "0 < ?r" using True Cons.prems(3) by (auto simp: unat_gt_0)
    obtain m1 res where w: "ram_write vm m (addr d) (bslice n ?r bs) = (m1, res)" by fastforce
    show ?thesis
    proof (cases res)
      case (Inl e)
      with Cons.prems(1) True w show ?thesis by (auto simp: Let_def bslice_def)
    next
      case (Inr u)
      with w have w: "ram_write vm m (addr d) (bslice n ?r bs) = (m1, Inr ())" by simp
      with Cons.prems(1) True have rest: "fill_parts vm bs ds m1 (n + ?r) = (m', n')" by (simp add: Let_def)
      have le: "n + ?r \<le> length bs" using Cons.prems(2) by simp
      have n': "n + ?r \<le> n'" "n' \<le> length bs" using fill_parts_count [OF rest le] by simp_all
      have "length (bslice n ?r bs) = ?r" using Cons.prems(2) by simp
      with ram_write_read [OF w] r have "ram_read vm m1 (addr d) ?r = Inr (bslice n ?r bs)"
        by (metis less_numeral_extra(3) list.size(3))
      moreover have "buffers_clear ds (addr d) ?r"
        using Cons.prems(3) True buffers_clear_inside [of ds "addr d" "unat (len d)" "addr d" ?r] by simp
      ultimately have here: "ram_read vm m' (addr d) ?r = Inr (bslice n ?r bs)"
        using fill_parts_touches [OF rest, of "\<lparr>head = 0, descriptors = ds\<rparr>"] by (simp add: touches_def)
      have ih: "gather vm m' ds (n' - (n + ?r)) = Inr (bslice (n + ?r) (n' - (n + ?r)) bs)"
        using Cons.IH [OF rest le] Cons.prems(3) by simp
      have r': "min (unat (len d)) (n' - n) = ?r" using n' by (auto simp: min_def)
      show ?thesis
        using True r n'(1) here r' ih bslice_join [OF n'(1), of bs] by (auto simp: Let_def diff_diff_left)
    qed
  qed
qed (simp add: bslice_def)

end

section \<open>Bytes to the host\<close>

lemma trimmed_split: "\<exists>lost. bs = lost @ trimmed bs \<and> length lost = length bs - 65536"
  unfolding trimmed_def HELD_def by (rule exI [of _ "take (length bs - 65536) bs"]) simp

lemma write_out_returns:
  assumes "\<And>s bs w. snd (ch_write h s bs w) \<noteq> Inl SockInterrupted"
  shows "write_out h s bs w n \<noteq> None"
proof (induction "length bs - n" arbitrary: w n rule: less_induct)
  case less
  obtain w1 r where w: "ch_write h s (drop n bs) w = (w1, r)" by fastforce
  have "r \<noteq> Inl SockInterrupted" using assms w by (metis snd_conv)
  with w less show ?case by (subst write_out.simps) (cases r, auto)
qed

text \<open>What the stream \<open>s\<close> of the host has taken is \<open>got s w\<close>; a write moves a part of what it
  is offered or nothing, and a read moves nothing there.  The writes of a socket are not
  interrupted for ever.\<close>

locale con_streams =
  fixes h :: "('w, 's) con_host" and got :: "'s \<Rightarrow> 'w \<Rightarrow> bytes"
  assumes put_ok: "ch_write h s bs w = (w', Inr n) \<Longrightarrow> n \<le> length bs \<and> got s w' = got s w @ take n bs"
    and put_err: "ch_write h s bs w = (w', Inl e) \<Longrightarrow> got s w' = got s w"
    and put_returns: "write_out h s bs w n \<noteq> None"
begin

lemma write_out_puts:
  "write_out h s bs w n = Some y \<Longrightarrow> n \<le> length bs \<Longrightarrow>
   n \<le> snd y \<and> snd y \<le> length bs \<and> got s (fst y) = got s w @ bslice n (snd y - n) bs"
proof (induction h\<equiv>h s bs w n y rule: write_out.raw_induct [rotated, consumes 1])
  case (1 wo s bs w n y)
  show ?case
  proof (cases "n < length bs")
    case True
    obtain w1 r where p: "ch_write h s (drop n bs) w = (w1, r)" by fastforce
    show ?thesis
    proof (cases r)
      case (Inl e)
      with p put_err [of s "drop n bs" w w1 e] have same: "got s w1 = got s w" by simp
      show ?thesis
      proof (cases "e = SockInterrupted")
        case True
        with \<open>n < length bs\<close> p Inl 1(2) have "wo h s bs w1 n = Some y" by simp
        from 1(1) [OF this 1(3)] same show ?thesis by simp
      next
        case False
        with \<open>n < length bs\<close> p Inl 1(2) same show ?thesis by (auto simp: bslice_def)
      qed
    next
      case (Inr put)
      with p put_ok [of s "drop n bs" w w1 put] True
      have got: "got s w1 = got s w @ bslice n put bs" and le: "n + put \<le> length bs" by (auto simp: bslice_def)
      show ?thesis
      proof (cases "put = 0")
        case False
        with \<open>n < length bs\<close> p Inr 1(2) have "wo h s bs w1 (n + put) = Some y" by simp
        from 1(1) [OF this le] got bslice_join [of n put "snd y" bs] show ?thesis by auto
      qed (use \<open>n < length bs\<close> p Inr 1(2) got in \<open>auto simp: bslice_def\<close>)
    qed
  qed (use 1(2,3) in \<open>auto simp: bslice_def\<close>)
qed

lemma con_push_returns: "con_push h i c \<noteq> None"
  by (auto simp: con_push_def Let_def put_returns split: option.split)

lemma con_push_sends:
  assumes "con_push h i c = Some c'" "i < length (con_ports c)"
  shows "length (con_ports c') = length (con_ports c)" "length (to_host (con_ports c' ! i)) \<le> HELD"
    "cp_host (con_ports c' ! i) = cp_host (con_ports c ! i)"
    "cp_host (con_ports c ! i) = None \<Longrightarrow> to_host (con_ports c' ! i) = trimmed (to_host (con_ports c ! i))"
    "cp_host (con_ports c ! i) = Some s \<Longrightarrow>
       got s (con_world c') @ to_host (con_ports c' ! i) = got s (con_world c) @ trimmed (to_host (con_ports c ! i))"
proof -
  have tr: "length (trimmed bs) \<le> HELD" for bs by (simp add: trimmed_def)
  then have dr: "length (drop n (trimmed bs)) \<le> HELD" for n bs by (metis drop_drop length_drop diff_le_self le_trans)
  show "length (con_ports c') = length (con_ports c)" "length (to_host (con_ports c' ! i)) \<le> HELD"
    "cp_host (con_ports c' ! i) = cp_host (con_ports c ! i)"
    "cp_host (con_ports c ! i) = None \<Longrightarrow> to_host (con_ports c' ! i) = trimmed (to_host (con_ports c ! i))"
    using assms tr dr by (auto simp: con_push_def set_port_def Let_def split: option.splits)
  assume "cp_host (con_ports c ! i) = Some s"
  with assms obtain w n where w: "write_out h s (trimmed (to_host (con_ports c ! i))) (con_world c) 0 = Some (w, n)"
      and c': "con_world c' = w" "to_host (con_ports c' ! i) = drop n (trimmed (to_host (con_ports c ! i)))"
    by (auto simp: con_push_def set_port_def Let_def split: option.splits)
  from write_out_puts [OF w] c' show
    "got s (con_world c') @ to_host (con_ports c' ! i) = got s (con_world c) @ trimmed (to_host (con_ports c ! i))"
    by (simp add: bslice_def)
qed

end

section \<open>The contract of the loops\<close>

locale console_rings = vm_memory vm + con_streams h got
  for vm :: "'m vm" and h :: "('w, 's) con_host" and got :: "'s \<Rightarrow> 'w \<Rightarrow> bytes"
begin

lemma take_from_returns: "take_from_body vm h i c m q ch \<noteq> None"
  by (auto simp: take_from_body_def Let_def con_push_returns split: option.split prod.split)

end

sublocale console_rings \<subseteq> from_guest: chain_server vm "\<lambda>c m q ch. the (take_from_body vm h i c m q ch)" for i
proof (rule chain_serverI)
  fix d :: "('w, 's) console" and m q c d' m' q' r
  assume "the (take_from_body vm h i d m q c) = (d', m', q', r)"
  with take_from_returns [of i d m q c] have "take_from_body vm h i d m q c = Some (d', m', q', r)" by auto
  then show "body_shape vm m q c m' q' r"
    unfolding body_shape_def take_from_body_def Let_def
    by (auto split: option.splits prod.splits intro!: exI [of _ m])
qed

sublocale console_rings \<subseteq> to_guest: chain_server vm "give_to_one vm i :: ('m, ('w, 's) console) body" for i
proof (rule chain_serverI)
  fix d :: "('w, 's) console" and m q c d' m' q' r
  assume "give_to_one vm i d m q c = (d', m', q', r)"
  then show "body_shape vm m q c m' q' r"
    unfolding body_shape_def give_to_one_def Let_def
    by (auto split: prod.splits dest!: fill_parts_touches [OF _ refl])
qed

sublocale console_rings \<subseteq> control_in: chain_server vm "control_from_body vm :: ('m, ('w, 's) console) body"
proof (rule chain_serverI)
  fix d :: "('w, 's) console" and m q c d' m' q' r
  assume "control_from_body vm d m q c = (d', m', q', r)"
  then show "body_shape vm m q c m' q' r"
    unfolding body_shape_def control_from_body_def Let_def by (auto split: prod.splits intro!: exI [of _ m])
qed

sublocale console_rings \<subseteq> control_out: chain_server vm "control_to_one vm :: ('m, ('w, 's) console) body"
proof (rule chain_serverI)
  fix d :: "('w, 's) console" and m q c d' m' q' r
  assume "control_to_one vm d m q c = (d', m', q', r)"
  then show "body_shape vm m q c m' q' r"
    unfolding body_shape_def control_to_one_def
    by (auto split: prod.splits list.splits dest!: fill_parts_touches [OF _ refl])
qed

lemma push_each_returns: "con_streams h got \<Longrightarrow> push_each h js c \<noteq> None"
  by (induction js arbitrary: c)
    (auto simp: con_streams.con_push_returns Option.bind_eq_None_conv split: Option.bind_splits)

context console_rings
begin

lemma give_goes_on: "snd (snd (snd (give_to_one vm i c m q ch))) \<noteq> Inr False"
  by (auto simp: give_to_one_def Let_def split: prod.split)

lemma control_goes_on: "con_pending c \<noteq> [] \<Longrightarrow> snd (snd (snd (control_to_one vm c m q ch))) \<noteq> Inr False"
  by (auto simp: control_to_one_def split: prod.split list.split)

lemma notify_ends:
  assumes "layout_ok vm m q" "pending_count vm m q < fuel"
  shows "console_notify fuel vm h i c m q \<noteq> None"
proof -
  obtain ps w js where r: "reach_all h 0 (con_ports c) (con_world c) = (ps, w, js)" by (metis prod_cases3)
  obtain c1 where acc: "con_accept h c = Some c1"
    using push_each_returns [OF con_streams_axioms, of js "c\<lparr>con_ports := ps, con_world := w\<rparr>"] r
    by (auto simp: con_accept_def)
  have "take_from_guest fuel vm h p c m q \<noteq> None" for p c
    unfolding take_from_guest_def opt_loop_pop_loop [OF take_from_returns] by (rule from_guest.loop_ends [OF assms])
  moreover have "give_to_guest fuel vm h p c m q \<noteq> None" for p c
    unfolding give_to_guest_def by (rule to_guest.while_loop_ends [OF give_goes_on assms])
  moreover have "control_from_guest fuel vm c m q \<noteq> None" for c :: "('w, 's) console"
    unfolding control_from_guest_def by (rule control_in.loop_ends [OF assms])
  moreover have "control_to_guest fuel vm c m q \<noteq> None" for c :: "('w, 's) console"
    unfolding control_to_guest_def by (rule control_out.while_loop_ends [OF control_goes_on assms])
  ultimately show ?thesis unfolding console_notify_def acc by (simp add: Let_def)
qed

lemma give_one_in_order:
  assumes "give_to_one vm i c m q ch = (c', m', q', Inr True)" "i < length (con_ports c)"
    and "queue_wf q" "unat (used_ring q) + used_bytes q < 2 ^ 64"
    and "buffers_apart (descriptors ch)" "buffers_clear (descriptors ch) (used_ring q) (used_bytes q)"
  obtains n where "n \<le> length (to_guest (con_ports c ! i))"
    "gather vm m' (descriptors ch) n = Inr (take n (to_guest (con_ports c ! i)))"
    "to_guest (con_ports c' ! i) = drop n (to_guest (con_ports c ! i))"
    "read_u32 vm m' (used_slot q + 4) = Inr (of_nat n)"
proof -
  let ?bs = "to_guest (con_ports c ! i)"
  obtain m1 n where f: "fill_parts vm ?bs (descriptors ch) m 0 = (m1, n)" by fastforce
  with assms(1) have u: "add_used vm m1 q (head ch) (of_nat n) = (m', q', Inr ())"
      and c': "c' = set_port i ((con_ports c ! i)\<lparr>to_guest := drop n ?bs\<rparr>) (c\<lparr>con_sent := con_sent c + of_nat n\<rparr>)"
    by (auto simp: give_to_one_def Let_def split: prod.splits)
  have "gather vm m1 (descriptors ch) n = Inr (take n ?bs)"
    using fill_parts_gather [OF f _ assms(5)] by (simp add: bslice_def)
  moreover have "gather vm m' (descriptors ch) n = gather vm m1 (descriptors ch) n"
    using assms(6) by (intro gather_cong add_used_apart [OF assms(3,4) _ u])
      (auto simp: buffers_clear_def list_all_iff apart_def)
  ultimately show ?thesis
    using that [of n] fill_parts_count [OF f] c' assms(2) add_used_written(2) [OF assms(3,4) u]
    by (simp add: set_port_def)
qed

end

section \<open>A host of pipes\<close>

definition pipe_con :: "(nat \<Rightarrow> bytes \<times> bytes, nat) con_host" where
  "pipe_con = \<lparr>ch_bind = (\<lambda>p w. (w, True)), ch_accept = (\<lambda>p w. (w, Some 0)), ch_dial = (\<lambda>p w. (w, None)),
     ch_write = (\<lambda>s bs w. (w(s := (fst (w s), snd (w s) @ bs)), Ok (length bs))),
     ch_read = (\<lambda>s n w. (w(s := (drop n (fst (w s)), snd (w s))), if fst (w s) = [] then Err SockWouldBlock else Ok (take n (fst (w s)))))\<rparr>"

interpretation pipe_con: console_rings flat_vm pipe_con "\<lambda>s w. snd (w s)"
proof
  show "write_out pipe_con s bs w n \<noteq> None" for s bs w n
    by (rule write_out_returns) (simp add: pipe_con_def)
qed (auto simp: pipe_con_def)

section \<open>Properties\<close>


text \<open>One port whose host end is stream 0, and the demonstration ring.\<close>

definition demo_console :: "(nat \<Rightarrow> bytes \<times> bytes, nat) console" where
  "demo_console = \<lparr>con_world = (\<lambda>_. ([], [])), con_ports = [(port_new ([], ''p'', Listen))\<lparr>cp_host := Some 0\<rparr>],
     con_pending = [], con_ready = False, con_sent = 0, con_taken = 0\<rparr>"


end
