(* ===== verification/Lcp.thy ===== *)
theory Lcp
  imports Net_Link
begin

text \<open>
  The protocol between host and guest agent, \<^verbatim>\<open>src/lingcage/src/lcp/mod.rs\<close>, and reading it
  under a deadline, \<^verbatim>\<open>src/lingcage/src/deadline.rs\<close>.

  A connection is a socket as in \<open>Net_Link\<close>.  \<^verbatim>\<open>write_all\<close> and \<^verbatim>\<open>read_exact\<close> of the standard
  library are loops which retry an interrupted call, so they are partial functions.  The
  payload of a typed message is JSON of a third-party crate: a pair of functions \<open>json\<close> is a
  parameter wherever a payload is coded.

  \<^verbatim>\<open>flush\<close> does nothing on the sockets and files frames are written to, and is left out.

  The lemmas show that a frame written is read back from any stream it arrives on, that the
  bytes behind it stay, and that lengths outside the limit are refused before a payload is read.
\<close>

section \<open>Frames\<close>

definition LCP_MAX_FRAME :: u32 where "LCP_MAX_FRAME = 65536"
definition HEADER :: nat where "HEADER = 11"
definition COUNTED :: u32 where "COUNTED = 7"

datatype lcp_error = LcpIo sock_error | Truncated | LcpOverfull u32 | LcpJson

definition SESSION_START :: u8 where "SESSION_START = 1"
definition TERMINAL :: u8 where "TERMINAL = 2"
definition FLAG_SHUTDOWN :: u8 where "FLAG_SHUTDOWN = 4"

record frame =
  f_id :: u32
  f_kind :: u16
  f_flags :: u8
  f_payload :: bytes

definition frame_new :: "u32 \<Rightarrow> u16 \<Rightarrow> bytes \<Rightarrow> frame" where
  "frame_new i k p = \<lparr>f_id = i, f_kind = k, f_flags = 0, f_payload = p\<rparr>"

record 'a json =
  json_to_vec :: "'a \<Rightarrow> bytes option"
  json_from_slice :: "bytes \<Rightarrow> 'a option"

definition with_payload :: "'a json \<Rightarrow> u32 \<Rightarrow> u16 \<Rightarrow> u8 \<Rightarrow> 'a \<Rightarrow> (frame, lcp_error) result" where
  "with_payload j i k fl v =
     map_err (\<lambda>_. LcpJson) (and_then (ok_or () (json_to_vec j v)) (\<lambda>p. Ok \<lparr>f_id = i, f_kind = k, f_flags = fl, f_payload = p\<rparr>))"

definition frame_payload :: "'a json \<Rightarrow> frame \<Rightarrow> ('a, lcp_error) result" where
  "frame_payload j f = ok_or LcpJson (json_from_slice j (f_payload f))"

partial_function (option) write_all :: "'w sock \<Rightarrow> bytes \<Rightarrow> 'w \<Rightarrow> ('w \<times> (unit, sock_error) result) option" where
  "write_all k bs w =
     (if bs = [] then Some (w, Ok ())
      else case sk_write k bs w of
             (w', Inr n) \<Rightarrow> (if n = 0 then Some (w', Err WriteZero) else write_all k (drop n bs) w')
           | (w', Inl e) \<Rightarrow> (if e = SockInterrupted then write_all k bs w' else Some (w', Err e)))"

definition header_of :: "u32 \<Rightarrow> frame \<Rightarrow> bytes" where
  "header_of n f = to_be 4 n @ to_be 4 (f_id f) @ to_be 2 (f_kind f) @ [f_flags f]"

definition frame_len :: "frame \<Rightarrow> u32" where
  "frame_len f =
     saturating_add (if length (f_payload f) < 2 ^ 32 then of_nat (length (f_payload f)) else LCP_MAX_FRAME) COUNTED"

definition write_to :: "'w sock \<Rightarrow> frame \<Rightarrow> 'w \<Rightarrow> ('w \<times> (unit, lcp_error) result) option" where
  "write_to k f w =
     (if LCP_MAX_FRAME < frame_len f then Some (w, Err (LcpOverfull (frame_len f)))
      else case write_all k (header_of (frame_len f) f) w of
             None \<Rightarrow> None
           | Some (w1, Inl e) \<Rightarrow> Some (w1, Err (LcpIo e))
           | Some (w1, Inr _) \<Rightarrow> map_option (\<lambda>(w2, r). (w2, map_err LcpIo r)) (write_all k (f_payload f) w1))"

text \<open>Reading until \<open>n\<close> bytes are there; the error \<open>None\<close> is the end of the stream.\<close>

partial_function (option) read_full ::
  "'w sock \<Rightarrow> nat \<Rightarrow> bytes \<Rightarrow> 'w \<Rightarrow> ('w \<times> (bytes, sock_error option) result) option" where
  "read_full k n got w =
     (if length got < n
      then (case sk_read k (n - length got) w of
              (w', Inr bs) \<Rightarrow> (if bs = [] then Some (w', Err None) else read_full k n (got @ bs) w')
            | (w', Inl e) \<Rightarrow> (if e = SockInterrupted then read_full k n got w' else Some (w', Err (Some e))))
      else Some (w, Ok got))"

definition header_error :: "sock_error option \<Rightarrow> lcp_error" where
  "header_error e = (case e of None \<Rightarrow> Truncated | Some x \<Rightarrow> LcpIo x)"

definition payload_error :: "sock_error option \<Rightarrow> lcp_error" where
  "payload_error e = (case e of None \<Rightarrow> Truncated | Some x \<Rightarrow> if x = UnexpectedEof then Truncated else LcpIo x)"

definition read_from :: "'w sock \<Rightarrow> 'w \<Rightarrow> ('w \<times> (frame, lcp_error) result) option" where
  "read_from k w =
     (case read_full k HEADER [] w of
        None \<Rightarrow> None
      | Some (w1, Inl e) \<Rightarrow> Some (w1, Err (header_error e))
      | Some (w1, Inr h) \<Rightarrow>
          (let n = from_be (bslice 0 4 h) :: u32 in
           if \<not> (COUNTED \<le> n \<and> n \<le> LCP_MAX_FRAME) then Some (w1, Err (LcpOverfull n))
           else case read_full k (unat (n - COUNTED)) [] w1 of
                  None \<Rightarrow> None
                | Some (w2, Inl e) \<Rightarrow> Some (w2, Err (payload_error e))
                | Some (w2, Inr p) \<Rightarrow>
                    Some (w2, Ok \<lparr>f_id = from_be (bslice 4 4 h), f_kind = from_be (bslice 8 2 h), f_flags = h ! 10, f_payload = p\<rparr>)))"

section \<open>Messages\<close>

definition PROTOCOL :: u16 where "PROTOCOL = 1"
definition NONCE :: nat where "NONCE = 8"

definition READY :: u16 where "READY = 1"
definition IDENTIFY :: u16 where "IDENTIFY = 2"
definition IDENTIFIED :: u16 where "IDENTIFIED = 3"
definition PING :: u16 where "PING = 4"
definition PONG :: u16 where "PONG = 5"
definition EXEC :: u16 where "EXEC = 6"
definition EXEC_STARTED :: u16 where "EXEC_STARTED = 7"
definition EXEC_FAILED :: u16 where "EXEC_FAILED = 8"
definition EXEC_EXIT :: u16 where "EXEC_EXIT = 9"
definition EXEC_SIGNAL :: u16 where "EXEC_SIGNAL = 10"
definition EXEC_RESIZE :: u16 where "EXEC_RESIZE = 11"
definition KIND_SHUTDOWN :: u16 where "KIND_SHUTDOWN = 12"
definition KIND_ERROR :: u16 where "KIND_ERROR = 0xffff"

text \<open>The uptime is a floating-point number the program only passes on; \<open>'f\<close> stands for it.\<close>

record 'f ready =
  r_agent :: string
  r_protocol :: u16
  r_uptime :: 'f
  r_init_ms :: u64
  r_boot_id :: string

record identify =
  i_hostname :: string
  i_machine_id :: string
  i_generation :: u64
  i_entropy :: bytes
  i_unix_nanos :: u64

record identified =
  hostname_now :: string

record ping =
  p_nonce :: u64

record pong =
  q_nonce :: u64

record pty_size =
  rows :: u16
  cols :: u16

record lcp_stream =
  ls_port :: u32
  ls_nonce :: u64

record exec =
  x_program :: string
  x_args :: "string list"
  x_env :: "string \<Rightarrow> string option"
  x_cwd :: "string option"
  x_user :: "string option"
  x_pty :: "pty_size option"
  x_timeout_ms :: "u64 option"
  x_stdin :: "lcp_stream option"
  x_stdout :: lcp_stream
  x_stderr :: lcp_stream

record exec_started =
  xs_pid :: u32

datatype failure = NotFound | Permission | Format | OtherFailure

record exec_failed =
  xf_reason :: failure
  xf_errno :: int

record exec_exit =
  xe_code :: "int option"
  xe_signal :: "int option"
  xe_timed_out :: bool

record signal_msg =
  sg_signal :: int

record error_payload =
  ep_code :: string
  ep_message :: string

section \<open>Reading under a deadline\<close>

text \<open>The clock, and arming the read timeout of the stream.\<close>

record 'w timed =
  clock :: "'w \<Rightarrow> 'w \<times> nat"
  set_read_timeout :: "nat \<Rightarrow> 'w \<Rightarrow> 'w \<times> (unit, sock_error) result"

definition until_read :: "'w timed \<Rightarrow> 'w sock \<Rightarrow> nat \<Rightarrow> nat \<Rightarrow> 'w \<Rightarrow> 'w \<times> (bytes, sock_error) result" where
  "until_read t k deadline n w =
     (case clock t w of
        (w1, now) \<Rightarrow>
          if deadline - now = 0 then (w1, Err SockTimedOut)
          else (case set_read_timeout t (deadline - now) w1 of
                  (w2, Inl e) \<Rightarrow> (w2, Err e)
                | (w2, Inr _) \<Rightarrow> sk_read k n w2))"

definition until :: "'w timed \<Rightarrow> 'w sock \<Rightarrow> nat \<Rightarrow> 'w sock" where
  "until t k deadline = k\<lparr>sk_read := until_read t k deadline\<rparr>"

datatype 'l lc_error =
    ErrIo sock_error | ErrLingcore 'l | ErrProtocol lcp_error | TemplateMissing string | TemplateBad string
  | TemplateInUse string | ErrSanitize "string list" | ErrUnsupported string | ErrAgent string | ErrTimeout string
  | NotReady string "'l lc_error" | ErrShape string string | ErrImage | ErrExecFailed failure int

definition deadline_frame :: "'w timed \<Rightarrow> 'w sock \<Rightarrow> nat \<Rightarrow> string \<Rightarrow> 'w \<Rightarrow> ('w \<times> (frame, 'l lc_error) result) option" where
  "deadline_frame t k deadline what w =
     map_option (\<lambda>(w', r). (w', map_err (\<lambda>e. case e of
         LcpIo x \<Rightarrow> if x = SockWouldBlock \<or> x = SockTimedOut then ErrTimeout what else ErrProtocol e
       | _ \<Rightarrow> ErrProtocol e) r))
       (read_from (until t k deadline) w)"

section \<open>Lemmas\<close>

definition frame_bytes :: "frame \<Rightarrow> bytes" where
  "frame_bytes f = header_of (frame_len f) f @ f_payload f"

definition fits_frame :: "frame \<Rightarrow> bool" where
  "fits_frame f \<longleftrightarrow> length (f_payload f) + 7 \<le> 65536"

lemma unat_frame_len:
  "unat (frame_len f) = (if length (f_payload f) < 2 ^ 32 then min (length (f_payload f) + 7) (2 ^ 32 - 1) else 65543)"
proof -
  have sat: "unat (saturating_add a COUNTED) = min (unat a + 7) (2 ^ 32 - 1)" for a :: u32
    using unsigned_less [of a, where 'a = nat] by (auto simp: saturating_add_def COUNTED_def unat_word_ariths unsigned_minus_1_eq_mask mask_eq_exp_minus_1)
  have "unat (of_nat n :: u32) = n" if "n < 2 ^ 32" for n
    using that by (simp add: unat_of_nat)
  with sat show ?thesis by (simp add: frame_len_def LCP_MAX_FRAME_def)
qed

lemma frame_len_fits: "fits_frame f \<Longrightarrow> unat (frame_len f) = length (f_payload f) + 7"
  by (simp add: fits_frame_def unat_frame_len)

lemma frame_len_limit: "LCP_MAX_FRAME < frame_len f \<longleftrightarrow> \<not> fits_frame f"
  by (auto simp: fits_frame_def unat_frame_len LCP_MAX_FRAME_def word_less_nat_alt)

lemma header_split:
  assumes "length h = 11"
  shows "to_be 4 (from_be (bslice 0 4 h) :: u32) @ to_be 4 (from_be (bslice 4 4 h) :: u32) @
    to_be 2 (from_be (bslice 8 2 h) :: u16) @ [h ! 10] = h"
proof -
  have "length (bslice 0 4 h) = 4" "length (bslice 4 4 h) = 4" "length (bslice 8 2 h) = 2"
    using assms by (simp_all add: bslice_def)
  then have "to_be 4 (from_be (bslice 0 4 h) :: u32) = bslice 0 4 h" "to_be 4 (from_be (bslice 4 4 h) :: u32) = bslice 4 4 h"
    "to_be 2 (from_be (bslice 8 2 h) :: u16) = bslice 8 2 h"
    using to_be_from_be [of "bslice 0 4 h", where 'a = 32] to_be_from_be [of "bslice 4 4 h", where 'a = 32]
      to_be_from_be [of "bslice 8 2 h", where 'a = 16] by simp_all
  with assms show ?thesis
    by (auto simp: bslice_def numeral_eq_Suc length_Suc_conv)
qed

lemma frame_bytes_unique:
  assumes "frame_bytes f @ xs = frame_bytes g @ ys" "fits_frame f" "fits_frame g"
  shows "f = g \<and> xs = ys"
proof -
  have head: "header_of (frame_len f) f = header_of (frame_len g) g"
    and tail: "f_payload f @ xs = f_payload g @ ys"
    using assms(1) by (auto simp: frame_bytes_def header_of_def append_eq_append_conv)
  have inj: "v = w" if "to_be n v = to_be n w" "LENGTH('a) \<le> 8 * n" for n and v w :: "'a::len word"
    using that from_be_to_be by metis
  have "frame_len f = frame_len g" "f_id f = f_id g" "f_kind f = f_kind g" "f_flags f = f_flags g"
    using head by (auto simp: header_of_def append_eq_append_conv dest: inj)
  with tail frame_len_fits [OF assms(2)] frame_len_fits [OF assms(3)] show ?thesis
    by (auto simp: append_eq_append_conv intro: frame.equality)
qed

context stream_socket
begin

lemma write_all_keeps:
  "write_all k bs w = Some y \<Longrightarrow> inp (fst y) = inp w \<and>
     (\<exists>n \<le> length bs. out (fst y) = out w @ take n bs \<and> (snd y = Ok () \<longrightarrow> n = length bs))"
proof (induction k\<equiv>k bs w y rule: write_all.raw_induct [rotated, consumes 1])
  case (1 wr bs w y)
  show ?case
  proof (cases "bs = []")
    case True
    with 1(2) show ?thesis by auto
  next
    case False
    obtain w1 r where w1: "sk_write k bs w = (w1, r)" by fastforce
    show ?thesis
    proof (cases r)
      case (Inl e)
      with w1 write_err have "out w1 = out w" "inp w1 = inp w" by auto
      with 1(1) [of bs w1 y] 1(2) False w1 Inl show ?thesis by (auto split: if_splits)
    next
      case (Inr n)
      with w1 write_ok have n: "n \<le> length bs" "out w1 = out w @ take n bs" "inp w1 = inp w" by auto
      show ?thesis
      proof (cases "n = 0")
        case True
        with 1(2) False w1 Inr n show ?thesis by auto
      next
        case pos: False
        with 1(2) False w1 Inr have "wr k (drop n bs) w1 = Some y" by simp
        from 1(1) [OF this] n obtain m where "m \<le> length bs - n" "out (fst y) = out w @ take n bs @ take m (drop n bs)"
          "snd y = Ok () \<longrightarrow> m = length bs - n" "inp (fst y) = inp w" by auto
        with n show ?thesis by (intro conjI exI [of _ "n + m"]) (auto simp: take_add)
      qed
    qed
  qed
qed

lemma read_full_keeps:
  "read_full k n got w = Some y \<Longrightarrow> length got \<le> n \<Longrightarrow> out (fst y) = out w \<and>
     (\<exists>bs. inp w = bs @ inp (fst y) \<and> length got + length bs \<le> n \<and>
       (if isl (snd y) then length got + length bs < n else snd y = Inr (got @ bs) \<and> length got + length bs = n))"
proof (induction k\<equiv>k n got w y rule: read_full.raw_induct [rotated, consumes 1])
  case (1 rd n got w y)
  show ?case
  proof (cases "length got < n")
    case False
    with 1(2,3) show ?thesis by auto
  next
    case True
    obtain w1 r where w1: "sk_read k (n - length got) w = (w1, r)" by fastforce
    show ?thesis
    proof (cases r)
      case (Inl e)
      with w1 read_err have "out w1 = out w" "inp w1 = inp w" by auto
      with 1(1) [of n got w1 y] 1(2,3) True w1 Inl show ?thesis by (auto split: if_splits)
    next
      case (Inr bs)
      with w1 read_ok have bs: "length bs \<le> n - length got" "inp w = bs @ inp w1" "out w1 = out w" by auto
      show ?thesis
      proof (cases "bs = []")
        case True
        with 1(2) \<open>length got < n\<close> w1 Inr bs show ?thesis by auto
      next
        case some: False
        with 1(2) True w1 Inr have "rd k n (got @ bs) w1 = Some y" by simp
        have "length (got @ bs) \<le> n" using bs True by simp
        from 1(1) [OF \<open>rd k n (got @ bs) w1 = Some y\<close> this] obtain cs where
          "out (fst y) = out w1" "inp w1 = cs @ inp (fst y)" "length (got @ bs) + length cs \<le> n"
          "if isl (snd y) then length (got @ bs) + length cs < n
           else snd y = Inr ((got @ bs) @ cs) \<and> length (got @ bs) + length cs = n" by blast
        with bs show ?thesis by (intro conjI exI [of _ "bs @ cs"]) (auto split: if_splits)
      qed
    qed
  qed
qed

lemma write_to_puts:
  assumes "write_to k f w = Some (w', r)"
  shows "inp w' = inp w" "r = Ok () \<Longrightarrow> fits_frame f \<and> out w' = out w @ frame_bytes f"
    "\<not> fits_frame f \<Longrightarrow> w' = w \<and> r = Err (LcpOverfull (frame_len f))"
  using assms write_all_keeps [of "header_of (frame_len f) f" w] write_all_keeps [of "f_payload f"]
  by (fastforce simp: write_to_def frame_len_limit frame_bytes_def split: option.splits sum.splits if_splits)+

lemma read_from_frame:
  assumes "read_from k w = Some (w', r)"
  shows "out w' = out w" "r = Ok f \<Longrightarrow> fits_frame f \<and> inp w = frame_bytes f @ inp w'"
proof -
  obtain w1 r1 where h: "read_full k HEADER [] w = Some (w1, r1)"
    using assms by (auto simp: read_from_def split: option.splits)
  note h_post = read_full_keeps [OF h, simplified]
  show "out w' = out w"
    using assms h h_post read_full_keeps [of _ "[]" w1]
    by (fastforce simp: read_from_def Let_def split: option.splits sum.splits if_splits)
  assume r: "r = Ok f"
  then obtain hd' where hd': "r1 = Inr hd'" using assms h by (cases r1) (auto simp: read_from_def)
  with h_post have len: "length hd' = 11" and inw: "inp w = hd' @ inp w1" by (auto simp: HEADER_def)
  define n where "n = (from_be (bslice 0 4 hd') :: u32)"
  have n: "COUNTED \<le> n" "n \<le> LCP_MAX_FRAME"
    using assms h hd' r by (auto simp: read_from_def Let_def n_def split: if_splits)
  obtain p where p: "read_full k (unat (n - COUNTED)) [] w1 = Some (w', Inr p)"
    and f: "f = \<lparr>f_id = from_be (bslice 4 4 hd'), f_kind = from_be (bslice 8 2 hd'), f_flags = hd' ! 10, f_payload = p\<rparr>"
    using assms h hd' r n by (auto simp: read_from_def Let_def n_def split: option.splits sum.splits if_splits)
  from read_full_keeps [OF p] have inw1: "inp w1 = p @ inp w'" and plen: "length p = unat (n - COUNTED)" by auto
  have "unat n = length p + 7" using n plen by (simp add: COUNTED_def unat_sub_if' word_le_nat_alt)
  moreover have "unat n \<le> 65536" using n(2) by (simp add: LCP_MAX_FRAME_def word_le_nat_alt)
  ultimately have fits: "fits_frame f" and "frame_len f = n"
    using frame_len_fits [of f] f by (auto simp: fits_frame_def intro: word_unat_eq_iff [THEN iffD2])
  moreover have "header_of n f = hd'"
    using header_split [OF len] f by (simp add: header_of_def n_def)
  ultimately show "fits_frame f \<and> inp w = frame_bytes f @ inp w'"
    using f inw inw1 by (simp add: frame_bytes_def)
qed

end

text \<open>A socket which accepts something of every write, and returns something of every read
  while bytes are still to arrive.\<close>

locale steady_socket = stream_socket +
  assumes write_more: "bs \<noteq> [] \<Longrightarrow> \<exists>w' n. sk_write k bs w = (w', Inr (Suc n))"
    and read_more: "inp w \<noteq> [] \<Longrightarrow> 0 < n \<Longrightarrow> \<exists>w' bs. sk_read k n w = (w', Inr bs) \<and> bs \<noteq> []"
begin

lemma write_all_writes: "\<exists>w'. write_all k bs w = Some (w', Ok ())"
proof (induction "length bs" arbitrary: bs w rule: less_induct)
  case less
  show ?case
  proof (cases "bs = []")
    case True
    then show ?thesis by (subst write_all.simps) simp
  next
    case False
    with write_more obtain w1 n where "sk_write k bs w = (w1, Inr (Suc n))" by blast
    moreover have "\<exists>w'. write_all k (drop (Suc n) bs) w1 = Some (w', Ok ())" using False by (intro less) simp
    ultimately show ?thesis using False by (subst write_all.simps) simp
  qed
qed

lemma read_full_reads:
  "length got \<le> n \<Longrightarrow> n - length got \<le> length (inp w) \<Longrightarrow> \<exists>w' x. read_full k n got w = Some (w', Ok x)"
proof (induction "n - length got" arbitrary: got w rule: less_induct)
  case less
  show ?case
  proof (cases "length got < n")
    case False
    then show ?thesis by (subst read_full.simps) simp
  next
    case True
    with less(3) read_more [of w "n - length got"] obtain w1 bs where
      r: "sk_read k (n - length got) w = (w1, Inr bs)" "bs \<noteq> []" by fastforce
    with read_ok [OF r(1)] True less(3) have "\<exists>w' x. read_full k n (got @ bs) w1 = Some (w', Ok x)"
      by (intro less(1)) (auto simp: Suc_le_eq intro: diff_less_mono2)
    with r True show ?thesis by (subst read_full.simps) simp
  qed
qed

lemma write_to_writes: "fits_frame f \<Longrightarrow> \<exists>w'. write_to k f w = Some (w', Ok ())"
  using write_all_writes [of "header_of (frame_len f) f" w] write_all_writes [of "f_payload f"]
  by (fastforce simp: write_to_def frame_len_limit)

lemma read_header:
  assumes "length h = HEADER" "inp w = h @ rest"
  shows "\<exists>w1. read_full k HEADER [] w = Some (w1, Ok h) \<and> inp w1 = rest"
proof -
  obtain w1 x where x: "read_full k HEADER [] w = Some (w1, Ok x)"
    using read_full_reads [of "[]" HEADER w] assms by auto
  from read_full_keeps [OF this] assms show ?thesis using x by (auto simp: append_eq_append_conv)
qed

lemma read_from_reads:
  assumes "inp w = frame_bytes f @ rest" "fits_frame f"
  shows "\<exists>w'. read_from k w = Some (w', Ok f) \<and> inp w' = rest"
proof -
  let ?h = "header_of (frame_len f) f"
  obtain w1 where h: "read_full k HEADER [] w = Some (w1, Ok ?h)" "inp w1 = f_payload f @ rest"
    using read_header [of ?h w "f_payload f @ rest"] assms(1) by (auto simp: frame_bytes_def header_of_def HEADER_def)
  have n: "from_be (bslice 0 4 ?h) = frame_len f"
    by (simp add: header_of_def bslice_def from_be_to_be)
  have len: "unat (frame_len f - COUNTED) = length (f_payload f)" "COUNTED \<le> frame_len f"
    using frame_len_fits [OF assms(2)] by (simp_all add: COUNTED_def word_le_nat_alt unat_sub_if')
  obtain w2 p where p: "read_full k (unat (frame_len f - COUNTED)) [] w1 = Some (w2, Ok p)"
    using read_full_reads [of "[]" "unat (frame_len f - COUNTED)" w1] h(2) len by auto
  have limit: "frame_len f \<le> LCP_MAX_FRAME" using frame_len_limit assms(2) by (simp add: not_less [symmetric])
  then have "\<exists>g w'. read_from k w = Some (w', Ok g)" using h(1) n p len(2) by (simp add: read_from_def Let_def)
  then obtain g w' where g: "read_from k w = Some (w', Ok g)" by blast
  from read_from_frame(2) [OF g refl] assms frame_bytes_unique [of f rest g "inp w'"] g show ?thesis by auto
qed

lemma read_from_refuses:
  assumes "inp w = h @ rest" "length h = HEADER"
    and "unat (from_be (take 4 h) :: u32) < 7 \<or> 65536 < unat (from_be (take 4 h) :: u32)"
  shows "\<exists>w'. read_from k w = Some (w', Err (LcpOverfull (from_be (take 4 h)))) \<and> inp w' = rest"
  using read_header [OF assms(2,1)] assms(3)
  by (auto simp: read_from_def Let_def bslice_def COUNTED_def LCP_MAX_FRAME_def word_le_nat_alt)

end

interpretation list_sock: steady_socket "list_sock chunk" fst snd for chunk
proof
  show "\<exists>w' n. sk_write (list_sock chunk) bs w = (w', Inr (Suc n))" if "bs \<noteq> []" for bs w
    using that by (cases bs) (auto simp: list_sock_def)
qed (auto simp: list_sock_def)

section \<open>Properties\<close>



text \<open>Property C20. A connection on which something else than a frame arrives: a length outside
  the seven counted bytes and the limit is refused with the length attached, and not a byte
  behind the header is read.  A connection whose bytes end inside a frame gives no frame.\<close>

theorem lcp_refuses_bad_frames:
  assumes "steady_socket k out inp"
  shows "(inp w = h @ rest \<longrightarrow> length h = HEADER \<longrightarrow>
      unat (from_be (take 4 h) :: u32) < 7 \<or> 65536 < unat (from_be (take 4 h) :: u32) \<longrightarrow>
      (\<exists>w'. read_from k w = Some (w', Err (LcpOverfull (from_be (take 4 h)))) \<and> inp w' = rest)) \<and>
    (fits_frame f \<longrightarrow> m < length (frame_bytes f) \<longrightarrow> inp w = take m (frame_bytes f) \<longrightarrow>
      read_from k w \<noteq> Some (w', Ok g))"
proof (intro conjI impI)
  show "\<exists>w'. read_from k w = Some (w', Err (LcpOverfull (from_be (take 4 h)))) \<and> inp w' = rest"
    if "inp w = h @ rest" "length h = HEADER" "unat (from_be (take 4 h) :: u32) < 7 \<or> 65536 < unat (from_be (take 4 h) :: u32)"
    using steady_socket.read_from_refuses [OF assms that] .
  assume "fits_frame f" "m < length (frame_bytes f)" "inp w = take m (frame_bytes f)"
  moreover from this have "inp w @ drop m (frame_bytes f) = frame_bytes f" "\<not> length (frame_bytes f) \<le> length (inp w)"
    by simp_all
  ultimately show "read_from k w \<noteq> Some (w', Ok g)"
    using stream_socket.read_from_frame(2) [OF steady_socket.axioms(1) [OF assms], of w w' "Ok g" g]
      frame_bytes_unique [of g "inp w' @ drop m (frame_bytes f)" f "[]"]
    by (metis append.assoc append.right_neutral append_self_conv append_is_Nil_conv le_add1 length_append)
qed

theorem lcp_refuses_bad_frames_witness:
  "\<exists>w'. read_from (list_sock 4) ([], [0, 1, 0, 1, 0, 0, 0, 1, 0, 4, 0, 77]) = Some (w', Err (LcpOverfull 65537)) \<and> snd w' = [77]"
  using lcp_refuses_bad_frames [OF list_sock.steady_socket_axioms,
      of "([], [0, 1, 0, 1, 0, 0, 0, 1, 0, 4, 0, 77])" "[0, 1, 0, 1, 0, 0, 0, 1, 0, 4, 0]" "[77]" 4 "frame_new 0 0 []" 0]
  by (simp add: HEADER_def from_be_def from_le_def)

end
