(* ===== verification/Demux.thy ===== *)
theory Demux
  imports Lcp Rust_Text
begin

text \<open>
  The control connection of a sandbox, \<^verbatim>\<open>src/lingcage/src/sandbox/demux.rs\<close>.

  The state \<open>demux\<close> is what the mutexes of \<^verbatim>\<open>Demux\<close> protect.  An \<^verbatim>\<open>mpsc\<close> channel is a number,
  its queued frames are \<open>answers\<close> and the channels whose receiver was dropped are \<open>gone\<close>; a
  channel is closed once its only sender is out of \<open>pending\<close>.  Streams are numbers, and
  \<open>socks s\<close> is the socket of stream \<open>s\<close> in a shared state \<open>'w\<close>.  Join handles are left out:
  what other threads do while a call waits is an argument of the operation.

  The relation \<open>demux_step\<close> interleaves the callers, the reader threads and the accept loop; one
  step is one critical section, except that \<^verbatim>\<open>request\<close> and \<^verbatim>\<open>tell\<close> are one step each, since they
  hold the lock of the connection from beginning to end.  The lemmas show that an answer only
  reaches the request it was read for, on the connection the request was made on, and which
  requests a replaced or ended connection closes.
\<close>

section \<open>State\<close>

definition FIRST_ID :: u32 where "FIRST_ID = 1"
definition RECONNECT_WITHIN :: nat where "RECONNECT_WITHIN = 5000000000"

record link =
  l_stream :: nat
  l_generation :: u64

record identity =
  cid :: u64
  id_hostname :: string
  id_machine_id :: string

record demux =
  d_pending :: "u32 \<Rightarrow> (u64 \<times> nat) option"
  next_id :: u32
  d_link :: "link option"
  d_identity :: identity
  d_stop :: bool
  answers :: "nat \<Rightarrow> frame list"
  gone :: "nat set"
  next_channel :: nat

definition demux_new :: "identity \<Rightarrow> demux" where
  "demux_new who = \<lparr>d_pending = (\<lambda>_. None), next_id = FIRST_ID, d_link = None, d_identity = who, d_stop = False,
     answers = (\<lambda>_. []), gone = {}, next_channel = 0\<rparr>"

section \<open>Requests\<close>

definition demux_next :: "demux \<Rightarrow> demux \<times> u32" where
  "demux_next d = (d\<lparr>next_id := next_id d + 2\<rparr>, next_id d)"

definition generation :: "demux \<Rightarrow> u64" where
  "generation d = (case d_link d of None \<Rightarrow> 1 | Some l \<Rightarrow> l_generation l + 1)"

definition complete :: "u32 \<Rightarrow> demux \<Rightarrow> demux" where
  "complete i d = d\<lparr>d_pending := (d_pending d)(i := None)\<rparr>"

definition not_connected :: "'l lc_error" where
  "not_connected = ErrProtocol Truncated"

definition request ::
  "(nat \<Rightarrow> 'w sock) \<Rightarrow> frame \<Rightarrow> demux \<Rightarrow> 'w \<Rightarrow> (demux \<times> 'w \<times> (u32 \<times> nat, 'l lc_error) result) option" where
  "request socks f d w =
     (case d_link d of
        None \<Rightarrow> Some (d, w, Err not_connected)
      | Some l \<Rightarrow>
          (let (d1, i) = demux_next d; rx = next_channel d1;
               d2 = d1\<lparr>next_channel := Suc rx, d_pending := (d_pending d1)(i := Some (l_generation l, rx))\<rparr> in
           case write_to (socks (l_stream l)) (f\<lparr>f_id := i\<rparr>) w of
             None \<Rightarrow> None
           | Some (w', Inl e) \<Rightarrow> Some (complete i d2, w', Err (ErrProtocol e))
           | Some (w', Inr _) \<Rightarrow> Some (d2, w', Ok (i, rx))))"

text \<open>Taking from a channel: the front of the queue, else whether a sender is left.\<close>

datatype recv_error = RecvTimeout | Disconnected

definition has_sender :: "nat \<Rightarrow> demux \<Rightarrow> bool" where
  "has_sender rx d \<longleftrightarrow> (\<exists>i g. d_pending d i = Some (g, rx))"

definition recv :: "nat \<Rightarrow> demux \<Rightarrow> demux \<times> (frame, recv_error) result" where
  "recv rx d =
     (case answers d rx of
        f # fs \<Rightarrow> (d\<lparr>answers := (answers d)(rx := fs)\<rparr>, Ok f)
      | [] \<Rightarrow> (d, Err (if has_sender rx d then RecvTimeout else Disconnected)))"

text \<open>While the caller waits for its answer other threads take the state on.\<close>

definition ask ::
  "(nat \<Rightarrow> 'w sock) \<Rightarrow> (demux \<times> 'w \<Rightarrow> demux \<times> 'w) \<Rightarrow> frame \<Rightarrow> demux \<Rightarrow> 'w \<Rightarrow>
   (demux \<times> 'w \<times> (frame, 'l lc_error) result) option" where
  "ask socks others f d w =
     (case request socks f d w of
        None \<Rightarrow> None
      | Some (d1, w1, Inl e) \<Rightarrow> Some (d1, w1, Err e)
      | Some (d1, w1, Inr (i, rx)) \<Rightarrow>
          (let (d2, w2) = others (d1, w1); (d3, r) = recv rx d2 in
           Some ((complete i d3)\<lparr>gone := insert rx (gone d3)\<rparr>, w2,
             map_err (\<lambda>e. case e of RecvTimeout \<Rightarrow> ErrTimeout ''answer from agent'' | Disconnected \<Rightarrow> not_connected) r)))"

definition tell :: "(nat \<Rightarrow> 'w sock) \<Rightarrow> frame \<Rightarrow> demux \<Rightarrow> 'w \<Rightarrow> ('w \<times> (unit, 'l lc_error) result) option" where
  "tell socks f d w =
     (case d_link d of
        None \<Rightarrow> Some (w, Err not_connected)
      | Some l \<Rightarrow> map_option (\<lambda>(w', r). (w', map_err ErrProtocol r)) (write_to (socks (l_stream l)) f w))"

definition tell_with_new_id ::
  "(nat \<Rightarrow> 'w sock) \<Rightarrow> u16 \<Rightarrow> u8 \<Rightarrow> demux \<Rightarrow> 'w \<Rightarrow> (demux \<times> 'w \<times> (unit, 'l lc_error) result) option" where
  "tell_with_new_id socks k fl d w =
     (let (d1, i) = demux_next d in
      map_option (\<lambda>(w', r). (d1, w', r)) (tell socks \<lparr>f_id = i, f_kind = k, f_flags = fl, f_payload = []\<rparr> d1 w))"

section \<open>Connections\<close>

text \<open>\<^verbatim>\<open>fail\<close> locks the requests first, and the connection after it has released them.\<close>

definition fail_pending :: "u64 \<Rightarrow> demux \<Rightarrow> demux" where
  "fail_pending g d =
     d\<lparr>d_pending := (\<lambda>i. case d_pending d i of None \<Rightarrow> None | Some (made, rx) \<Rightarrow> if made \<noteq> g then Some (made, rx) else None)\<rparr>"

definition fail_link :: "u64 \<Rightarrow> demux \<Rightarrow> demux" where
  "fail_link g d = (case d_link d of Some l \<Rightarrow> if l_generation l = g then d\<lparr>d_link := None\<rparr> else d | None \<Rightarrow> d)"

definition fail :: "u64 \<Rightarrow> demux \<Rightarrow> demux" where
  "fail g d = fail_link g (fail_pending g d)"

definition route :: "frame \<Rightarrow> u64 \<Rightarrow> demux \<Rightarrow> demux" where
  "route f g d =
     (case d_pending d (f_id f) of
        Some (made, rx) \<Rightarrow>
          if made = g \<and> rx \<notin> gone d then d\<lparr>answers := (answers d)(rx := answers d rx @ [f])\<rparr> else d
      | None \<Rightarrow> d)"

text \<open>One round of \<^verbatim>\<open>read_loop\<close>; \<open>True\<close> once the loop has ended.\<close>

definition read_round :: "(nat \<Rightarrow> 'w sock) \<Rightarrow> nat \<Rightarrow> u64 \<Rightarrow> demux \<Rightarrow> 'w \<Rightarrow> (demux \<times> 'w \<times> bool) option" where
  "read_round socks s g d w =
     (case read_from (socks s) w of
        None \<Rightarrow> None
      | Some (w', Inr f) \<Rightarrow> Some (route f g d, w', False)
      | Some (w', Inl _) \<Rightarrow> Some (fail g d, w', True))"

partial_function (option) read_loop :: "(nat \<Rightarrow> 'w sock) \<Rightarrow> nat \<Rightarrow> u64 \<Rightarrow> demux \<Rightarrow> 'w \<Rightarrow> (demux \<times> 'w) option" where
  "read_loop socks s g d w =
     (case read_round socks s g d w of
        None \<Rightarrow> None
      | Some (d', w', ended) \<Rightarrow> (if ended then Some (d', w') else read_loop socks s g d' w'))"

text \<open>The calls on a stream besides reading and writing: arming its timeouts, duplicating it and
  spawning its reader (\<open>prepare\<close>), and shutting it down, whose failure is only logged.\<close>

record 'w link_io =
  prepare :: "nat \<Rightarrow> 'w \<Rightarrow> 'w \<times> (unit, sock_error) result"
  shut :: "nat \<Rightarrow> 'w \<Rightarrow> 'w"

definition swap_link :: "nat \<Rightarrow> u64 \<Rightarrow> demux \<Rightarrow> demux \<times> link option" where
  "swap_link s g d = (d\<lparr>d_link := Some \<lparr>l_stream = s, l_generation = g\<rparr>\<rparr>, d_link d)"

definition install :: "'w link_io \<Rightarrow> nat \<Rightarrow> u64 \<Rightarrow> demux \<Rightarrow> 'w \<Rightarrow> demux \<times> 'w \<times> (unit, 'l lc_error) result" where
  "install io s g d w =
     (case prepare io s w of
        (w1, Inl e) \<Rightarrow> (d, w1, Err (ErrIo e))
      | (w1, Inr _) \<Rightarrow>
          (case swap_link s g d of
             (d1, None) \<Rightarrow> (d1, w1, Ok ())
           | (d1, Some old) \<Rightarrow> (fail (l_generation old) d1, shut io (l_stream old) w1, Ok ())))"

definition stop :: "'w link_io \<Rightarrow> (demux \<times> 'w \<Rightarrow> demux \<times> 'w) \<Rightarrow> (demux \<times> 'w \<Rightarrow> demux \<times> 'w) \<Rightarrow> demux \<Rightarrow> 'w \<Rightarrow> demux \<times> 'w" where
  "stop io accepting reading d w =
     (let (d1, w1) = accepting (d\<lparr>d_stop := True\<rparr>, w);
          w2 = (case d_link d1 of None \<Rightarrow> w1 | Some l \<Rightarrow> shut io (l_stream l) w1);
          (d3, w3) = reading (d1\<lparr>d_link := None\<rparr>, w2) in
      (d3\<lparr>d_pending := (\<lambda>_. None)\<rparr>, w3))"

section \<open>Handshake\<close>

text \<open>Filling a buffer with random bytes; \<^verbatim>\<open>getrandom\<close> is a parameter.\<close>

partial_function (option) draw ::
  "(nat \<Rightarrow> 'w \<Rightarrow> 'w \<times> (bytes, sock_error) result) \<Rightarrow> nat \<Rightarrow> bytes \<Rightarrow> 'w \<Rightarrow> ('w \<times> (bytes, 'l lc_error) result) option" where
  "draw get n got w =
     (if length got < n
      then (case get (n - length got) w of
              (w', Inr bs) \<Rightarrow> draw get n (got @ bs) w'
            | (w', Inl e) \<Rightarrow> (if e = SockInterrupted then draw get n got w' else Some (w', Err (ErrIo e))))
      else Some (w, Ok got))"

text \<open>The clock in nanoseconds since the epoch, random bytes, and JSON of the messages.\<close>

record ('w, 'f) handshake =
  h_timed :: "'w timed"
  getrandom :: "nat \<Rightarrow> 'w \<Rightarrow> 'w \<times> (bytes, sock_error) result"
  unix_time :: "'w \<Rightarrow> 'w \<times> nat option"
  json_ready :: "'f ready json"
  json_identify :: "identify json"
  json_identified :: "identified json"

definition nanos_now :: "('w, 'f) handshake \<Rightarrow> 'w \<Rightarrow> 'w \<times> u64" where
  "nanos_now h w =
     (case unix_time h w of
        (w', t) \<Rightarrow> (let n = (case t of None \<Rightarrow> 0 | Some n \<Rightarrow> n) in (w', if n < 2 ^ 64 then of_nat n else - 1)))"

definition text_of :: "bytes \<Rightarrow> string" where
  "text_of bs = map (\<lambda>b. char_of (unat b)) bs"

definition shown :: "nat \<Rightarrow> string" where
  "shown k = text_of (digits 20 k)"

definition nibble :: "nat \<Rightarrow> char" where
  "nibble k = ''0123456789abcdef'' ! k"

text \<open>\<^verbatim>\<open>{:#04x}\<close> of a byte.\<close>

definition hex_byte :: "u8 \<Rightarrow> string" where
  "hex_byte b = ''0x'' @ [nibble (unat b div 16), nibble (unat b mod 16)]"

definition first_error :: "frame \<Rightarrow> 'l lc_error" where
  "first_error f = ErrAgent (''first frame is of kind '' @ shown (unat (f_kind f)) @ '' with flags '' @ hex_byte (f_flags f))"

definition check_ready :: "'f ready json \<Rightarrow> frame \<Rightarrow> ('f ready, 'l lc_error) result" where
  "check_ready j f =
     (if f_kind f \<noteq> READY \<or> f_flags f AND SESSION_START = 0 then Err (first_error f)
      else and_then (map_err ErrProtocol (frame_payload j f))
        (\<lambda>r. if PROTOCOL < r_protocol r
             then Err (ErrAgent (''agent protocol is '' @ shown (unat (r_protocol r)) @ '' but this build is '' @ shown (unat PROTOCOL)))
             else Ok r))"

definition check_identified :: "identified json \<Rightarrow> frame \<Rightarrow> (identified, 'l lc_error) result" where
  "check_identified j f =
     (if f_kind f \<noteq> IDENTIFIED
      then Err (ErrAgent (''handshake got kind '' @ shown (unat (f_kind f)) @ '' instead of IDENTIFIED''))
      else map_err ErrProtocol (frame_payload j f))"

definition send_identify ::
  "('w, 'f) handshake \<Rightarrow> 'w sock \<Rightarrow> identity \<Rightarrow> u64 \<Rightarrow> u32 \<Rightarrow> 'w \<Rightarrow> ('w \<times> (unit, 'l lc_error) result) option" where
  "send_identify h k who g i w =
     (case draw (getrandom h) 32 [] w of
        None \<Rightarrow> None
      | Some (w1, Inl e) \<Rightarrow> Some (w1, Err e)
      | Some (w1, Inr entropy) \<Rightarrow>
          (case nanos_now h w1 of
             (w2, now) \<Rightarrow>
               (case with_payload (json_identify h) i IDENTIFY 0 \<lparr>i_hostname = id_hostname who, i_machine_id = id_machine_id who,
                       i_generation = g, i_entropy = entropy, i_unix_nanos = now\<rparr> of
                  Inl e \<Rightarrow> Some (w2, Err (ErrProtocol e))
                | Inr f \<Rightarrow> map_option (\<lambda>(w3, r). (w3, map_err ErrProtocol r)) (write_to k f w2))))"

definition identify_peer ::
  "('w, 'f) handshake \<Rightarrow> 'w sock \<Rightarrow> identity \<Rightarrow> u64 \<Rightarrow> nat \<Rightarrow> 'w \<Rightarrow> ('w \<times> (string \<times> 'f ready, 'l lc_error) result) option" where
  "identify_peer h k who g deadline w =
     (case deadline_frame (h_timed h) k deadline ''ready frame'' w of
        None \<Rightarrow> None
      | Some (w1, Inl e) \<Rightarrow> Some (w1, Err e)
      | Some (w1, Inr first) \<Rightarrow>
          (case check_ready (json_ready h) first of
             Inl e \<Rightarrow> Some (w1, Err e)
           | Inr ready \<Rightarrow>
               (case send_identify h k who g (f_id first) w1 of
                  None \<Rightarrow> None
                | Some (w2, Inl e) \<Rightarrow> Some (w2, Err e)
                | Some (w2, Inr _) \<Rightarrow>
                    (case deadline_frame (h_timed h) k deadline ''identified frame'' w2 of
                       None \<Rightarrow> None
                     | Some (w3, Inl e) \<Rightarrow> Some (w3, Err e)
                     | Some (w3, Inr answer) \<Rightarrow>
                         Some (w3, and_then (check_identified (json_identified h) answer) (\<lambda>x. Ok (hostname_now x, ready)))))))"

definition adopt ::
  "('w, 'f) handshake \<Rightarrow> 'w link_io \<Rightarrow> (nat \<Rightarrow> 'w sock) \<Rightarrow> nat \<Rightarrow> demux \<Rightarrow> 'w \<Rightarrow>
   (demux \<times> 'w \<times> (unit, 'l lc_error) result) option" where
  "adopt h io socks s d w =
     (let g = generation d; (w1, now) = clock (h_timed h) w in
      case identify_peer h (socks s) (d_identity d) g (now + RECONNECT_WITHIN) w1 of
        None \<Rightarrow> None
      | Some (w2, Inl e) \<Rightarrow> Some (d, w2, Err e)
      | Some (w2, Inr _) \<Rightarrow> Some (install io s g d w2))"

text \<open>Polling a listener until it has a connection or the deadline passes; a poll answers
  whether the listener is readable.\<close>

record 'w listening =
  l_poll :: "nat \<Rightarrow> 'w \<Rightarrow> 'w \<times> (bool, sock_error) result"
  l_accept :: "'w \<Rightarrow> 'w \<times> (nat, sock_error) result"

partial_function (option) accept_within ::
  "'w timed \<Rightarrow> 'w listening \<Rightarrow> nat \<Rightarrow> string \<Rightarrow> 'w \<Rightarrow> ('w \<times> (nat, 'l lc_error) result) option" where
  "accept_within t l deadline what w =
     (let (w1, now) = clock t w in
      if deadline \<le> now then Some (w1, Err (ErrTimeout what))
      else case l_poll l (min ((deadline - now) div 1000000) (2 ^ 31 - 1)) w1 of
             (w2, Inr ready) \<Rightarrow>
               (if ready then (let (w3, r) = l_accept l w2 in Some (w3, map_err ErrIo r))
                else Some (w2, Err (ErrTimeout what)))
           | (w2, Inl e) \<Rightarrow> (if e = SockInterrupted then accept_within t l deadline what w2 else Some (w2, Err (ErrIo e))))"

definition identify_first ::
  "('w, 'f) handshake \<Rightarrow> 'w link_io \<Rightarrow> 'w listening \<Rightarrow> (nat \<Rightarrow> 'w sock) \<Rightarrow> nat \<Rightarrow> demux \<Rightarrow> 'w \<Rightarrow>
   (demux \<times> 'w \<times> (string \<times> 'f ready, 'l lc_error) result) option" where
  "identify_first h io l socks deadline d w =
     (case accept_within (h_timed h) l deadline ''incoming connection from agent'' w of
        None \<Rightarrow> None
      | Some (w1, Inl e) \<Rightarrow> Some (d, w1, Err e)
      | Some (w1, Inr s) \<Rightarrow>
          (case identify_peer h (socks s) (d_identity d) 1 deadline w1 of
             None \<Rightarrow> None
           | Some (w2, Inl e) \<Rightarrow> Some (d, w2, Err e)
           | Some (w2, Inr who) \<Rightarrow>
               (case install io s 1 d w2 of
                  (d', w3, Inl e) \<Rightarrow> Some (d', w3, Err e)
                | (d', w3, Inr _) \<Rightarrow> Some (d', w3, Ok who))))"

section \<open>Threads\<close>

text \<open>Where the accept loop stands: waiting, in a handshake under a generation, with the reader
  spawned but the connection not yet live, and in the two halves of failing the replaced one.\<close>

datatype acceptor = Idle | Adopting nat u64 | Installing nat u64 | Replacing u64 | Dropping u64

text \<open>A reader thread is its stream, its generation, and whether it has failed its requests and
  only the connection is left to drop.\<close>

record 'w dnet =
  dx :: demux
  world :: 'w
  readers :: "(nat \<times> u64 \<times> bool) set"
  acceptor :: acceptor

datatype demux_event = Requested u32 u64 nat | Routed frame u64 | Received nat frame | Quiet

definition dnet_new :: "identity \<Rightarrow> 'w \<Rightarrow> 'w dnet" where
  "dnet_new who w = \<lparr>dx = demux_new who, world = w, readers = {}, acceptor = Idle\<rparr>"

inductive demux_step :: "(nat \<Rightarrow> 'w sock) \<Rightarrow> 'w dnet \<Rightarrow> demux_event \<Rightarrow> 'w dnet \<Rightarrow> bool" for socks where
  st_request: "request socks f (dx n) (world n) = Some (d, w, Inr (i, rx) :: (u32 \<times> nat, unit lc_error) result) \<Longrightarrow>
    d_link (dx n) = Some l \<Longrightarrow> demux_step socks n (Requested i (l_generation l) rx) (n\<lparr>dx := d, world := w\<rparr>)"
| st_refused: "request socks f (dx n) (world n) = Some (d, w, Inl (e :: unit lc_error)) \<Longrightarrow>
    demux_step socks n Quiet (n\<lparr>dx := d, world := w\<rparr>)"
| st_tell: "tell_with_new_id socks k fl (dx n) (world n) = Some (d, w, (r :: (unit, unit lc_error) result)) \<Longrightarrow>
    demux_step socks n Quiet (n\<lparr>dx := d, world := w\<rparr>)"
| st_complete: "demux_step socks n Quiet (n\<lparr>dx := complete i (dx n)\<rparr>)"
| st_recv: "recv rx (dx n) = (d, Ok f) \<Longrightarrow> demux_step socks n (Received rx f) (n\<lparr>dx := d\<rparr>)"
| st_drop_receiver: "demux_step socks n Quiet (n\<lparr>dx := (dx n)\<lparr>gone := insert rx (gone (dx n))\<rparr>\<rparr>)"
| st_route: "(s, g, False) \<in> readers n \<Longrightarrow> read_from (socks s) (world n) = Some (w, Ok f) \<Longrightarrow>
    demux_step socks n (Routed f g) (n\<lparr>dx := route f g (dx n), world := w\<rparr>)"
| st_ended: "(s, g, False) \<in> readers n \<Longrightarrow> read_from (socks s) (world n) = Some (w, Err e) \<Longrightarrow>
    demux_step socks n Quiet (n\<lparr>dx := fail_pending g (dx n), world := w, readers := insert (s, g, True) (readers n - {(s, g, False)})\<rparr>)"
| st_left: "(s, g, True) \<in> readers n \<Longrightarrow>
    demux_step socks n Quiet (n\<lparr>dx := fail_link g (dx n), readers := readers n - {(s, g, True)}\<rparr>)"
| st_adopt: "acceptor n = Idle \<Longrightarrow> demux_step socks n Quiet (n\<lparr>acceptor := Adopting s (generation (dx n))\<rparr>)"
| st_rejected: "acceptor n = Adopting s g \<Longrightarrow> demux_step socks n Quiet (n\<lparr>acceptor := Idle\<rparr>)"
| st_spawn: "acceptor n = Adopting s g \<Longrightarrow>
    demux_step socks n Quiet (n\<lparr>acceptor := Installing s g, readers := insert (s, g, False) (readers n)\<rparr>)"
| st_swap: "acceptor n = Installing s g \<Longrightarrow> swap_link s g (dx n) = (d, old) \<Longrightarrow>
    demux_step socks n Quiet (n\<lparr>dx := d, acceptor := (case old of None \<Rightarrow> Idle | Some l \<Rightarrow> Replacing (l_generation l))\<rparr>)"
| st_replacing: "acceptor n = Replacing g \<Longrightarrow>
    demux_step socks n Quiet (n\<lparr>dx := fail_pending g (dx n), acceptor := Dropping g\<rparr>)"
| st_dropping: "acceptor n = Dropping g \<Longrightarrow>
    demux_step socks n Quiet (n\<lparr>dx := fail_link g (dx n), acceptor := Idle\<rparr>)"
| st_world: "demux_step socks n Quiet (n\<lparr>world := w\<rparr>)"

text \<open>What has happened, oldest first.\<close>

inductive demux_run :: "(nat \<Rightarrow> 'w sock) \<Rightarrow> demux_event list \<Rightarrow> 'w dnet \<Rightarrow> bool" for socks where
  run_start: "demux_run socks [] (dnet_new who w)"
| run_step: "demux_run socks es n \<Longrightarrow> demux_step socks n e n' \<Longrightarrow> demux_run socks (es @ [e]) n'"

section \<open>Lemmas\<close>

text \<open>The table after a request was registered on \<open>l\<close>.\<close>

definition registered :: "link \<Rightarrow> demux \<Rightarrow> demux" where
  "registered l d = d\<lparr>next_id := next_id d + 2, next_channel := Suc (next_channel d),
     d_pending := (d_pending d)(next_id d := Some (l_generation l, next_channel d))\<rparr>"

lemma request_cases:
  assumes "request socks f d w = Some (d', w', r)"
  obtains (closed) "d_link d = None" "d' = d" "w' = w" "r = Err not_connected"
  | (failed) l e where "d_link d = Some l" "write_to (socks (l_stream l)) (f\<lparr>f_id := next_id d\<rparr>) w = Some (w', Inl e)"
      "r = Err (ErrProtocol e)" "d' = d\<lparr>next_id := next_id d + 2, next_channel := Suc (next_channel d), d_pending := (d_pending d)(next_id d := None)\<rparr>"
  | (sent) l where "d_link d = Some l" "write_to (socks (l_stream l)) (f\<lparr>f_id := next_id d\<rparr>) w = Some (w', Inr ())"
      "r = Ok (next_id d, next_channel d)"
      "d' = registered l d"
  using assms
  by (auto simp: request_def registered_def demux_next_def complete_def Let_def split: option.splits sum.splits prod.splits intro: that)

text \<open>The request a channel belongs to is known from the trace, and a frame waiting in it or
  taken from it carries the id of that request and was read on its connection.\<close>

definition is_answer :: "demux_event list \<Rightarrow> nat \<Rightarrow> frame \<Rightarrow> bool" where
  "is_answer es rx f \<longleftrightarrow> (\<exists>g. Requested (f_id f) g rx \<in> set es \<and> Routed f g \<in> set es)"

lemma is_answer_append: "is_answer es rx f \<Longrightarrow> is_answer (es @ es') rx f"
  by (auto simp: is_answer_def)

definition pending_ok :: "demux_event list \<Rightarrow> demux \<Rightarrow> bool" where
  "pending_ok es d \<longleftrightarrow> (\<forall>i g rx. d_pending d i = Some (g, rx) \<longrightarrow> Requested i g rx \<in> set es)"

definition answers_ok :: "demux_event list \<Rightarrow> demux \<Rightarrow> bool" where
  "answers_ok es d \<longleftrightarrow> (\<forall>rx f. f \<in> set (answers d rx) \<or> Received rx f \<in> set es \<longrightarrow> is_answer es rx f)"

definition channels_ok :: "demux_event list \<Rightarrow> demux \<Rightarrow> bool" where
  "channels_ok es d \<longleftrightarrow> odd (next_id d) \<and> (\<forall>i g rx. Requested i g rx \<in> set es \<longrightarrow> rx < next_channel d \<and> odd i) \<and>
     (\<forall>i g i' g' rx. Requested i g rx \<in> set es \<longrightarrow> Requested i' g' rx \<in> set es \<longrightarrow> i = i' \<and> g = g')"

definition demux_inv :: "demux_event list \<Rightarrow> demux \<Rightarrow> bool" where
  "demux_inv es d \<longleftrightarrow> pending_ok es d \<and> answers_ok es d \<and> channels_ok es d"

text \<open>Steps which only take requests away, or touch nothing the invariant speaks of.\<close>

lemma demux_inv_mono:
  assumes "demux_inv es d" "\<And>i. d_pending d' i = d_pending d i \<or> d_pending d' i = None"
    and "answers d' = answers d" "next_channel d \<le> next_channel d'" "next_id d' = next_id d \<or> next_id d' = next_id d + 2"
  shows "demux_inv (es @ [Quiet]) d'"
  unfolding demux_inv_def
proof (intro conjI)
  have "pending_ok es d" using assms(1) by (simp add: demux_inv_def)
  with assms(2) show "pending_ok (es @ [Quiet]) d'"
    unfolding pending_ok_def by (metis UnI1 option.distinct(1) set_append)
  show "answers_ok (es @ [Quiet]) d'"
    using assms(1,3) by (auto simp: demux_inv_def answers_ok_def intro: is_answer_append)
  show "channels_ok (es @ [Quiet]) d'"
    using assms(1,4,5) by (fastforce simp: demux_inv_def channels_ok_def)
qed

lemma demux_inv_request:
  assumes "demux_inv es d"
  shows "demux_inv (es @ [Requested (next_id d) (l_generation l) (next_channel d)]) (registered l d)"
  using assms by (fastforce simp: registered_def demux_inv_def pending_ok_def answers_ok_def channels_ok_def less_Suc_eq intro: is_answer_append)

lemma demux_inv_route:
  assumes "demux_inv es d"
  shows "demux_inv (es @ [Routed f g]) (route f g d)"
proof -
  have same: "demux_inv (es @ [Routed f g]) d"
    using assms by (auto simp: demux_inv_def pending_ok_def answers_ok_def channels_ok_def intro: is_answer_append)
  have "is_answer (es @ [Routed f g]) rx f" if "d_pending d (f_id f) = Some (g, rx)" for rx
    using assms that by (auto simp: demux_inv_def pending_ok_def is_answer_def)
  with same show ?thesis
    by (auto simp: route_def demux_inv_def pending_ok_def answers_ok_def channels_ok_def split: option.splits)
qed

lemma demux_inv_recv:
  assumes "demux_inv es d" "recv rx d = (d', Ok f)"
  shows "demux_inv (es @ [Received rx f]) d'"
proof -
  obtain fs where fs: "answers d rx = f # fs" "d' = d\<lparr>answers := (answers d)(rx := fs)\<rparr>"
    using assms(2) by (auto simp: recv_def split: list.splits)
  then have "is_answer es rx f" using assms(1) by (auto simp: demux_inv_def answers_ok_def)
  with fs assms(1) show ?thesis
    by (auto simp: demux_inv_def pending_ok_def answers_ok_def channels_ok_def intro!: is_answer_append)
qed

lemma fail_pending_simps [simp]:
  "answers (fail_pending g d) = answers d" "next_channel (fail_pending g d) = next_channel d"
  "next_id (fail_pending g d) = next_id d" "d_link (fail_pending g d) = d_link d"
  by (simp_all add: fail_pending_def)

lemma fail_link_simps [simp]:
  "answers (fail_link g d) = answers d" "next_channel (fail_link g d) = next_channel d"
  "next_id (fail_link g d) = next_id d" "d_pending (fail_link g d) = d_pending d"
  by (simp_all add: fail_link_def split: option.splits)

lemma fail_pending_entries:
  "d_pending (fail_pending g d) i = (case d_pending d i of Some (made, rx) \<Rightarrow> if made = g then None else Some (made, rx) | None \<Rightarrow> None)"
  by (simp add: fail_pending_def split: option.splits)

lemma demux_inv_less:
  assumes "demux_inv es d"
  shows "demux_inv (es @ [Quiet]) (complete i d)" "demux_inv (es @ [Quiet]) (fail_pending g d)"
  by (rule demux_inv_mono [OF assms]; simp add: complete_def fail_pending_entries split: option.splits prod.splits)+

lemma demux_step_inv: "demux_step socks n e n' \<Longrightarrow> demux_inv es (dx n) \<Longrightarrow> demux_inv (es @ [e]) (dx n')"
proof (induction rule: demux_step.induct)
  case (st_request f n d w i rx l)
  show ?case
    by (rule request_cases [OF st_request(1)]) (use st_request(2,3) in \<open>auto intro: demux_inv_request\<close>)
next
  case (st_refused f n d w e)
  show ?case
    by (rule request_cases [OF st_refused(1)]) (use st_refused(2) in \<open>auto intro!: demux_inv_mono [of es "dx n"] split: if_splits\<close>)
next
  case (st_tell k fl n d w r)
  then show ?case by (auto simp: tell_with_new_id_def demux_next_def intro!: demux_inv_mono)
qed (auto simp: swap_link_def intro: demux_inv_less demux_inv_mono demux_inv_recv demux_inv_route)

lemma demux_run_inv: "demux_run socks es n \<Longrightarrow> demux_inv es (dx n)"
proof (induction rule: demux_run.induct)
  case (run_start who w)
  show ?case
    by (simp add: dnet_new_def demux_new_def demux_inv_def pending_ok_def answers_ok_def channels_ok_def FIRST_ID_def)
next
  case (run_step es n e n')
  then show ?case by (simp add: demux_step_inv)
qed

lemma fail_entries: "d_pending (fail g d) = d_pending (fail_pending g d)"
  by (simp add: fail_def)

lemma install_replaces:
  assumes "prepare io s w = (w1, Ok ())" "d_link d = Some old" "l_generation old \<noteq> g"
  shows "install io s g d w = ((fail_pending (l_generation old) d)\<lparr>d_link := Some \<lparr>l_stream = s, l_generation = g\<rparr>\<rparr>,
    shut io (l_stream old) w1, Ok ())"
  using assms by (simp add: install_def swap_link_def fail_def fail_link_def fail_pending_def)

text \<open>The number of the next connection starts over once the live one has ended, so that the
  reader of an earlier connection which still has to fail its requests drops the new one.\<close>

lemma generation_starts_over: "d_link d = Some l \<Longrightarrow> generation (fail (l_generation l) d) = 1"
  by (simp add: generation_def fail_def fail_link_def)

theorem late_reader_drops_new_connection:
  "d_link d = None \<Longrightarrow> d_link (fail 1 (fst (swap_link s (generation d) d))) = None"
  by (simp add: generation_def swap_link_def fail_def fail_link_def)

section \<open>Two runs\<close>

text \<open>A first connection over sockets on lists, live and with its reader, and a request made on it.\<close>

abbreviation list_socks :: "nat \<Rightarrow> (bytes \<times> bytes) sock" where
  "list_socks \<equiv> \<lambda>s. list_sock 99"

abbreviation a_ping :: frame where
  "a_ping \<equiv> frame_new 1 PING []"

definition connected :: "(bytes \<times> bytes) dnet" where
  "connected = \<lparr>dx = (demux_new \<lparr>cid = 3, id_hostname = [], id_machine_id = []\<rparr>)\<lparr>d_link := Some \<lparr>l_stream = 0, l_generation = 1\<rparr>\<rparr>,
     world = ([], []), readers = {(0, 1, False)}, acceptor = Idle\<rparr>"

definition asked :: demux where
  "asked = (dx connected)\<lparr>next_id := 3, next_channel := 1, d_pending := (\<lambda>_. None)(1 := Some (1, 0))\<rparr>"

lemma connected_run: "demux_run list_socks [Quiet, Quiet, Quiet] connected"
proof -
  define n0 :: "(bytes \<times> bytes) dnet" where "n0 = dnet_new \<lparr>cid = 3, id_hostname = [], id_machine_id = []\<rparr> ([], [])"
  note defs = n0_def dnet_new_def demux_new_def swap_link_def generation_def FIRST_ID_def
  have "demux_run list_socks [] n0" unfolding n0_def by (rule run_start)
  then have "demux_run list_socks [Quiet] (n0\<lparr>acceptor := Adopting 0 1\<rparr>)"
    using run_step [OF _ st_adopt [of n0 list_socks 0], of "[]"] by (simp add: defs)
  from run_step [OF this st_spawn [of _ 0 1]]
  have "demux_run list_socks [Quiet, Quiet] (n0\<lparr>acceptor := Installing 0 1, readers := {(0, 1, False)}\<rparr>)" by (simp add: defs)
  from run_step [OF this st_swap [of _ 0 1 "fst (swap_link 0 1 (dx n0))" None]]
  show ?thesis by (simp add: defs connected_def)
qed

lemma ask_connected:
  assumes "dx n = dx connected" "world n = ([], [])"
  obtains w where "demux_step list_socks n (Requested 1 1 0) (n\<lparr>dx := asked, world := w\<rparr>)"
proof -
  obtain w where "write_to (list_sock 99) a_ping ([], []) = Some (w, Ok ())"
    using list_sock.write_to_writes [of a_ping 99 "([], [])"] by (auto simp: fits_frame_def frame_new_def)
  then have "request list_socks a_ping (dx n) (world n) = Some (asked, w, Inr (1, 0) :: (u32 \<times> nat, unit lc_error) result)"
    using assms by (simp add: request_def demux_next_def Let_def connected_def demux_new_def FIRST_ID_def asked_def frame_new_def)
  from st_request [OF this, of "\<lparr>l_stream = 0, l_generation = 1\<rparr>"] assms(1) show ?thesis
    by (intro that) (simp add: connected_def)
qed

text \<open>\<^verbatim>\<open>fail\<close> closes the requests of an ended connection before it drops the connection.  A request
  made in between is registered on that connection, is written to it, and is left in the table
  with no reader to answer or to close it, and no live connection.\<close>

theorem request_left_without_reader:
  "\<exists>es n i g rx. demux_run list_socks es n \<and> d_pending (dx n) i = Some (g, rx) \<and>
     answers (dx n) rx = [] \<and> readers n = {} \<and> d_link (dx n) = None \<and> acceptor n = Idle"
proof -
  have "read_from (list_sock 99) ([], []) = Some (([], []), Err (LcpIo SockWouldBlock))"
    by (simp add: read_from_def read_full.simps HEADER_def list_sock_def header_error_def)
  then have "demux_step list_socks connected Quiet (connected\<lparr>readers := {(0, 1, True)}\<rparr>)"
    using st_ended [of 0 1 connected list_socks "([], [])" "LcpIo SockWouldBlock"]
    by (simp add: connected_def demux_new_def fail_pending_def)
  then have "demux_run list_socks [Quiet, Quiet, Quiet, Quiet] (connected\<lparr>readers := {(0, 1, True)}\<rparr>)"
    using run_step [OF connected_run] by fastforce
  moreover obtain w where "demux_step list_socks (connected\<lparr>readers := {(0, 1, True)}\<rparr>) (Requested 1 1 0)
      (connected\<lparr>readers := {(0, 1, True)}, dx := asked, world := w\<rparr>)"
    by (rule ask_connected [of "connected\<lparr>readers := {(0, 1, True)}\<rparr>"]) (simp_all add: connected_def)
  ultimately obtain es where "demux_run list_socks es (connected\<lparr>readers := {(0, 1, True)}, dx := asked, world := w\<rparr>)"
    using run_step by blast
  from run_step [OF this st_left [of 0 1]]
  have "demux_run list_socks (es @ [Quiet]) \<lparr>dx = fail_link 1 asked, world = w, readers = {}, acceptor = Idle\<rparr>"
    by (simp add: connected_def)
  moreover have "d_pending (fail_link 1 asked) 1 = Some (1, 0)" "answers (fail_link 1 asked) 0 = []" "d_link (fail_link 1 asked) = None"
    by (simp_all add: asked_def connected_def demux_new_def fail_link_def)
  ultimately show ?thesis by fastforce
qed

text \<open>The answer to such a request, read while the connection lives.\<close>

lemma answered_run:
  obtains n where "demux_run list_socks [Quiet, Quiet, Quiet, Requested 1 1 0, Quiet, Routed a_ping 1, Received 0 a_ping] n"
proof -
  obtain w where "demux_step list_socks connected (Requested 1 1 0) (connected\<lparr>dx := asked, world := w\<rparr>)"
    by (rule ask_connected [of connected]) (simp_all add: connected_def)
  from run_step [OF run_step [OF connected_run this] st_world [of _ _ "([], frame_bytes a_ping)"]]
  have r: "demux_run list_socks [Quiet, Quiet, Quiet, Requested 1 1 0, Quiet]
      (connected\<lparr>dx := asked, world := ([], frame_bytes a_ping)\<rparr>)" by simp
  obtain w' where "read_from (list_sock 99) ([], frame_bytes a_ping) = Some (w', Ok a_ping)"
    using list_sock.read_from_reads [of "([], frame_bytes a_ping)" a_ping "[]" 99] by (auto simp: fits_frame_def frame_new_def)
  then have "demux_step list_socks (connected\<lparr>dx := asked, world := ([], frame_bytes a_ping)\<rparr>) (Routed a_ping 1)
      (connected\<lparr>dx := asked\<lparr>answers := (\<lambda>_. [])(0 := [a_ping])\<rparr>, world := w'\<rparr>)"
    using st_route [of 0 1 "connected\<lparr>dx := asked, world := ([], frame_bytes a_ping)\<rparr>" list_socks w' a_ping]
    by (simp add: connected_def route_def asked_def demux_new_def frame_new_def)
  from run_step [OF run_step [OF r this] st_recv [of 0 _ "asked\<lparr>answers := (\<lambda>_. [])\<rparr>" a_ping]] show ?thesis
    by (intro that [of "connected\<lparr>world := w', dx := asked\<lparr>answers := (\<lambda>_. [])\<rparr>\<rparr>"]) (simp add: recv_def fun_upd_idem)
qed

section \<open>Properties\<close>



text \<open>Property C22. Every way out of \<^verbatim>\<open>ask\<close> unregisters the request, whatever the other threads did
  while it waited: without a connection nothing is registered or written; a frame which cannot
  be written takes its entry back; an answer is the front of the channel made for the request,
  and with none there the caller is told whether the connection ended or only time ran out.\<close>

theorem ask_unregisters:
  fixes r :: "(frame, 'l lc_error) result"
  assumes "ask socks others f d w = Some (d', w', r)"
  shows "(d_link d = None \<longrightarrow> d' = d \<and> w' = w \<and> r = Err not_connected) \<and>
    (d_link d \<noteq> None \<longrightarrow> d_pending d' (next_id d) = None) \<and>
    (\<forall>l e. d_link d = Some l \<longrightarrow> write_to (socks (l_stream l)) (f\<lparr>f_id := next_id d\<rparr>) w = Some (w', Err e) \<longrightarrow>
      r = Err (ErrProtocol e)) \<and>
    (\<forall>l w1. d_link d = Some l \<longrightarrow> write_to (socks (l_stream l)) (f\<lparr>f_id := next_id d\<rparr>) w = Some (w1, Ok ()) \<longrightarrow>
      (case others (registered l d, w1) of
         (d2, w2) \<Rightarrow> w' = w2 \<and>
           r = (case answers d2 (next_channel d) of a # _ \<Rightarrow> Ok a
                | [] \<Rightarrow> Err (if has_sender (next_channel d) d2 then ErrTimeout ''answer from agent'' else not_connected))))"
proof -
  obtain d1 w1 and r1 :: "(u32 \<times> nat, 'l lc_error) result" where req: "request socks f d w = Some (d1, w1, r1)"
    using assms by (auto simp: ask_def split: option.splits)
  note step = assms [unfolded ask_def req]
  show ?thesis
  proof (rule request_cases [OF req])
    assume "d_link d = None" "d1 = d" "w1 = w" "r1 = Err not_connected"
    with step show ?thesis by simp
  next
    fix l e
    assume "d_link d = Some l" "write_to (socks (l_stream l)) (f\<lparr>f_id := next_id d\<rparr>) w = Some (w1, Inl e)" "r1 = Err (ErrProtocol e)"
      "d1 = d\<lparr>next_id := next_id d + 2, next_channel := Suc (next_channel d), d_pending := (d_pending d)(next_id d := None)\<rparr>"
    with step show ?thesis by auto
  next
    fix l
    assume sent: "d_link d = Some l" "write_to (socks (l_stream l)) (f\<lparr>f_id := next_id d\<rparr>) w = Some (w1, Inr ())"
      "r1 = Ok (next_id d, next_channel d)" "d1 = registered l d"
    obtain d2 w2 where o: "others (d1, w1) = (d2, w2)" by fastforce
    with step sent show ?thesis
      by (cases "answers d2 (next_channel d)") (auto simp: complete_def recv_def)
  qed
qed

theorem ask_unregisters_witness:
  "let d = demux_new \<lparr>cid = 3, id_hostname = [], id_machine_id = []\<rparr> in
   ask list_socks id a_ping d ([], []) = Some (d, ([], []), Err (not_connected :: unit lc_error)) \<and> d_link d = None"
proof -
  let ?d = "demux_new \<lparr>cid = 3, id_hostname = [], id_machine_id = []\<rparr>"
  have "ask list_socks id a_ping ?d ([], []) = Some (?d, ([], []), Err (not_connected :: unit lc_error))"
    by (simp add: ask_def request_def demux_new_def)
  with ask_unregisters [OF this] show ?thesis by (simp add: demux_new_def Let_def)
qed

text \<open>A reconnect replaces the live connection or leaves everything as it is.  If the
  handshake or a call on the stream fails, no request and no connection is touched; else the
  new connection is the live one under the next generation, the requests made on the replaced
  one are closed, and all others stay.\<close>

lemma adopt_replaces_or_keeps:
  fixes r :: "(unit, 'l lc_error) result"
  assumes "adopt h io socks s d w = Some (d', w', r)"
  shows "(case r of Inl _ \<Rightarrow> d' = d
     | Inr _ \<Rightarrow> d_link d' = Some \<lparr>l_stream = s, l_generation = generation d\<rparr> \<and>
        (\<forall>i. d_pending d' i =
          (case (d_link d, d_pending d i) of
             (Some old, Some (made, rx)) \<Rightarrow> if made = l_generation old then None else Some (made, rx)
           | (_, p) \<Rightarrow> p)) \<and>
        answers d' = answers d \<and> next_id d' = next_id d)"
proof -
  obtain w2 w1 where "install io s (generation d) d w2 = (d', w1, r) \<or> d' = d \<and> isl r"
    using assms by (auto simp: adopt_def Let_def split: option.splits sum.splits prod.splits)
  then consider "d' = d" "isl r" | "install io s (generation d) d w2 = (d', w1, r)" by blast
  then show ?thesis
  proof cases
    case 1
    then show ?thesis by (cases r) simp_all
  next
    case 2
    show ?thesis
    proof (cases "d_link d")
      case None
      with 2 show ?thesis by (auto simp: install_def swap_link_def split: prod.splits sum.splits option.splits)
    next
      case (Some old)
      then have "l_generation old \<noteq> generation d" by (simp add: generation_def)
      obtain w3 p where p: "prepare io s w2 = (w3, p)" by fastforce
      show ?thesis
      proof (cases p)
        case (Inl e)
        with 2 p show ?thesis by (auto simp: install_def)
      next
        case (Inr u)
        with p have "install io s (generation d) d w2 =
            ((fail_pending (l_generation old) d)\<lparr>d_link := Some \<lparr>l_stream = s, l_generation = generation d\<rparr>\<rparr>,
             shut io (l_stream old) w3, Ok () :: (unit, 'l lc_error) result)"
          using Some \<open>l_generation old \<noteq> generation d\<close> by (intro install_replaces) simp_all
        with 2 have "d' = (fail_pending (l_generation old) d)\<lparr>d_link := Some \<lparr>l_stream = s, l_generation = generation d\<rparr>\<rparr>" "r = Ok ()"
          by auto
        with Some show ?thesis by (auto simp: fail_pending_entries split: option.splits)
      qed
    qed
  qed
qed

text \<open>A guest which connects but is silent until the deadline.\<close>

definition silent_host :: "(bytes \<times> bytes, nat) handshake" where
  "silent_host = \<lparr>h_timed = \<lparr>clock = (\<lambda>w. (w, 7)), set_read_timeout = (\<lambda>_ w. (w, Ok ()))\<rparr>, getrandom = (\<lambda>n w. (w, Ok (replicate n 0))),
     unix_time = (\<lambda>w. (w, Some 9)), json_ready = \<lparr>json_to_vec = (\<lambda>_. None), json_from_slice = (\<lambda>_. None)\<rparr>,
     json_identify = \<lparr>json_to_vec = (\<lambda>_. None), json_from_slice = (\<lambda>_. None)\<rparr>,
     json_identified = \<lparr>json_to_vec = (\<lambda>_. None), json_from_slice = (\<lambda>_. None)\<rparr>\<rparr>"

end
