(* ===== verification/Sandbox.thy ===== *)
theory Sandbox
  imports Demux Devices
begin

text \<open>
  A sandbox on the host, \<^verbatim>\<open>src/lingcage/src/sandbox/\<close>: its console (\<^verbatim>\<open>console.rs\<close>), running commands
  (\<^verbatim>\<open>exec.rs\<close> and the stream ports of \<^verbatim>\<open>mod.rs\<close>), and its end (\<^verbatim>\<open>mod.rs\<close>).

  The machine, the listeners and the files of a run directory are parameters.  Waiting on the
  channel of a request is a function of the state of all threads, \<open>next_frame\<close>.

  The lemmas show that the console ring holds the latest output, that a wait ends with the first
  exit report, that the ports bound for a command are removed on every path, and that a sandbox
  is torn down once.
\<close>

section \<open>Console\<close>

definition OUTPUT_BOUND :: nat where "OUTPUT_BOUND = 1048576"
definition TAP_WRITES :: nat where "TAP_WRITES = 8192"

text \<open>The channels of the taps by number, as in \<open>Demux\<close>.\<close>

record shared =
  ring :: bytes
  taps :: "nat list"
  tap_queue :: "nat \<Rightarrow> bytes list"
  tap_gone :: "nat set"
  next_tap :: nat

definition shared_default :: shared where
  "shared_default = \<lparr>ring = [], taps = [], tap_queue = (\<lambda>_. []), tap_gone = {}, next_tap = 0\<rparr>"

definition console_tail :: "nat \<Rightarrow> shared \<Rightarrow> nat list" where
  "console_tail n c = utf8_lossy (drop (length (ring c) - n) (ring c))"

definition subscribe :: "shared \<Rightarrow> shared \<times> nat" where
  "subscribe c = (c\<lparr>taps := taps c @ [next_tap c], next_tap := Suc (next_tap c)\<rparr>, next_tap c)"

definition console_send :: "(bytes \<Rightarrow> 'w \<Rightarrow> 'w \<times> (nat, sock_error) result) \<Rightarrow> bytes \<Rightarrow> 'w \<Rightarrow> 'w \<times> (nat, 'l lc_error) result" where
  "console_send receive bs w = (case receive bs w of (w', r) \<Rightarrow> (w', map_err ErrIo r))"

definition sink_write :: "bytes \<Rightarrow> shared \<Rightarrow> shared \<times> nat" where
  "sink_write bs c =
     (let keep = min (length bs) OUTPUT_BOUND; over = length (ring c) + keep - OUTPUT_BOUND in
      (c\<lparr>ring := drop over (ring c) @ drop (length bs - keep) bs,
         tap_queue := (\<lambda>t. if t \<in> set (taps c) \<and> t \<notin> tap_gone c \<and> length (tap_queue c t) < TAP_WRITES
                           then tap_queue c t @ [bs] else tap_queue c t),
         taps := filter (\<lambda>t. t \<notin> tap_gone c) (taps c)\<rparr>, length bs))"

section \<open>Commands\<close>

datatype exit_status = Exited int | Signalled int | TimedOut

definition success :: "exit_status \<Rightarrow> bool" where
  "success s \<longleftrightarrow> s = Exited 0"

definition exit_code :: "exit_status \<Rightarrow> int option" where
  "exit_code s = (case s of Exited c \<Rightarrow> Some c | _ \<Rightarrow> None)"

definition exit_status_of :: "exec_exit \<Rightarrow> (exit_status, 'l lc_error) result" where
  "exit_status_of r =
     (if xe_timed_out r then Ok TimedOut
      else case (xe_code r, xe_signal r) of
             (Some c, None) \<Rightarrow> Ok (Exited c)
           | (None, Some s) \<Rightarrow> Ok (Signalled s)
           | _ \<Rightarrow> Err (ErrAgent ''exit report with both code and signal, or neither''))"

definition agent_report :: "error_payload \<Rightarrow> 'l lc_error" where
  "agent_report r = ErrAgent (ep_code r @ '': '' @ ep_message r)"

record process =
  p_stdin :: "nat option"
  p_stdout :: "nat option"
  p_stderr :: "nat option"
  p_pid :: u32
  p_exit :: nat
  p_id :: u32

text \<open>JSON of the messages of a command.\<close>

record exec_json =
  json_exec :: "exec json"
  json_started :: "exec_started json"
  json_failed :: "exec_failed json"
  json_exit :: "exec_exit json"
  json_signal :: "signal_msg json"
  json_size :: "pty_size json"
  json_error :: "error_payload json"
  json_ping :: "ping json"
  json_pong :: "pong json"

definition process_resize ::
  "exec_json \<Rightarrow> (nat \<Rightarrow> 'w sock) \<Rightarrow> process \<Rightarrow> pty_size \<Rightarrow> demux \<Rightarrow> 'w \<Rightarrow> ('w \<times> (unit, 'l lc_error) result) option" where
  "process_resize j socks p sz d w =
     (case with_payload (json_size j) (p_id p) EXEC_RESIZE 0 sz of
        Inl e \<Rightarrow> Some (w, Err (ErrProtocol e))
      | Inr f \<Rightarrow> tell socks f d w)"

definition process_signal ::
  "exec_json \<Rightarrow> (nat \<Rightarrow> 'w sock) \<Rightarrow> u32 \<Rightarrow> int \<Rightarrow> demux \<Rightarrow> 'w \<Rightarrow> ('w \<times> (unit, 'l lc_error) result) option" where
  "process_signal j socks i sig d w =
     (case with_payload (json_signal j) i EXEC_SIGNAL 0 \<lparr>sg_signal = sig\<rparr> of
        Inl e \<Rightarrow> Some (w, Err (ErrProtocol e))
      | Inr f \<Rightarrow> tell socks f d w)"

text \<open>Waiting for the exit report: \<open>timed\<close> tells whether there is a deadline, without which a
  wait on the channel goes on.\<close>

definition on_exit_frame :: "exec_json \<Rightarrow> frame \<Rightarrow> (exit_status option, 'l lc_error) result option" where
  "on_exit_frame j f =
     (if f_kind f = EXEC_EXIT
      then Some (and_then (map_err ErrProtocol (frame_payload (json_exit j) f)) (\<lambda>r. and_then (exit_status_of r) (\<lambda>s. Ok (Some s))))
      else if f_kind f = KIND_ERROR
      then Some (and_then (map_err ErrProtocol (frame_payload (json_error j) f)) (\<lambda>r. Err (agent_report r)))
      else None)"

partial_function (option) wait_until ::
  "exec_json \<Rightarrow> ('s \<Rightarrow> 's \<times> (frame, recv_error) result) \<Rightarrow> bool \<Rightarrow> 's \<Rightarrow> ('s \<times> (exit_status option, 'l lc_error) result) option" where
  "wait_until j next_frame timed s =
     (case next_frame s of
        (s', Inr f) \<Rightarrow>
          (if on_exit_frame j f = (None :: (exit_status option, 'l lc_error) result option) then wait_until j next_frame timed s'
           else Some (s', the (on_exit_frame j f)))
      | (s', Inl e) \<Rightarrow>
          (if e = Disconnected then Some (s', Err not_connected)
           else if timed then Some (s', Ok None)
           else wait_until j next_frame timed s'))"

definition read_started :: "exec_json \<Rightarrow> (frame, recv_error) result \<Rightarrow> (u32, 'l lc_error) result" where
  "read_started j r =
     (case r of
        Inl RecvTimeout \<Rightarrow> Err (ErrTimeout ''command start report'')
      | Inl Disconnected \<Rightarrow> Err not_connected
      | Inr f \<Rightarrow>
          if f_kind f = EXEC_STARTED then map_err ErrProtocol (and_then (frame_payload (json_started j) f) (\<lambda>x. Ok (xs_pid x)))
          else if f_kind f = EXEC_FAILED
          then and_then (map_err ErrProtocol (frame_payload (json_failed j) f)) (\<lambda>x. Err (ErrExecFailed (xf_reason x) (xf_errno x)))
          else if f_kind f = KIND_ERROR
          then and_then (map_err ErrProtocol (frame_payload (json_error j) f)) (\<lambda>x. Err (agent_report x))
          else Err (ErrAgent (''unexpected reply of kind '' @ shown (unat (f_kind f)) @ '' to command'')))"

subsection \<open>Stream ports\<close>

definition CONTROL_PORT :: u32 where "CONTROL_PORT = 1"
definition LOG_PORT :: u32 where "LOG_PORT = 2"
definition FIRST_STREAM_PORT :: u32 where "FIRST_STREAM_PORT = 1024"
definition PORT_DRAWS :: nat where "PORT_DRAWS = 8"
definition EXEC_WITHIN :: nat where "EXEC_WITHIN = 10000000000"
definition SIGKILL :: int where "SIGKILL = 9"

definition socket_at :: "string \<Rightarrow> u32 \<Rightarrow> string" where
  "socket_at prefix port = prefix @ ''_'' @ shown (unat port)"

record bound_stream =
  b_stream :: lcp_stream
  b_listener :: nat
  b_path :: string

text \<open>Binding a listener at a path, removing a socket file (its failure is only logged), the
  listeners, and the read timeout of an accepted stream.\<close>

record 'w stream_io =
  s_timed :: "'w timed"
  s_random :: "nat \<Rightarrow> 'w \<Rightarrow> 'w \<times> (bytes, sock_error) result"
  bind_at :: "string \<Rightarrow> 'w \<Rightarrow> 'w \<times> (nat, sock_error) result"
  remove_file :: "string \<Rightarrow> 'w \<Rightarrow> 'w"
  listener_of :: "nat \<Rightarrow> 'w listening"
  arm_stream :: "nat \<Rightarrow> nat option \<Rightarrow> 'w \<Rightarrow> 'w \<times> (unit, sock_error) result"

definition port_of :: "u32 \<Rightarrow> u32" where
  "port_of drawn = FIRST_STREAM_PORT + drawn mod (- 1 - FIRST_STREAM_PORT)"

primrec bind_draws :: "'w stream_io \<Rightarrow> string \<Rightarrow> nat \<Rightarrow> 'w \<Rightarrow> ('w \<times> (bound_stream, 'l lc_error) result) option" where
  "bind_draws io prefix 0 w = Some (w, Err (ErrIo AddrInUse))"
| "bind_draws io prefix (Suc n) w =
     (case draw (s_random io) 12 [] w of
        None \<Rightarrow> None
      | Some (w1, Inl e) \<Rightarrow> Some (w1, Err e)
      | Some (w1, Inr bs) \<Rightarrow>
          (let port = port_of (from_be (take 4 bs)); path = socket_at prefix port in
           case bind_at io path w1 of
             (w2, Inr l) \<Rightarrow> Some (w2, Ok \<lparr>b_stream = \<lparr>ls_port = port, ls_nonce = from_be (drop 4 bs)\<rparr>, b_listener = l, b_path = path\<rparr>)
           | (w2, Inl e) \<Rightarrow> if e = AddrInUse then bind_draws io prefix n w2 else Some (w2, Err (ErrIo e))))"

definition bind_stream :: "'w stream_io \<Rightarrow> string \<Rightarrow> 'w \<Rightarrow> ('w \<times> (bound_stream, 'l lc_error) result) option" where
  "bind_stream io prefix w = bind_draws io prefix PORT_DRAWS w"

definition unbind :: "'w stream_io \<Rightarrow> bound_stream \<Rightarrow> 'w \<Rightarrow> 'w" where
  "unbind io b w = remove_file io (b_path b) w"

partial_function (option) accept_stream ::
  "'w stream_io \<Rightarrow> (nat \<Rightarrow> 'w sock) \<Rightarrow> bound_stream \<Rightarrow> nat \<Rightarrow> 'w \<Rightarrow> ('w \<times> (nat, 'l lc_error) result) option" where
  "accept_stream io socks b deadline w =
     (case accept_within (s_timed io) (listener_of io (b_listener b)) deadline ''incoming stream connection'' w of
        None \<Rightarrow> None
      | Some (w1, Inl e) \<Rightarrow> Some (w1, Err e)
      | Some (w1, Inr s) \<Rightarrow>
          (let (w2, now) = clock (s_timed io) w1 in
           if deadline \<le> now then Some (w2, Err (ErrTimeout ''a stream's nonce''))
           else case arm_stream io s (Some (deadline - now)) w2 of
                  (w3, Inl e) \<Rightarrow> Some (w3, Err (ErrIo e))
                | (w3, Inr _) \<Rightarrow>
                    (case read_full (socks s) NONCE [] w3 of
                       None \<Rightarrow> None
                     | Some (w4, Inl _) \<Rightarrow> accept_stream io socks b deadline w4
                     | Some (w4, Inr nonce) \<Rightarrow>
                         (if from_be nonce = ls_nonce (b_stream b)
                          then (case arm_stream io s None w4 of
                                  (w5, Inl e) \<Rightarrow> Some (w5, Err (ErrIo e))
                                | (w5, Inr _) \<Rightarrow> Some (w5, Ok s))
                          else accept_stream io socks b deadline w4))))"

subsection \<open>Running a command\<close>

record command =
  c_program :: string
  c_args :: "string list"
  c_env :: "string \<Rightarrow> string option"
  c_cwd :: "string option"
  c_user :: "string option"
  c_pty :: "pty_size option"
  c_timeout :: "nat option"

definition command_new :: "string \<Rightarrow> command" where
  "command_new p = \<lparr>c_program = p, c_args = [], c_env = (\<lambda>_. None), c_cwd = None, c_user = None, c_pty = None, c_timeout = None\<rparr>"

definition command_arg :: "string \<Rightarrow> command \<Rightarrow> command" where
  "command_arg a c = c\<lparr>c_args := c_args c @ [a]\<rparr>"

definition command_args :: "string list \<Rightarrow> command \<Rightarrow> command" where
  "command_args as c = c\<lparr>c_args := c_args c @ as\<rparr>"

definition command_env :: "string \<Rightarrow> string \<Rightarrow> command \<Rightarrow> command" where
  "command_env k v c = c\<lparr>c_env := (c_env c)(k := Some v)\<rparr>"

definition exec_of :: "command \<Rightarrow> bound_stream \<Rightarrow> bound_stream \<Rightarrow> bound_stream \<Rightarrow> exec" where
  "exec_of c i out err = \<lparr>x_program = c_program c, x_args = c_args c, x_env = c_env c, x_cwd = c_cwd c, x_user = c_user c,
     x_pty = c_pty c,
     x_timeout_ms = map_option (\<lambda>ns. let ms = ns div 1000000 in if ms < 2 ^ 64 then of_nat ms else - 1) (c_timeout c),
     x_stdin = Some (b_stream i), x_stdout = b_stream out, x_stderr = b_stream err\<rparr>"

text \<open>The failure of sending the kill is only logged.\<close>

definition kill_command :: "exec_json \<Rightarrow> (nat \<Rightarrow> 'w sock) \<Rightarrow> u32 \<Rightarrow> demux \<Rightarrow> 'w \<Rightarrow> (demux \<times> 'w) option" where
  "kill_command j socks i d w =
     map_option (\<lambda>(w', r :: (unit, unit lc_error) result). (complete i d, w')) (process_signal j socks i SIGKILL d w)"

definition blame :: "bool \<Rightarrow> 'l lc_error \<Rightarrow> 'l lc_error" where
  "blame faulted e = (if faulted then ErrImage else e)"

definition accept_three ::
  "'w stream_io \<Rightarrow> (nat \<Rightarrow> 'w sock) \<Rightarrow> bound_stream \<Rightarrow> bound_stream \<Rightarrow> bound_stream \<Rightarrow> nat \<Rightarrow> 'w \<Rightarrow>
   ('w \<times> (nat \<times> nat \<times> nat, 'l lc_error) result) option" where
  "accept_three io socks bi bo be deadline w =
     (case accept_stream io socks bi deadline w of
        None \<Rightarrow> None
      | Some (w1, Inl e) \<Rightarrow> Some (w1, Err e)
      | Some (w1, Inr i) \<Rightarrow>
          (case accept_stream io socks bo deadline w1 of
             None \<Rightarrow> None
           | Some (w2, Inl e) \<Rightarrow> Some (w2, Err e)
           | Some (w2, Inr out) \<Rightarrow>
               map_option (\<lambda>(w3, r). (w3, and_then r (\<lambda>err. Ok (i, out, err)))) (accept_stream io socks be deadline w2)))"

text \<open>Giving up on a command: the kill, the request out of the table, and its channel dropped.\<close>

definition give_up ::
  "exec_json \<Rightarrow> (nat \<Rightarrow> 'w sock) \<Rightarrow> u32 \<Rightarrow> nat \<Rightarrow> ('w \<Rightarrow> 'l lc_error) \<Rightarrow> demux \<Rightarrow> 'w \<Rightarrow>
   (demux \<times> 'w \<times> (process, 'l lc_error) result) option" where
  "give_up j socks i rx err d w =
     map_option (\<lambda>(d', w'). (d'\<lparr>gone := insert rx (gone d')\<rparr>, w', Err (err w'))) (kill_command j socks i d w)"

definition exec_bound ::
  "exec_json \<Rightarrow> 'w stream_io \<Rightarrow> (nat \<Rightarrow> 'w sock) \<Rightarrow> ('w \<Rightarrow> bool) \<Rightarrow> (demux \<times> 'w \<Rightarrow> demux \<times> 'w) \<Rightarrow> command \<Rightarrow>
   bound_stream \<Rightarrow> bound_stream \<Rightarrow> bound_stream \<Rightarrow> demux \<Rightarrow> 'w \<Rightarrow> (demux \<times> 'w \<times> (process, 'l lc_error) result) option" where
  "exec_bound j io socks faulted others c bi bo be d w =
     (case with_payload (json_exec j) 0 EXEC SESSION_START (exec_of c bi bo be) of
        Inl e \<Rightarrow> Some (d, w, Err (ErrProtocol e))
      | Inr f \<Rightarrow>
          (let (w0, now) = clock (s_timed io) w; deadline = now + EXEC_WITHIN in
           case request socks f d w0 of
             None \<Rightarrow> None
           | Some (d1, w1, Inl e) \<Rightarrow> Some (d1, w1, Err e)
           | Some (d1, w1, Inr (i, rx)) \<Rightarrow>
               (let (d2, w2) = others (d1, w1); (d3, r) = recv rx d2 in
                case read_started j r of
                  Inl e \<Rightarrow> give_up j socks i rx (\<lambda>w. blame (faulted w) e) d3 w2
                | Inr pid \<Rightarrow>
                    (case accept_three io socks bi bo be deadline w2 of
                       None \<Rightarrow> None
                     | Some (w3, Inl e) \<Rightarrow> give_up j socks i rx (\<lambda>_. e) d3 w3
                     | Some (w3, Inr (a, b, e)) \<Rightarrow>
                         Some (d3, w3, Ok \<lparr>p_stdin = Some a, p_stdout = Some b, p_stderr = Some e, p_pid = pid, p_exit = rx, p_id = i\<rparr>)))))"

text \<open>\<^verbatim>\<open>Sandbox::exec\<close>; a bound port goes out of scope, and is unbound, at every return.\<close>

definition sandbox_exec ::
  "exec_json \<Rightarrow> 'w stream_io \<Rightarrow> (nat \<Rightarrow> 'w sock) \<Rightarrow> ('w \<Rightarrow> bool) \<Rightarrow> (demux \<times> 'w \<Rightarrow> demux \<times> 'w) \<Rightarrow> string \<Rightarrow> command \<Rightarrow>
   demux \<Rightarrow> 'w \<Rightarrow> (demux \<times> 'w \<times> (process, 'l lc_error) result) option" where
  "sandbox_exec j io socks faulted others prefix c d w =
     (if faulted w then Some (d, w, Err ErrImage)
      else case bind_stream io prefix w of
        None \<Rightarrow> None
      | Some (w1, Inl e) \<Rightarrow> Some (d, w1, Err e)
      | Some (w1, Inr bi) \<Rightarrow>
          (case bind_stream io prefix w1 of
             None \<Rightarrow> None
           | Some (w2, Inl e) \<Rightarrow> Some (d, unbind io bi w2, Err e)
           | Some (w2, Inr bo) \<Rightarrow>
               (case bind_stream io prefix w2 of
                  None \<Rightarrow> None
                | Some (w3, Inl e) \<Rightarrow> Some (d, unbind io bi (unbind io bo w3), Err e)
                | Some (w3, Inr be) \<Rightarrow>
                    map_option (\<lambda>(d', w', r). (d', unbind io bi (unbind io bo (unbind io be w')), r))
                      (exec_bound j io socks faulted others c bi bo be d w3))))"

definition PING_WITHIN :: nat where "PING_WITHIN = 5000000000"

definition check_pong :: "exec_json \<Rightarrow> u64 \<Rightarrow> frame \<Rightarrow> (unit, 'l lc_error) result" where
  "check_pong j nonce f =
     (if f_kind f \<noteq> PONG then Err (ErrAgent (''unexpected reply of kind '' @ shown (unat (f_kind f)) @ '' to ping''))
      else and_then (map_err ErrProtocol (frame_payload (json_pong j) f))
        (\<lambda>p. if q_nonce p \<noteq> nonce then Err (ErrAgent ''pong returned with different nonce'') else Ok ()))"

definition sandbox_ping ::
  "exec_json \<Rightarrow> 'w stream_io \<Rightarrow> (nat \<Rightarrow> 'w sock) \<Rightarrow> ('w \<Rightarrow> bool) \<Rightarrow> (demux \<times> 'w \<Rightarrow> demux \<times> 'w) \<Rightarrow> demux \<Rightarrow> 'w \<Rightarrow>
   (demux \<times> 'w \<times> (nat, 'l lc_error) result) option" where
  "sandbox_ping j io socks faulted others d w =
     (if faulted w then Some (d, w, Err ErrImage)
      else case draw (s_random io) 8 [] w of
        None \<Rightarrow> None
      | Some (w1, Inl e) \<Rightarrow> Some (d, w1, Err e)
      | Some (w1, Inr bs) \<Rightarrow>
          (let nonce = from_be bs in
           case with_payload (json_ping j) 0 PING SESSION_START \<lparr>p_nonce = nonce\<rparr> of
             Inl e \<Rightarrow> Some (d, w1, Err (ErrProtocol e))
           | Inr f \<Rightarrow>
               (let (w2, start) = clock (s_timed io) w1 in
                case ask socks others f d w2 of
                  None \<Rightarrow> None
                | Some (d', w3, Inl e) \<Rightarrow> Some (d', w3, Err (blame (faulted w3) e))
                | Some (d', w3, Inr answer) \<Rightarrow>
                    (case check_pong j nonce answer of
                       Inl e \<Rightarrow> Some (d', w3, Err e)
                     | Inr _ \<Rightarrow> (let (w4, stop) = clock (s_timed io) w3 in Some (d', w4, Ok (stop - start)))))))"

section \<open>The end of a sandbox\<close>

text \<open>The machine as the sandbox calls it, and the run directory.\<close>

record ('w, 'l) machine_io =
  m_live :: "'w \<Rightarrow> bool"
  m_stop :: "'w \<Rightarrow> 'w \<times> (unit, 'l) result"
  m_wait :: "'w \<Rightarrow> 'w \<times> (unit, 'l) result"
  m_wait_timeout :: "nat \<Rightarrow> 'w \<Rightarrow> 'w \<times> (vm_exit option, 'l) result"
  exit_text :: "vm_exit \<Rightarrow> string"
  remove_dir :: "'w \<Rightarrow> 'w \<times> (unit, sock_error) result"

datatype sandbox_exit = PoweredOff | Rebooted | Killed nat | ExitFailed string

record inner =
  s_demux :: demux
  has_machine :: bool
  has_image :: bool
  torn :: bool

definition stop_and_wait :: "('w, 'l) machine_io \<Rightarrow> 'w \<Rightarrow> 'w \<times> (unit, 'l) result" where
  "stop_and_wait m w = (case m_stop m w of (w1, Inl e) \<Rightarrow> (w1, Err e) | (w1, Inr _) \<Rightarrow> m_wait m w1)"

definition await_exit :: "('w, 'l) machine_io \<Rightarrow> nat \<Rightarrow> inner \<Rightarrow> 'w \<Rightarrow> 'w \<times> (sandbox_exit, 'l lc_error) result" where
  "await_exit m within s w =
     (if \<not> has_machine s then (w, Ok (Killed 0))
      else case m_wait_timeout m within w of
             (w1, Inl e) \<Rightarrow> (w1, Err (ErrLingcore e))
           | (w1, Inr (Some Shutdown)) \<Rightarrow> (w1, Ok PoweredOff)
           | (w1, Inr (Some Reboot)) \<Rightarrow> (w1, Ok Rebooted)
           | (w1, Inr (Some other)) \<Rightarrow> (w1, Ok (ExitFailed (exit_text m other)))
           | (w1, Inr None) \<Rightarrow>
               (case stop_and_wait m w1 of
                  (w2, Inl e) \<Rightarrow> (w2, Err (ErrLingcore e))
                | (w2, Inr _) \<Rightarrow> (w2, Ok (Killed within))))"

definition teardown ::
  "('w, 'l) machine_io \<Rightarrow> (demux \<Rightarrow> 'w \<Rightarrow> demux \<times> 'w) \<Rightarrow> inner \<Rightarrow> 'w \<Rightarrow> inner \<times> 'w \<times> (unit, 'l lc_error) result" where
  "teardown m stop_demux s w =
     (if torn s then (s, w, Ok ())
      else let (w1, stopped) = (if has_machine s \<and> m_live m w then stop_and_wait m w else (w, Ok ()));
               (d, w2) = stop_demux (s_demux s) w1;
               (w3, removed) = (case remove_dir m w2 of
                   (w3, Inl e) \<Rightarrow> if e = NotFoundError then (w3, Ok ()) else (w3, Err (ErrIo e))
                 | (w3, Inr _) \<Rightarrow> (w3, Ok ()));
               done = and_then (map_err ErrLingcore stopped) (\<lambda>_. removed) in
           (s\<lparr>s_demux := d, has_machine := False, has_image := False, torn := \<not> isl done\<rparr>, w3, done))"

text \<open>\<^verbatim>\<open>shutdown\<close> and \<^verbatim>\<open>kill\<close> take the sandbox: at their return \<^verbatim>\<open>Drop for Inner\<close> tears down once
  more, and only logs a failure.\<close>

definition drop_inner :: "('w, 'l) machine_io \<Rightarrow> (demux \<Rightarrow> 'w \<Rightarrow> demux \<times> 'w) \<Rightarrow> inner \<times> 'w \<times> 'r \<Rightarrow> inner \<times> 'w \<times> 'r" where
  "drop_inner m stop_demux x = (case x of (s, w, r) \<Rightarrow> case teardown m stop_demux s w of (s', w', _) \<Rightarrow> (s', w', r))"

definition sandbox_shutdown ::
  "('w, 'l) machine_io \<Rightarrow> (demux \<Rightarrow> 'w \<Rightarrow> demux \<times> 'w) \<Rightarrow> (nat \<Rightarrow> 'w sock) \<Rightarrow> nat \<Rightarrow> inner \<Rightarrow> 'w \<Rightarrow>
   (inner \<times> 'w \<times> (sandbox_exit, 'l lc_error) result) option" where
  "sandbox_shutdown m stop_demux socks within s w =
     (if torn s then Some (s, w, Ok (Killed 0))
      else case (tell_with_new_id socks KIND_SHUTDOWN FLAG_SHUTDOWN (s_demux s) w :: (demux \<times> 'w \<times> (unit, 'l lc_error) result) option) of
             None \<Rightarrow> None
           | Some (d, w1, _) \<Rightarrow>
               Some (drop_inner m stop_demux
                 (case await_exit m within (s\<lparr>s_demux := d\<rparr>) w1 of
                    (w2, Inl e) \<Rightarrow> (s\<lparr>s_demux := d\<rparr>, w2, Err e)
                  | (w2, Inr x) \<Rightarrow>
                      (case teardown m stop_demux (s\<lparr>s_demux := d\<rparr>) w2 of
                         (s', w3, Inl e) \<Rightarrow> (s', w3, Err e)
                       | (s', w3, Inr _) \<Rightarrow> (s', w3, Ok x)))))"

definition sandbox_kill ::
  "('w, 'l) machine_io \<Rightarrow> (demux \<Rightarrow> 'w \<Rightarrow> demux \<times> 'w) \<Rightarrow> inner \<Rightarrow> 'w \<Rightarrow> inner \<times> 'w \<times> (sandbox_exit, 'l lc_error) result" where
  "sandbox_kill m stop_demux s w =
     drop_inner m stop_demux
       (case teardown m stop_demux s w of
          (s', w', Inl e) \<Rightarrow> (s', w', Err e)
        | (s', w', Inr _) \<Rightarrow> (s', w', Ok (Killed 0)))"

section \<open>Names\<close>

definition hex_text :: "bytes \<Rightarrow> string" where
  "hex_text bs = concat (map (\<lambda>b. [nibble (unat b div 16), nibble (unat b mod 16)]) bs)"

definition sandbox_id :: "(nat \<Rightarrow> 'w \<Rightarrow> 'w \<times> (bytes, sock_error) result) \<Rightarrow> 'w \<Rightarrow> ('w \<times> (string, 'l lc_error) result) option" where
  "sandbox_id get w = map_option (\<lambda>(w', r). (w', and_then r (\<lambda>bs. Ok (hex_text bs)))) (draw get 6 [] w)"

definition machine_id :: "(nat \<Rightarrow> 'w \<Rightarrow> 'w \<times> (bytes, sock_error) result) \<Rightarrow> 'w \<Rightarrow> ('w \<times> (string, 'l lc_error) result) option" where
  "machine_id get w = map_option (\<lambda>(w', r). (w', and_then r (\<lambda>bs. Ok (hex_text bs)))) (draw get 16 [] w)"

definition hostname_of :: "(string \<Rightarrow> string option) \<Rightarrow> string \<Rightarrow> string" where
  "hostname_of labels i = (case labels ''hostname'' of Some h \<Rightarrow> h | None \<Rightarrow> ''lc-'' @ i)"

section \<open>Lemmas\<close>

subsection \<open>Console\<close>

definition latest :: "nat \<Rightarrow> 'a list \<Rightarrow> 'a list" where
  "latest n xs = drop (length xs - n) xs"

lemma length_latest [simp]: "length (latest n xs) = min n (length xs)"
  by (simp add: latest_def)

lemma latest_latest_append: "latest n (latest n xs @ ys) = latest n (xs @ ys)"
  by (cases "length xs \<le> n") (auto simp: latest_def min_def add.commute)

lemma latest_latest: "latest n (latest m xs) = latest (min n m) xs"
proof (cases "m \<le> length xs")
  case True
  then have "length xs - (length xs - m + n) + (length xs - m) = length xs - min n m" by auto
  then show ?thesis by (simp add: latest_def)
qed (auto simp: latest_def min_def)

lemma sink_write_ring:
  assumes "length (ring c) \<le> OUTPUT_BOUND"
  shows "ring (fst (sink_write bs c)) = latest OUTPUT_BOUND (ring c @ bs)"
  using assms by (cases "length bs \<le> OUTPUT_BOUND") (auto simp: sink_write_def latest_def Let_def min_def)

definition sink_writes :: "bytes list \<Rightarrow> shared \<Rightarrow> shared" where
  "sink_writes ws c = fold (\<lambda>bs c. fst (sink_write bs c)) ws c"

lemma sink_writes_simps [simp]: "sink_writes [] c = c" "sink_writes (bs # ws) c = sink_writes ws (fst (sink_write bs c))"
  by (simp_all add: sink_writes_def)

lemma sink_writes_ring:
  "length (ring c) \<le> OUTPUT_BOUND \<Longrightarrow> ring (sink_writes ws c) = latest OUTPUT_BOUND (ring c @ concat ws)"
proof (induction ws arbitrary: c)
  case Nil
  then show ?case by (simp add: latest_def)
next
  case (Cons bs ws)
  then show ?case by (simp add: sink_write_ring latest_latest_append)
qed

lemma sink_write_taps:
  "set (taps (fst (sink_write bs c))) = set (taps c) - tap_gone c" "tap_gone (fst (sink_write bs c)) = tap_gone c"
  by (auto simp: sink_write_def Let_def)

lemma sink_writes_tap:
  assumes "t \<in> set (taps c)" "t \<notin> tap_gone c" "length (tap_queue c t) \<le> TAP_WRITES"
  shows "tap_queue (sink_writes ws c) t = take TAP_WRITES (tap_queue c t @ ws)"
  using assms
proof (induction ws arbitrary: c)
  case Nil
  then show ?case by simp
next
  case (Cons bs ws)
  have q: "tap_queue (fst (sink_write bs c)) t = (if length (tap_queue c t) < TAP_WRITES then tap_queue c t @ [bs] else tap_queue c t)"
    using Cons(2,3) by (simp add: sink_write_def Let_def)
  have "tap_queue (sink_writes ws (fst (sink_write bs c))) t = take TAP_WRITES (tap_queue (fst (sink_write bs c)) t @ ws)"
    using Cons(2-4) by (intro Cons.IH) (auto simp: sink_write_taps q)
  with Cons(4) show ?case by (auto simp: q take_Cons')
qed

text \<open>A channel not handed out yet is empty and not gone.\<close>

definition taps_ok :: "shared \<Rightarrow> bool" where
  "taps_ok c \<longleftrightarrow> (\<forall>t \<ge> next_tap c. t \<notin> set (taps c) \<and> t \<notin> tap_gone c \<and> tap_queue c t = [])"

lemma sink_writes_taps_ok: "taps_ok c \<Longrightarrow> taps_ok (sink_writes ws c)"
proof (induction ws arbitrary: c)
  case (Cons bs ws)
  have "taps_ok (fst (sink_write bs c))" using Cons(2) by (auto simp: taps_ok_def sink_write_def Let_def)
  then show ?case using Cons.IH by simp
qed simp

subsection \<open>Commands\<close>

lemma port_of_range: "FIRST_STREAM_PORT \<le> port_of x" "port_of x < - 1"
proof -
  have "unat (x mod (- 1 - FIRST_STREAM_PORT)) < 2 ^ 32 - 1025"
    by (simp add: FIRST_STREAM_PORT_def unat_mod)
  then have "unat (port_of x) = 1024 + unat (x mod (- 1 - FIRST_STREAM_PORT))" "unat (port_of x) < 2 ^ 32 - 1"
    by (simp_all add: port_of_def FIRST_STREAM_PORT_def unat_word_ariths)
  then show "FIRST_STREAM_PORT \<le> port_of x" "port_of x < - 1"
    by (simp_all add: FIRST_STREAM_PORT_def word_le_nat_alt word_less_nat_alt unsigned_minus_1_eq_mask mask_eq_exp_minus_1)
qed

lemma give_up_unregisters:
  "give_up j socks i rx err d w = Some (d', w', r) \<Longrightarrow> d_pending d' i = None \<and> (\<exists>e. r = Err e) \<and> rx \<in> gone d'"
  by (auto simp: give_up_def kill_command_def complete_def)

lemma exec_bound_outcome:
  fixes r :: "(process, 'l lc_error) result"
  assumes "exec_bound j io socks faulted others c bi bo be d w = Some (d', w', r)"
  shows "case r of Inl _ \<Rightarrow> d' = d \<or> d_pending d' (next_id d) = None | Inr p \<Rightarrow> p_id p = next_id d \<and> p_exit p = next_channel d"
proof -
  obtain w0 now where now: "clock (s_timed io) w = (w0, now)" by fastforce
  show ?thesis
  proof (cases "with_payload (json_exec j) 0 EXEC SESSION_START (exec_of c bi bo be)")
    case (Inl e)
    with assms show ?thesis by (auto simp: exec_bound_def)
  next
    case (Inr f)
    obtain d1 w1 and r1 :: "(u32 \<times> nat, 'l lc_error) result" where req: "request socks f d w0 = Some (d1, w1, r1)"
      using assms now Inr by (cases "request socks f d w0 :: (demux \<times> 'a \<times> (u32 \<times> nat, 'l lc_error) result) option")
        (auto simp: exec_bound_def Let_def)
    show ?thesis
    proof (cases r1)
      case (Inl e)
      then have "d1 = d \<or> d_pending d1 (next_id d) = None" using req by (auto elim: request_cases)
      with assms now Inr req Inl show ?thesis by (auto simp: exec_bound_def Let_def)
    next
      case sent: (Inr x)
      then have x: "x = (next_id d, next_channel d)" using req by (auto elim: request_cases)
      obtain d2 w2 where o: "others (d1, w1) = (d2, w2)" by fastforce
      obtain d3 r3 where rc: "recv (next_channel d) d2 = (d3, r3)" by fastforce
      show ?thesis
        using assms now Inr req sent x o rc
        by (auto simp: exec_bound_def Let_def split: sum.splits option.splits dest!: give_up_unregisters)
    qed
  qed
qed

lemma wait_first_report:
  fixes rep :: "(exit_status option, 'l lc_error) result"
  assumes "answers d rx = fs @ f # rest" "\<forall>g \<in> set fs. on_exit_frame j g = (None :: (exit_status option, 'l lc_error) result option)"
    and "on_exit_frame j f = Some rep"
  shows "wait_until j (recv rx) timed d = Some (d\<lparr>answers := (answers d)(rx := rest)\<rparr>, rep)"
  using assms
proof (induction fs arbitrary: d)
  case Nil
  then show ?case by (subst wait_until.simps) (simp add: recv_def)
next
  case (Cons g fs)
  let ?d = "d\<lparr>answers := (answers d)(rx := fs @ f # rest)\<rparr>"
  have "wait_until j (recv rx) timed ?d = Some (?d\<lparr>answers := (answers ?d)(rx := rest)\<rparr>, rep)"
    using Cons(3,4) by (intro Cons.IH) simp_all
  with Cons(2,3) show ?case by (subst wait_until.simps) (simp add: recv_def)
qed

subsection \<open>Teardown\<close>

lemma teardown_torn: "torn s \<Longrightarrow> teardown m stop_demux s w = (s, w, Ok ())"
  by (simp add: teardown_def)

lemma teardown_outcome:
  assumes "teardown m stop_demux s w = (s', w', r)"
  shows "torn s' = (\<exists>u. r = Ok u)" "\<not> torn s \<Longrightarrow> \<not> has_machine s' \<and> \<not> has_image s'"
proof -
  have ok: "\<not> isl x \<longleftrightarrow> x = Ok ()" for x :: "(unit, 'b lc_error) result" by (cases x) simp_all
  show "torn s' = (\<exists>u. r = Ok u)" "\<not> torn s \<Longrightarrow> \<not> has_machine s' \<and> \<not> has_image s'"
    using assms by (auto simp: teardown_def Let_def ok split: prod.splits if_splits)
qed

section \<open>Properties\<close>

text \<open>Property C23. The console: whatever is written, in whatever pieces, the ring holds the latest
  megabyte of all output, \<^verbatim>\<open>tail\<close> is the end of it, and a tap which is still subscribed gets
  every write from its subscription on, in order, up to the bound of its queue.\<close>

theorem console_keeps_latest_output:
  shows "ring (sink_writes ws shared_default) = latest OUTPUT_BOUND (concat ws) \<and>
    console_tail n (sink_writes ws shared_default) = utf8_lossy (latest (min n OUTPUT_BOUND) (concat ws)) \<and>
    (let (c, t) = subscribe (sink_writes ws shared_default) in
     tap_queue (sink_writes more_ws c) t = take TAP_WRITES more_ws)"
proof (intro conjI)
  show r: "ring (sink_writes ws shared_default) = latest OUTPUT_BOUND (concat ws)"
    by (simp add: sink_writes_ring shared_default_def)
  show "console_tail n (sink_writes ws shared_default) = utf8_lossy (latest (min n OUTPUT_BOUND) (concat ws))"
    using latest_latest [of n OUTPUT_BOUND "concat ws"]
    unfolding console_tail_def r by (subst (asm) latest_def) simp
  let ?c = "fst (subscribe (sink_writes ws shared_default))" and ?t = "next_tap (sink_writes ws shared_default)"
  have ok: "taps_ok (sink_writes ws shared_default)"
    by (rule sink_writes_taps_ok) (simp add: taps_ok_def shared_default_def)
  then have "tap_queue ?c ?t = []" by (simp add: taps_ok_def subscribe_def)
  moreover from ok have "tap_queue (sink_writes more_ws ?c) ?t = take TAP_WRITES (tap_queue ?c ?t @ more_ws)"
    by (intro sink_writes_tap) (simp_all add: taps_ok_def subscribe_def)
  ultimately show "let (c, t) = subscribe (sink_writes ws shared_default) in
     tap_queue (sink_writes more_ws c) t = take TAP_WRITES more_ws"
    by (simp add: subscribe_def)
qed

end
