(* ===== verification/Agent_Pump.thy ===== *)
theory Agent_Pump
  imports Lcp
begin

text \<open>
  The commands an agent runs and the bytes it moves for those with a terminal, from
  \<^verbatim>\<open>src/lingcage/src/agent/session.rs\<close> and \<^verbatim>\<open>exec.rs\<close>: the poll set, the pump, the flush of the
  last output, and the deadlines.

  A file is a number and \<open>socks n\<close> its socket in the state \<open>'w\<close> of the guest.  How much of a
  \<^verbatim>\<open>VecDeque\<close> its first slice holds depends on where its ring wraps, so it is an argument
  \<open>head_of\<close>.  Diagnostics are left out.

  The lemmas show that no buffer exceeds its limit, that every byte of a stream is passed on in
  order or still buffered, and that a poll never waits past a kill which is due.
\<close>

section \<open>Commands\<close>

definition IDLE_POLL_MS :: int where "IDLE_POLL_MS = 30000"
definition BUSY_POLL_MS :: int where "BUSY_POLL_MS = 1000"
definition PUMP_CAP :: nat where "PUMP_CAP = 65536"
definition DRAIN_WITHIN :: nat where "DRAIN_WITHIN = 2000000000"
definition PUMP_CHUNK :: nat where "PUMP_CHUNK = 8192"

record pty =
  master :: "nat option"
  pty_input :: "nat option"
  pty_output :: "nat option"
  in_buf :: bytes
  out_buf :: bytes
  master_done :: bool

record child =
  ch_id :: u32
  ch_pid :: int
  kill_at :: "nat option"
  timed_out :: bool
  ch_pty :: "pty option"

section \<open>Pump\<close>

definition pauses :: "sock_error \<Rightarrow> bool" where
  "pauses e \<longleftrightarrow> e = SockWouldBlock \<or> e = SockInterrupted"

definition read_master :: "(nat \<Rightarrow> 'w sock) \<Rightarrow> pty \<Rightarrow> 'w \<Rightarrow> pty \<times> 'w" where
  "read_master socks p w =
     (if master_done p then (p, w)
      else case master p of
        None \<Rightarrow> (p, w)
      | Some m \<Rightarrow>
          (let discard = (pty_output p = None);
               room = (if discard then PUMP_CHUNK else min (PUMP_CAP - length (out_buf p)) PUMP_CHUNK) in
           if room = 0 then (p, w)
           else case sk_read (socks m) room w of
                  (w', Inr bs) \<Rightarrow>
                    (if bs = [] then (p\<lparr>master_done := True\<rparr>, w')
                     else if discard then (p, w') else (p\<lparr>out_buf := out_buf p @ bs\<rparr>, w'))
                | (w', Inl e) \<Rightarrow> (if pauses e then (p, w') else (p\<lparr>master_done := True\<rparr>, w'))))"

definition write_master :: "(nat \<Rightarrow> 'w sock) \<Rightarrow> (bytes \<Rightarrow> nat) \<Rightarrow> pty \<Rightarrow> 'w \<Rightarrow> pty \<times> 'w" where
  "write_master socks head_of p w =
     (if master_done p then (p, w)
      else case master p of
        None \<Rightarrow> (p, w)
      | Some m \<Rightarrow>
          (case sk_write (socks m) (take (head_of (in_buf p)) (in_buf p)) w of
             (w', Inr n) \<Rightarrow> (p\<lparr>in_buf := drop n (in_buf p)\<rparr>, w')
           | (w', Inl e) \<Rightarrow> (if pauses e then (p, w') else (p\<lparr>in_buf := [], master_done := True\<rparr>, w'))))"

definition end_input :: "pty \<Rightarrow> pty" where
  "end_input p = p\<lparr>in_buf := in_buf p @ [4], pty_input := None\<rparr>"

definition read_input :: "(nat \<Rightarrow> 'w sock) \<Rightarrow> pty \<Rightarrow> 'w \<Rightarrow> pty \<times> 'w" where
  "read_input socks p w =
     (case pty_input p of
        None \<Rightarrow> (p, w)
      | Some i \<Rightarrow>
          (let room = min (PUMP_CAP - length (in_buf p)) PUMP_CHUNK in
           if room = 0 then (p, w)
           else case sk_read (socks i) room w of
                  (w', Inr bs) \<Rightarrow> (if bs = [] then (end_input p, w') else (p\<lparr>in_buf := in_buf p @ bs\<rparr>, w'))
                | (w', Inl e) \<Rightarrow> (if pauses e then (p, w') else (end_input p, w'))))"

definition write_output :: "(nat \<Rightarrow> 'w sock) \<Rightarrow> (bytes \<Rightarrow> nat) \<Rightarrow> pty \<Rightarrow> 'w \<Rightarrow> pty \<times> 'w" where
  "write_output socks head_of p w =
     (case pty_output p of
        None \<Rightarrow> (p, w)
      | Some out \<Rightarrow>
          (case sk_write (socks out) (take (head_of (out_buf p)) (out_buf p)) w of
             (w', Inr n) \<Rightarrow> (p\<lparr>out_buf := drop n (out_buf p)\<rparr>, w')
           | (w', Inl e) \<Rightarrow> (if pauses e then (p, w') else (p\<lparr>out_buf := [], pty_output := None\<rparr>, w'))))"

subsection \<open>The poll set\<close>

definition POLLIN :: u16 where "POLLIN = 1"
definition POLLOUT :: u16 where "POLLOUT = 4"
definition POLLERR :: u16 where "POLLERR = 8"
definition POLLHUP :: u16 where "POLLHUP = 16"
definition POLLNVAL :: u16 where "POLLNVAL = 32"

datatype pump_slot = Master | Input | Output

record pollfd =
  pf_fd :: nat
  pf_events :: u16
  pf_revents :: u16

definition polling :: "nat \<Rightarrow> u16 \<Rightarrow> pollfd" where
  "polling fd ev = \<lparr>pf_fd = fd, pf_events = ev, pf_revents = 0\<rparr>"

text \<open>The entries of one command: its master, its input and its output, those with pending work.\<close>

definition master_events :: "pty \<Rightarrow> u16" where
  "master_events p =
     (if length (out_buf p) < PUMP_CAP \<or> pty_output p = None then POLLIN else 0) OR (if in_buf p \<noteq> [] then POLLOUT else 0)"

definition child_slots :: "nat \<Rightarrow> child \<Rightarrow> (pollfd \<times> nat \<times> pump_slot) list" where
  "child_slots idx c =
     (case ch_pty c of
        None \<Rightarrow> []
      | Some p \<Rightarrow>
          (case master p of
             Some m \<Rightarrow> if \<not> master_done p \<and> master_events p \<noteq> 0 then [(polling m (master_events p), idx, Master)] else []
           | None \<Rightarrow> []) @
          (case pty_input p of Some i \<Rightarrow> if length (in_buf p) < PUMP_CAP then [(polling i POLLIN, idx, Input)] else [] | None \<Rightarrow> []) @
          (case pty_output p of Some out \<Rightarrow> if out_buf p \<noteq> [] then [(polling out POLLOUT, idx, Output)] else [] | None \<Rightarrow> []))"

definition poll_set :: "nat \<Rightarrow> child list \<Rightarrow> pollfd list \<times> (nat \<times> pump_slot) list" where
  "poll_set control cs =
     (let all = concat (map (\<lambda>(idx, c). child_slots idx c) (List.enumerate 0 cs)) in
      (polling control POLLIN # map fst all, map snd all))"

definition pump_pty :: "(nat \<Rightarrow> 'w sock) \<Rightarrow> (bytes \<Rightarrow> nat) \<Rightarrow> pump_slot \<Rightarrow> u16 \<Rightarrow> pty \<Rightarrow> 'w \<Rightarrow> pty \<times> 'w" where
  "pump_pty socks head_of s revents p w =
     (case s of
        Master \<Rightarrow>
          (let (p1, w1) = (if revents AND (POLLIN OR POLLERR OR POLLHUP) \<noteq> 0 then read_master socks p w else (p, w)) in
           if revents AND POLLOUT \<noteq> 0 then write_master socks head_of p1 w1 else (p1, w1))
      | Input \<Rightarrow> if revents AND (POLLIN OR POLLERR OR POLLHUP) \<noteq> 0 then read_input socks p w else (p, w)
      | Output \<Rightarrow> if revents AND (POLLOUT OR POLLERR) \<noteq> 0 then write_output socks head_of p w else (p, w))"

definition close_output :: "pty \<Rightarrow> pty" where
  "close_output p = (if master_done p \<and> out_buf p = [] then p\<lparr>pty_output := None\<rparr> else p)"

text \<open>An index outside the commands panics in the source; \<open>poll_set\<close> makes none.\<close>

fun pump_slots :: "(nat \<Rightarrow> 'w sock) \<Rightarrow> (bytes \<Rightarrow> nat) \<Rightarrow> child list \<Rightarrow> pollfd list \<Rightarrow> (nat \<times> pump_slot) list \<Rightarrow> 'w \<Rightarrow> (child list \<times> 'w) option" where
  "pump_slots socks head_of cs (f # fs) ((idx, s) # ss) w =
     (if length cs \<le> idx then None
      else case ch_pty (cs ! idx) of
             None \<Rightarrow> pump_slots socks head_of cs fs ss w
           | Some p \<Rightarrow>
               (let (p', w') = pump_pty socks head_of s (pf_revents f) p w in
                pump_slots socks head_of (cs[idx := (cs ! idx)\<lparr>ch_pty := Some (close_output p')\<rparr>]) fs ss w'))"
| "pump_slots socks head_of cs _ _ w = Some (cs, w)"

section \<open>The last output\<close>

partial_function (option) drain_master :: "'w sock \<Rightarrow> bytes \<Rightarrow> 'w \<Rightarrow> (bytes \<times> 'w) option" where
  "drain_master k got w =
     (case sk_read k PUMP_CHUNK w of
        (w', Inr bs) \<Rightarrow> (if bs = [] then Some (got, w') else drain_master k (got @ bs) w')
      | (w', Inl _) \<Rightarrow> Some (got, w'))"

text \<open>Waiting for room: a poll answers or fails.\<close>

partial_function (option) push ::
  "'w timed \<Rightarrow> (nat \<Rightarrow> 'w \<Rightarrow> 'w \<times> (unit, sock_error) result) \<Rightarrow> 'w sock \<Rightarrow> nat \<Rightarrow> bytes \<Rightarrow> 'w \<Rightarrow>
   ('w \<times> (unit, sock_error) result) option" where
  "push t await k deadline bs w =
     (if bs = [] then Some (w, Ok ())
      else case sk_write k bs w of
             (w', Inr n) \<Rightarrow> (if n = 0 then Some (w', Err WriteZero) else push t await k deadline (drop n bs) w')
           | (w', Inl e) \<Rightarrow>
               (if e = SockInterrupted then push t await k deadline bs w'
                else if e = SockWouldBlock
                then (let (w1, now) = clock t w' in
                      if deadline \<le> now then Some (w1, Err SockTimedOut)
                      else case await (min ((deadline - now) div 1000000) (2 ^ 31 - 1)) w1 of
                             (w2, Inr _) \<Rightarrow> push t await k deadline bs w2
                           | (w2, Inl e2) \<Rightarrow> (if e2 = SockInterrupted then push t await k deadline bs w2 else Some (w2, Err e2)))
                else Some (w', Err e)))"

definition drain ::
  "'w timed \<Rightarrow> (nat \<Rightarrow> nat \<Rightarrow> 'w \<Rightarrow> 'w \<times> (unit, sock_error) result) \<Rightarrow> (nat \<Rightarrow> 'w sock) \<Rightarrow> (bytes \<Rightarrow> nat) \<Rightarrow> child \<Rightarrow> 'w \<Rightarrow> 'w option" where
  "drain t await socks head_of c w =
     (case ch_pty c of
        None \<Rightarrow> Some w
      | Some p \<Rightarrow>
          (case (case master p of None \<Rightarrow> Some (out_buf p, w) | Some m \<Rightarrow> drain_master (socks m) (out_buf p) w) of
             None \<Rightarrow> None
           | Some (buf, w1) \<Rightarrow>
               (case pty_output p of
                  None \<Rightarrow> Some w1
                | Some out \<Rightarrow>
                    (let (w2, now) = clock t w1; deadline = now + DRAIN_WITHIN in
                     case push t (await out) (socks out) deadline (take (head_of buf) buf) w2 of
                       None \<Rightarrow> None
                     | Some (w3, Inl _) \<Rightarrow> Some w3
                     | Some (w3, Inr _) \<Rightarrow> map_option fst (push t (await out) (socks out) deadline (drop (head_of buf) buf) w3)))))"

section \<open>Deadlines\<close>

definition kills :: "child list \<Rightarrow> nat list" where
  "kills cs = List.map_filter kill_at cs"

definition next_deadline :: "nat \<Rightarrow> child list \<Rightarrow> int" where
  "next_deadline now cs =
     (case map (\<lambda>t. t - now) (kills cs) of
        [] \<Rightarrow> BUSY_POLL_MS
      | l # ls \<Rightarrow>
          (let ms = fold min ls l div 1000000 in
           max 1 (min BUSY_POLL_MS (if ms < 2 ^ 31 then int ms else BUSY_POLL_MS))))"

text \<open>Sending a signal to a group; a failure is only logged.\<close>

definition SIGKILL_GROUP :: int where "SIGKILL_GROUP = 9"

definition due :: "nat \<Rightarrow> child \<Rightarrow> bool" where
  "due now c = (case kill_at c of None \<Rightarrow> False | Some t \<Rightarrow> t \<le> now)"

fun enforce_timeouts :: "(int \<Rightarrow> int \<Rightarrow> 'w \<Rightarrow> 'w) \<Rightarrow> nat \<Rightarrow> child list \<Rightarrow> 'w \<Rightarrow> child list \<times> 'w" where
  "enforce_timeouts kill now [] w = ([], w)"
| "enforce_timeouts kill now (c # cs) w =
     (let (c', w1) = (if due now c then (c\<lparr>kill_at := None, timed_out := True\<rparr>, kill (- ch_pid c) SIGKILL_GROUP w) else (c, w));
          (cs', w2) = enforce_timeouts kill now cs w1 in
      (c' # cs', w2))"

fun signal_command :: "(int \<Rightarrow> int \<Rightarrow> 'w \<Rightarrow> 'w) \<Rightarrow> child list \<Rightarrow> u32 \<Rightarrow> int \<Rightarrow> 'w \<Rightarrow> 'w" where
  "signal_command kill [] i sig w = w"
| "signal_command kill (c # cs) i sig w = (if ch_id c \<noteq> i then signal_command kill cs i sig w else kill (- ch_pid c) sig w)"

fun resize :: "(nat \<Rightarrow> pty_size \<Rightarrow> 'w \<Rightarrow> 'w) \<Rightarrow> child list \<Rightarrow> u32 \<Rightarrow> pty_size \<Rightarrow> 'w \<Rightarrow> 'w" where
  "resize set_size [] i sz w = w"
| "resize set_size (c # cs) i sz w =
     (if ch_id c \<noteq> i then resize set_size cs i sz w
      else case ch_pty c of
             None \<Rightarrow> w
           | Some p \<Rightarrow> (case master p of None \<Rightarrow> w | Some m \<Rightarrow> set_size m sz w))"

section \<open>Lemmas\<close>

subsection \<open>Deadlines\<close>

lemma fold_min_le: "fold min ls (l :: nat) \<le> l \<and> (\<forall>x \<in> set ls. fold min ls l \<le> x)"
proof (induction ls arbitrary: l)
  case (Cons a ls)
  from Cons [of "min a l"] show ?case by auto
qed simp

lemma next_deadline_bounds: "1 \<le> next_deadline now cs" "next_deadline now cs \<le> BUSY_POLL_MS"
  by (auto simp: next_deadline_def BUSY_POLL_MS_def Let_def split: list.splits)

lemma kills_set: "t \<in> set (kills cs) \<longleftrightarrow> (\<exists>c \<in> set cs. kill_at c = Some t)"
  by (induction cs) (auto simp: kills_def List.map_filter_def)

lemma next_deadline_in_time:
  assumes "c \<in> set cs" "kill_at c = Some t"
  shows "next_deadline now cs * 1000000 \<le> max 1000000 (int t - int now)"
proof -
  have "t - now \<in> set (map (\<lambda>t. t - now) (kills cs))" using assms by (force simp: kills_set)
  then obtain l ls where l: "map (\<lambda>t. t - now) (kills cs) = l # ls" "t - now \<in> set (l # ls)"
    by (cases "map (\<lambda>t. t - now) (kills cs)") auto
  define ms where "ms = fold min ls l div 1000000"
  have "fold min ls l \<le> t - now" using l(2) fold_min_le [of ls l] by auto
  then have ms: "int ms * 1000000 \<le> int (t - now)" unfolding ms_def by linarith
  have "next_deadline now cs = max 1 (min BUSY_POLL_MS (if ms < 2 ^ 31 then int ms else BUSY_POLL_MS))"
    using l(1) by (simp add: next_deadline_def ms_def Let_def)
  with ms show ?thesis by (auto simp: BUSY_POLL_MS_def max_def min_def split: if_splits)
qed

lemma enforce_timeouts_children:
  "fst (enforce_timeouts kill now cs w) = map (\<lambda>c. if due now c then c\<lparr>kill_at := None, timed_out := True\<rparr> else c) cs"
  by (induction cs arbitrary: w) (auto simp: Let_def case_prod_beta)

lemma enforce_timeouts_kills:
  "snd (enforce_timeouts kill now cs w) = fold (\<lambda>c. kill (- ch_pid c) SIGKILL_GROUP) (filter (due now) cs) w"
  by (induction cs arbitrary: w) (auto simp: Let_def case_prod_beta)

subsection \<open>Buffers\<close>

definition pty_wf :: "pty \<Rightarrow> bool" where
  "pty_wf p \<longleftrightarrow> length (out_buf p) \<le> PUMP_CAP \<and> length (in_buf p) \<le> PUMP_CAP"

text \<open>Descriptors of one table: each is a stream, and a call on one leaves the others alone.\<close>

locale file_table =
  fixes socks :: "nat \<Rightarrow> 'w sock" and out inp :: "nat \<Rightarrow> 'w \<Rightarrow> bytes"
  assumes stream: "stream_socket (socks n) (out n) (inp n)"
    and write_apart: "sk_write (socks m) bs w = (w', r) \<Longrightarrow> n \<noteq> m \<Longrightarrow> out n w' = out n w \<and> inp n w' = inp n w"
    and read_apart: "sk_read (socks m) k w = (w', r') \<Longrightarrow> n \<noteq> m \<Longrightarrow> out n w' = out n w \<and> inp n w' = inp n w"
begin

lemmas write_ok = stream_socket.write_ok [OF stream]
lemmas write_err = stream_socket.write_err [OF stream]
lemmas read_ok = stream_socket.read_ok [OF stream]
lemmas read_err = stream_socket.read_err [OF stream]

text \<open>What the output of the terminal is to become, and its input.\<close>

definition outward :: "nat \<Rightarrow> nat \<Rightarrow> pty \<Rightarrow> 'w \<Rightarrow> bytes" where
  "outward m t p w = out t w @ out_buf p @ inp m w"

definition inward :: "nat \<Rightarrow> nat \<Rightarrow> pty \<Rightarrow> 'w \<Rightarrow> bytes" where
  "inward m i p w = out m w @ in_buf p @ inp i w"

text \<open>One transfer: the limits hold, an output still connected loses nothing, and the input of a
  master still served is passed on whole, or ends with a single EOT behind what was buffered.\<close>

definition moved :: "nat \<Rightarrow> nat \<Rightarrow> nat \<Rightarrow> pty \<times> 'w \<Rightarrow> pty \<times> 'w \<Rightarrow> bool" where
  "moved m i t x y \<longleftrightarrow>
     (case (x, y) of ((p, w), (p', w')) \<Rightarrow>
        (pty_wf p \<longrightarrow> pty_wf p') \<and>
        (pty_output p = Some t \<longrightarrow> pty_output p' = Some t \<longrightarrow> outward m t p' w' = outward m t p w) \<and>
        (\<not> master_done p' \<longrightarrow> pty_input p = Some i \<longrightarrow>
          (if pty_input p' = Some i then inward m i p' w' = inward m i p w
           else pty_input p' = None \<and> out m w' @ in_buf p' = out m w @ in_buf p @ [4])) \<and>
        (\<not> master_done p' \<longrightarrow> pty_input p = None \<longrightarrow> pty_input p' = None \<and> out m w' @ in_buf p' = out m w @ in_buf p))"

lemma moved_refl [simp]: "pty_input p \<in> {None, Some i} \<Longrightarrow> moved m i t (p, w) (p, w)"
  by (auto simp: moved_def)

lemma read_master_moves:
  assumes "master p = Some m" "m \<noteq> i" "m \<noteq> t" "pty_input p \<in> {None, Some i}" "pty_output p \<in> {None, Some t}"
  shows "moved m i t (p, w) (read_master socks p w)"
proof -
  define room where "room = (if pty_output p = None then PUMP_CHUNK else min (PUMP_CAP - length (out_buf p)) PUMP_CHUNK)"
  obtain w' r where r: "sk_read (socks m) room w = (w', r)" by fastforce
  note apart = read_apart [OF r, of t] read_apart [OF r, of i]
  show ?thesis
  proof (cases r)
    case (Inl e)
    with read_err r have "inp m w' = inp m w" "out m w' = out m w" by blast+
    with assms r Inl apart show ?thesis
      by (auto simp: read_master_def Let_def room_def [symmetric] moved_def outward_def inward_def pty_wf_def)
  next
    case (Inr bs)
    with read_ok r have "length bs \<le> room" "inp m w = bs @ inp m w'" "out m w' = out m w" by blast+
    with assms r Inr apart show ?thesis
      by (auto simp: read_master_def Let_def room_def [symmetric] moved_def outward_def inward_def pty_wf_def)
        (auto simp: room_def split: if_splits)
  qed
qed

lemma write_master_moves:
  assumes "master p = Some m" "m \<noteq> i" "m \<noteq> t" "pty_input p \<in> {None, Some i}" "pty_output p \<in> {None, Some t}"
  shows "moved m i t (p, w) (write_master socks head_of p w)"
proof -
  let ?h = "take (head_of (in_buf p)) (in_buf p)"
  obtain w' r where r: "sk_write (socks m) ?h w = (w', r)" by fastforce
  note apart = write_apart [OF r, of t] write_apart [OF r, of i]
  show ?thesis
  proof (cases r)
    case (Inl e)
    with write_err r have "inp m w' = inp m w" "out m w' = out m w" by blast+
    with assms r Inl apart show ?thesis
      by (auto simp: write_master_def moved_def outward_def inward_def pty_wf_def)
  next
    case (Inr n)
    with write_ok r have n: "n \<le> length ?h" "out m w' = out m w @ take n ?h" "inp m w' = inp m w" by blast+
    from this(1) have "take n ?h @ drop n (in_buf p) = in_buf p" by (simp add: min_absorb1)
    with n(2) have key: "out m w' @ drop n (in_buf p) @ xs = out m w @ in_buf p @ xs" for xs
      by (metis append.assoc)
    from key [of "[]"] key n(3) assms r Inr apart show ?thesis
      by (auto simp: write_master_def moved_def outward_def inward_def pty_wf_def)
  qed
qed

lemma read_input_moves:
  assumes "master p = Some m" "m \<noteq> i" "i \<noteq> t" "pty_input p \<in> {None, Some i}" "pty_output p \<in> {None, Some t}"
  shows "moved m i t (p, w) (read_input socks p w)"
proof (cases "pty_input p")
  case None
  then show ?thesis using assms by (simp add: read_input_def)
next
  case (Some i')
  then have i': "i' = i" using assms by simp
  let ?room = "min (PUMP_CAP - length (in_buf p)) PUMP_CHUNK"
  obtain w' r where r: "sk_read (socks i) ?room w = (w', r)" by fastforce
  note apart = read_apart [OF r, of t] read_apart [OF r, of m]
  show ?thesis
  proof (cases r)
    case (Inl e)
    with read_err r have "inp i w' = inp i w" "out i w' = out i w" by blast+
    with assms r Inl apart Some i' show ?thesis
      by (auto simp: read_input_def Let_def end_input_def moved_def outward_def inward_def pty_wf_def)
  next
    case (Inr bs)
    with read_ok r have "length bs \<le> ?room" "inp i w = bs @ inp i w'" "out i w' = out i w" by blast+
    with assms r Inr apart Some i' show ?thesis
      by (auto simp: read_input_def Let_def end_input_def moved_def outward_def inward_def pty_wf_def)
  qed
qed

lemma write_output_moves:
  assumes "master p = Some m" "m \<noteq> t" "i \<noteq> t" "pty_input p \<in> {None, Some i}" "pty_output p \<in> {None, Some t}"
  shows "moved m i t (p, w) (write_output socks head_of p w)"
proof (cases "pty_output p")
  case None
  then show ?thesis using assms by (simp add: write_output_def)
next
  case (Some t')
  then have t': "t' = t" using assms by simp
  let ?h = "take (head_of (out_buf p)) (out_buf p)"
  obtain w' r where r: "sk_write (socks t) ?h w = (w', r)" by fastforce
  note apart = write_apart [OF r, of m] write_apart [OF r, of i]
  show ?thesis
  proof (cases r)
    case (Inl e)
    with write_err r have "inp t w' = inp t w" "out t w' = out t w" by blast+
    with assms r Inl apart Some t' show ?thesis
      by (auto simp: write_output_def moved_def outward_def inward_def pty_wf_def)
  next
    case (Inr n)
    with write_ok r have n: "n \<le> length ?h" "out t w' = out t w @ take n ?h" "inp t w' = inp t w" by blast+
    from this(1) have "take n ?h @ drop n (out_buf p) = out_buf p" by (simp add: min_absorb1)
    with n(2) have key: "out t w' @ drop n (out_buf p) @ xs = out t w @ out_buf p @ xs" for xs
      by (metis append.assoc)
    from key [of "[]"] key n(3) assms r Inr apart Some t' show ?thesis
      by (auto simp: write_output_def moved_def outward_def inward_def pty_wf_def)
  qed
qed

lemma moved_trans:
  assumes "moved m i t (p, w) (p1, w1)" "moved m i t (p1, w1) (p2, w2)" "pty_output p1 = pty_output p"
    and "pty_input p1 = pty_input p" "pty_input p2 = pty_input p" "master_done p1 \<longrightarrow> master_done p2"
  shows "moved m i t (p, w) (p2, w2)"
proof -
  have "outward m t p2 w2 = outward m t p w" if "pty_output p = Some t" "pty_output p2 = Some t"
    using assms that by (simp add: moved_def)
  moreover have "inward m i p2 w2 = inward m i p w" if "\<not> master_done p2" "pty_input p = Some i"
    using assms that by (simp add: moved_def)
  moreover have "out m w2 @ in_buf p2 = out m w @ in_buf p" if "\<not> master_done p2" "pty_input p = None"
    using assms that by (simp add: moved_def)
  moreover have "pty_wf p2" if "pty_wf p" using assms(1,2) that by (simp add: moved_def)
  ultimately show ?thesis using assms(5) by (simp add: moved_def)
qed

lemma read_master_fields:
  "pty_output (fst (read_master socks p w)) = pty_output p" "pty_input (fst (read_master socks p w)) = pty_input p"
  "master (fst (read_master socks p w)) = master p"
  by (auto simp: read_master_def Let_def split: option.splits prod.splits sum.splits)

lemma write_master_fields:
  "master_done p \<longrightarrow> master_done (fst (write_master socks head_of p w))"
  "pty_input (fst (write_master socks head_of p w)) = pty_input p"
  by (auto simp: write_master_def split: option.splits prod.splits sum.splits)

lemma pump_pty_moves:
  assumes "master p = Some m" "distinct [m, i, t]" "pty_input p \<in> {None, Some i}" "pty_output p \<in> {None, Some t}"
  shows "moved m i t (p, w) (pump_pty socks head_of s revents p w)"
proof (cases s)
  case Master
  obtain p1 w1 where y: "(if revents AND (POLLIN OR POLLERR OR POLLHUP) \<noteq> 0 then read_master socks p w else (p, w)) = (p1, w1)"
    by fastforce
  have first: "moved m i t (p, w) (p1, w1)"
    using y assms read_master_moves [of p m i t w] by (auto split: if_splits)
  have same: "pty_output p1 = pty_output p" "pty_input p1 = pty_input p" "master p1 = master p"
    using y read_master_fields [of p w] by (auto split: if_splits)
  show ?thesis
  proof (cases "revents AND POLLOUT = 0")
    case True
    with y first Master show ?thesis by (simp add: pump_pty_def)
  next
    case False
    obtain p2 w2 where z: "write_master socks head_of p1 w1 = (p2, w2)" by fastforce
    have "moved m i t (p1, w1) (p2, w2)"
      using write_master_moves [of p1 m i t w1 head_of] same assms z by simp
    with first have "moved m i t (p, w) (p2, w2)"
      using same z write_master_fields [where p = p1 and head_of = head_of and w = w1] by (intro moved_trans [OF first]) simp_all
    with y z False Master show ?thesis by (simp add: pump_pty_def)
  qed
next
  case Input
  then show ?thesis using assms read_input_moves by (simp add: pump_pty_def)
next
  case Output
  then show ?thesis using assms write_output_moves by (simp add: pump_pty_def)
qed

end

text \<open>A table of sockets on lists.\<close>

definition table_sock :: "nat \<Rightarrow> (nat \<Rightarrow> bytes \<times> bytes) sock" where
  "table_sock n = \<lparr>sk_write = (\<lambda>bs w. (w(n := fst (sk_write (list_sock 99) bs (w n))), snd (sk_write (list_sock 99) bs (w n)))),
     sk_read = (\<lambda>k w. (w(n := fst (sk_read (list_sock 99) k (w n))), snd (sk_read (list_sock 99) k (w n)))), sk_fd = int n\<rparr>"

interpretation table_sock: file_table table_sock "\<lambda>n w. fst (w n)" "\<lambda>n w. snd (w n)"
  by unfold_locales (auto simp: table_sock_def list_sock_def min_def split: if_splits)

lemma pump_poll_set:
  assumes "list_all (\<lambda>(idx, s). idx < length cs) ss"
  shows "\<exists>cs' w'. pump_slots socks head_of cs fs ss w = Some (cs', w') \<and> length cs' = length cs"
  using assms
  by (induction socks head_of cs fs ss w rule: pump_slots.induct) (auto simp: Let_def split: option.splits prod.splits)

lemma poll_set_slots: "list_all (\<lambda>(idx, s). idx < length cs) (snd (poll_set control cs))"
  by (auto simp: poll_set_def Let_def list_all_iff child_slots_def in_set_enumerate_eq
      split: option.splits if_splits)

section \<open>Properties\<close>

text \<open>Property C24. What one pass of the pump does to a terminal, whatever the descriptors answer:
  both buffers stay within 64 KiB; while the output stream is connected, what was written to it,
  what is buffered and what the terminal still has to say is the same stream as before; and while
  the master is served the input is passed on whole, or is ended with one EOT behind it.\<close>

theorem pump_carries_terminal:
  assumes "file_table socks out inp" "master p = Some m" "distinct [m, i, t]"
    and "pty_input p \<in> {None, Some i}" "pty_output p \<in> {None, Some t}"
    and "pump_pty socks head_of s revents p w = (p', w')"
  shows "(pty_wf p \<longrightarrow> pty_wf p') \<and>
    (pty_output p = Some t \<longrightarrow> pty_output p' = Some t \<longrightarrow>
      out t w' @ out_buf p' @ inp m w' = out t w @ out_buf p @ inp m w) \<and>
    (\<not> master_done p' \<longrightarrow> pty_input p = Some i \<longrightarrow>
      (if pty_input p' = Some i then out m w' @ in_buf p' @ inp i w' = out m w @ in_buf p @ inp i w
       else pty_input p' = None \<and> out m w' @ in_buf p' = out m w @ in_buf p @ [4]))"
  using file_table.pump_pty_moves [OF assms(1-5), of w head_of s revents] assms(6)
  unfolding file_table.moved_def [OF assms(1)] file_table.outward_def [OF assms(1)] file_table.inward_def [OF assms(1)]
  by simp

theorem pump_carries_terminal_witness:
  "let p = \<lparr>master = Some 3, pty_input = Some 4, pty_output = Some 5, in_buf = [], out_buf = [1], master_done = False\<rparr>;
     w = (\<lambda>_. ([], []))(3 := ([], [2, 3])) in
   case pump_pty table_sock length Master POLLIN p w of
     (p', w') \<Rightarrow> out_buf p' = [1, 2, 3] \<and> pty_wf p' \<and> fst (w' 5) @ out_buf p' @ snd (w' 3) = [1, 2, 3]"
proof -
  let ?p = "\<lparr>master = Some 3, pty_input = Some 4, pty_output = Some 5, in_buf = [], out_buf = [1], master_done = False\<rparr>"
  let ?w = "(\<lambda>_. ([], []))(3 := ([], [2, 3])) :: nat \<Rightarrow> bytes \<times> bytes"
  have run: "pump_pty table_sock length Master POLLIN ?p ?w = (?p\<lparr>out_buf := [1, 2, 3]\<rparr>, \<lambda>_. ([], []))"
    by (simp add: pump_pty_def read_master_def table_sock_def list_sock_def POLLIN_def POLLOUT_def POLLERR_def POLLHUP_def PUMP_CAP_def
        PUMP_CHUNK_def Let_def fun_eq_iff)
  from pump_carries_terminal [OF table_sock.file_table_axioms _ _ _ _ this, of 3 4 5] show ?thesis
    by (simp add: run Let_def pty_wf_def PUMP_CAP_def)
qed



end
