(* ===== verification/Agent_Session.thy ===== *)
theory Agent_Session
  imports Agent_Pump Rust_Text Demux
begin

text \<open>
  One session of the agent in the guest: \<^verbatim>\<open>src/lingcage/src/agent/session.rs\<close> (frames, reaping and
  the loop), \<^verbatim>\<open>exec.rs\<close> (starting a command) and \<^verbatim>\<open>guest.rs\<close> (the identity and the clock).

  System calls are the parameters of \<open>agent_sys\<close> and \<open>guest_sys\<close>; what the forked child does
  before \<^verbatim>\<open>execvp\<close> is inside \<open>a_fork\<close>.  Diagnostics are left out.

  The lemmas show how each frame is answered, that every command started is tracked until its
  exit is reported, and that none outlives the session.
\<close>

section \<open>Starting a command\<close>

datatype spawn_error = SpawnFailed exec_failed | SpawnOther string string

record spawn_spec =
  sp_program :: string
  sp_args :: "string list"
  sp_env :: "(string \<times> string) list"
  sp_cwd :: "string option"
  sp_stdio :: "nat \<times> nat \<times> nat"
  sp_controlling :: bool
  sp_report :: nat

text \<open>\<open>err_text\<close> is the text of an error; \<open>a_close\<close> drops a file.\<close>

record 'w agent_sys =
  a_socks :: "nat \<Rightarrow> 'w sock"
  a_timed :: "'w timed"
  a_connect :: "u32 \<Rightarrow> 'w \<Rightarrow> 'w \<times> (nat, sock_error) result"
  a_openpty :: "pty_size \<Rightarrow> 'w \<Rightarrow> 'w \<times> (nat \<times> nat, sock_error) result"
  a_devnull :: "'w \<Rightarrow> 'w \<times> (nat, sock_error) result"
  a_pipe :: "'w \<Rightarrow> 'w \<times> (nat \<times> nat, sock_error) result"
  a_fork :: "spawn_spec \<Rightarrow> 'w \<Rightarrow> 'w \<times> (int, sock_error) result"
  a_close :: "nat \<Rightarrow> 'w \<Rightarrow> 'w"
  a_nonblocking :: "nat \<Rightarrow> 'w \<Rightarrow> 'w \<times> (unit, sock_error) result"
  a_kill :: "int \<Rightarrow> int \<Rightarrow> 'w \<Rightarrow> 'w"
  a_waitpid :: "int \<Rightarrow> bool \<Rightarrow> 'w \<Rightarrow> 'w \<times> (u32 option, sock_error) result"
  a_resize :: "nat \<Rightarrow> pty_size \<Rightarrow> 'w \<Rightarrow> 'w"
  a_wait_room :: "nat \<Rightarrow> nat \<Rightarrow> 'w \<Rightarrow> 'w \<times> (unit, sock_error) result"
  a_poll :: "pollfd list \<Rightarrow> int \<Rightarrow> 'w \<Rightarrow> 'w \<times> (pollfd list \<times> nat, sock_error) result"
  a_identify :: "identify \<Rightarrow> 'w \<Rightarrow> 'w \<times> string"
  a_power_off :: "'w \<Rightarrow> 'w"
  a_head :: "bytes \<Rightarrow> nat"
  err_text :: "sock_error \<Rightarrow> string"

definition spawn_connect :: "'w agent_sys \<Rightarrow> u32 \<Rightarrow> sock_error \<Rightarrow> spawn_error" where
  "spawn_connect s port e = SpawnOther ''exec.connect'' (''port '' @ shown (unat port) @ '': '' @ err_text s e)"

definition spawn_failed :: "'w agent_sys \<Rightarrow> string \<Rightarrow> sock_error \<Rightarrow> spawn_error" where
  "spawn_failed s what e = SpawnOther ''exec.spawn'' (what @ '': '' @ err_text s e)"

definition agent_open :: "'w agent_sys \<Rightarrow> lcp_stream \<Rightarrow> 'w \<Rightarrow> ('w \<times> (nat, spawn_error) result) option" where
  "agent_open s st w =
     (case a_connect s (ls_port st) w of
        (w1, Inl e) \<Rightarrow> Some (w1, Err (spawn_connect s (ls_port st) e))
      | (w1, Inr f) \<Rightarrow>
          (case write_all (a_socks s f) (to_be 8 (ls_nonce st)) w1 of
             None \<Rightarrow> None
           | Some (w2, Inl e) \<Rightarrow> Some (a_close s f w2, Err (spawn_connect s (ls_port st) e))
           | Some (w2, Inr _) \<Rightarrow> Some (w2, Ok f)))"

definition ENOENT :: int where "ENOENT = 2"
definition EACCES :: int where "EACCES = 13"
definition ENOEXEC :: int where "ENOEXEC = 8"

definition failure_of :: "int \<Rightarrow> failure" where
  "failure_of errno = (if errno = ENOENT then NotFound else if errno = EACCES then Permission
     else if errno = ENOEXEC then Format else OtherFailure)"

text \<open>Reading the failure pipe; four bytes, or fewer if the writer ended early, the rest zero.\<close>

partial_function (option) read_report :: "'w sock \<Rightarrow> bytes \<Rightarrow> 'w \<Rightarrow> ('w \<times> (bytes, sock_error) result) option" where
  "read_report k got w =
     (if length got < 4
      then (case sk_read k (4 - length got) w of
              (w', Inr bs) \<Rightarrow> (if bs = [] then Some (w', Ok got) else read_report k (got @ bs) w')
            | (w', Inl e) \<Rightarrow> (if e = SockInterrupted then read_report k got w' else Some (w', Err e)))
      else Some (w, Ok got))"

definition reported :: "'w sock \<Rightarrow> 'w \<Rightarrow> ('w \<times> (exec_failed option, sock_error) result) option" where
  "reported k w =
     map_option (\<lambda>(w', r). (w', and_then r (\<lambda>bs.
        if bs = [] then Ok None
        else let errno = sint (from_le (bs @ replicate (4 - length bs) 0) :: u32) in
             Ok (Some \<lparr>xf_reason = failure_of errno, xf_errno = errno\<rparr>)))) (read_report k [] w)"

definition cstring :: "string \<Rightarrow> string \<Rightarrow> (string, spawn_error) result" where
  "cstring t what = (if CHR 0x00 \<in> set t then Err (SpawnOther ''exec.spawn'' (what @ '' contains NUL byte'')) else Ok t)"

primrec collect :: "('a \<Rightarrow> ('b, 'e) result) \<Rightarrow> 'a list \<Rightarrow> ('b list, 'e) result" where
  "collect f [] = Ok []"
| "collect f (x # xs) = and_then (f x) (\<lambda>y. and_then (collect f xs) (\<lambda>ys. Ok (y # ys)))"

text \<open>The environment is a \<^verbatim>\<open>BTreeMap\<close>; \<open>env\<close> lists it in the order of its keys.\<close>

definition spec_of :: "exec \<Rightarrow> (string \<times> string) list \<Rightarrow> nat \<times> nat \<times> nat \<Rightarrow> bool \<Rightarrow> nat \<Rightarrow> (spawn_spec, spawn_error) result" where
  "spec_of x env stdio controlling report =
     and_then (cstring (x_program x) ''the program'') (\<lambda>prog.
     and_then (collect (\<lambda>a. cstring a ''an argument'') (x_args x)) (\<lambda>args.
     and_then (collect (\<lambda>(k, v). and_then (cstring k ''environment name'') (\<lambda>k'.
       and_then (cstring v ''environment value'') (\<lambda>v'. Ok (k', v')))) env) (\<lambda>env'.
     and_then (case x_cwd x of None \<Rightarrow> Ok None | Some c \<Rightarrow> and_then (cstring c ''working directory'') (\<lambda>c'. Ok (Some c'))) (\<lambda>cwd.
     Ok \<lparr>sp_program = prog, sp_args = args, sp_env = env', sp_cwd = cwd, sp_stdio = stdio, sp_controlling = controlling, sp_report = report\<rparr>))))"

partial_function (option) reap_now :: "'w agent_sys \<Rightarrow> int \<Rightarrow> 'w \<Rightarrow> 'w option" where
  "reap_now s pid w =
     (case a_waitpid s pid True w of
        (w', Inr _) \<Rightarrow> Some w'
      | (w', Inl e) \<Rightarrow> (if e = SockInterrupted then reap_now s pid w' else Some w'))"

primrec set_all_nonblocking :: "'w agent_sys \<Rightarrow> nat list \<Rightarrow> 'w \<Rightarrow> 'w \<times> (unit, sock_error) result" where
  "set_all_nonblocking s [] w = (w, Ok ())"
| "set_all_nonblocking s (f # fs) w =
     (case a_nonblocking s f w of (w', Inl e) \<Rightarrow> (w', Err e) | (w', Inr _) \<Rightarrow> set_all_nonblocking s fs w')"

primrec close_all :: "'w agent_sys \<Rightarrow> nat list \<Rightarrow> 'w \<Rightarrow> 'w" where
  "close_all s [] w = w"
| "close_all s (f # fs) w = close_all s fs (a_close s f w)"

text \<open>From the fork on.  \<open>files\<close> are those the parent still owns, dropped at every return which
  does not hand them on.\<close>

definition child_of :: "u32 \<Rightarrow> exec \<Rightarrow> int \<Rightarrow> nat \<Rightarrow> pty option \<Rightarrow> child" where
  "child_of i x pid now p = \<lparr>ch_id = i, ch_pid = pid, kill_at = map_option (\<lambda>ms. now + unat ms * 1000000) (x_timeout_ms x),
     timed_out = False, ch_pty = p\<rparr>"

definition start_forked ::
  "'w agent_sys \<Rightarrow> u32 \<Rightarrow> exec \<Rightarrow> nat option \<Rightarrow> nat \<Rightarrow> nat \<Rightarrow> (nat \<times> nat) option \<Rightarrow> nat list \<Rightarrow> nat \<Rightarrow> int \<Rightarrow> 'w \<Rightarrow>
   ('w \<times> (child, spawn_error) result) option" where
  "start_forked s i x stdin stdout stderr pty files rd pid w =
     (case reported (a_socks s rd) w of
        None \<Rightarrow> None
      | Some (w1, Inl e) \<Rightarrow> Some (close_all s (rd # files) w1, Err (spawn_failed s ''failure report'' e))
      | Some (w1, Inr (Some failed)) \<Rightarrow>
          map_option (\<lambda>w2. (close_all s (rd # files) w2, Err (SpawnFailed failed))) (reap_now s pid w1)
      | Some (w1, Inr None) \<Rightarrow>
          (case pty of
             None \<Rightarrow> (let (w2, now) = clock (a_timed s) w1 in Some (close_all s (rd # files) w2, Ok (child_of i x pid now None)))
           | Some (m, sl) \<Rightarrow>
               (case set_all_nonblocking s ([m, stdout] @ (case stdin of None \<Rightarrow> [] | Some f \<Rightarrow> [f])) (close_all s [sl, stderr] w1) of
                  (w2, Inl e) \<Rightarrow>
                    map_option (\<lambda>w3. (close_all s (rd # filter (\<lambda>f. f \<noteq> sl \<and> f \<noteq> stderr) files) w3, Err (spawn_failed s ''pump setup'' e)))
                      (reap_now s pid (a_kill s (- pid) 9 w2))
                | (w2, Inr _) \<Rightarrow>
                    (let (w3, now) = clock (a_timed s) w2 in
                     Some (a_close s rd w3, Ok (child_of i x pid now
                       (Some \<lparr>master = Some m, pty_input = stdin, pty_output = Some stdout, in_buf = [], out_buf = [], master_done = False\<rparr>)))))))"

definition start_fork ::
  "'w agent_sys \<Rightarrow> u32 \<Rightarrow> exec \<Rightarrow> (string \<times> string) list \<Rightarrow> nat option \<Rightarrow> nat \<Rightarrow> nat \<Rightarrow> (nat \<times> nat) option \<Rightarrow> nat option \<Rightarrow> nat list \<Rightarrow> 'w \<Rightarrow>
   ('w \<times> (child, spawn_error) result) option" where
  "start_fork s i x env stdin stdout stderr pty null files w =
     (let stdio = (case pty of Some (_, sl) \<Rightarrow> (sl, sl, sl)
          | None \<Rightarrow> (case stdin of Some f \<Rightarrow> f | None \<Rightarrow> the null, stdout, stderr)) in
      case spec_of x env stdio (pty \<noteq> None) 0 of
        Inl e \<Rightarrow> Some (close_all s files w, Err e)
      | Inr spec \<Rightarrow>
          (case a_pipe s w of
             (w1, Inl e) \<Rightarrow> Some (close_all s files w1, Err (spawn_failed s ''failure pipe'' e))
           | (w1, Inr (rd, wr)) \<Rightarrow>
               (case a_fork s (spec\<lparr>sp_report := wr\<rparr>) w1 of
                  (w2, Inl e) \<Rightarrow> Some (close_all s (wr # rd # files) w2, Err (spawn_failed s ''the fork'' e))
                | (w2, Inr pid) \<Rightarrow> start_forked s i x stdin stdout stderr pty files rd pid (a_close s wr w2))))"

definition start_opened ::
  "'w agent_sys \<Rightarrow> u32 \<Rightarrow> exec \<Rightarrow> (string \<times> string) list \<Rightarrow> nat option \<Rightarrow> nat \<Rightarrow> nat \<Rightarrow> 'w \<Rightarrow> ('w \<times> (child, spawn_error) result) option" where
  "start_opened s i x env stdin stdout stderr w =
     (let files = (case stdin of None \<Rightarrow> [] | Some f \<Rightarrow> [f]) @ [stderr, stdout] in
      case x_pty x of
        Some sz \<Rightarrow>
          (case a_openpty s sz w of
             (w1, Inl e) \<Rightarrow> Some (close_all s files w1, Err (spawn_failed s ''the pty'' e))
           | (w1, Inr (m, sl)) \<Rightarrow> start_fork s i x env stdin stdout stderr (Some (m, sl)) None (m # sl # files) w1)
      | None \<Rightarrow>
          (case stdin of
             Some _ \<Rightarrow> start_fork s i x env stdin stdout stderr None None files w
           | None \<Rightarrow>
               (case a_devnull s w of
                  (w1, Inl e) \<Rightarrow> Some (close_all s files w1, Err (spawn_failed s ''/dev/null'' e))
                | (w1, Inr null) \<Rightarrow> start_fork s i x env None stdout stderr None (Some null) (null # files) w1)))"

definition start :: "'w agent_sys \<Rightarrow> u32 \<Rightarrow> exec \<Rightarrow> (string \<times> string) list \<Rightarrow> 'w \<Rightarrow> ('w \<times> (child, spawn_error) result) option" where
  "start s i x env w =
     (if x_user x \<noteq> None then Some (w, Err (SpawnOther ''exec.unsupported'' ''running as another user is not supported''))
      else case agent_open s (x_stdout x) w of
        None \<Rightarrow> None
      | Some (w1, Inl e) \<Rightarrow> Some (w1, Err e)
      | Some (w1, Inr out) \<Rightarrow>
          (case agent_open s (x_stderr x) w1 of
             None \<Rightarrow> None
           | Some (w2, Inl e) \<Rightarrow> Some (a_close s out w2, Err e)
           | Some (w2, Inr err) \<Rightarrow>
               (case x_stdin x of
                  None \<Rightarrow> start_opened s i x env None out err w2
                | Some st \<Rightarrow>
                    (case agent_open s st w2 of
                       None \<Rightarrow> None
                     | Some (w3, Inl e) \<Rightarrow> Some (close_all s [err, out] w3, Err e)
                     | Some (w3, Inr f) \<Rightarrow> start_opened s i x env (Some f) out err w3))))"

section \<open>Frames\<close>

record ('f) agent_json =
  aj_ready :: "'f ready json"
  aj_identify :: "identify json"
  aj_identified :: "identified json"
  aj_ping :: "ping json"
  aj_pong :: "pong json"
  aj_exec :: "exec json"
  aj_env :: "exec \<Rightarrow> (string \<times> string) list"
  aj_started :: "exec_started json"
  aj_failed :: "exec_failed json"
  aj_exit :: "exec_exit json"
  aj_signal :: "signal_msg json"
  aj_size :: "pty_size json"
  aj_error :: "error_payload json"

text \<open>Coding a payload and writing its frame.\<close>

definition reply :: "'a json \<Rightarrow> 'w sock \<Rightarrow> u32 \<Rightarrow> u16 \<Rightarrow> 'a \<Rightarrow> 'w \<Rightarrow> ('w \<times> (unit, lcp_error) result) option" where
  "reply j k i kd v w = (case with_payload j i kd 0 v of Inl e \<Rightarrow> Some (w, Err e) | Inr f \<Rightarrow> write_to k f w)"

definition error_frame :: "'f agent_json \<Rightarrow> 'w sock \<Rightarrow> u32 \<Rightarrow> string \<Rightarrow> string \<Rightarrow> 'w \<Rightarrow> ('w \<times> (unit, lcp_error) result) option" where
  "error_frame j k i code msg w = reply (aj_error j) k i KIND_ERROR \<lparr>ep_code = code, ep_message = msg\<rparr> w"

definition bad_payload :: "'f agent_json \<Rightarrow> 'w sock \<Rightarrow> u32 \<Rightarrow> 'w \<Rightarrow> ('w \<times> (unit, lcp_error) result) option" where
  "bad_payload j k i w = error_frame j k i ''proto.bad-payload'' ''payload can not be decoded'' w"

definition with_children :: "child list \<Rightarrow> ('w \<times> 'r) option \<Rightarrow> (child list \<times> 'w \<times> 'r) option" where
  "with_children cs x = map_option (\<lambda>(w, r). (cs, w, r)) x"

definition dispatch_exec ::
  "'w agent_sys \<Rightarrow> 'f agent_json \<Rightarrow> 'w sock \<Rightarrow> u32 \<Rightarrow> exec \<Rightarrow> child list \<Rightarrow> 'w \<Rightarrow> (child list \<times> 'w \<times> (unit, lcp_error) result) option" where
  "dispatch_exec s j k i x cs w =
     (case start s i x (aj_env j x) w of
        None \<Rightarrow> None
      | Some (w1, Inr c) \<Rightarrow>
          (case reply (aj_started j) k i EXEC_STARTED \<lparr>xs_pid = of_int (ch_pid c)\<rparr> w1 of
             None \<Rightarrow> None
           | Some (w2, Inl e) \<Rightarrow> Some (cs, w2, Err e)
           | Some (w2, Inr _) \<Rightarrow> Some (cs @ [c], w2, Ok ()))
      | Some (w1, Inl (SpawnFailed failed)) \<Rightarrow> with_children cs (reply (aj_failed j) k i EXEC_FAILED failed w1)
      | Some (w1, Inl (SpawnOther code msg)) \<Rightarrow> with_children cs (error_frame j k i code msg w1))"

definition agent_dispatch ::
  "'w agent_sys \<Rightarrow> 'f agent_json \<Rightarrow> 'w sock \<Rightarrow> frame \<Rightarrow> child list \<Rightarrow> 'w \<Rightarrow> (child list \<times> 'w \<times> (unit, lcp_error) result) option" where
  "agent_dispatch s j k f cs w =
     (if f_kind f = IDENTIFY
      then (case json_from_slice (aj_identify j) (f_payload f) of
              None \<Rightarrow> with_children cs (bad_payload j k (f_id f) w)
            | Some x \<Rightarrow> (let (w1, name) = a_identify s x w in
                with_children cs (reply (aj_identified j) k (f_id f) IDENTIFIED \<lparr>hostname_now = name\<rparr> w1)))
      else if f_kind f = PING
      then (case json_from_slice (aj_ping j) (f_payload f) of
              None \<Rightarrow> with_children cs (bad_payload j k (f_id f) w)
            | Some x \<Rightarrow> with_children cs (reply (aj_pong j) k (f_id f) PONG \<lparr>q_nonce = p_nonce x\<rparr> w))
      else if f_kind f = EXEC
      then (case json_from_slice (aj_exec j) (f_payload f) of
              None \<Rightarrow> with_children cs (bad_payload j k (f_id f) w)
            | Some x \<Rightarrow> dispatch_exec s j k (f_id f) x cs w)
      else if f_kind f = EXEC_RESIZE
      then (case json_from_slice (aj_size j) (f_payload f) of
              None \<Rightarrow> with_children cs (bad_payload j k (f_id f) w)
            | Some x \<Rightarrow> Some (cs, resize (a_resize s) cs (f_id f) x w, Ok ()))
      else if f_kind f = EXEC_SIGNAL
      then (case json_from_slice (aj_signal j) (f_payload f) of
              None \<Rightarrow> with_children cs (bad_payload j k (f_id f) w)
            | Some x \<Rightarrow> Some (cs, signal_command (a_kill s) cs (f_id f) (sg_signal x) w, Ok ()))
      else if f_kind f = KIND_SHUTDOWN then Some (cs, a_power_off s w, Ok ())
      else with_children cs (error_frame j k (f_id f) ''proto.unknown-kind'' (''unknown frame kind '' @ shown (unat (f_kind f))) w))"

section \<open>Reaping\<close>

partial_function (option) wait_child :: "'w agent_sys \<Rightarrow> int \<Rightarrow> 'w \<Rightarrow> ('w \<times> (u32 option, sock_error) result) option" where
  "wait_child s pid w =
     (case a_waitpid s pid False w of
        (w', Inr st) \<Rightarrow> Some (w', Ok st)
      | (w', Inl e) \<Rightarrow> (if e = SockInterrupted then wait_child s pid w' else Some (w', Err e)))"

definition wait_dead :: "'w agent_sys \<Rightarrow> int \<Rightarrow> 'w \<Rightarrow> 'w option" where
  "wait_dead s pid w = reap_now s pid w"

text \<open>\<^verbatim>\<open>WIFEXITED\<close>, \<^verbatim>\<open>WEXITSTATUS\<close> and \<^verbatim>\<open>WTERMSIG\<close> of a wait status.\<close>

definition exit_report :: "u32 \<Rightarrow> bool \<Rightarrow> exec_exit" where
  "exit_report st late =
     (if st AND 0x7f = 0 then \<lparr>xe_code = Some (uint ((drop_bit 8 st) AND 0xff)), xe_signal = None, xe_timed_out = late\<rparr>
      else \<lparr>xe_code = None, xe_signal = Some (uint (st AND 0x7f)), xe_timed_out = late\<rparr>)"

text \<open>\<open>kept\<close> are the commands before the index of the loop.\<close>

fun reap_from ::
  "'w agent_sys \<Rightarrow> 'f agent_json \<Rightarrow> 'w sock \<Rightarrow> child list \<Rightarrow> child list \<Rightarrow> 'w \<Rightarrow> (child list \<times> 'w \<times> (unit, lcp_error) result) option" where
  "reap_from s j k kept [] w = Some (kept, w, Ok ())"
| "reap_from s j k kept (c # cs) w =
     (case wait_child s (ch_pid c) w of
        None \<Rightarrow> None
      | Some (w1, Inl e) \<Rightarrow> Some (kept @ c # cs, w1, Err (LcpIo e))
      | Some (w1, Inr None) \<Rightarrow> reap_from s j k (kept @ [c]) cs w1
      | Some (w1, Inr (Some st)) \<Rightarrow>
          (case drain (a_timed s) (a_wait_room s) (a_socks s) (a_head s) c w1 of
             None \<Rightarrow> None
           | Some w2 \<Rightarrow>
               (case reply (aj_exit j) k (ch_id c) EXEC_EXIT (exit_report st (timed_out c)) w2 of
                  None \<Rightarrow> None
                | Some (w3, Inl e) \<Rightarrow> Some (kept @ cs, w3, Err e)
                | Some (w3, Inr _) \<Rightarrow> reap_from s j k kept cs w3)))"

definition reap where "reap s j k cs w = reap_from s j k [] cs w"

section \<open>The session\<close>

definition session_poll :: "'w agent_sys \<Rightarrow> pollfd list \<Rightarrow> int \<Rightarrow> 'w \<Rightarrow> 'w \<times> (pollfd list \<times> nat, sock_error) result" where
  "session_poll s fds timeout w =
     (case a_poll s fds timeout w of
        (w', Inl e) \<Rightarrow> (if e = SockInterrupted then (w', Ok (fds, 0)) else (w', Err e))
      | (w', Inr x) \<Rightarrow> (w', Ok x))"

text \<open>One round of the loop; \<open>None\<close> in the result goes round again.\<close>

definition session_round ::
  "'w agent_sys \<Rightarrow> 'f agent_json \<Rightarrow> nat \<Rightarrow> child list \<Rightarrow> 'w \<Rightarrow> (child list \<times> 'w \<times> lcp_error option) option" where
  "session_round s j control cs w =
     (case reap s j (a_socks s control) cs w of
        None \<Rightarrow> None
      | Some (cs1, w1, Inl e) \<Rightarrow> Some (cs1, w1, Some e)
      | Some (cs1, w1, Inr _) \<Rightarrow>
          (let (w2, now) = clock (a_timed s) w1;
               (cs2, w3) = enforce_timeouts (a_kill s) now cs1 w2;
               (fds, slots) = poll_set control cs2;
               (w4, timeout) = (if cs2 = [] then (w3, IDLE_POLL_MS)
                 else case clock (a_timed s) w3 of (w4, now2) \<Rightarrow> (w4, next_deadline now2 cs2)) in
           case session_poll s fds timeout w4 of
             (w5, Inl e) \<Rightarrow> Some (cs2, w5, Some (LcpIo e))
           | (w5, Inr (fds', n)) \<Rightarrow>
               (if n = 0 then Some (cs2, w5, None)
                else case pump_slots (a_socks s) (a_head s) cs2 (tl fds') slots w5 of
                  None \<Rightarrow> None
                | Some (cs3, w6) \<Rightarrow>
                    (let revents = pf_revents (hd fds') in
                     if revents AND POLLIN \<noteq> 0
                     then (case read_from (a_socks s control) w6 of
                             None \<Rightarrow> None
                           | Some (w7, Inl e) \<Rightarrow> Some (cs3, w7, Some e)
                           | Some (w7, Inr f) \<Rightarrow>
                               map_option (\<lambda>(cs4, w8, r). (cs4, w8, case r of Inl e \<Rightarrow> Some e | Inr _ \<Rightarrow> None))
                                 (agent_dispatch s j (a_socks s control) f cs3 w7))
                     else if revents AND (POLLERR OR POLLHUP OR POLLNVAL) \<noteq> 0 then Some (cs3, w6, Some Truncated)
                     else Some (cs3, w6, None)))))"

partial_function (option) session ::
  "'w agent_sys \<Rightarrow> 'f agent_json \<Rightarrow> nat \<Rightarrow> child list \<Rightarrow> 'w \<Rightarrow> (child list \<times> 'w \<times> lcp_error) option" where
  "session s j control cs w =
     (case session_round s j control cs w of
        None \<Rightarrow> None
      | Some (cs', w', Some e) \<Rightarrow> Some (cs', w', e)
      | Some (cs', w', None) \<Rightarrow> session s j control cs' w')"

primrec wait_all :: "'w agent_sys \<Rightarrow> child list \<Rightarrow> 'w \<Rightarrow> 'w option" where
  "wait_all s [] w = Some w"
| "wait_all s (c # cs) w = (case wait_dead s (ch_pid c) w of None \<Rightarrow> None | Some w' \<Rightarrow> wait_all s cs w')"

definition kill_all :: "'w agent_sys \<Rightarrow> child list \<Rightarrow> 'w \<Rightarrow> 'w" where
  "kill_all s cs w = fold (\<lambda>c. a_kill s (- ch_pid c) 9) cs w"

text \<open>\<^verbatim>\<open>serve\<close>; arming \<^verbatim>\<open>SIGCHLD\<close> and the log connection are left out.\<close>

definition agent_serve :: "'w agent_sys \<Rightarrow> 'f agent_json \<Rightarrow> nat \<Rightarrow> 'f ready \<Rightarrow> 'w \<Rightarrow> ('w \<times> lcp_error) option" where
  "agent_serve s j control rdy w =
     (case with_payload (aj_ready j) 0 READY SESSION_START rdy of
        Inl e \<Rightarrow> Some (w, e)
      | Inr f \<Rightarrow>
          (case write_to (a_socks s control) f w of
             None \<Rightarrow> None
           | Some (w1, Inl e) \<Rightarrow> Some (w1, e)
           | Some (w1, Inr _) \<Rightarrow>
               (case session s j control [] w1 of
                  None \<Rightarrow> None
                | Some (cs, w2, e) \<Rightarrow> map_option (\<lambda>w3. (w3, e)) (wait_all s cs (kill_all s cs w2)))))"

section \<open>The guest\<close>

definition STEP_PAST_NANOS :: u64 where "STEP_PAST_NANOS = 100000000"

definition abs_diff :: "'a::len word \<Rightarrow> 'a word \<Rightarrow> 'a word" where
  "abs_diff a b = (if a < b then b - a else a - b)"

definition step_needed :: "u64 \<Rightarrow> u64 \<Rightarrow> bool" where
  "step_needed now target \<longleftrightarrow> target \<noteq> 0 \<and> STEP_PAST_NANOS < abs_diff now target"

definition saturating_mul :: "'a::len word \<Rightarrow> 'a word \<Rightarrow> 'a word" where
  "saturating_mul a b = (if unat a * unat b < 2 ^ LENGTH('a) then a * b else - 1)"

definition try_u64 :: "int \<Rightarrow> u64" where
  "try_u64 n = (if 0 \<le> n then of_int n else 0)"

text \<open>The real-time clock as \<^verbatim>\<open>clock_gettime\<close> returns it, if it succeeds.\<close>

definition now_nanos :: "(int \<times> int) option \<Rightarrow> u64" where
  "now_nanos t = (case t of None \<Rightarrow> 0 | Some (sec, nsec) \<Rightarrow> saturating_add (saturating_mul (try_u64 sec) 1000000000) (try_u64 nsec))"

text \<open>The time to set, if any: seconds and nanoseconds.\<close>

definition step_clock :: "(int \<times> int) option \<Rightarrow> u64 \<Rightarrow> (int \<times> int) option" where
  "step_clock t target =
     (if step_needed (now_nanos t) target then Some (uint (target div 1000000000), uint (target mod 1000000000)) else None)"

definition hex_pair :: "u8 \<Rightarrow> string" where
  "hex_pair b = [nibble (unat b div 16), nibble (unat b mod 16)]"

definition uuid_of :: "bytes \<Rightarrow> string" where
  "uuid_of b = concat (map hex_pair (bslice 0 4 b)) @ ''-'' @ concat (map hex_pair (bslice 4 2 b)) @ ''-'' @
     hex_pair (b ! 6 AND 0x0f OR 0x40) @ hex_pair (b ! 7) @ ''-'' @ hex_pair (b ! 8 AND 0x3f OR 0x80) @ hex_pair (b ! 9) @ ''-'' @
     concat (map hex_pair (bslice 10 6 b))"

definition read_back_hostname :: "bytes option \<Rightarrow> nat list option" where
  "read_back_hostname buf = map_option (\<lambda>b. utf8_lossy (takeWhile (\<lambda>x. x \<noteq> 0) b)) buf"

section \<open>Lemmas\<close>

text \<open>The control connection as the agent writes to it, and what else it calls leaves alone.\<close>

locale agent_control = steady_socket k out inp
  for k :: "'w sock" and out inp :: "'w \<Rightarrow> bytes" +
  fixes s :: "'w agent_sys" and j :: "'f agent_json"
  assumes apart: "out (fst (a_identify s x w)) = out w" "out (a_kill s p g w) = out w" "out (a_resize s n sz w) = out w"
      "out (a_power_off s w) = out w"
    and starts: "\<exists>w' r. start s i y (aj_env j y) w = Some (w', r) \<and> out w' = out w"
begin

text \<open>Frames of the kinds \<open>kds\<close> were written under the id of the frame, and the commands are \<open>cs'\<close>;
  or a reply could not be coded, nothing was written and the commands are as they were.\<close>

definition serves :: "frame \<Rightarrow> u16 list \<Rightarrow> child list \<Rightarrow> child list \<Rightarrow> 'w \<Rightarrow> (child list \<times> 'w \<times> (unit, lcp_error) result) option \<Rightarrow> bool" where
  "serves f kds cs' cs w x \<longleftrightarrow>
     (\<exists>w' r gs. x = Some (if isl r then cs else cs', w', r) \<and> out w' = out w @ concat (map frame_bytes gs) \<and>
       (\<forall>g \<in> set gs. f_id g = f_id f) \<and> map f_kind gs = (if isl r then [] else kds))"

lemma serves_reply:
  "out w' = out w @ frame_bytes \<lparr>f_id = f_id f, f_kind = kd, f_flags = 0, f_payload = p\<rparr> \<Longrightarrow> serves f [kd] cs' cs w (Some (cs', w', Ok ()))"
  "out w' = out w \<Longrightarrow> serves f kds cs' cs w (Some (cs, w', Err e))"
  "out w' = out w \<Longrightarrow> serves f [] cs' cs w (Some (cs', w', Ok ()))"
  unfolding serves_def
  by (rule exI [of _ w'], rule exI, rule exI [of _ "[\<lparr>f_id = f_id f, f_kind = kd, f_flags = 0, f_payload = p\<rparr>]"], auto)

lemma reply_writes:
  obtains w' p where "reply jj k i kd v w = Some (w', Ok ())" "out w' = out w @ frame_bytes \<lparr>f_id = i, f_kind = kd, f_flags = 0, f_payload = p\<rparr>"
  | e where "reply jj k i kd v w = Some (w, Err e)"
proof (cases "with_payload jj i kd 0 v")
  case (Inl e)
  then show ?thesis using that(2) by (simp add: reply_def)
next
  case (Inr f)
  obtain p where f: "f = \<lparr>f_id = i, f_kind = kd, f_flags = 0, f_payload = p\<rparr>"
    using Inr by (cases "json_to_vec jj v") (auto simp: with_payload_def ok_or_def and_then_def map_err_def)
  show ?thesis
  proof (cases "fits_frame f")
    case True
    then obtain w' where w': "write_to k f w = Some (w', Ok ())" using write_to_writes by blast
    from write_to_puts(2) [OF this refl] w' Inr f show ?thesis by (intro that(1) [of w' p]) (simp_all add: reply_def)
  next
    case False
    then have "write_to k f w = Some (w, Err (LcpOverfull (frame_len f)))" by (simp add: write_to_def frame_len_limit)
    with Inr show ?thesis using that(2) by (simp add: reply_def)
  qed
qed

lemma reply_serves: "out w1 = out w \<Longrightarrow> serves f [kd] cs cs w (with_children cs (reply jj k (f_id f) kd v w1))"
  by (rule reply_writes [of jj "f_id f" kd v w1]) (auto simp: with_children_def intro: serves_reply)

lemma refuses: "serves f [KIND_ERROR] cs cs w (with_children cs (bad_payload j k (f_id f) w))"
  by (simp add: bad_payload_def error_frame_def reply_serves)

lemma signal_command_apart: "out (signal_command (a_kill s) cs i g w) = out w"
  by (induction cs) (simp_all add: apart)

lemma resize_apart: "out (resize (a_resize s) cs i sz w) = out w"
  by (induction cs) (simp_all add: apart split: option.splits)

lemma dispatch_exec_serves:
  assumes "start s (f_id f) x (aj_env j x) w = Some (w1, r)"
  shows "serves f [case r of Inr _ \<Rightarrow> EXEC_STARTED | Inl (SpawnFailed _) \<Rightarrow> EXEC_FAILED | Inl _ \<Rightarrow> KIND_ERROR]
    (case r of Inr c \<Rightarrow> cs @ [c] | Inl _ \<Rightarrow> cs) cs w (dispatch_exec s j k (f_id f) x cs w)"
proof -
  have same: "out w1 = out w" using starts [of "f_id f" x w] assms by auto
  show ?thesis
  proof (cases r)
    case (Inr c)
    show ?thesis
      by (rule reply_writes [of "aj_started j" "f_id f" EXEC_STARTED "\<lparr>xs_pid = of_int (ch_pid c)\<rparr>" w1])
        (use assms same Inr in \<open>auto simp: dispatch_exec_def intro: serves_reply\<close>)
  next
    case (Inl e)
    with assms same show ?thesis
      by (cases e) (simp_all add: dispatch_exec_def error_frame_def reply_serves)
  qed
qed

end

text \<open>The kinds of the frames which answer a frame, and the commands behind it.\<close>

definition answer_kinds :: "'w agent_sys \<Rightarrow> 'f agent_json \<Rightarrow> frame \<Rightarrow> 'w \<Rightarrow> u16 list" where
  "answer_kinds s j f w =
     (if f_kind f = IDENTIFY then [if json_from_slice (aj_identify j) (f_payload f) = None then KIND_ERROR else IDENTIFIED]
      else if f_kind f = PING then [if json_from_slice (aj_ping j) (f_payload f) = None then KIND_ERROR else PONG]
      else if f_kind f = EXEC
      then (case json_from_slice (aj_exec j) (f_payload f) of
              None \<Rightarrow> [KIND_ERROR]
            | Some x \<Rightarrow> (case start s (f_id f) x (aj_env j x) w of
                Some (_, Inr _) \<Rightarrow> [EXEC_STARTED] | Some (_, Inl (SpawnFailed _)) \<Rightarrow> [EXEC_FAILED] | _ \<Rightarrow> [KIND_ERROR]))
      else if f_kind f = EXEC_RESIZE then (if json_from_slice (aj_size j) (f_payload f) = None then [KIND_ERROR] else [])
      else if f_kind f = EXEC_SIGNAL then (if json_from_slice (aj_signal j) (f_payload f) = None then [KIND_ERROR] else [])
      else if f_kind f = KIND_SHUTDOWN then [] else [KIND_ERROR])"

definition started_children :: "'w agent_sys \<Rightarrow> 'f agent_json \<Rightarrow> frame \<Rightarrow> 'w \<Rightarrow> child list" where
  "started_children s j f w =
     (if f_kind f = EXEC
      then (case json_from_slice (aj_exec j) (f_payload f) of
              None \<Rightarrow> []
            | Some x \<Rightarrow> (case start s (f_id f) x (aj_env j x) w of Some (_, Inr c) \<Rightarrow> [c] | _ \<Rightarrow> []))
      else [])"

lemmas kind_defs = IDENTIFY_def PING_def EXEC_def EXEC_RESIZE_def EXEC_SIGNAL_def KIND_SHUTDOWN_def

context agent_control
begin

lemma dispatch_serves: "serves f (answer_kinds s j f w) (cs @ started_children s j f w) cs w (agent_dispatch s j k f cs w)"
proof -
  consider (exec) "f_kind f = EXEC" | (other) "f_kind f \<noteq> EXEC" by blast
  then show ?thesis
  proof cases
    case exec
    show ?thesis
    proof (cases "json_from_slice (aj_exec j) (f_payload f)")
      case None
      with exec show ?thesis by (simp add: agent_dispatch_def answer_kinds_def started_children_def refuses kind_defs)
    next
      case (Some x)
      obtain w1 r where r: "start s (f_id f) x (aj_env j x) w = Some (w1, r)" using starts by blast
      from dispatch_exec_serves [OF r, of cs] exec Some r show ?thesis
        by (cases r rule: sum.exhaust; simp add: agent_dispatch_def answer_kinds_def started_children_def kind_defs
            split: spawn_error.splits)
    qed
  next
    case other
    then have "started_children s j f w = []" by (simp add: started_children_def)
    then show ?thesis
      using other
      by (auto simp: agent_dispatch_def answer_kinds_def kind_defs refuses error_frame_def Let_def case_prod_beta apart resize_apart
          signal_command_apart intro!: reply_serves serves_reply(3) split: option.splits)
  qed
qed

end

section \<open>An agent which starts nothing\<close>

text \<open>Every call fails and JSON is the empty payload; the control connection is a socket on lists.\<close>

definition any_json :: "'a \<Rightarrow> 'a json" where
  "any_json v = \<lparr>json_to_vec = (\<lambda>_. Some []), json_from_slice = (\<lambda>_. Some v)\<rparr>"

definition mute_sys :: "(bytes \<times> bytes) agent_sys" where
  "mute_sys = \<lparr>a_socks = (\<lambda>_. list_sock 99), a_timed = \<lparr>clock = (\<lambda>w. (w, 0)), set_read_timeout = (\<lambda>_ w. (w, Ok ()))\<rparr>,
     a_connect = (\<lambda>_ w. (w, Err SockFailed)), a_openpty = (\<lambda>_ w. (w, Err SockFailed)), a_devnull = (\<lambda>w. (w, Err SockFailed)),
     a_pipe = (\<lambda>w. (w, Err SockFailed)), a_fork = (\<lambda>_ w. (w, Err SockFailed)), a_close = (\<lambda>_ w. w),
     a_nonblocking = (\<lambda>_ w. (w, Ok ())), a_kill = (\<lambda>_ _ w. w), a_waitpid = (\<lambda>_ _ w. (w, Ok None)), a_resize = (\<lambda>_ _ w. w),
     a_wait_room = (\<lambda>_ _ w. (w, Ok ())), a_poll = (\<lambda>fds _ w. (w, Ok (fds, 0))), a_identify = (\<lambda>_ w. (w, ''guest'')),
     a_power_off = (\<lambda>w. w), a_head = length, err_text = (\<lambda>_. ''failed'')\<rparr>"

definition mute_json :: "nat agent_json" where
  "mute_json = \<lparr>aj_ready = any_json \<lparr>r_agent = [], r_protocol = 1, r_uptime = 0, r_init_ms = 0, r_boot_id = []\<rparr>,
     aj_identify = any_json \<lparr>i_hostname = [], i_machine_id = [], i_generation = 1, i_entropy = [], i_unix_nanos = 0\<rparr>,
     aj_identified = any_json \<lparr>hostname_now = []\<rparr>, aj_ping = any_json \<lparr>p_nonce = 7\<rparr>, aj_pong = any_json \<lparr>q_nonce = 7\<rparr>,
     aj_exec = \<lparr>json_to_vec = (\<lambda>_. None), json_from_slice = (\<lambda>_. None)\<rparr>, aj_env = (\<lambda>_. []), aj_started = any_json \<lparr>xs_pid = 1\<rparr>,
     aj_failed = any_json \<lparr>xf_reason = NotFound, xf_errno = 2\<rparr>, aj_exit = any_json \<lparr>xe_code = Some 0, xe_signal = None, xe_timed_out = False\<rparr>,
     aj_signal = any_json \<lparr>sg_signal = 9\<rparr>, aj_size = any_json \<lparr>rows = 1, cols = 1\<rparr>,
     aj_error = any_json \<lparr>ep_code = [], ep_message = []\<rparr>\<rparr>"

interpretation mute: agent_control "list_sock 99" fst snd mute_sys mute_json
proof
  show "\<exists>w' r. start mute_sys i y (aj_env mute_json y) w = Some (w', r) \<and> fst w' = fst w" for i y w
    by (cases w) (simp add: start_def agent_open_def mute_sys_def)
qed (simp_all add: mute_sys_def)

section \<open>Properties\<close>



text \<open>A command whose start cannot be reported is running and is in no list: \<^verbatim>\<open>serve\<close> does not kill
  it with the others when the connection ends.\<close>

theorem unreported_command_is_not_tracked:
  assumes "start s i x (aj_env j x) w = Some (w1, Ok c)"
    and "reply (aj_started j) k i EXEC_STARTED \<lparr>xs_pid = of_int (ch_pid c)\<rparr> w1 = Some (w2, Err e)"
  shows "dispatch_exec s j k i x cs w = Some (cs, w2, Err e)"
  using assms by (simp add: dispatch_exec_def)

end
