(* ===== verification/Machine.thy ===== *)
theory Machine
  imports Devices
begin

text \<open>
  The life of a machine, \<^verbatim>\<open>src/lingcore/src/machine/mod.rs\<close>: its states and moves, the orders its
  threads obey, and \<^verbatim>\<open>pause\<close>, \<^verbatim>\<open>resume\<close>, \<^verbatim>\<open>stop\<close>, \<^verbatim>\<open>wait\<close> and \<^verbatim>\<open>join\<close>.

  A thread (a vCPU, or the one which serves the devices) is inside its loop, parked on a hold, or
  ended with a result.  \<open>machine_step\<close> interleaves the threads, the owner of the machine and the
  holders of a \<^verbatim>\<open>StopHandle\<close>; a step is one critical section on the standing order.  Calls of the
  hypervisor which signal a vCPU out of \<^verbatim>\<open>run\<close> are parameters and may fail.

  The lemmas show that the count of parked threads is exact, that a paused guest whose hold still
  stands runs nothing, and that the states only move as documented; and two ways in which a
  pause leaves the guest held which its callers are not told of.
\<close>

section \<open>States and orders\<close>

datatype mstate = Created | Running | Paused | MShutdown

text \<open>The errors of the machine; what another component's error carries is left out.\<close>

datatype machine_error =
    MachineHv | MachineMem | MachineBoot | MachineDevices | ImageFile | EntropyFile | DiskFile | RamImage | NetworkLink
  | MetadataService | NoMetadata | ChannelSocket | PcapFile | ThreadError | NoKernel | LostPage | TooManyDisks nat
  | TooManyShares nat | TooManyDevices nat | ShareError | PortError | NoRoomForMpTable | NoRoomForTables | NoRoomForTree
  | TreeError | SnapshotError | SnapshotFormat u32 | SnapshotShape | NotHeld | StoppedWhileHeld | VcpuThread | DeviceThread
  | SeccompError | NoVcpus | BadTransition mstate mstate

definition valid_transition :: "mstate \<Rightarrow> mstate \<Rightarrow> (unit, machine_error) result" where
  "valid_transition s t =
     (if (s, t) \<in> {(Created, Running), (Running, Paused), (Paused, Running), (Running, MShutdown), (Paused, MShutdown)}
      then Ok () else Err (BadTransition s t))"

datatype order = Run | Hold | Stop

record standing =
  st_order :: order
  parked :: nat

definition standing_default :: standing where
  "standing_default = \<lparr>st_order = Run, parked = 0\<rparr>"

definition tell_order :: "order \<Rightarrow> standing \<Rightarrow> standing" where
  "tell_order o' st = st\<lparr>st_order := o'\<rparr>"

text \<open>\<^verbatim>\<open>wait_out_a_hold\<close> up to its wait, and from the wait on: \<open>None\<close> while it goes on waiting.\<close>

definition park :: "standing \<Rightarrow> standing option" where
  "park st = (if st_order st \<noteq> Hold then None else Some (st\<lparr>parked := parked st + 1\<rparr>))"

definition unpark :: "standing \<Rightarrow> standing option" where
  "unpark st = (if st_order st = Hold then None else Some (st\<lparr>parked := parked st - 1\<rparr>))"

datatype still = Held | Stopped | Waiting

text \<open>One round of \<^verbatim>\<open>wait_until_still\<close>; \<open>late\<close> tells whether the deadline has passed, and \<open>None\<close>
  waits on.\<close>

definition still_now :: "nat \<Rightarrow> bool \<Rightarrow> standing \<Rightarrow> still option" where
  "still_now count late st =
     (if count \<le> parked st then Some Held
      else if st_order st \<noteq> Hold then Some Stopped
      else if late then Some Waiting else None)"

section \<open>The machine\<close>

datatype thread = Inside | Parked | Ended "(vm_exit, machine_error) result" | Panicked

datatype owner = Free | Pausing

record machine =
  m_state :: mstate
  m_standing :: standing
  vcpu_threads :: "thread list"
  device_threads :: "thread list"
  m_owner :: owner

definition machine_new :: machine where
  "machine_new = \<lparr>m_state = Created, m_standing = standing_default, vcpu_threads = [], device_threads = [], m_owner = Free\<rparr>"

definition all_threads :: "machine \<Rightarrow> thread list" where
  "all_threads m = vcpu_threads m @ device_threads m"

definition tell_machine :: "order \<Rightarrow> machine \<Rightarrow> machine" where
  "tell_machine o' m = m\<lparr>m_standing := tell_order o' (m_standing m)\<rparr>"

text \<open>\<^verbatim>\<open>start\<close> with \<open>n\<close> vCPUs; the spawning of a thread succeeds.\<close>

definition start_machine :: "nat \<Rightarrow> machine \<Rightarrow> machine \<times> (unit, machine_error) result" where
  "start_machine n m =
     (case valid_transition (m_state m) Running of
        Inl e \<Rightarrow> (m, Err e)
      | Inr _ \<Rightarrow> (m\<lparr>vcpu_threads := replicate n Inside, device_threads := [Inside], m_state := Running\<rparr>, Ok ()))"

text \<open>\<^verbatim>\<open>pause\<close> until it waits, with the result of \<^verbatim>\<open>ask_out\<close>, and its end.\<close>

definition pause_begin :: "(unit, machine_error) result \<Rightarrow> machine \<Rightarrow> machine \<times> (unit, machine_error) result" where
  "pause_begin asked m =
     (case valid_transition (m_state m) Paused of
        Inl e \<Rightarrow> (m, Err e)
      | Inr _ \<Rightarrow> (case asked of Inl e \<Rightarrow> (tell_machine Hold m, Err e) | Inr _ \<Rightarrow> ((tell_machine Hold m)\<lparr>m_owner := Pausing\<rparr>, Ok ())))"

definition pause_end :: "still \<Rightarrow> machine \<Rightarrow> machine \<times> (unit, machine_error) result" where
  "pause_end s m =
     (case s of
        Held \<Rightarrow> (m\<lparr>m_state := Paused, m_owner := Free\<rparr>, Ok ())
      | Stopped \<Rightarrow> (m\<lparr>m_owner := Free\<rparr>, Err StoppedWhileHeld)
      | Waiting \<Rightarrow> (m\<lparr>m_owner := Free\<rparr>, Err NotHeld))"

definition resume :: "machine \<Rightarrow> machine \<times> (unit, machine_error) result" where
  "resume m =
     (if m_state m = Running then (m, Ok ())
      else case valid_transition (m_state m) Running of
             Inl e \<Rightarrow> (m, Err e)
           | Inr _ \<Rightarrow> ((tell_machine Run m)\<lparr>m_state := Running\<rparr>, Ok ()))"

definition stop_machine :: "(unit, machine_error) result \<Rightarrow> machine \<Rightarrow> machine \<times> (unit, machine_error) result" where
  "stop_machine asked m =
     (if m_state m \<noteq> Running \<and> m_state m \<noteq> Paused then (m, Err (BadTransition (m_state m) MShutdown))
      else (tell_machine Stop m, asked))"

definition stop_handle :: "machine \<Rightarrow> machine" where
  "stop_handle m = tell_machine Stop m"

text \<open>\<^verbatim>\<open>join\<close>, once every thread has ended.  A vCPU thread which panicked is reported at once, and
  the state stays where it was; a device thread which panicked or failed is reported in place of
  the exit of the first vCPU.\<close>

definition has_ended :: "thread \<Rightarrow> bool" where
  "has_ended t = (case t of Ended _ \<Rightarrow> True | Panicked \<Rightarrow> True | _ \<Rightarrow> False)"

definition device_result :: "thread \<Rightarrow> (unit, machine_error) result" where
  "device_result t = (case t of Ended (Inl e) \<Rightarrow> Err e | Panicked \<Rightarrow> Err DeviceThread | _ \<Rightarrow> Ok ())"

definition first_failure :: "(unit, machine_error) result list \<Rightarrow> (unit, machine_error) result" where
  "first_failure rs = fold (\<lambda>r acc. if isl acc then acc else r) rs (Ok ())"

definition vcpu_result :: "thread list \<Rightarrow> (vm_exit, machine_error) result" where
  "vcpu_result ts = (case ts of Ended r # _ \<Rightarrow> r | _ \<Rightarrow> Ok Shutdown)"

definition join :: "(unit, machine_error) result \<Rightarrow> machine \<Rightarrow> machine \<times> (vm_exit, machine_error) result" where
  "join asked m =
     (case asked of
        Inl e \<Rightarrow> (m, Err e)
      | Inr _ \<Rightarrow>
          if Panicked \<in> set (vcpu_threads m) then (m\<lparr>vcpu_threads := []\<rparr>, Err VcpuThread)
          else (m\<lparr>vcpu_threads := [], device_threads := [], m_state := MShutdown\<rparr>,
            (case first_failure (map device_result (device_threads m)) of
               Inl e \<Rightarrow> Err e
             | Inr _ \<Rightarrow> vcpu_result (vcpu_threads m))))"

text \<open>\<^verbatim>\<open>wait\<close> returns once the stop order stands and the threads have ended.\<close>

definition wait_machine :: "(unit, machine_error) result \<Rightarrow> machine \<Rightarrow> (machine \<times> (vm_exit, machine_error) result) option" where
  "wait_machine asked m =
     (case valid_transition (m_state m) MShutdown of
        Inl e \<Rightarrow> Some (m, Err e)
      | Inr _ \<Rightarrow>
          if st_order (m_standing m) \<noteq> Stop \<or> (asked = Ok () \<and> \<not> list_all has_ended (all_threads m)) then None
          else Some (join asked m))"

text \<open>\<^verbatim>\<open>wait_timeout\<close>; \<open>late\<close> tells whether its time is over.\<close>

definition wait_timeout ::
  "bool \<Rightarrow> (unit, machine_error) result \<Rightarrow> machine \<Rightarrow> (machine \<times> (vm_exit option, machine_error) result) option" where
  "wait_timeout late asked m =
     (case valid_transition (m_state m) MShutdown of
        Inl e \<Rightarrow> Some (m, Err e)
      | Inr _ \<Rightarrow>
          if st_order (m_standing m) \<noteq> Stop then (if late then Some (m, Ok None) else None)
          else if asked = Ok () \<and> \<not> list_all has_ended (all_threads m) then None
          else (case join asked m of (m', r) \<Rightarrow> Some (m', map_sum id Some r)))"

section \<open>Interleaving\<close>

text \<open>A thread in its loop parks on a hold, goes on once it is over, or ends and leaves a stop.\<close>

definition thread_step :: "standing \<Rightarrow> thread \<Rightarrow> standing \<Rightarrow> thread \<Rightarrow> bool" where
  "thread_step st t st' t' \<longleftrightarrow>
     (t = Inside \<and> t' = Parked \<and> park st = Some st') \<or>
     (t = Parked \<and> t' = Inside \<and> unpark st = Some st') \<or>
     (t = Inside \<and> has_ended t' \<and> st' = tell_order Stop st)"

text \<open>The owner starts a machine only once; a second \<^verbatim>\<open>start\<close> is taken up below.\<close>

inductive machine_step :: "machine \<Rightarrow> machine \<Rightarrow> bool" where
  ms_vcpu: "i < length (vcpu_threads m) \<Longrightarrow> thread_step (m_standing m) (vcpu_threads m ! i) st t \<Longrightarrow>
    machine_step m (m\<lparr>m_standing := st, vcpu_threads := (vcpu_threads m)[i := t]\<rparr>)"
| ms_device: "i < length (device_threads m) \<Longrightarrow> thread_step (m_standing m) (device_threads m ! i) st t \<Longrightarrow>
    machine_step m (m\<lparr>m_standing := st, device_threads := (device_threads m)[i := t]\<rparr>)"
| ms_start: "m_owner m = Free \<Longrightarrow> m_state m = Created \<Longrightarrow> machine_step m (fst (start_machine n m))"
| ms_pause: "m_owner m = Free \<Longrightarrow> machine_step m (fst (pause_begin asked m))"
| ms_still: "m_owner m = Pausing \<Longrightarrow> still_now (length (all_threads m)) late (m_standing m) = Some s \<Longrightarrow>
    machine_step m (fst (pause_end s m))"
| ms_resume: "m_owner m = Free \<Longrightarrow> machine_step m (fst (resume m))"
| ms_stop: "m_owner m = Free \<Longrightarrow> machine_step m (fst (stop_machine asked m))"
| ms_handle: "machine_step m (stop_handle m)"
| ms_wait: "m_owner m = Free \<Longrightarrow> wait_machine asked m = Some (m', r) \<Longrightarrow> machine_step m m'"
| ms_wait_timeout: "m_owner m = Free \<Longrightarrow> wait_timeout late asked m = Some (m', r') \<Longrightarrow> machine_step m m'"

inductive machine_reach :: "machine \<Rightarrow> bool" where
  reach_new: "machine_reach machine_new"
| reach_step: "machine_reach m \<Longrightarrow> machine_step m m' \<Longrightarrow> machine_reach m'"

section \<open>Lemmas\<close>

definition parked_count :: "thread list \<Rightarrow> nat" where
  "parked_count ts = length (filter (\<lambda>t. t = Parked) ts)"

lemma parked_count_simps [simp]:
  "parked_count [] = 0" "parked_count (t # ts) = (if t = Parked then 1 else 0) + parked_count ts"
  "parked_count (ts @ us) = parked_count ts + parked_count us" "parked_count (replicate n Inside) = 0"
  by (simp_all add: parked_count_def)

lemma parked_count_update:
  assumes "i < length ts"
  shows "parked_count (ts[i := t]) + (if ts ! i = Parked then 1 else 0) = parked_count ts + (if t = Parked then 1 else 0)"
proof -
  have "parked_count ts = parked_count (take i ts @ ts ! i # drop (Suc i) ts)"
    using id_take_nth_drop [OF assms] by simp
  then show ?thesis by (simp add: upd_conv_take_nth_drop [OF assms])
qed

lemma parked_count_le: "parked_count ts \<le> length ts"
  by (simp add: parked_count_def)

lemma parked_count_all: "parked_count ts = length ts \<longleftrightarrow> list_all (\<lambda>t. t = Parked) ts"
proof (induction ts)
  case (Cons t ts)
  then show ?case using parked_count_le [of ts] by auto
qed simp

lemma parked_count_ended: "list_all has_ended ts \<Longrightarrow> parked_count ts = 0"
  by (induction ts) (auto simp: has_ended_def)

text \<open>The count is exact, a wait for stillness is a pause of a running machine, a paused machine
  whose hold stands has every thread parked, and a machine not started has none.\<close>

definition machine_inv :: "machine \<Rightarrow> bool" where
  "machine_inv m \<longleftrightarrow>
     parked (m_standing m) = parked_count (all_threads m) \<and>
     (m_owner m = Pausing \<longrightarrow> m_state m = Running) \<and>
     (m_state m = Paused \<longrightarrow> st_order (m_standing m) = Hold \<longrightarrow> list_all (\<lambda>t. t = Parked) (all_threads m)) \<and>
     (m_state m = Created \<longrightarrow> all_threads m = [])"

text \<open>A step of one thread keeps the count, and does not move a parked thread while a hold stands.\<close>

lemma thread_step_count:
  assumes "thread_step st t st' t'" "parked st = k + (if t = Parked then 1 else 0)"
  shows "parked st' = k + (if t' = Parked then 1 else 0)"
  using assms by (auto simp: thread_step_def park_def unpark_def tell_order_def has_ended_def split: if_splits thread.splits)

lemma thread_step_hold:
  "thread_step st t st' t' \<Longrightarrow> st_order st' = Hold \<Longrightarrow> st_order st = Hold \<and> t = Inside"
  by (auto simp: thread_step_def park_def unpark_def tell_order_def split: if_splits)

lemma thread_step_counts:
  assumes "thread_step st (ts ! i) st' t" "i < length ts" "parked st = parked_count ts + k"
  shows "parked st' = parked_count (ts[i := t]) + k"
proof -
  let ?p = "if ts ! i = Parked then 1 else 0 :: nat"
  have "?p \<le> parked_count ts" using parked_count_update [OF assms(2), of Inside] by auto
  then have "parked st = (parked_count ts + k - ?p) + ?p" using assms(3) by simp
  from thread_step_count [OF assms(1) this] show ?thesis
    using parked_count_update [OF assms(2), of t] \<open>?p \<le> parked_count ts\<close> by auto
qed

lemma machine_inv_vcpu:
  assumes "machine_inv m" "i < length (vcpu_threads m)" "thread_step (m_standing m) (vcpu_threads m ! i) st t"
  shows "machine_inv (m\<lparr>m_standing := st, vcpu_threads := (vcpu_threads m)[i := t]\<rparr>)"
proof -
  have "parked (m_standing m) = parked_count (vcpu_threads m) + parked_count (device_threads m)"
    using assms(1) by (simp add: machine_inv_def all_threads_def)
  from thread_step_counts [OF assms(3,2) this] have "parked st = parked_count ((vcpu_threads m)[i := t]) + parked_count (device_threads m)" .
  moreover have "\<not> (m_state m = Paused \<and> st_order st = Hold)"
    using thread_step_hold [OF assms(3)] assms(1) nth_mem [OF assms(2)] by (auto simp: machine_inv_def all_threads_def list_all_iff)
  ultimately show ?thesis using assms(1,2) by (auto simp: machine_inv_def all_threads_def)
qed

lemma machine_inv_device:
  assumes "machine_inv m" "i < length (device_threads m)" "thread_step (m_standing m) (device_threads m ! i) st t"
  shows "machine_inv (m\<lparr>m_standing := st, device_threads := (device_threads m)[i := t]\<rparr>)"
proof -
  have "parked (m_standing m) = parked_count (device_threads m) + parked_count (vcpu_threads m)"
    using assms(1) by (simp add: machine_inv_def all_threads_def)
  from thread_step_counts [OF assms(3,2) this] have "parked st = parked_count ((device_threads m)[i := t]) + parked_count (vcpu_threads m)" .
  moreover have "\<not> (m_state m = Paused \<and> st_order st = Hold)"
    using thread_step_hold [OF assms(3)] assms(1) nth_mem [OF assms(2)] by (auto simp: machine_inv_def all_threads_def list_all_iff)
  ultimately show ?thesis using assms(1,2) by (auto simp: machine_inv_def all_threads_def)
qed

lemmas owner_defs = start_machine_def pause_begin_def pause_end_def resume_def stop_machine_def stop_handle_def tell_machine_def
  tell_order_def valid_transition_def

lemma machine_inv_still:
  assumes "machine_inv m" "m_owner m = Pausing" "still_now (length (all_threads m)) late (m_standing m) = Some s"
  shows "machine_inv (fst (pause_end s m))"
  using assms parked_count_all [of "all_threads m"] parked_count_le [of "all_threads m"]
  by (cases s) (auto simp: machine_inv_def pause_end_def still_now_def all_threads_def split: if_splits)

text \<open>Once the threads have ended, \<^verbatim>\<open>join\<close> leaves none and shuts the machine down, or changes nothing.\<close>

lemma join_cases:
  "join asked m = (m', r) \<Longrightarrow>
     m' = m \<or> (asked = Ok () \<and> vcpu_threads m' = [] \<and> device_threads m' = [] \<and> m_state m' = MShutdown \<and> m_standing m' = m_standing m \<and> m_owner m' = m_owner m) \<or>
     (asked = Ok () \<and> m' = m\<lparr>vcpu_threads := []\<rparr> \<and> r = Err VcpuThread)"
  by (auto simp: join_def split: sum.splits if_splits)

lemma machine_inv_join:
  assumes "machine_inv m" "m_owner m = Free" "join asked m = (m', r)" "st_order (m_standing m) = Stop"
    and "asked = Ok () \<longrightarrow> list_all has_ended (all_threads m)"
  shows "machine_inv m'"
  using join_cases [OF assms(3)] assms parked_count_ended [of "vcpu_threads m"] parked_count_ended [of "device_threads m"]
  by (auto simp: machine_inv_def all_threads_def)

lemma machine_inv_wait: "machine_inv m \<Longrightarrow> m_owner m = Free \<Longrightarrow> wait_machine asked m = Some (m', r) \<Longrightarrow> machine_inv m'"
  by (auto simp: wait_machine_def split: sum.splits if_splits intro: machine_inv_join)

lemma machine_inv_wait_timeout: "machine_inv m \<Longrightarrow> m_owner m = Free \<Longrightarrow> wait_timeout late asked m = Some (m', r) \<Longrightarrow> machine_inv m'"
  by (auto simp: wait_timeout_def split: sum.splits if_splits prod.splits intro: machine_inv_join)

lemma machine_inv_owner:
  assumes "machine_inv m" "m_owner m = Free"
  shows "m_state m = Created \<Longrightarrow> machine_inv (fst (start_machine n m))" "machine_inv (fst (pause_begin asked m))"
    "machine_inv (fst (resume m))" "machine_inv (fst (stop_machine asked m))"
  using assms by (auto simp: machine_inv_def owner_defs all_threads_def split: sum.splits)

lemma machine_inv_handle: "machine_inv m \<Longrightarrow> machine_inv (stop_handle m)"
  by (simp add: machine_inv_def owner_defs all_threads_def)

lemma machine_step_inv: "machine_step m m' \<Longrightarrow> machine_inv m \<Longrightarrow> machine_inv m'"
  by (induction rule: machine_step.induct)
    (blast intro: machine_inv_vcpu machine_inv_device machine_inv_owner machine_inv_still machine_inv_handle machine_inv_wait machine_inv_wait_timeout)+

lemma machine_reach_inv: "machine_reach m \<Longrightarrow> machine_inv m"
proof (induction rule: machine_reach.induct)
  case reach_new
  then show ?case by (simp add: machine_inv_def machine_new_def standing_default_def all_threads_def)
qed (rule machine_step_inv)

text \<open>The states move as \<^verbatim>\<open>valid_transition\<close> says, and a held and paused guest keeps its threads as they are.\<close>

lemma join_moves:
  "join asked m = (m', r) \<Longrightarrow> valid_transition (m_state m) MShutdown = Ok () \<Longrightarrow>
     m_state m' = m_state m \<or> valid_transition (m_state m) (m_state m') = Ok ()"
  using join_cases [of asked m m' r] by auto

lemma machine_step_moves:
  "machine_step m m' \<Longrightarrow> machine_inv m \<Longrightarrow> m_state m' = m_state m \<or> valid_transition (m_state m) (m_state m') = Ok ()"
proof (induction rule: machine_step.induct)
  case (ms_still m late s)
  then show ?case by (cases s) (auto simp: pause_end_def machine_inv_def valid_transition_def)
next
  case (ms_wait m asked m' r)
  then show ?case by (auto simp: wait_machine_def split: sum.splits if_splits dest: join_moves)
next
  case (ms_wait_timeout m late asked m' r)
  then show ?case by (auto simp: wait_timeout_def split: sum.splits if_splits prod.splits dest: join_moves)
qed (auto simp: owner_defs split: sum.splits if_splits)

lemma held_thread_is_stuck: "st_order st = Hold \<Longrightarrow> \<not> thread_step st Parked st' t"
  by (auto simp: thread_step_def unpark_def split: if_splits)

lemma held_step_keeps_threads:
  assumes "machine_step m m'" "list_all (\<lambda>t. t = Parked) (all_threads m)" "st_order (m_standing m) = Hold" "m_state m \<noteq> Created"
  shows "all_threads m' = all_threads m"
  using assms
proof (induction rule: machine_step.induct)
  case (ms_vcpu i m st t)
  then have "vcpu_threads m ! i = Parked" using nth_mem [of i "vcpu_threads m"] by (auto simp: list_all_iff all_threads_def)
  then show ?case using held_thread_is_stuck [of "m_standing m" st t] ms_vcpu by simp
next
  case (ms_device i m st t)
  then have "device_threads m ! i = Parked" using nth_mem [of i "device_threads m"] by (auto simp: list_all_iff all_threads_def)
  then show ?case using held_thread_is_stuck [of "m_standing m" st t] ms_device by simp
next
  case (ms_still m late s)
  then show ?case by (cases s) (auto simp: pause_end_def all_threads_def)
qed (auto simp: owner_defs all_threads_def wait_machine_def wait_timeout_def split: sum.splits if_splits)

section \<open>Properties\<close>


text \<open>A guest with one vCPU which is started and paused.\<close>

definition running_one :: machine where
  "running_one = fst (start_machine 1 machine_new)"

definition paused_one :: machine where
  "paused_one = \<lparr>m_state = Paused, m_standing = \<lparr>st_order = Hold, parked = 2\<rparr>, vcpu_threads = [Parked], device_threads = [Parked], m_owner = Free\<rparr>"

lemma reach_running_one: "machine_reach running_one"
  unfolding running_one_def by (rule reach_step [OF reach_new], rule ms_start) (simp_all add: machine_new_def)

lemma reach_paused_one: "machine_reach paused_one"
proof -
  let ?m = "\<lambda>k v d. \<lparr>m_state = Running, m_standing = \<lparr>st_order = Hold, parked = k\<rparr>, vcpu_threads = [v], device_threads = [d], m_owner = Pausing\<rparr>"
  have "machine_reach (?m 0 Inside Inside)"
    using reach_step [OF reach_running_one ms_pause [of running_one "Ok ()"]]
    by (simp add: running_one_def owner_defs machine_new_def standing_default_def)
  from reach_step [OF this ms_vcpu [of 0 _ "\<lparr>st_order = Hold, parked = 1\<rparr>" Parked]] have "machine_reach (?m 1 Parked Inside)"
    by (simp add: thread_step_def park_def)
  from reach_step [OF this ms_device [of 0 _ "\<lparr>st_order = Hold, parked = 2\<rparr>" Parked]] have "machine_reach (?m 2 Parked Parked)"
    by (simp add: thread_step_def park_def)
  from reach_step [OF this ms_still [of _ False Held]] show ?thesis
    by (simp add: all_threads_def still_now_def pause_end_def paused_one_def)
qed


text \<open>A pause which fails once the order is given leaves the hold standing in a machine whose state says
  it runs, so \<^verbatim>\<open>resume\<close> takes it for a running guest and leaves it held.\<close>

lemma failed_pause_leaves_guest_held:
  assumes "m_state m = Running"
  shows "pause_begin (Ok ()) m = (m1, Ok ()) \<Longrightarrow> pause_end Waiting m1 = (m2, r) \<Longrightarrow>
      r = Err NotHeld \<and> m_state m2 = Running \<and> st_order (m_standing m2) = Hold \<and> resume m2 = (m2, Ok ())"
    and "pause_begin (Err e) m = (m2, r) \<Longrightarrow>
      r = Err e \<and> m_state m2 = Running \<and> st_order (m_standing m2) = Hold \<and> resume m2 = (m2, Ok ())"
  using assms by (auto simp: owner_defs)

text \<open>A pause of a guest whose threads have ended replaces the stop they left by a hold, and a later
  \<^verbatim>\<open>wait\<close> has no thread left to give it another.\<close>

lemma pause_loses_stop:
  "\<exists>m. machine_reach m \<and> m_state m = Running \<and> m_owner m = Free \<and> list_all has_ended (all_threads m) \<and>
     (\<forall>asked. wait_machine asked m = None)"
proof -
  let ?e = "Ended (Ok Shutdown)"
  let ?m = "\<lambda>order d w. \<lparr>m_state = Running, m_standing = \<lparr>st_order = order, parked = 0\<rparr>, vcpu_threads = [?e], device_threads = [d], m_owner = w\<rparr>"
  have "machine_reach (?m Stop Inside Free)"
    using reach_step [OF reach_running_one ms_vcpu [of 0 _ "\<lparr>st_order = Stop, parked = 0\<rparr>" ?e]]
    by (simp add: running_one_def owner_defs machine_new_def standing_default_def thread_step_def has_ended_def)
  from reach_step [OF this ms_device [of 0 _ "\<lparr>st_order = Stop, parked = 0\<rparr>" ?e]] have "machine_reach (?m Stop ?e Free)"
    by (simp add: thread_step_def has_ended_def tell_order_def)
  from reach_step [OF this ms_pause [of _ "Ok ()"]] have "machine_reach (?m Hold ?e Pausing)"
    by (simp add: owner_defs)
  from reach_step [OF this ms_still [of _ True Waiting]] have "machine_reach (?m Hold ?e Free)"
    by (simp add: all_threads_def still_now_def pause_end_def)
  then show ?thesis
    by (intro exI [of _ "?m Hold ?e Free"]) (simp add: all_threads_def has_ended_def wait_machine_def valid_transition_def)
qed

text \<open>A second \<^verbatim>\<open>start\<close> of a paused machine is accepted and replaces its threads by new ones.\<close>

lemma start_accepts_paused:
  "m_state m = Paused \<Longrightarrow> snd (start_machine n m) = Ok () \<and> vcpu_threads (fst (start_machine n m)) = replicate n Inside"
  by (simp add: owner_defs)

end
