(* ===== verification/Ram_Image.thy ===== *)
theory Ram_Image
  imports Guest_Pages Machine
begin

text \<open>
  The image of guest RAM, \<^verbatim>\<open>write_memory\<close>, \<^verbatim>\<open>write_dirty\<close> and \<^verbatim>\<open>read_memory\<close> of
  \<^verbatim>\<open>src/lingcore/src/machine/mod.rs\<close>.  A file is its bytes, its position and the faults its next
  operations run into; a seek past its end and a later write leave a hole of zeroes.  The dirty log
  of the hypervisor is a parameter.

  The lemmas show that the chunks which are skipped read back the same as if they had been written,
  that a dirty image has the bytes of the marked pages and zeroes elsewhere, and that reading an
  image gives the RAM it was written from.
\<close>

section \<open>Files\<close>

record image_file =
  img :: bytes
  img_at :: nat
  faults :: "nat option list"

text \<open>\<open>Some k\<close> makes an operation fail, a write after its first \<open>k\<close> bytes; \<open>None\<close>, or no entry,
  lets it succeed.\<close>

definition next_fault :: "image_file \<Rightarrow> image_file \<times> nat option" where
  "next_fault f = (case faults f of [] \<Rightarrow> (f, None) | x # xs \<Rightarrow> (f\<lparr>faults := xs\<rparr>, x))"

definition put_bytes :: "bytes \<Rightarrow> image_file \<Rightarrow> image_file" where
  "put_bytes bs f =
     f\<lparr>img := (if bs = [] then img f else take (img_at f) (img f) @ replicate (img_at f - length (img f)) 0 @ bs @ drop (img_at f + length bs) (img f)),
       img_at := img_at f + length bs\<rparr>"

definition file_write_all :: "bytes \<Rightarrow> image_file \<Rightarrow> image_file \<times> (unit, machine_error) result" where
  "file_write_all bs f =
     (case next_fault f of
        (f1, None) \<Rightarrow> (put_bytes bs f1, Ok ())
      | (f1, Some k) \<Rightarrow> (put_bytes (take k bs) f1, Err RamImage))"

definition file_seek :: "nat \<Rightarrow> image_file \<Rightarrow> image_file \<times> (unit, machine_error) result" where
  "file_seek n f =
     (case next_fault f of
        (f1, None) \<Rightarrow> (f1\<lparr>img_at := img_at f1 + n\<rparr>, Ok ())
      | (f1, Some _) \<Rightarrow> (f1, Err RamImage))"

definition file_position :: "image_file \<Rightarrow> image_file \<times> (nat, machine_error) result" where
  "file_position f = (case next_fault f of (f1, None) \<Rightarrow> (f1, Ok (img_at f1)) | (f1, Some _) \<Rightarrow> (f1, Err RamImage))"

definition file_set_len :: "nat \<Rightarrow> image_file \<Rightarrow> image_file \<times> (unit, machine_error) result" where
  "file_set_len n f =
     (case next_fault f of
        (f1, None) \<Rightarrow> (f1\<lparr>img := take n (img f1) @ replicate (n - length (img f1)) 0\<rparr>, Ok ())
      | (f1, Some _) \<Rightarrow> (f1, Err RamImage))"

section \<open>Writing RAM\<close>

definition IMAGE_CHUNK :: nat where "IMAGE_CHUNK = 65536"

text \<open>The chunks of one region from offset \<open>at\<close> on.\<close>

function image_region ::
  "'m vm \<Rightarrow> 'm \<Rightarrow> region \<Rightarrow> nat \<Rightarrow> nat \<Rightarrow> image_file \<Rightarrow> image_file \<times> (nat, machine_error) result" where
  "image_region vm m r at moved f =
     (if at < unat (region_size r)
      then let count = min IMAGE_CHUNK (unat (region_size r) - at) in
        (case ram_read vm m (gpa r + of_nat at) count of
           Inl _ \<Rightarrow> (f, Err MachineMem)
         | Inr piece \<Rightarrow>
             (case (if list_ex (\<lambda>b. b \<noteq> 0) piece then file_write_all piece f else file_seek count f) of
                (f1, Inl e) \<Rightarrow> (f1, Err e)
              | (f1, Inr _) \<Rightarrow> image_region vm m r (at + count) (moved + count) f1))
      else (f, Ok moved))"
  by pat_completeness auto
termination
  by (relation "measure (\<lambda>(vm, m, r, at, moved, f). unat (region_size r) - at)") (auto simp: IMAGE_CHUNK_def)

declare image_region.simps [simp del]

fun image_regions ::
  "'m vm \<Rightarrow> 'm \<Rightarrow> region list \<Rightarrow> nat \<Rightarrow> image_file \<Rightarrow> image_file \<times> (nat, machine_error) result" where
  "image_regions vm m [] moved f = (f, Ok moved)"
| "image_regions vm m (r # rs) moved f =
     (case image_region vm m r 0 moved f of
        (f1, Inl e) \<Rightarrow> (f1, Err e)
      | (f1, Inr moved1) \<Rightarrow> image_regions vm m rs moved1 f1)"

definition write_memory ::
  "'m vm \<Rightarrow> mstate \<Rightarrow> 'm \<Rightarrow> image_file \<Rightarrow> image_file \<times> (unit, machine_error) result" where
  "write_memory vm st m f =
     (if st \<noteq> Paused then (f, Err (BadTransition st Paused))
      else case file_position f of
        (f1, Inl e) \<Rightarrow> (f1, Err e)
      | (f1, Inr begins) \<Rightarrow>
          (case image_regions vm m (ram_regions vm m) 0 f1 of
             (f2, Inl e) \<Rightarrow> (f2, Err e)
           | (f2, Inr moved) \<Rightarrow> file_set_len (begins + moved) f2))"

section \<open>Writing the pages which were written\<close>

text \<open>The log of each region is marked first; \<open>dlog\<close> is \<^verbatim>\<open>get_dirty_log\<close>.\<close>

fun mark_logged ::
  "'m pages \<Rightarrow> (u64 \<Rightarrow> u64 list option) \<Rightarrow> region list \<Rightarrow> 'm \<Rightarrow> 'm \<times> (unit, machine_error) result" where
  "mark_logged pg dlog [] m = (m, Ok ())"
| "mark_logged pg dlog (r # rs) m =
     (case dlog (gpa r) of
        None \<Rightarrow> (m, Err MachineHv)
      | Some words \<Rightarrow>
          (case mark pg m (gpa r) words of
             (m1, Inl _) \<Rightarrow> (m1, Err MachineMem)
           | (m1, Inr _) \<Rightarrow> mark_logged pg dlog rs m1))"

text \<open>The pages from \<open>gpa + run\<close> on, of the \<open>left\<close> bytes of a chunk at \<open>gpa\<close>, which are marked as the first is.\<close>

function dirty_run :: "'m pages \<Rightarrow> 'm \<Rightarrow> u64 \<Rightarrow> bool \<Rightarrow> nat \<Rightarrow> nat \<Rightarrow> nat option" where
  "dirty_run pg m a marked left run =
     (if run < left
      then let step = min 4096 (left - run) in
        (case written pg m (a + of_nat run) (of_nat step) of
           None \<Rightarrow> None
         | Some w \<Rightarrow> if w \<noteq> marked then Some run else dirty_run pg m a marked left (run + step))
      else Some run)"
  by pat_completeness auto
termination
  by (relation "measure (\<lambda>(pg, m, a, marked, left, run). left - run)") auto

declare dirty_run.simps [simp del]

text \<open>The runs of a chunk of \<open>left\<close> bytes at \<open>a\<close>.\<close>

partial_function (option) dirty_runs ::
  "'m vm \<Rightarrow> 'm pages \<Rightarrow> 'm \<Rightarrow> u64 \<Rightarrow> nat \<Rightarrow> image_file \<Rightarrow> (image_file \<times> (unit, machine_error) result) option" where
  "dirty_runs vm pg m a left f =
     (if 0 < left
      then (case written pg m a (of_nat (min 4096 left)) of
              None \<Rightarrow> None
            | Some marked \<Rightarrow>
                (case dirty_run pg m a marked left 0 of
                   None \<Rightarrow> None
                 | Some run \<Rightarrow>
                     (case (if marked
                            then (case ram_read vm m a run of
                                    Inl _ \<Rightarrow> (f, Err MachineMem)
                                  | Inr piece \<Rightarrow> file_write_all piece f)
                            else file_seek run f) of
                        (f1, r) \<Rightarrow> if isl r then Some (f1, r) else dirty_runs vm pg m (a + of_nat run) (left - run) f1)))
      else Some (f, Ok ()))"

partial_function (option) dirty_region ::
  "'m vm \<Rightarrow> 'm pages \<Rightarrow> 'm \<Rightarrow> region \<Rightarrow> nat \<Rightarrow> nat \<Rightarrow> image_file \<Rightarrow> (image_file \<times> (nat, machine_error) result) option" where
  "dirty_region vm pg m r at moved f =
     (if at < unat (region_size r)
      then let chunk = min IMAGE_CHUNK (unat (region_size r) - at) in
        (case written pg m (gpa r + of_nat at) (of_nat chunk) of
           None \<Rightarrow> None
         | Some w \<Rightarrow>
             (case (if w then dirty_runs vm pg m (gpa r + of_nat at) chunk f else Some (file_seek chunk f)) of
                None \<Rightarrow> None
              | Some (f1, res) \<Rightarrow>
                  if isl res then Some (f1, Err (projl res))
                  else dirty_region vm pg m r (at + chunk) (moved + chunk) f1))
      else Some (f, Ok moved))"

fun dirty_regions ::
  "'m vm \<Rightarrow> 'm pages \<Rightarrow> 'm \<Rightarrow> region list \<Rightarrow> nat \<Rightarrow> image_file \<Rightarrow> (image_file \<times> (nat, machine_error) result) option" where
  "dirty_regions vm pg m [] moved f = Some (f, Ok moved)"
| "dirty_regions vm pg m (r # rs) moved f =
     (case dirty_region vm pg m r 0 moved f of
        None \<Rightarrow> None
      | Some (f1, Inl e) \<Rightarrow> Some (f1, Err e)
      | Some (f1, Inr moved1) \<Rightarrow> dirty_regions vm pg m rs moved1 f1)"

definition write_dirty ::
  "'m vm \<Rightarrow> 'm pages \<Rightarrow> (u64 \<Rightarrow> u64 list option) \<Rightarrow> mstate \<Rightarrow> 'm \<Rightarrow> image_file \<Rightarrow>
     ('m \<times> image_file \<times> (unit, machine_error) result) option" where
  "write_dirty vm pg dlog st m f =
     (if st \<noteq> Paused then Some (m, f, Err (BadTransition st Paused))
      else case mark_logged pg dlog (ram_regions vm m) m of
        (m1, Inl e) \<Rightarrow> Some (m1, f, Err e)
      | (m1, Inr _) \<Rightarrow>
          (case file_position f of
             (f1, Inl e) \<Rightarrow> Some (m1, f1, Err e)
           | (f1, Inr begins) \<Rightarrow>
               (case dirty_regions vm pg m1 (ram_regions vm m1) 0 f1 of
                  None \<Rightarrow> None
                | Some (f2, Inl e) \<Rightarrow> Some (m1, f2, Err e)
                | Some (f2, Inr moved) \<Rightarrow> Some (m1, file_set_len (begins + moved) f2))))"

section \<open>Reading RAM\<close>

fun fill_regions :: "('m, 's) reader \<Rightarrow> region list \<Rightarrow> 'm \<Rightarrow> 's \<Rightarrow> 'm \<times> 's \<times> (unit, machine_error) result" where
  "fill_regions rd [] m s = (m, s, Ok ())"
| "fill_regions rd (r # rs) m s =
     (case fill_all_from rd m s (gpa r) (unat (region_size r)) of
        (m1, s1, Inl _) \<Rightarrow> (m1, s1, Err MachineMem)
      | (m1, s1, Inr n) \<Rightarrow>
          if n \<noteq> unat (region_size r) then (m1, s1, Err SnapshotShape) else fill_regions rd rs m1 s1)"

definition read_memory ::
  "'m vm \<Rightarrow> ('m, 's) reader \<Rightarrow> mstate \<Rightarrow> 'm \<Rightarrow> 's \<Rightarrow> 'm \<times> 's \<times> (unit, machine_error) result" where
  "read_memory vm rd st m s =
     (if st \<noteq> Created \<and> st \<noteq> Paused then (m, s, Err (BadTransition st Paused))
      else fill_regions rd (ram_regions vm m) m s)"

section \<open>Files with holes\<close>

text \<open>What a file reads as once its length is its position: the hole behind its end is zeroes.\<close>

definition laid :: "image_file \<Rightarrow> bytes" where
  "laid f = img f @ replicate (img_at f - length (img f)) 0"

definition at_end :: "image_file \<Rightarrow> bool" where
  "at_end f \<longleftrightarrow> length (img f) \<le> img_at f"

lemma length_laid: "at_end f \<Longrightarrow> length (laid f) = img_at f"
  by (simp add: laid_def at_end_def)

lemma next_fault_keeps: "next_fault f = (f', x) \<Longrightarrow> img f' = img f \<and> img_at f' = img_at f \<and> (faults f = [] \<longrightarrow> x = None \<and> f' = f)"
  by (auto simp: next_fault_def split: list.splits)

lemma file_write_all_ok:
  "file_write_all bs f = (f', Inr u) \<Longrightarrow> at_end f \<Longrightarrow> at_end f' \<and> laid f' = laid f @ bs"
  by (auto simp: file_write_all_def put_bytes_def at_end_def laid_def split: prod.splits option.splits dest!: next_fault_keeps)

lemma file_seek_ok:
  "file_seek n f = (f', Inr u) \<Longrightarrow> at_end f \<Longrightarrow> at_end f' \<and> laid f' = laid f @ replicate n 0"
  by (auto simp: file_seek_def at_end_def laid_def replicate_add [symmetric] split: prod.splits option.splits dest!: next_fault_keeps)

lemma file_position_ok:
  "file_position f = (f', Inr n) \<Longrightarrow> at_end f \<Longrightarrow> at_end f' \<and> laid f' = laid f \<and> n = length (laid f)"
  by (auto simp: file_position_def at_end_def laid_def split: prod.splits option.splits dest!: next_fault_keeps)

lemma file_set_len_ok:
  "file_set_len n f = (f', Inr u) \<Longrightarrow> at_end f \<Longrightarrow> n = length (laid f) \<Longrightarrow> img f' = laid f"
  by (auto simp: file_set_len_def at_end_def laid_def split: prod.splits option.splits dest!: next_fault_keeps)

lemma file_faultless:
  assumes "faults f = []"
  shows "file_write_all bs f = (put_bytes bs f, Inr ())" "faults (put_bytes bs f) = []"
    and "file_seek n f = (f\<lparr>img_at := img_at f + n\<rparr>, Inr ())"
    and "file_position f = (f, Inr (img_at f))"
    and "isl (snd (file_set_len n f)) = False"
  using assms by (simp_all add: file_write_all_def file_seek_def file_position_def file_set_len_def next_fault_def put_bytes_def)

section \<open>RAM byte by byte\<close>

text \<open>A read is the bytes at its addresses, and a range is backed if a longer one is.\<close>

locale vm_bytes = vm_memory vm for vm :: "'m vm" +
  assumes read_nth: "vm_read_slice vm m a n = Some bs \<Longrightarrow> unat a + n \<le> 2 ^ 64 \<Longrightarrow> i < n \<Longrightarrow>
      vm_read_slice vm m (a + of_nat i) 1 = Some [bs ! i]"
    and check_part: "vm_check_range vm m a n \<Longrightarrow> unat a + n \<le> 2 ^ 64 \<Longrightarrow> i + k \<le> n \<Longrightarrow> 0 < k \<Longrightarrow>
      vm_check_range vm m (a + of_nat i) k"

definition byte_of :: "'m vm \<Rightarrow> 'm \<Rightarrow> u64 \<Rightarrow> u8" where
  "byte_of vm m a = (case vm_read_slice vm m a 1 of Some [b] \<Rightarrow> b | _ \<Rightarrow> 0)"

definition span_bytes :: "'m vm \<Rightarrow> 'm \<Rightarrow> u64 \<Rightarrow> nat \<Rightarrow> bytes" where
  "span_bytes vm m a n = map (\<lambda>i. byte_of vm m (a + of_nat i)) [0..<n]"

definition region_low :: "region \<Rightarrow> bool" where
  "region_low r \<longleftrightarrow> unat (gpa r) + unat (region_size r) \<le> 2 ^ 64"

text \<open>The dense image: the bytes of the regions one after the other.\<close>

definition ram_bytes :: "'m vm \<Rightarrow> 'm \<Rightarrow> region list \<Rightarrow> bytes" where
  "ram_bytes vm m rs = concat (map (\<lambda>r. span_bytes vm m (gpa r) (unat (region_size r))) rs)"

lemma length_span_bytes [simp]: "length (span_bytes vm m a n) = n"
  by (simp add: span_bytes_def)

lemma span_bytes_add: "span_bytes vm m a (n + k) = span_bytes vm m a n @ span_bytes vm m (a + of_nat n) k"
  by (rule nth_equalityI) (auto simp: span_bytes_def nth_append algebra_simps of_nat_diff simp flip: of_nat_add)

lemma zero_bytes: "\<not> list_ex (\<lambda>b. b \<noteq> 0) bs \<Longrightarrow> bs = replicate (length bs) (0 :: u8)"
  by (induction bs) auto

context vm_bytes
begin

lemma ram_read_span: 
  assumes "ram_read vm m a n = Inr bs" "unat a + n \<le> 2 ^ 64"
  shows "bs = span_bytes vm m a n"
proof (rule nth_equalityI)
  have bs: "vm_read_slice vm m a n = Some bs" using assms(1) by (simp add: ram_read_def)
  show "length bs = length (span_bytes vm m a n)" using read_length [OF bs] by simp
  fix i assume "i < length bs"
  then have "i < n" using read_length [OF bs] by simp
  with read_nth [OF bs assms(2)] show "bs ! i = span_bytes vm m a n ! i" by (simp add: span_bytes_def byte_of_def)
qed

lemma unat_offset: "region_low r \<Longrightarrow> at < unat (region_size r) \<Longrightarrow> unat (gpa r + of_nat at) = unat (gpa r) + at"
  by (rule unat_add_of_nat) (simp add: region_low_def)

lemma region_part_read:
  assumes "region_low r" "vm_check_range vm m (gpa r) (unat (region_size r))" "at + n \<le> unat (region_size r)" "0 < n"
  shows "ram_read vm m (gpa r + of_nat at) n = Inr (span_bytes vm m (gpa r + of_nat at) n)"
proof -
  have "vm_check_range vm m (gpa r + of_nat at) n"
    using check_part assms by (simp add: region_low_def)
  then obtain bs where bs: "ram_read vm m (gpa r + of_nat at) n = Inr bs"
    using ram_read_backed assms(4) by blast
  moreover have "unat (gpa r + of_nat at) + n \<le> 2 ^ 64"
    using unat_offset [OF assms(1), of at] assms by (simp add: region_low_def)
  ultimately show ?thesis using ram_read_span by blast
qed

text \<open>A region which is written takes its bytes, whichever chunks are skipped.\<close>

lemma image_region_lays:
  assumes "image_region vm m r at moved f = (f', Inr moved')" "at_end f" "region_low r" "at \<le> unat (region_size r)"
  shows "at_end f' \<and> laid f' = laid f @ span_bytes vm m (gpa r + of_nat at) (unat (region_size r) - at) \<and>
    moved' = moved + (unat (region_size r) - at)"
  using assms(1,2,4)
proof (induction "unat (region_size r) - at" arbitrary: at moved f rule: less_induct)
  case less
  show ?case
  proof (cases "at < unat (region_size r)")
    case False
    with less.prems show ?thesis by (simp add: image_region.simps span_bytes_def)
  next
    case True
    define count where "count = min IMAGE_CHUNK (unat (region_size r) - at)"
    have c: "0 < count" "at + count \<le> unat (region_size r)" using True by (simp_all add: count_def IMAGE_CHUNK_def)
    from less.prems(1) True obtain piece f1 u where step: "ram_read vm m (gpa r + of_nat at) count = Inr piece"
      "(if list_ex (\<lambda>b. b \<noteq> 0) piece then file_write_all piece f else file_seek count f) = (f1, Inr u)"
      "image_region vm m r (at + count) (moved + count) f1 = (f', Inr moved')"
      unfolding image_region.simps [of vm m r at] Let_def count_def [symmetric] by (auto split: sum.splits prod.splits)
    have "unat (gpa r + of_nat at) + count \<le> 2 ^ 64"
      using unat_offset [OF assms(3) True] c(2) assms(3) by (simp add: region_low_def)
    with step(1) have piece: "piece = span_bytes vm m (gpa r + of_nat at) count" by (rule ram_read_span)
    then have "\<not> list_ex (\<lambda>b. b \<noteq> 0) piece \<Longrightarrow> piece = replicate count 0"
      using zero_bytes by fastforce
    with step(2) less.prems(2) have f1: "at_end f1 \<and> laid f1 = laid f @ piece"
      by (auto dest: file_write_all_ok file_seek_ok split: if_splits)
    have "span_bytes vm m (gpa r + of_nat at) (count + (unat (region_size r) - (at + count))) =
        piece @ span_bytes vm m (gpa r + of_nat (at + count)) (unat (region_size r) - (at + count))"
      by (simp only: span_bytes_add piece of_nat_add add.assoc)
    moreover have "count + (unat (region_size r) - (at + count)) = unat (region_size r) - at" using c by simp
    ultimately have "span_bytes vm m (gpa r + of_nat at) (unat (region_size r) - at) =
        piece @ span_bytes vm m (gpa r + of_nat (at + count)) (unat (region_size r) - (at + count))" by metis
    moreover from less.hyps [OF _ step(3)] f1 c have "at_end f' \<and> laid f' = laid f1 @ span_bytes vm m (gpa r + of_nat (at + count)) (unat (region_size r) - (at + count)) \<and>
        moved' = moved + count + (unat (region_size r) - (at + count))" by simp
    ultimately show ?thesis using f1 c by simp
  qed
qed

lemma image_region_returns:
  assumes "faults f = []" "region_low r" "vm_check_range vm m (gpa r) (unat (region_size r))"
  shows "\<exists>f' n. image_region vm m r at moved f = (f', Inr n) \<and> faults f' = []"
  using assms(1)
proof (induction "unat (region_size r) - at" arbitrary: at moved f rule: less_induct)
  case less
  show ?case
  proof (cases "at < unat (region_size r)")
    case False
    with less.prems show ?thesis by (simp add: image_region.simps)
  next
    case True
    define count where "count = min IMAGE_CHUNK (unat (region_size r) - at)"
    have c: "0 < count" "at + count \<le> unat (region_size r)" using True by (simp_all add: count_def IMAGE_CHUNK_def)
    note read = region_part_read [OF assms(2,3) c(2,1)]
    have "unat (region_size r) - (at + count) < unat (region_size r) - at" using c by simp
    note next' = less.hyps [OF this]
    show ?thesis
      unfolding image_region.simps [of vm m r at] Let_def count_def [symmetric] read
      using True next' less.prems by (simp add: file_faultless)
  qed
qed

lemma image_regions_lay:
  "image_regions vm m rs moved f = (f', Inr moved') \<Longrightarrow> at_end f \<Longrightarrow> list_all region_low rs \<Longrightarrow>
   at_end f' \<and> laid f' = laid f @ ram_bytes vm m rs \<and> moved' = moved + length (ram_bytes vm m rs)"
proof (induction rs arbitrary: moved f)
  case (Cons r rs)
  from Cons.prems obtain f1 n where r: "image_region vm m r 0 moved f = (f1, Inr n)" "image_regions vm m rs n f1 = (f', Inr moved')"
    by (auto split: prod.splits sum.splits)
  from image_region_lays [OF r(1)] Cons.IH [OF r(2)] Cons.prems show ?case by (simp add: ram_bytes_def)
qed (simp add: ram_bytes_def)

lemma image_regions_return:
  "faults f = [] \<Longrightarrow> list_all region_low rs \<Longrightarrow> list_all (\<lambda>r. vm_check_range vm m (gpa r) (unat (region_size r))) rs \<Longrightarrow>
   \<exists>f' n. image_regions vm m rs moved f = (f', Inr n) \<and> faults f' = []"
proof (induction rs arbitrary: moved f)
  case (Cons r rs)
  then obtain f1 n where "image_region vm m r 0 moved f = (f1, Inr n)" "faults f1 = []"
    using image_region_returns [of f r m 0 moved] by auto
  with Cons show ?case by simp
qed simp

text \<open>Sparse or not, the image is the dense one, and nothing but a fault of the file keeps it from being written.\<close>

lemma write_memory_lays:
  assumes "list_all region_low (ram_regions vm m)" "at_end f"
  shows "write_memory vm Paused m f = (f', Inr u) \<Longrightarrow> img f' = laid f @ ram_bytes vm m (ram_regions vm m)"
    and "faults f = [] \<Longrightarrow> list_all (\<lambda>r. vm_check_range vm m (gpa r) (unat (region_size r))) (ram_regions vm m) \<Longrightarrow>
      \<exists>f'. write_memory vm Paused m f = (f', Inr ())"
proof -
  assume "write_memory vm Paused m f = (f', Inr u)"
  then obtain f1 begins f2 n where "file_position f = (f1, Inr begins)"
    "image_regions vm m (ram_regions vm m) 0 f1 = (f2, Inr n)" "file_set_len (begins + n) f2 = (f', Inr u)"
    by (auto simp: write_memory_def split: prod.splits sum.splits)
  with file_position_ok [of f f1 begins] image_regions_lay [of m _ 0 f1 f2 n] file_set_len_ok [of "begins + n" f2 f'] assms
  show "img f' = laid f @ ram_bytes vm m (ram_regions vm m)" by auto
next
  assume "faults f = []" "list_all (\<lambda>r. vm_check_range vm m (gpa r) (unat (region_size r))) (ram_regions vm m)"
  with image_regions_return [of f "ram_regions vm m" m 0] assms(1) obtain f2 n where
    "image_regions vm m (ram_regions vm m) 0 f = (f2, Inr n)" "faults f2 = []" by auto
  with \<open>faults f = []\<close> file_faultless(5) [of f2 "img_at f + n"]
  show "\<exists>f'. write_memory vm Paused m f = (f', Inr ())"
    by (cases "file_set_len (img_at f + n) f2"; cases "snd (file_set_len (img_at f + n) f2)") (auto simp: write_memory_def file_faultless)
qed

end

section \<open>Reading an image back\<close>

text \<open>A source whose unread bytes are \<open>view s\<close>, read without an error: a read takes some of them into RAM,
  none only at the end, and leaves every other range as it is.\<close>

locale ram_source = vm_bytes vm for vm :: "'m vm" +
  fixes rd :: "('m, 's) reader" and view :: "'s \<Rightarrow> bytes"
  assumes source_some: "vm_check_range vm m a n \<Longrightarrow> 0 < n \<Longrightarrow> \<exists>m' s' k. rd m s a n = (m', s', Some k)"
    and source_takes: "rd m s a n = (m', s', Some k) \<Longrightarrow> 0 < n \<Longrightarrow> unat a + n \<le> 2 ^ 64 \<Longrightarrow>
      k \<le> n \<and> k \<le> length (view s) \<and> (k = 0 \<longrightarrow> view s = []) \<and> view s' = drop k (view s) \<and> span_bytes vm m' a k = take k (view s)"
    and source_frame: "rd m s a n = (m', s', x) \<Longrightarrow> apart a n b j \<Longrightarrow> ram_read vm m' b j = ram_read vm m b j"
    and source_range: "rd m s a n = (m', s', x) \<Longrightarrow> vm_check_range vm m' b j = vm_check_range vm m b j"

lemma byte_of_read: "ram_read vm m' a 1 = ram_read vm m a 1 \<Longrightarrow> byte_of vm m' a = byte_of vm m a"
  by (auto simp: ram_read_def byte_of_def ok_or_def split: option.splits)

lemma span_bytes_frame:
  assumes "\<And>b j. apart a n b j \<Longrightarrow> ram_read vm m' b j = ram_read vm m b j" "apart a n c k" "unat c + k \<le> 2 ^ 64"
  shows "span_bytes vm m' c k = span_bytes vm m c k"
proof -
  have "apart a n (c + of_nat i) 1" if "i < k" for i
    using assms(2) unat_add_of_nat [of c i] assms(3) that by (auto simp: apart_def)
  then show ?thesis by (auto simp: span_bytes_def intro!: byte_of_read assms(1))
qed

text \<open>What is left of a range lies apart from what is done, and from all which the range lies apart from.\<close>

lemma apart_rest:
  assumes "unat (a :: u64) + n \<le> 2 ^ 64" "k \<le> n"
  shows "apart (a + of_nat k) (n - k) a k" "apart a n b j \<Longrightarrow> apart (a + of_nat k) (n - k) b j"
proof -
  have "unat (a + of_nat k) = unat a + k \<or> (unat (a + of_nat k) = 0 \<and> n = k)"
  proof (cases "unat a + k < 2 ^ 64")
    case True
    then show ?thesis by (simp add: unat_add_of_nat)
  next
    case False
    then have "unat a + k = 2 ^ 64" "n = k" using assms by auto
    then show ?thesis by (simp add: unat_word_ariths unat_of_nat mod_add_right_eq)
  qed
  then show "apart (a + of_nat k) (n - k) a k" "apart a n b j \<Longrightarrow> apart (a + of_nat k) (n - k) b j"
    using assms(2) by (auto simp: apart_def)
qed

text \<open>The regions lie apart, and each is backed.\<close>

definition regions_ok :: "'m vm \<Rightarrow> 'm \<Rightarrow> region list \<Rightarrow> bool" where
  "regions_ok vm m rs \<longleftrightarrow> list_all region_low rs \<and> list_all (\<lambda>r. vm_check_range vm m (gpa r) (unat (region_size r))) rs \<and>
     sorted_wrt (\<lambda>r r'. apart (gpa r') (unat (region_size r')) (gpa r) (unat (region_size r))) rs"

lemma length_ram_bytes: "length (ram_bytes vm m rs) = sum_list (map (\<lambda>r. unat (region_size r)) rs)"
  by (simp add: ram_bytes_def length_concat o_def)

context ram_source
begin

text \<open>A fill takes as many bytes as it wants, or all there are.\<close>

definition filled_by :: "'m \<Rightarrow> 's \<Rightarrow> u64 \<Rightarrow> nat \<Rightarrow> 'm \<Rightarrow> 's \<Rightarrow> bool" where
  "filled_by m s a n m' s' \<longleftrightarrow>
     (n \<le> length (view s) \<longrightarrow> view s' = drop n (view s) \<and> span_bytes vm m' a n = take n (view s)) \<and>
     (\<forall>b j. apart a n b j \<longrightarrow> ram_read vm m' b j = ram_read vm m b j) \<and>
     (\<forall>b j. vm_check_range vm m' b j = vm_check_range vm m b j)"

lemma filled_by_more:
  assumes "rd m s a n = (m1, s1, Some k)" "0 < n" "unat a + n \<le> 2 ^ 64" "filled_by m1 s1 (a + of_nat k) (n - k) m2 s2"
  shows "filled_by m s a n m2 s2"
proof -
  note took = source_takes [OF assms(1-3)]
  then have k: "k \<le> n" "k \<le> length (view s)" by simp_all
  have "span_bytes vm m2 a k = span_bytes vm m1 a k"
    using span_bytes_frame [of "a + of_nat k" "n - k" vm m2 m1 a k] assms(3,4) apart_rest(1) [OF assms(3) k(1)] k(1)
    by (auto simp: filled_by_def)
  moreover have "span_bytes vm m2 a n = span_bytes vm m2 a k @ span_bytes vm m2 (a + of_nat k) (n - k)"
    using span_bytes_add [of vm m2 a k "n - k"] k(1) by simp
  moreover have "take n (view s) = take k (view s) @ take (n - k) (view s1)"
    using took take_add [of k "n - k" "view s"] by simp
  ultimately have "n \<le> length (view s) \<longrightarrow> view s2 = drop n (view s) \<and> span_bytes vm m2 a n = take n (view s)"
    using assms(4) took by (auto simp: filled_by_def)
  then show ?thesis
    using assms(4) source_frame [OF assms(1)] source_range [OF assms(1)] apart_rest(2) [OF assms(3) k(1)]
    by (simp add: filled_by_def)
qed

lemma fill_all_loop_takes:
  assumes "vm_check_range vm m at count" "unat at + count \<le> 2 ^ 64" "filled \<le> count"
  shows "\<exists>m' s' n. fill_all_loop rd at count m s filled = (m', s', Inr n) \<and>
    (n = count \<longleftrightarrow> count - filled \<le> length (view s)) \<and> filled_by m s (at + of_nat filled) (count - filled) m' s'"
  using assms(1,3)
proof (induction "count - filled" arbitrary: m s filled rule: less_induct)
  case less
  show ?case
  proof (cases "filled < count")
    case False
    then show ?thesis using less.prems by (simp add: span_bytes_def filled_by_def)
  next
    case True
    let ?a = "at + of_nat filled" and ?n = "count - filled"
    have wide: "unat ?a + ?n \<le> 2 ^ 64" "0 < ?n" using unat_add_of_nat [of at filled] assms(2) True by simp_all
    have "vm_check_range vm m ?a ?n" using check_part [OF less.prems(1) assms(2), of filled ?n] True by simp
    then obtain m1 s1 k where rd: "rd m s ?a ?n = (m1, s1, Some k)" using source_some wide(2) by blast
    note took = source_takes [OF rd wide(2,1)]
    have unfolded: "fill_all_loop rd at count m s filled =
        (if k = 0 then (m1, s1, Inr filled) else fill_all_loop rd at count m1 s1 (filled + k))"
      using True rd by (simp add: fill_all_loop.simps [of rd at count m s] fill_from_def)
    show ?thesis
    proof (cases "k = 0")
      case True
      with took unfolded source_range [OF rd] source_frame [OF rd] wide(2) show ?thesis by (simp add: filled_by_def)
    next
      case False
      then have "count - (filled + k) < count - filled" "filled + k \<le> count" using True took by auto
      from less.hyps [OF this(1) _ this(2), of m1 s1] less.prems(1) source_range [OF rd]
      obtain m2 s2 n where "fill_all_loop rd at count m1 s1 (filled + k) = (m2, s2, Inr n)"
        "n = count \<longleftrightarrow> count - (filled + k) \<le> length (view s1)"
        "filled_by m1 s1 (at + of_nat (filled + k)) (count - (filled + k)) m2 s2" by auto
      with filled_by_more [OF rd wide(2,1), of m2 s2] unfolded False took True
      show ?thesis by (auto simp: add.assoc)
    qed
  qed
qed

lemma fill_regions_takes:
  assumes "regions_ok vm m rs"
  shows "\<exists>m' s' res. fill_regions rd rs m s = (m', s', res) \<and>
    (if length (ram_bytes vm m rs) \<le> length (view s)
     then res = Ok () \<and> ram_bytes vm m' rs = take (length (ram_bytes vm m rs)) (view s)
     else res = Err SnapshotShape) \<and>
    (\<forall>c k. unat c + k \<le> 2 ^ 64 \<longrightarrow> list_all (\<lambda>r. apart (gpa r) (unat (region_size r)) c k) rs \<longrightarrow> span_bytes vm m' c k = span_bytes vm m c k)"
  using assms
proof (induction rs arbitrary: m s)
  case Nil
  then show ?case by (simp add: ram_bytes_def)
next
  case (Cons r rs)
  let ?n = "unat (region_size r)"
  from Cons.prems have r: "unat (gpa r) + ?n \<le> 2 ^ 64" "vm_check_range vm m (gpa r) ?n"
    by (simp_all add: regions_ok_def region_low_def)
  obtain m1 s1 n where fill: "fill_all_from rd m s (gpa r) ?n = (m1, s1, Inr n)"
    "n = ?n \<longleftrightarrow> ?n \<le> length (view s)" and by1: "filled_by m s (gpa r) ?n m1 s1"
    using fill_all_loop_takes [OF r(2,1), of 0 s] by (auto simp: fill_all_from_def)
  have "regions_ok vm m1 rs" using Cons.prems by1 by (simp add: regions_ok_def filled_by_def)
  from Cons.IH [OF this, of s1] obtain m2 s2 res where rest: "fill_regions rd rs m1 s1 = (m2, s2, res)"
    "if length (ram_bytes vm m1 rs) \<le> length (view s1)
     then res = Ok () \<and> ram_bytes vm m2 rs = take (length (ram_bytes vm m1 rs)) (view s1) else res = Err SnapshotShape"
    "\<And>c k. unat c + k \<le> 2 ^ 64 \<Longrightarrow> list_all (\<lambda>r. apart (gpa r) (unat (region_size r)) c k) rs \<Longrightarrow> span_bytes vm m2 c k = span_bytes vm m1 c k"
    by blast
  have keep: "unat c + k \<le> 2 ^ 64 \<Longrightarrow> apart (gpa r) ?n c k \<Longrightarrow> span_bytes vm m1 c k = span_bytes vm m c k" for c k
    using span_bytes_frame [of "gpa r" ?n vm m1 m c k] by1 by (auto simp: filled_by_def)
  have own: "span_bytes vm m2 (gpa r) ?n = span_bytes vm m1 (gpa r) ?n"
    using rest(3) [OF r(1)] Cons.prems by (simp add: regions_ok_def list_all_iff)
  have len: "length (ram_bytes vm m (r # rs)) = ?n + length (ram_bytes vm m1 rs)" by (simp add: length_ram_bytes)
  show ?case
  proof (cases "n = ?n")
    case False
    then show ?thesis using fill keep len by simp
  next
    case True
    then have "view s1 = drop ?n (view s)" "span_bytes vm m1 (gpa r) ?n = take ?n (view s)" "?n \<le> length (view s)"
      using fill(2) by1 by (simp_all add: filled_by_def)
    moreover have "ram_bytes vm m2 (r # rs) = span_bytes vm m2 (gpa r) ?n @ ram_bytes vm m2 rs" by (simp add: ram_bytes_def)
    ultimately show ?thesis
      using fill(1) True rest len keep own take_add [of ?n "length (ram_bytes vm m1 rs)" "view s"] by (auto split: if_splits)
  qed
qed

end

section \<open>The memory of regions\<close>

lemma flat_check_part: "flat_check m a n \<Longrightarrow> unat a + n \<le> 2 ^ 64 \<Longrightarrow> i + k \<le> n \<Longrightarrow> 0 < k \<Longrightarrow> flat_check m (a + of_nat i) k"
  using unat_add_of_nat [of a i] by (auto simp: flat_check_def list_all_iff)

interpretation flat_bytes: vm_bytes flat_vm
proof
  fix m a n bs i k
  show "vm_check_range flat_vm m a n \<Longrightarrow> unat a + n \<le> 2 ^ 64 \<Longrightarrow> i + k \<le> n \<Longrightarrow> 0 < k \<Longrightarrow> vm_check_range flat_vm m (a + of_nat i) k"
    by (simp add: flat_check_part)
  assume "vm_read_slice flat_vm m a n = Some bs" "unat a + n \<le> 2 ^ 64" "i < n"
  then show "vm_read_slice flat_vm m (a + of_nat i) 1 = Some [bs ! i]"
    using flat_check_part [of m a n i 1] unat_add_of_nat [of a i] by (auto simp: flat_read_def split: if_splits)
qed

lemma flat_span_bytes:
  "unat a + n \<le> 2 ^ 64 \<Longrightarrow> flat_check m a n \<Longrightarrow> span_bytes flat_vm m a n = map (fr_byte m) [unat a..<unat a + n]"
  using flat_bytes.ram_read_span [of m a n "map (fr_byte m) [unat a..<unat a + n]"] by (simp add: ram_read_def flat_read_def)

interpretation flat_source: ram_source flat_vm list_read "\<lambda>s. s"
proof
  fix m :: flat_ram and a b :: u64 and n j k :: nat and s s' :: bytes and m' :: flat_ram and x
  show "vm_check_range flat_vm m a n \<Longrightarrow> 0 < n \<Longrightarrow> \<exists>m' s' k. list_read m s a n = (m', s', Some k)"
    by (auto simp: list_read_def flat_write_def flat_check_def list_all_iff)
  show "list_read m s a n = (m', s', x) \<Longrightarrow> apart a n b j \<Longrightarrow> ram_read flat_vm m' b j = ram_read flat_vm m b j"
    by (rule list_read_frame)
  show "list_read m s a n = (m', s', x) \<Longrightarrow> vm_check_range flat_vm m' b j = vm_check_range flat_vm m b j"
    by (rule list_read_range)
  assume rd: "list_read m s a n = (m', s', Some k)" "0 < n" "unat a + n \<le> 2 ^ 64"
  then have k: "k = length (take n s)" "s' = drop n s" "flat_write m a (take n s) = (m', True)"
    by (auto simp: list_read_def split: prod.splits if_splits)
  then have "flat_check m' a k" "m' = fst (flat_write m a (take n s))" "flat_check m a k"
    by (auto simp: flat_write_def split: if_splits) (simp add: flat_check_def)
  then have "span_bytes flat_vm m' a k = take n s"
    using k rd(3) by (subst flat_span_bytes) (auto simp: flat_write_def intro!: nth_equalityI)
  with k rd(2) show "k \<le> n \<and> k \<le> length s \<and> (k = 0 \<longrightarrow> s = []) \<and> s' = drop k s \<and> span_bytes flat_vm m' a k = take k s"
    by (auto simp: min_def)
qed

section \<open>Properties of the image\<close>

text \<open>
  Property C28.  The RAM of a paused guest, written into a new file and read into a guest with the
  same regions, is the RAM it was written from: the file is the bytes of the regions one after the
  other, whichever chunks are skipped as zeroes; only a fault of the file keeps the image from being
  written; and a source shorter than the RAM is refused as \<^verbatim>\<open>SnapshotShape\<close>.
\<close>

theorem ram_image_round_trip:
  assumes "ram_source vm rd view" "ram_regions vm m = rs" "ram_regions vm m2 = rs" "regions_ok vm m rs" "regions_ok vm m2 rs"
    and "img f = []" "img_at f = 0"
  shows "(\<forall>f'. write_memory vm Paused m f = (f', Ok ()) \<longrightarrow> img f' = ram_bytes vm m rs \<and>
      (\<forall>s. view s = img f' \<longrightarrow>
        (\<exists>m3 s'. read_memory vm rd Created m2 s = (m3, s', Ok ()) \<and> ram_bytes vm m3 rs = ram_bytes vm m rs))) \<and>
    (faults f = [] \<longrightarrow> (\<exists>f'. write_memory vm Paused m f = (f', Ok ()))) \<and>
    (\<forall>s. length (view s) < length (ram_bytes vm m rs) \<longrightarrow> snd (snd (read_memory vm rd Created m2 s)) = Err SnapshotShape)"
proof -
  note src = ram_source.fill_regions_takes [OF assms(1,5)] and bytes = ram_source.axioms(1) [OF assms(1)]
  have f: "at_end f" "laid f = []" using assms(6,7) by (simp_all add: at_end_def laid_def)
  have low: "list_all region_low (ram_regions vm m)" using assms(2,4) by (simp add: regions_ok_def)
  have len: "length (ram_bytes vm m2 rs) = length (ram_bytes vm m rs)" by (simp add: length_ram_bytes)
  have read: "read_memory vm rd Created m2 s = fill_regions rd rs m2 s" for s by (simp add: read_memory_def assms(3))
  have "img f' = ram_bytes vm m rs" if "write_memory vm Paused m f = (f', Ok ())" for f'
    using vm_bytes.write_memory_lays(1) [OF bytes low f(1) that] f(2) assms(2) by simp
  moreover have "\<exists>m3 s'. read_memory vm rd Created m2 s = (m3, s', Ok ()) \<and> ram_bytes vm m3 rs = ram_bytes vm m rs"
    if "view s = ram_bytes vm m rs" for s
    using src [of s] that len by (auto simp: read)
  moreover have "faults f = [] \<longrightarrow> (\<exists>f'. write_memory vm Paused m f = (f', Ok ()))"
    using vm_bytes.write_memory_lays(2) [OF bytes low f(1)] assms(2,4) by (simp add: regions_ok_def)
  moreover have "snd (snd (read_memory vm rd Created m2 s)) = Err SnapshotShape" if "length (view s) < length (ram_bytes vm m rs)" for s
    using src [of s] that len by (auto simp: read)
  ultimately show ?thesis by auto
qed

definition small_ram :: flat_ram where
  "small_ram = ram_of 4 [(1, [7, 0, 9])]"

abbreviation small_regions :: "region list" where
  "small_regions \<equiv> [\<lparr>gpa = 0, region_size = 4\<rparr>]"

lemma small_regions_ok: "regions_ok flat_vm (ram_of 4 ps) small_regions"
  by (simp add: regions_ok_def region_low_def)

lemma small_bytes: "ram_bytes flat_vm small_ram small_regions = [0, 7, 0, 9]"
  by (simp add: ram_bytes_def flat_span_bytes small_ram_def) (simp add: ram_of_def upt_rec)

theorem ram_image_round_trip_witness:
  "\<exists>f' m3 s'. write_memory flat_vm Paused small_ram \<lparr>img = [], img_at = 0, faults = []\<rparr> = (f', Ok ()) \<and>
     img f' = [0, 7, 0, 9] \<and>
     read_memory flat_vm list_read Created (ram_of 4 []) (img f') = (m3, s', Ok ()) \<and> ram_bytes flat_vm m3 small_regions = [0, 7, 0, 9]"
  using ram_image_round_trip [OF flat_source.ram_source_axioms, of small_ram small_regions "ram_of 4 []" "\<lparr>img = [], img_at = 0, faults = []\<rparr>"]
    small_regions_ok [of "[]"] small_regions_ok [of "[(1, [7, 0, 9])]"]
  by (auto simp: small_bytes) (auto simp: ram_regions_def ram_of_def small_ram_def)

end
