(* ===== verification/Dirty_Image.thy ===== *)
theory Dirty_Image
  imports Ram_Image
begin

text \<open>
  What \<^verbatim>\<open>write_dirty\<close> of \<^verbatim>\<open>src/lingcore/src/machine/mod.rs\<close> writes: its chunks and runs come down to a
  choice per page, the bytes of a marked page and zeroes for another.  The marks are the ones of the
  bitmap and of the dirty log, whose words are one bit per page.
\<close>

section \<open>The reference\<close>

text \<open>The mark of page \<open>p\<close> of a region, and byte \<open>i\<close> of the image of a region.\<close>

definition page_set :: "'m pages \<Rightarrow> 'm \<Rightarrow> region \<Rightarrow> nat \<Rightarrow> bool" where
  "page_set pg m r p = is_addr_set pg m r (of_nat p * PAGE)"

definition dirty_byte :: "'m vm \<Rightarrow> 'm pages \<Rightarrow> 'm \<Rightarrow> region \<Rightarrow> nat \<Rightarrow> u8" where
  "dirty_byte vm pg m r i = (if page_set pg m r (i div 4096) then byte_of vm m (gpa r + of_nat i) else 0)"

definition dirty_span :: "'m vm \<Rightarrow> 'm pages \<Rightarrow> 'm \<Rightarrow> region \<Rightarrow> nat \<Rightarrow> nat \<Rightarrow> bytes" where
  "dirty_span vm pg m r at n = map (dirty_byte vm pg m r) [at..<at + n]"

definition dirty_image :: "'m vm \<Rightarrow> 'm pages \<Rightarrow> 'm \<Rightarrow> region list \<Rightarrow> bytes" where
  "dirty_image vm pg m rs = concat (map (\<lambda>r. dirty_span vm pg m r 0 (unat (region_size r))) rs)"

text \<open>The bit of page \<open>p\<close> in a log.\<close>

definition logged :: "u64 list \<Rightarrow> nat \<Rightarrow> bool" where
  "logged words p \<longleftrightarrow> p div 64 < length words \<and> bit (words ! (p div 64)) (p mod 64)"

lemma dirty_span_add: "dirty_span vm pg m r at (n + k) = dirty_span vm pg m r at n @ dirty_span vm pg m r (at + n) k"
proof -
  have "[at..<at + (n + k)] = [at..<at + n] @ [at + n..<at + n + k]"
    using upt_add_eq_append [of at "at + n" k] by (simp add: add.assoc)
  then show ?thesis by (simp add: dirty_span_def)
qed

lemma length_dirty_span [simp]: "length (dirty_span vm pg m r at n) = n"
  by (simp add: dirty_span_def)

lemma dirty_span_clean:
  "(\<And>i. at \<le> i \<Longrightarrow> i < at + n \<Longrightarrow> \<not> page_set pg m r (i div 4096)) \<Longrightarrow> dirty_span vm pg m r at n = replicate n 0"
  by (rule nth_equalityI) (simp_all add: dirty_span_def dirty_byte_def)

lemma dirty_span_marked:
  "(\<And>i. at \<le> i \<Longrightarrow> i < at + n \<Longrightarrow> page_set pg m r (i div 4096)) \<Longrightarrow> dirty_span vm pg m r at n = span_bytes vm m (gpa r + of_nat at) n"
  by (rule nth_equalityI) (simp_all add: dirty_span_def dirty_byte_def span_bytes_def add.assoc)

section \<open>Regions with marks\<close>

text \<open>A lookup finds the listed region which holds the address, and marking pages touches no memory and only their marks.\<close>

locale marked_ram = page_regions vm pg + vm_bytes vm for vm :: "'m vm" and pg :: "'m pages" +
  assumes find_listed: "regions_ok vm m (vm_regions vm m) \<Longrightarrow> r \<in> set (vm_regions vm m) \<Longrightarrow>
      unat (gpa r) + unat (region_size r) < 2 ^ 64 - 4096 \<Longrightarrow> unat (gpa r) \<le> unat a \<Longrightarrow> unat a < unat (gpa r) + unat (region_size r) \<Longrightarrow>
      find_region pg m a = Some r"
    and set_memory: "vm_read_slice vm (set_addr_range pg m r off n) = vm_read_slice vm m"
      "vm_check_range vm (set_addr_range pg m r off n) = vm_check_range vm m"
      "vm_regions vm (set_addr_range pg m r off n) = vm_regions vm m"
    and set_marks: "regions_ok vm m (vm_regions vm m) \<Longrightarrow> r \<in> set (vm_regions vm m) \<Longrightarrow> r' \<in> set (vm_regions vm m) \<Longrightarrow>
      4096 * p < unat (region_size r) \<Longrightarrow> 4096 * q < unat (region_size r') \<Longrightarrow>
      is_addr_set pg (set_addr_range pg m r (of_nat p * PAGE) PAGE) r' (of_nat q * PAGE) \<longleftrightarrow>
      is_addr_set pg m r' (of_nat q * PAGE) \<or> (r' = r \<and> q = p)"

definition region_below :: "region \<Rightarrow> bool" where
  "region_below r \<longleftrightarrow> unat (gpa r) + unat (region_size r) < 2 ^ 64 - 4096"

lemma region_below_low: "region_below r \<Longrightarrow> region_low r"
  by (simp add: region_below_def region_low_def)

context marked_ram
begin

lemma written_in_region:
  assumes "regions_ok vm m (vm_regions vm m)" "r \<in> set (vm_regions vm m)" "region_below r"
    and "0 < n" "4096 * p + n \<le> unat (region_size r)"
  shows "written pg m (gpa r + of_nat (4096 * p)) (of_nat n) = Some (\<exists>q\<ge>p. 4096 * q < 4096 * p + n \<and> page_set pg m r q)"
proof -
  define cur where "cur = gpa r + of_nat (4096 * p)"
  define fin where "fin = cur + of_nat n"
  have below: "unat (gpa r) + unat (region_size r) < 2 ^ 64 - 4096" using assms(3) by (simp add: region_below_def)
  have cur: "unat cur = unat (gpa r) + 4096 * p"
    unfolding cur_def by (rule unat_add_of_nat) (use below assms(5) in simp)
  have n: "unat (of_nat n :: u64) = n" using below assms(5) by (simp add: unat_of_nat)
  have fin: "unat fin = unat (gpa r) + 4096 * p + n"
    unfolding fin_def using unat_add_of_nat [of cur n] cur below assms(5) by simp
  have sat: "saturating_add cur (of_nat n) = fin" using cur n fin below assms(5) by (simp add: saturating_add_def fin_def)
  have top: "unat (gpa r + region_size r) = unat (gpa r) + unat (region_size r)" using below by (simp add: unat_word_ariths)
  have find: "find_region pg m cur = Some r"
    by (rule find_listed) (use assms cur below in simp_all)
  have lt: "cur < fin" using cur fin assms(4) by (simp add: word_less_nat_alt)
  have mn: "min fin (gpa r + region_size r) = fin" using fin top assms(5) by (simp add: min_def word_le_nat_alt)
  have off: "cur - gpa r = of_nat (4096 * p)" by (simp add: cur_def)
  have up: "unat (of_nat (4096 * p) :: u64) = 4096 * p" using below assms(5) by (simp add: unat_of_nat del: of_nat_mult)
  have page: "(cur - gpa r) AND NOT (PAGE - 1) = of_nat (4096 * p)"
    by (rule word_unat_eq_iff [THEN iffD2]) (simp only: page_down off up, simp)
  have "marked_here pg m fin cur \<longleftrightarrow> (\<exists>q\<ge>p. 4096 * q < 4096 * p + n \<and> page_set pg m r q)"
  proof -
    have "marked_here pg m fin cur \<longleftrightarrow> (\<exists>j. 4096 * (p + j) < 4096 * p + n \<and> page_set pg m r (p + j))"
    proof -
      have "marked_here pg m fin cur \<longleftrightarrow>
        (\<exists>j. unat (gpa r) + unat ((cur - gpa r) AND NOT (PAGE - 1)) + 4096 * j < unat fin \<and>
             is_addr_set pg m r (((cur - gpa r) AND NOT (PAGE - 1)) + of_nat j * PAGE))"
        using lt mn by (simp add: marked_here_def find Let_def)
      also have "\<dots> \<longleftrightarrow> (\<exists>j. 4096 * (p + j) < 4096 * p + n \<and> page_set pg m r (p + j))"
        unfolding page up fin by (simp add: page_set_def PAGE_def algebra_simps)
      finally show ?thesis .
    qed
    also have "\<dots> \<longleftrightarrow> (\<exists>q\<ge>p. 4096 * q < 4096 * p + n \<and> page_set pg m r q)"
      by (metis le_add1 le_iff_add)
    finally show ?thesis .
  qed
  moreover have "written_loop pg m fin fin = Some False" by (simp add: written_loop.simps)
  ultimately show ?thesis
    unfolding written_def cur_def [symmetric] sat using written_loop_step [OF lt find] by (simp add: mn)
qed

lemma written_page:
  assumes "regions_ok vm m (vm_regions vm m)" "r \<in> set (vm_regions vm m)" "region_below r"
    and "0 < n" "n \<le> 4096" "4096 * p + n \<le> unat (region_size r)"
  shows "written pg m (gpa r + of_nat (4096 * p)) (of_nat n) = Some (page_set pg m r p)"
proof -
  have "(\<exists>q\<ge>p. 4096 * q < 4096 * p + n \<and> page_set pg m r q) \<longleftrightarrow> page_set pg m r p"
  proof
    assume "\<exists>q\<ge>p. 4096 * q < 4096 * p + n \<and> page_set pg m r q"
    then obtain q where "p \<le> q" "4096 * q < 4096 * p + n" "page_set pg m r q" by blast
    moreover from this assms(5) have "q = p" by linarith
    ultimately show "page_set pg m r p" by simp
  qed (use assms(4) in auto)
  with written_in_region [OF assms(1-4,6)] show ?thesis by simp
qed

text \<open>A run goes up to a page which is marked differently, or to the end of the chunk.\<close>

lemma dirty_run_stop: "left \<le> run \<Longrightarrow> dirty_run pg m a marked left run = Some run"
  by (simp add: dirty_run.simps)

lemma dirty_run_pages:
  assumes "regions_ok vm m (vm_regions vm m)" "r \<in> set (vm_regions vm m)" "region_below r"
    and "4096 * p + left \<le> unat (region_size r)" "4096 dvd run" "run \<le> left"
  shows "\<exists>run'. dirty_run pg m (gpa r + of_nat (4096 * p)) marked left run = Some run' \<and> run \<le> run' \<and> run' \<le> left \<and>
    (run' < left \<longrightarrow> 4096 dvd run') \<and>
    (\<forall>i. 4096 * p + run \<le> i \<longrightarrow> i < 4096 * p + run' \<longrightarrow> page_set pg m r (i div 4096) = marked) \<and>
    (run < left \<and> page_set pg m r (p + run div 4096) = marked \<longrightarrow> run < run')"
  using assms(5,6)
proof (induction "left - run" arbitrary: run rule: less_induct)
  case less
  let ?a = "gpa r + of_nat (4096 * p)"
  show ?case
  proof (cases "run < left")
    case False
    with less.prems show ?thesis by (simp add: dirty_run.simps)
  next
    case True
    define step where "step = min 4096 (left - run)"
    from less.prems(1) obtain k where k: "run = 4096 * k" by (auto simp: dvd_def)
    have st: "0 < step" "step \<le> 4096" "run + step \<le> left" using True by (simp_all add: step_def)
    have a: "?a + of_nat run = gpa r + of_nat (4096 * (p + k))" by (simp add: k algebra_simps)
    have w: "written pg m (?a + of_nat run) (of_nat step) = Some (page_set pg m r (p + k))"
      unfolding a by (rule written_page [OF assms(1-3) st(1,2)]) (use st(3) k assms(4) in simp)
    have unfolded: "dirty_run pg m ?a marked left run =
        (if page_set pg m r (p + k) \<noteq> marked then Some run else dirty_run pg m ?a marked left (run + step))"
      using True w unfolding dirty_run.simps [of pg m ?a marked left run] Let_def step_def [symmetric] by simp
    have here: "i div 4096 = p + k" if "4096 * p + run \<le> i" "i < 4096 * p + (run + step)" for i
      by (rule div_nat_eqI) (use that k st(2) in \<open>simp_all add: algebra_simps\<close>)
    show ?thesis
    proof (cases "page_set pg m r (p + k) = marked")
      case False
      with unfolded less.prems k show ?thesis by simp
    next
      case same: True
      show ?thesis
      proof (cases "run + step < left")
        case False
        then have "run + step = left" using st by simp
        then have "dirty_run pg m ?a marked left run = Some left" using unfolded same by (simp add: dirty_run_stop)
        with \<open>run + step = left\<close> here same True show ?thesis by auto
      next
        case more: True
        then have "step = 4096" by (simp add: step_def min_def split: if_splits)
        then have "4096 dvd run + step" "left - (run + step) < left - run" using less.prems(1) st by auto
        from less.hyps [OF this(2,1)] st obtain run' where run':
          "dirty_run pg m ?a marked left (run + step) = Some run'" "run + step \<le> run'" "run' \<le> left" "run' < left \<longrightarrow> 4096 dvd run'"
          "\<forall>i. 4096 * p + (run + step) \<le> i \<longrightarrow> i < 4096 * p + run' \<longrightarrow> page_set pg m r (i div 4096) = marked" by auto
        have "page_set pg m r (i div 4096) = marked" if "4096 * p + run \<le> i" "i < 4096 * p + run'" for i
          using run'(5) here [of i] same that by (cases "4096 * p + (run + step) \<le> i") auto
        with run' unfolded same st(1) show ?thesis by auto
      qed
    qed
  qed
qed

text \<open>What a step of writing a piece may do to the file, and that it lays the bytes of the reference.\<close>

definition lays :: "image_file \<Rightarrow> bytes \<Rightarrow> image_file \<Rightarrow> ('b, machine_error) result \<Rightarrow> bool" where
  "lays f bs f' res \<longleftrightarrow> (is_ok res \<longrightarrow> at_end f' \<and> laid f' = laid f @ bs) \<and> (faults f = [] \<longrightarrow> is_ok res \<and> faults f' = [])"

lemma lays_append: "lays f bs f1 (Inr u) \<Longrightarrow> lays f1 cs f2 res \<Longrightarrow> lays f (bs @ cs) f2 res"
  by (auto simp: lays_def)

lemma file_step_lays:
  assumes "at_end f"
  shows "file_write_all bs f = (f', res) \<Longrightarrow> lays f bs f' res" "file_seek n f = (f', res) \<Longrightarrow> lays f (replicate n 0) f' res"
  using assms file_faultless(1,2) [of f bs] file_faultless(3) [of f n]
  by (cases res; auto simp: lays_def dest: file_write_all_ok file_seek_ok)+

lemma dirty_runs_lay:
  assumes "regions_ok vm m (vm_regions vm m)" "r \<in> set (vm_regions vm m)" "region_below r"
    and "4096 * p + left \<le> unat (region_size r)" "at_end f"
  shows "\<exists>f' res. dirty_runs vm pg m (gpa r + of_nat (4096 * p)) left f = Some (f', res) \<and>
    lays f (dirty_span vm pg m r (4096 * p) left) f' res"
  using assms(4,5)
proof (induction left arbitrary: p f rule: less_induct)
  case (less left)
  let ?a = "gpa r + of_nat (4096 * p)"
  note unfolded = dirty_runs.simps [of vm pg m ?a left f]
  show ?case
  proof (cases "0 < left")
    case False
    with less.prems(2) show ?thesis unfolding unfolded by (simp add: lays_def dirty_span_def)
  next
    case True
    let ?marked = "page_set pg m r p"
    have w: "written pg m ?a (of_nat (min 4096 left)) = Some ?marked"
      by (rule written_page [OF assms(1-3)]) (use True less.prems(1) in auto)
    from dirty_run_pages [OF assms(1-3) less.prems(1), of 0 ?marked] True obtain run where run:
      "dirty_run pg m ?a ?marked left 0 = Some run" "0 < run" "run \<le> left" "run < left \<longrightarrow> 4096 dvd run"
      "\<And>i. 4096 * p \<le> i \<Longrightarrow> i < 4096 * p + run \<Longrightarrow> page_set pg m r (i div 4096) = ?marked" by auto
    let ?bs = "dirty_span vm pg m r (4096 * p) run"
    have read: "ram_read vm m ?a run = Inr (span_bytes vm m ?a run)"
      by (rule region_part_read) (use assms(1-3) less.prems(1) run(2,3) region_below_low in \<open>auto simp: regions_ok_def list_all_iff\<close>)
    obtain f1 res where step: "(if ?marked then (case ram_read vm m ?a run of Inl _ \<Rightarrow> (f, Err MachineMem) | Inr piece \<Rightarrow> file_write_all piece f)
        else file_seek run f) = (f1, res)" by (cases "(if ?marked then (case ram_read vm m ?a run of Inl _ \<Rightarrow> (f, Err MachineMem) | Inr piece \<Rightarrow> file_write_all piece f)
        else file_seek run f)")
    have lay1: "lays f ?bs f1 res"
    proof (cases ?marked)
      case True
      then have "?bs = span_bytes vm m ?a run" using dirty_span_marked [of "4096 * p" run pg m r vm] run(5) by simp
      with step True read file_step_lays(1) [OF less.prems(2)] show ?thesis by simp
    next
      case False
      then have "?bs = replicate run 0" using dirty_span_clean [of "4096 * p" run pg m r vm] run(5) by simp
      with step False file_step_lays(2) [OF less.prems(2)] show ?thesis by simp
    qed
    have split: "dirty_span vm pg m r (4096 * p) left = ?bs @ dirty_span vm pg m r (4096 * p + run) (left - run)"
      using dirty_span_add [of vm pg m r "4096 * p" run "left - run"] run(3) by simp
    show ?thesis
    proof (cases res)
      case (Inl e)
      with lay1 step show ?thesis using True w run(1) unfolding unfolded by (auto simp: lays_def)
    next
      case (Inr u)
      then have end1: "at_end f1" using lay1 by (simp add: lays_def)
      have body: "dirty_runs vm pg m ?a left f = dirty_runs vm pg m (?a + of_nat run) (left - run) f1"
        unfolding unfolded using True w run(1) step Inr by simp
      show ?thesis
      proof (cases "run < left")
        case False
        then have "dirty_runs vm pg m (?a + of_nat run) (left - run) f1 = Some (f1, Ok ())" by (simp add: dirty_runs.simps)
        with body lay1 Inr False run(3) show ?thesis by simp
      next
        case more: True
        then obtain k where k: "run = 4096 * k" using run(4) by (auto simp: dvd_def)
        have "?a + of_nat run = gpa r + of_nat (4096 * (p + k))" by (simp add: k algebra_simps)
        moreover have "\<exists>f' res. dirty_runs vm pg m (gpa r + of_nat (4096 * (p + k))) (left - run) f1 = Some (f', res) \<and>
            lays f1 (dirty_span vm pg m r (4096 * (p + k)) (left - run)) f' res"
          by (rule less.IH) (use run(2,3) more less.prems(1) k end1 in auto)
        ultimately show ?thesis using body split lays_append [OF lay1 [unfolded Inr]] by (auto simp: k algebra_simps)
      qed
    qed
  qed
qed

text \<open>A chunk without a mark is skipped whole, another is walked in runs.\<close>

lemma dirty_chunk_lays:
  assumes "regions_ok vm m (vm_regions vm m)" "r \<in> set (vm_regions vm m)" "region_below r"
    and "0 < chunk" "4096 * p + chunk \<le> unat (region_size r)" "at_end f"
  shows "\<exists>w f' res. written pg m (gpa r + of_nat (4096 * p)) (of_nat chunk) = Some w \<and>
    (if w then dirty_runs vm pg m (gpa r + of_nat (4096 * p)) chunk f else Some (file_seek chunk f)) = Some (f', res) \<and>
    lays f (dirty_span vm pg m r (4096 * p) chunk) f' res"
proof (cases "\<exists>q\<ge>p. 4096 * q < 4096 * p + chunk \<and> page_set pg m r q")
  case True
  with written_in_region [OF assms(1-5)] dirty_runs_lay [OF assms(1-3,5,6)] show ?thesis by auto
next
  case False
  have "\<not> page_set pg m r (i div 4096)" if "4096 * p \<le> i" "i < 4096 * p + chunk" for i
  proof -
    have "p \<le> i div 4096" "4096 * (i div 4096) < 4096 * p + chunk" using that by auto
    with False show ?thesis by blast
  qed
  then have "dirty_span vm pg m r (4096 * p) chunk = replicate chunk 0" by (rule dirty_span_clean)
  with False written_in_region [OF assms(1-5)] file_step_lays(2) [OF assms(6), of chunk] show ?thesis
    by (cases "file_seek chunk f") auto
qed

lemma dirty_region_lays:
  assumes "regions_ok vm m (vm_regions vm m)" "r \<in> set (vm_regions vm m)" "region_below r"
    and "IMAGE_CHUNK dvd at \<or> at = unat (region_size r)" "at \<le> unat (region_size r)" "at_end f"
  shows "\<exists>f' res. dirty_region vm pg m r at moved f = Some (f', res) \<and>
    lays f (dirty_span vm pg m r at (unat (region_size r) - at)) f' res \<and>
    (\<forall>n. res = Inr n \<longrightarrow> n = moved + (unat (region_size r) - at))"
  using assms(4,5,6)
proof (induction "unat (region_size r) - at" arbitrary: at moved f rule: less_induct)
  case less
  note unfolded = dirty_region.simps [of vm pg m r at moved f]
  show ?case
  proof (cases "at < unat (region_size r)")
    case False
    with less.prems show ?thesis unfolding unfolded by (simp add: lays_def dirty_span_def)
  next
    case True
    define chunk where "chunk = min IMAGE_CHUNK (unat (region_size r) - at)"
    have c: "0 < chunk" "at + chunk \<le> unat (region_size r)" using True by (simp_all add: chunk_def IMAGE_CHUNK_def)
    have next_at: "IMAGE_CHUNK dvd at + chunk \<or> at + chunk = unat (region_size r)"
      using less.prems(1) True by (auto simp: chunk_def min_def)
    from less.prems(1) True obtain k where "at = IMAGE_CHUNK * k" by (auto simp: dvd_def)
    then have at: "at = 4096 * (16 * k)" by (simp add: IMAGE_CHUNK_def)
    from dirty_chunk_lays [OF assms(1-3) c(1), of "16 * k" f] c(2) less.prems(3) obtain w f1 res where step:
      "written pg m (gpa r + of_nat at) (of_nat chunk) = Some w"
      "(if w then dirty_runs vm pg m (gpa r + of_nat at) chunk f else Some (file_seek chunk f)) = Some (f1, res)"
      and lay1: "lays f (dirty_span vm pg m r at chunk) f1 res"
      unfolding at by blast
    have body: "dirty_region vm pg m r at moved f =
        (if isl res then Some (f1, Err (projl res)) else dirty_region vm pg m r (at + chunk) (moved + chunk) f1)"
      unfolding unfolded Let_def chunk_def [symmetric] using True step by simp
    have split: "dirty_span vm pg m r at (unat (region_size r) - at) =
        dirty_span vm pg m r at chunk @ dirty_span vm pg m r (at + chunk) (unat (region_size r) - (at + chunk))"
      using dirty_span_add [of vm pg m r at chunk "unat (region_size r) - (at + chunk)"] c(2) by simp
    show ?thesis
    proof (cases res)
      case (Inl e)
      with body lay1 show ?thesis by (auto simp: lays_def)
    next
      case (Inr u)
      have "at_end f1" using lay1 Inr by (simp add: lays_def)
      have "unat (region_size r) - (at + chunk) < unat (region_size r) - at" using c by simp
      from less.hyps [OF this next_at c(2) \<open>at_end f1\<close>, of "moved + chunk"] obtain f2 res2 where
        "dirty_region vm pg m r (at + chunk) (moved + chunk) f1 = Some (f2, res2)"
        "lays f1 (dirty_span vm pg m r (at + chunk) (unat (region_size r) - (at + chunk))) f2 res2"
        "\<And>n. res2 = Inr n \<Longrightarrow> n = moved + chunk + (unat (region_size r) - (at + chunk))" by blast
      with body Inr lays_append [OF lay1 [unfolded Inr]] c show ?thesis by (auto simp: split)
    qed
  qed
qed

lemma dirty_regions_lay:
  assumes "regions_ok vm m (vm_regions vm m)" "set rs \<subseteq> set (vm_regions vm m)" "list_all region_below rs" "at_end f"
  shows "\<exists>f' res. dirty_regions vm pg m rs moved f = Some (f', res) \<and> lays f (dirty_image vm pg m rs) f' res \<and>
    (\<forall>n. res = Inr n \<longrightarrow> n = moved + length (dirty_image vm pg m rs))"
  using assms(2-4)
proof (induction rs arbitrary: moved f)
  case Nil
  then show ?case by (simp add: lays_def dirty_image_def)
next
  case (Cons r rs)
  then have r: "r \<in> set (vm_regions vm m)" "region_below r" by simp_all
  obtain f1 res where r1: "dirty_region vm pg m r 0 moved f = Some (f1, res)" "lays f (dirty_span vm pg m r 0 (unat (region_size r))) f1 res"
    "\<And>n. res = Inr n \<Longrightarrow> n = moved + unat (region_size r)"
    using dirty_region_lays [OF assms(1) r, of 0 f moved] Cons.prems by auto
  show ?case
  proof (cases res)
    case (Inl e)
    with r1 show ?thesis by (auto simp: lays_def)
  next
    case (Inr n)
    with r1 have "at_end f1" by (simp add: lays_def)
    with Cons.IH [of f1 n] Cons.prems obtain f2 res2 where "dirty_regions vm pg m rs n f1 = Some (f2, res2)" "lays f1 (dirty_image vm pg m rs) f2 res2"
      "\<And>k. res2 = Inr k \<Longrightarrow> k = n + length (dirty_image vm pg m rs)" by auto
    with r1 Inr lays_append [OF r1(2) [unfolded Inr]] show ?thesis by (auto simp: dirty_image_def)
  qed
qed

text \<open>Marking the pages of a set leaves the memory as it is and adds the marks of the set.\<close>

definition adds :: "'m \<Rightarrow> (region \<times> nat) set \<Rightarrow> 'm \<Rightarrow> bool" where
  "adds m S m' \<longleftrightarrow> vm_read_slice vm m' = vm_read_slice vm m \<and> vm_check_range vm m' = vm_check_range vm m \<and> vm_regions vm m' = vm_regions vm m \<and>
     (\<forall>r \<in> set (vm_regions vm m). \<forall>q. 4096 * q < unat (region_size r) \<longrightarrow> page_set pg m' r q = (page_set pg m r q \<or> (r, q) \<in> S))"

lemma adds_none: "adds m {} m"
  by (simp add: adds_def)

lemma adds_more: "adds m S m1 \<Longrightarrow> adds m1 T m2 \<Longrightarrow> adds m (S \<union> T) m2"
  by (simp add: adds_def)

lemma adds_ok: "adds m S m' \<Longrightarrow> regions_ok vm m (vm_regions vm m) \<Longrightarrow> regions_ok vm m' (vm_regions vm m')"
  by (simp add: adds_def regions_ok_def)

lemma adds_foldl:
  assumes "\<And>m x. x \<in> set xs \<Longrightarrow> regions_ok vm m (vm_regions vm m) \<Longrightarrow> r \<in> set (vm_regions vm m) \<Longrightarrow> adds m (S x) (g m x)"
    and "regions_ok vm m (vm_regions vm m)" "r \<in> set (vm_regions vm m)"
  shows "adds m (\<Union>x\<in>set xs. S x) (foldl g m xs)"
  using assms
proof (induction xs arbitrary: m)
  case (Cons x xs)
  have first: "adds m (S x) (g m x)" using Cons.prems by simp
  have "adds (g m x) (\<Union>x\<in>set xs. S x) (foldl g (g m x) xs)"
  proof (rule Cons.IH)
    show "regions_ok vm (g m x) (vm_regions vm (g m x))" using adds_ok [OF first Cons.prems(2)] .
    show "r \<in> set (vm_regions vm (g m x))" using first Cons.prems(3) by (simp add: adds_def)
  qed (use Cons.prems(1) in simp)
  from adds_more [OF first this] show ?case by simp
qed (simp add: adds_none)

lemma mark_bit_adds:
  assumes "regions_ok vm m (vm_regions vm m)" "r \<in> set (vm_regions vm m)" "(index * 64 + i) * 4096 < 2 ^ 64"
  shows "adds m {(r, index * 64 + i)} (mark_bit pg r index m i)"
proof -
  let ?p = "index * 64 + i"
  have "of_nat ?p * PAGE = (of_nat (?p * 4096) :: u64)" by (simp add: PAGE_def)
  then have "unat (of_nat ?p * PAGE) = ?p * 4096" using assms(3) by (simp add: unat_of_nat del: of_nat_mult of_nat_add)
  then have "of_nat ?p * PAGE < region_size r \<longleftrightarrow> 4096 * ?p < unat (region_size r)"
    by (simp add: word_less_nat_alt mult.commute)
  then have "mark_bit pg r index m i = (if 4096 * ?p < unat (region_size r) then set_addr_range pg m r (of_nat ?p * PAGE) PAGE else m)"
    by (simp only: mark_bit_def Let_def)
  then show ?thesis using assms(1,2) set_marks [of m r _ ?p] set_memory by (auto simp: adds_def page_set_def simp del: of_nat_add of_nat_mult)
qed

lemma word_bits_set: "i \<in> set (word_bits w) \<longleftrightarrow> bit w i" for w :: u64
  by (auto simp: word_bits_def dest: bit_imp_le_length)

lemma mark_adds:
  assumes "regions_ok vm m (vm_regions vm m)" "r \<in> set (vm_regions vm m)" "region_below r" "0 < region_size r"
    and "length words * 64 * 4096 \<le> 2 ^ 64"
  shows "\<exists>m'. mark pg m (gpa r) words = (m', Ok ()) \<and> adds m {(r, q) | q. logged words q} m'"
proof -
  have "find_region pg m (gpa r) = Some r"
    using find_listed [of m r "gpa r"] assms(1-4) by (simp add: region_below_def word_less_nat_alt)
  moreover have "adds m (\<Union>iw\<in>set (enumerate 0 words). \<Union>i\<in>set (word_bits (snd iw)). {(r, fst iw * 64 + i)}) (foldl (mark_word pg r) m (enumerate 0 words))"
  proof (rule adds_foldl [OF _ assms(1,2)])
    fix m iw assume m: "iw \<in> set (enumerate 0 words)" "regions_ok vm m (vm_regions vm m)" "r \<in> set (vm_regions vm m)"
    then have "fst iw < length words" by (auto simp: in_set_enumerate_eq)
    then have "(fst iw * 64 + i) * 4096 < 2 ^ 64" if "i \<in> set (word_bits (snd iw))" for i
      using that assms(5) by (auto simp: word_bits_def)
    then show "adds m (\<Union>i\<in>set (word_bits (snd iw)). {(r, fst iw * 64 + i)}) (mark_word pg r m iw)"
      unfolding mark_word_def by (intro adds_foldl [OF _ m(2,3)] mark_bit_adds)
  qed
  moreover have "(\<Union>iw\<in>set (enumerate 0 words). \<Union>i\<in>set (word_bits (snd iw)). {(r, fst iw * 64 + i)}) = {(r, q) | q. logged words q}"
  proof -
    have "logged words q \<longleftrightarrow> (\<exists>iw\<in>set (enumerate 0 words). \<exists>i\<in>set (word_bits (snd iw)). q = fst iw * 64 + i)" for q
    proof
      assume "logged words q"
      then show "\<exists>iw\<in>set (enumerate 0 words). \<exists>i\<in>set (word_bits (snd iw)). q = fst iw * 64 + i"
        by (intro bexI [of _ "(q div 64, words ! (q div 64))"] bexI [of _ "q mod 64"]) (simp_all add: logged_def in_set_enumerate_eq word_bits_set)
    next
      assume "\<exists>iw\<in>set (enumerate 0 words). \<exists>i\<in>set (word_bits (snd iw)). q = fst iw * 64 + i"
      then obtain k i where "k < length words" "bit (words ! k) i" "q = k * 64 + i" by (auto simp: in_set_enumerate_eq word_bits_set)
      moreover from this(2) have "i < 64" by (auto dest: bit_imp_le_length)
      ultimately show "logged words q" by (simp add: logged_def)
    qed
    then show ?thesis by auto
  qed
  ultimately show ?thesis by (simp add: mark_def)
qed

lemma mark_logged_adds:
  assumes "regions_ok vm m (vm_regions vm m)" "set rs \<subseteq> set (vm_regions vm m)"
    and "list_all (\<lambda>r. region_below r \<and> 0 < region_size r \<and> dlog (gpa r) \<noteq> None \<and> length (the (dlog (gpa r))) * 64 * 4096 \<le> 2 ^ 64) rs"
  shows "\<exists>m'. mark_logged pg dlog rs m = (m', Ok ()) \<and> adds m {(r, q) | r q. r \<in> set rs \<and> logged (the (dlog (gpa r))) q} m'"
  using assms
proof (induction rs arbitrary: m)
  case Nil
  then show ?case by (simp add: adds_def)
next
  case (Cons r rs)
  then obtain words where w: "dlog (gpa r) = Some words" by auto
  with Cons.prems mark_adds [of m r words] obtain m1 where m1: "mark pg m (gpa r) words = (m1, Ok ())" "adds m {(r, q) | q. logged words q} m1"
    by auto
  have "regions_ok vm m1 (vm_regions vm m1)" "vm_regions vm m1 = vm_regions vm m"
    using adds_ok [OF m1(2) Cons.prems(1)] m1(2) by (simp_all add: adds_def)
  with Cons.IH [of m1] Cons.prems obtain m2 where m2: "mark_logged pg dlog rs m1 = (m2, Ok ())"
    "adds m1 {(r, q) | r q. r \<in> set rs \<and> logged (the (dlog (gpa r))) q} m2" by auto
  have "{(r', q) | r' q. r' \<in> set (r # rs) \<and> logged (the (dlog (gpa r'))) q} =
      {(r, q) | q. logged words q} \<union> {(r, q) | r q. r \<in> set rs \<and> logged (the (dlog (gpa r))) q}" using w by auto
  with adds_more [OF m1(2) m2(2)] m1(1) m2(1) w show ?case by simp
qed

lemma write_dirty_lays:
  assumes "ram_regions vm m = rs" "regions_ok vm m rs" "img f = []" "img_at f = 0"
    and "list_all (\<lambda>r. region_below r \<and> 0 < region_size r \<and> dlog (gpa r) \<noteq> None \<and> length (the (dlog (gpa r))) * 64 * 4096 \<le> 2 ^ 64) rs"
  shows "\<exists>m' f' res. write_dirty vm pg dlog Paused m f = Some (m', f', res) \<and>
    (res = Ok () \<longrightarrow> img f' = dirty_image vm pg m' rs) \<and> (faults f = [] \<longrightarrow> res = Ok ()) \<and>
    adds m {(r, q) | r q. r \<in> set rs \<and> logged (the (dlog (gpa r))) q} m'"
proof -
  have rs: "vm_regions vm m = rs" using assms(1) by (simp add: ram_regions_def)
  obtain m1 where m1: "mark_logged pg dlog rs m = (m1, Ok ())" "adds m {(r, q) | r q. r \<in> set rs \<and> logged (the (dlog (gpa r))) q} m1"
    using mark_logged_adds [of m rs dlog] assms(2,5) rs by auto
  have m1_ok: "regions_ok vm m1 (vm_regions vm m1)" "vm_regions vm m1 = rs"
    using adds_ok [OF m1(2)] assms(2) m1(2) rs by (simp_all add: adds_def)
  have f: "at_end f" "laid f = []" using assms(3,4) by (simp_all add: at_end_def laid_def)
  obtain f1 pos where pos: "file_position f = (f1, pos)" by (cases "file_position f")
  show ?thesis
  proof (cases pos)
    case (Inl e)
    with pos m1 rs file_faultless(4) [of f] show ?thesis by (auto simp: write_dirty_def ram_regions_def)
  next
    case (Inr begins)
    note p = file_position_ok [OF pos [unfolded Inr] f(1)]
    have below: "list_all region_below rs" using assms(5) by (auto simp: list_all_iff)
    obtain f2 res where d: "dirty_regions vm pg m1 rs 0 f1 = Some (f2, res)" "lays f1 (dirty_image vm pg m1 rs) f2 res"
      "\<And>n. res = Inr n \<Longrightarrow> n = length (dirty_image vm pg m1 rs)"
      using dirty_regions_lay [OF m1_ok(1) _ below, of f1 0] p m1_ok(2) by auto
    have calm: "faults f = [] \<Longrightarrow> is_ok res \<and> faults f2 = []"
      using d(2) file_faultless(4) [of f] pos by (auto simp: lays_def)
    show ?thesis
    proof (cases res)
      case (Inl e)
      with d calm pos Inr m1 rs m1_ok show ?thesis by (auto simp: write_dirty_def ram_regions_def)
    next
      case (Inr n)
      obtain f3 r3 where len: "file_set_len (begins + n) f2 = (f3, r3)" by (cases "file_set_len (begins + n) f2")
      have "r3 = Ok () \<Longrightarrow> img f3 = dirty_image vm pg m1 rs"
        using file_set_len_ok [of "begins + n" f2 f3] len d Inr p f(2) by (simp add: lays_def)
      moreover have "faults f = [] \<Longrightarrow> r3 = Ok ()"
        using calm file_faultless(5) [of f2 "begins + n"] len by (cases r3) auto
      ultimately show ?thesis using d(1) Inr \<open>pos = Inr begins\<close> pos m1 rs m1_ok len by (auto simp: write_dirty_def ram_regions_def)
    qed
  qed
qed

lemma dirty_image_adds:
  assumes "adds m {(r, q) | r q. r \<in> set rs \<and> logged (the (dlog (gpa r))) q} m'" "vm_regions vm m = rs"
  shows "dirty_image vm pg m' rs =
    concat (map (\<lambda>r. map (\<lambda>i. if page_set pg m r (i div 4096) \<or> logged (the (dlog (gpa r))) (i div 4096)
      then byte_of vm m (gpa r + of_nat i) else 0) [0..<unat (region_size r)]) rs)"
proof -
  have "page_set pg m' r (i div 4096) \<longleftrightarrow> page_set pg m r (i div 4096) \<or> logged (the (dlog (gpa r))) (i div 4096)"
    if "r \<in> set rs" "i < unat (region_size r)" for r i
  proof -
    have "4096 * (i div 4096) < unat (region_size r)" using that(2) by (rule le_less_trans [rotated]) simp
    with assms that show ?thesis by (auto simp: adds_def)
  qed
  moreover have "byte_of vm m' = byte_of vm m" using assms(1) by (simp add: adds_def byte_of_def fun_eq_iff)
  ultimately show ?thesis by (auto simp: dirty_image_def dirty_span_def dirty_byte_def intro!: arg_cong [of _ _ concat] map_cong)
qed

end

section \<open>The memory of regions with marks\<close>

interpretation paged_bytes: vm_bytes paged_vm
proof
  fix m :: paged and a n bs i k
  show "vm_check_range paged_vm m a n \<Longrightarrow> unat a + n \<le> 2 ^ 64 \<Longrightarrow> i + k \<le> n \<Longrightarrow> 0 < k \<Longrightarrow> vm_check_range paged_vm m (a + of_nat i) k"
    using flat_bytes.check_part [of "fst m" a n i k] by (simp add: paged_vm_def)
  show "vm_read_slice paged_vm m a n = Some bs \<Longrightarrow> unat a + n \<le> 2 ^ 64 \<Longrightarrow> i < n \<Longrightarrow> vm_read_slice paged_vm m (a + of_nat i) 1 = Some [bs ! i]"
    using flat_bytes.read_nth [of "fst m" a n bs i] by (simp add: paged_vm_def)
qed

lemma unat_PAGE: "unat PAGE = 4096"
  by (simp add: PAGE_def)

text \<open>Regions which lie apart hold no address together.\<close>

lemma covers_unique:
  assumes "sorted_wrt (\<lambda>r r'. apart (gpa r') (unat (region_size r')) (gpa r) (unat (region_size r))) rs"
    and "r \<in> set rs" "r' \<in> set rs" "covers r x" "covers r' x"
  shows "r = r'"
  using assms by (induction rs) (auto simp: apart_def covers_def)

interpretation paged_marks: marked_ram paged_vm paged_ops
proof
  fix m :: paged and r r' a off n p q
  show "vm_read_slice paged_vm (set_addr_range paged_ops m r off n) = vm_read_slice paged_vm m"
    "vm_check_range paged_vm (set_addr_range paged_ops m r off n) = vm_check_range paged_vm m"
    "vm_regions paged_vm (set_addr_range paged_ops m r off n) = vm_regions paged_vm m"
    by (simp_all add: paged_vm_def paged_ops_def)
  assume ok: "regions_ok paged_vm m (vm_regions paged_vm m)" and r: "r \<in> set (vm_regions paged_vm m)"
  then have sorted: "sorted_wrt (\<lambda>r r'. apart (gpa r') (unat (region_size r')) (gpa r) (unat (region_size r))) (fr_regions (fst m))"
    "r \<in> set (fr_regions (fst m))" by (simp_all add: regions_ok_def paged_vm_def)
  show "find_region paged_ops m a = Some r" if "unat (gpa r) + unat (region_size r) < 2 ^ 64 - 4096"
    "unat (gpa r) \<le> unat a" "unat a < unat (gpa r) + unat (region_size r)"
  proof -
    have "covers r (unat a) \<and> low_region r" using that by (simp add: covers_def low_region_def)
    then obtain r2 where "find (\<lambda>r. covers r (unat a) \<and> low_region r) (fr_regions (fst m)) = Some r2"
      using sorted(2) by (cases "find (\<lambda>r. covers r (unat a) \<and> low_region r) (fr_regions (fst m))") (auto simp: find_None_iff)
    moreover from this have "r2 \<in> set (fr_regions (fst m))" "covers r2 (unat a)" by (auto simp: find_Some_iff)
    ultimately show ?thesis
      using covers_unique [OF sorted(1,2)] \<open>covers r (unat a) \<and> low_region r\<close> by (auto simp: paged_ops_def)
  qed
  assume r': "r' \<in> set (vm_regions paged_vm m)" and pq: "4096 * p < unat (region_size r)" "4096 * q < unat (region_size r')"
  have off: "page_addr r (of_nat p * PAGE) = unat (gpa r) + 4096 * p" "page_addr r' (of_nat q * PAGE) = unat (gpa r') + 4096 * q"
    using pq unsigned_less [of "region_size r", where 'a = nat] unsigned_less [of "region_size r'", where 'a = nat]
    by (simp_all add: page_addr_def PAGE_def unat_word_ariths unat_of_nat mod_mult_right_eq)
  have "covers r (unat (gpa r') + 4096 * q) \<Longrightarrow> r' = r"
    using covers_unique [OF sorted(1,2), of r' "unat (gpa r') + 4096 * q"] r' pq(2) by (simp add: covers_def paged_vm_def)
  then show "is_addr_set paged_ops (set_addr_range paged_ops m r (of_nat p * PAGE) PAGE) r' (of_nat q * PAGE) \<longleftrightarrow>
      is_addr_set paged_ops m r' (of_nat q * PAGE) \<or> (r' = r \<and> q = p)"
    using pq by (auto simp: paged_ops_def off covers_def unat_PAGE)
qed

section \<open>Property of the dirty image\<close>

text \<open>
  Property C29.  The dirty image of a paused guest, written into a new file in chunks and runs of
  pages, is the image which takes the bytes of each page that is marked in RAM or set in the log of
  the hypervisor and zeroes for every other page.  The walk ends, and only a fault of the file keeps
  the image from being written.
\<close>

theorem dirty_image_is_pagewise:
  assumes "marked_ram vm pg" "ram_regions vm m = rs" "regions_ok vm m rs" "img f = []" "img_at f = 0"
    and "list_all (\<lambda>r. region_below r \<and> 0 < region_size r \<and> dlog (gpa r) \<noteq> None \<and> length (the (dlog (gpa r))) * 64 * 4096 \<le> 2 ^ 64) rs"
  shows "\<exists>m' f' res. write_dirty vm pg dlog Paused m f = Some (m', f', res) \<and> (faults f = [] \<longrightarrow> res = Ok ()) \<and>
    (res = Ok () \<longrightarrow> img f' =
      concat (map (\<lambda>r. map (\<lambda>i. if page_set pg m r (i div 4096) \<or> logged (the (dlog (gpa r))) (i div 4096)
        then byte_of vm m (gpa r + of_nat i) else 0) [0..<unat (region_size r)]) rs))"
proof -
  obtain m' f' res where w: "write_dirty vm pg dlog Paused m f = Some (m', f', res)" "res = Ok () \<longrightarrow> img f' = dirty_image vm pg m' rs"
    "faults f = [] \<longrightarrow> res = Ok ()" and added: "marked_ram.adds vm pg m {(r, q) | r q. r \<in> set rs \<and> logged (the (dlog (gpa r))) q} m'"
    using marked_ram.write_dirty_lays [OF assms] by blast
  have "vm_regions vm m = rs" using assms(2) by (simp add: ram_regions_def)
  from w marked_ram.dirty_image_adds [OF assms(1) added this] show ?thesis by auto
qed

text \<open>Two pages, the second of them in the log.\<close>

definition two_pages :: paged where
  "two_pages = (\<lparr>fr_regions = [\<lparr>gpa = 0, region_size = 0x2000\<rparr>], fr_byte = (\<lambda>x. 7)\<rparr>, \<lambda>x. False)"

theorem dirty_image_is_pagewise_witness:
  "\<exists>m' f'. write_dirty paged_vm paged_ops (\<lambda>_. Some [2]) Paused two_pages \<lparr>img = [], img_at = 0, faults = []\<rparr> = Some (m', f', Ok ()) \<and>
     img f' = replicate 4096 0 @ replicate 4096 7"
proof -
  let ?r = "\<lparr>gpa = 0, region_size = 0x2000\<rparr> :: region"
  have check: "flat_check (fst two_pages) a n" if "unat a + n \<le> 8192" for a n
    using that by (auto simp: flat_check_def two_pages_def list_all_iff covers_def)
  then have ok: "regions_ok paged_vm two_pages [?r]" by (simp add: regions_ok_def region_low_def paged_vm_def)
  have "byte_of paged_vm two_pages (of_nat i) = 7" if "i < 8192" for i
    using check [of "of_nat i" 1] that by (simp add: byte_of_def paged_vm_def flat_read_def unat_of_nat) (simp add: two_pages_def)
  moreover have "page_set paged_ops two_pages ?r q \<or> logged [2] q \<longleftrightarrow> q = 1" for q
  proof -
    have "\<not> page_set paged_ops two_pages ?r q" by (simp add: page_set_def paged_ops_def two_pages_def)
    then show ?thesis by (auto simp: logged_def bit_2_iff)
  qed
  ultimately have image: "map (\<lambda>i. if page_set paged_ops two_pages ?r (i div 4096) \<or> logged [2] (i div 4096) then byte_of paged_vm two_pages (gpa ?r + of_nat i) else 0)
      [0..<unat (region_size ?r)] = replicate 4096 0 @ replicate 4096 7"
    by (intro nth_equalityI) (auto simp: nth_append div_nat_eqI div_eq_0_iff)
  show ?thesis
    using image dirty_image_is_pagewise [OF paged_marks.marked_ram_axioms _ ok, of "\<lparr>img = [], img_at = 0, faults = []\<rparr>" "\<lambda>_. Some [2]"]
    by (auto simp: ram_regions_def paged_vm_def two_pages_def region_below_def)
qed

end
