(* ===== verification/Machine_State.thy ===== *)
theory Machine_State
  imports Legacy Ram_Image
begin

text \<open>
  The state of a guest other than its RAM: the snapshot document of \<^verbatim>\<open>src/lingcore/src/machine/snapshot.rs\<close>,
  the generation identifier of \<^verbatim>\<open>vmgenid.rs\<close>, and \<^verbatim>\<open>read_state\<close>, \<^verbatim>\<open>capture\<close> and \<^verbatim>\<open>restore\<close> of
  \<^verbatim>\<open>machine/mod.rs\<close>.  The hypervisor which holds the vCPUs, the interrupt controller and the clock is a
  parameter, as are JSON and the random source.

  The locale \<open>hv_state\<close> says that a part which is set reads back and that the parts do not disturb each
  other.  On it, a snapshot restores to a guest which captures the same state, with a new identifier.
\<close>

section \<open>The document\<close>

datatype backend = Kvm | Mshv | Hvf | Whp

datatype arch = X86_64 | Aarch64 | Riscv64

record state_blob =
  sb_backend :: backend
  sb_arch :: arch
  sb_version :: u32
  sb_data :: bytes

definition FORMAT_VERSION :: u32 where "FORMAT_VERSION = 1"

record snapshot =
  sn_format :: u32
  sn_memory :: u64
  sn_vcpus :: u16
  sn_irqchip :: "state_blob option"
  sn_clock :: "state_blob option"
  sn_processors :: "state_blob list"
  sn_devices :: "blob option list"

definition snapshot_default :: snapshot where
  "snapshot_default = \<lparr>sn_format = FORMAT_VERSION, sn_memory = 0, sn_vcpus = 0, sn_irqchip = None, sn_clock = None,
     sn_processors = [], sn_devices = []\<rparr>"

definition snapshot_new ::
  "u64 \<Rightarrow> u16 \<Rightarrow> state_blob option \<Rightarrow> state_blob option \<Rightarrow> state_blob list \<Rightarrow> blob option list \<Rightarrow> snapshot" where
  "snapshot_new memory vcpus irqchip clock processors devices =
     \<lparr>sn_format = FORMAT_VERSION, sn_memory = memory, sn_vcpus = vcpus, sn_irqchip = irqchip, sn_clock = clock,
      sn_processors = processors, sn_devices = devices\<rparr>"

text \<open>The document as JSON, \<open>json\<close> being \<^verbatim>\<open>serde_json\<close>; a write to a file which fails is \<open>None\<close> here.\<close>

definition snapshot_write :: "snapshot serde \<Rightarrow> snapshot \<Rightarrow> (bytes, machine_error) result" where
  "snapshot_write json s = ok_or SnapshotError (to_vec json s)"

definition snapshot_read :: "snapshot serde \<Rightarrow> bytes \<Rightarrow> (snapshot, machine_error) result" where
  "snapshot_read json bs =
     (case from_slice json bs of
        None \<Rightarrow> Err SnapshotError
      | Some s \<Rightarrow> if sn_format s \<noteq> FORMAT_VERSION then Err (SnapshotFormat (sn_format s)) else Ok s)"

definition fits :: "snapshot \<Rightarrow> u64 \<Rightarrow> u16 \<Rightarrow> (unit, machine_error) result" where
  "fits s memory vcpus =
     (if sn_memory s \<noteq> memory \<or> sn_vcpus s \<noteq> vcpus then Err SnapshotShape
      else if length (sn_processors s) \<noteq> unat vcpus then Err SnapshotShape
      else Ok ())"

section \<open>The generation identifier\<close>

definition GENID_ROOM :: nat where "GENID_ROOM = 16"

text \<open>\<open>draw\<close> is \<^verbatim>\<open>read_exact\<close> on the source of random bytes, \<open>send\<close> raises the line.\<close>

record ('e, 'l) genid_ops =
  draw :: "nat \<Rightarrow> 'e \<Rightarrow> 'e \<times> bytes option"
  send_line :: "'l \<Rightarrow> 'l \<times> (unit, hv_error) result"

record ('e, 'l) genid =
  gid_at :: u64
  gid_line :: 'l
  gid_source :: 'e

definition genid_lay ::
  "('e, 'l) genid_ops \<Rightarrow> 'm vm \<Rightarrow> ('e, 'l) genid \<Rightarrow> 'm \<Rightarrow> ('e, 'l) genid \<times> 'm \<times> (unit, machine_error) result" where
  "genid_lay ops vm g m =
     (case draw ops GENID_ROOM (gid_source g) of
        (e, None) \<Rightarrow> (g\<lparr>gid_source := e\<rparr>, m, Err EntropyFile)
      | (e, Some drawn) \<Rightarrow>
          (case ram_write vm m (gid_at g) drawn of
             (m1, r) \<Rightarrow> (g\<lparr>gid_source := e\<rparr>, m1, map_err (\<lambda>_. MachineMem) r)))"

definition genid_renew ::
  "('e, 'l) genid_ops \<Rightarrow> 'm vm \<Rightarrow> ('e, 'l) genid \<Rightarrow> 'm \<Rightarrow> ('e, 'l) genid \<times> 'm \<times> (unit, machine_error) result" where
  "genid_renew ops vm g m =
     (case genid_lay ops vm g m of
        (g1, m1, Inl e) \<Rightarrow> (g1, m1, Err e)
      | (g1, m1, Inr _) \<Rightarrow>
          (case send_line ops (gid_line g1) of
             (l, r) \<Rightarrow> (g1\<lparr>gid_line := l\<rparr>, m1, map_err (\<lambda>_. MachineHv) r)))"

section \<open>Capture and restore\<close>

text \<open>The calls of the hypervisor on the state \<open>'h\<close> it holds of a guest.\<close>

record 'h hv_ops =
  get_irqchip_state :: "'h \<Rightarrow> (state_blob, hv_error) result"
  set_irqchip_state :: "state_blob \<Rightarrow> 'h \<Rightarrow> 'h \<times> (unit, hv_error) result"
  get_clock :: "'h \<Rightarrow> (state_blob, hv_error) result"
  set_clock :: "state_blob \<Rightarrow> 'h \<Rightarrow> 'h \<times> (unit, hv_error) result"
  set_clock_elapsed :: "state_blob \<Rightarrow> 'h \<Rightarrow> 'h \<times> (unit, hv_error) result"
  get_state :: "nat \<Rightarrow> 'h \<Rightarrow> (state_blob, hv_error) result"
  set_state :: "nat \<Rightarrow> state_blob \<Rightarrow> 'h \<Rightarrow> 'h \<times> (unit, hv_error) result"

record ('h, 'd, 'm, 'e, 'l) guest =
  gu_state :: mstate
  gu_memory :: u64
  gu_vcpus :: u16
  gu_hv :: 'h
  gu_bus :: "'d bus"
  gu_ram :: 'm
  gu_genid :: "('e, 'l) genid"

text \<open>The vCPUs in order; \<open>taken\<close> tells of each whether a thread holds its lock.\<close>

fun read_vcpus :: "'h hv_ops \<Rightarrow> (nat \<Rightarrow> bool) \<Rightarrow> 'h \<Rightarrow> nat list \<Rightarrow> (state_blob list, machine_error) result" where
  "read_vcpus hv taken h [] = Ok []"
| "read_vcpus hv taken h (i # is) =
     (if taken i then Err NotHeld
      else and_then (map_err (\<lambda>_. MachineHv) (get_state hv i h))
             (\<lambda>b. and_then (read_vcpus hv taken h is) (\<lambda>bs. Ok (b # bs))))"

definition read_state ::
  "'h hv_ops \<Rightarrow> 'd device_ops \<Rightarrow> (nat \<Rightarrow> bool) \<Rightarrow> ('h, 'd, 'm, 'e, 'l) guest \<Rightarrow> (state_blob list \<times> blob option list, machine_error) result" where
  "read_state hv dops taken g =
     (if gu_state g \<noteq> Paused then Err (BadTransition (gu_state g) Paused)
      else and_then (read_vcpus hv taken (gu_hv g) [0..<unat (gu_vcpus g)])
             (\<lambda>ps. and_then (map_err (\<lambda>_. MachineDevices) (bus_capture dops (gu_bus g))) (\<lambda>ds. Ok (ps, ds))))"

definition reported_part :: "(state_blob, hv_error) result \<Rightarrow> (state_blob option, machine_error) result" where
  "reported_part r = (case r of Inr b \<Rightarrow> Ok (Some b) | Inl (Unsupported _) \<Rightarrow> Ok None | Inl _ \<Rightarrow> Err MachineHv)"

definition capture_guest ::
  "'h hv_ops \<Rightarrow> 'd device_ops \<Rightarrow> (nat \<Rightarrow> bool) \<Rightarrow> ('h, 'd, 'm, 'e, 'l) guest \<Rightarrow> (snapshot, machine_error) result" where
  "capture_guest hv dops taken g =
     and_then (read_state hv dops taken g)
       (\<lambda>(ps, ds). and_then (reported_part (get_irqchip_state hv (gu_hv g)))
          (\<lambda>irqchip. and_then (reported_part (get_clock hv (gu_hv g)))
             (\<lambda>clock. Ok (snapshot_new (gu_memory g) (gu_vcpus g) irqchip clock ps ds))))"

fun set_vcpus :: "'h hv_ops \<Rightarrow> 'h \<Rightarrow> (nat \<times> state_blob) list \<Rightarrow> 'h \<times> (unit, machine_error) result" where
  "set_vcpus hv h [] = (h, Ok ())"
| "set_vcpus hv h ((i, b) # ibs) =
     (case set_state hv i b h of
        (h1, Inl _) \<Rightarrow> (h1, Err MachineHv)
      | (h1, Inr _) \<Rightarrow> set_vcpus hv h1 ibs)"

definition restore_irqchip :: "'h hv_ops \<Rightarrow> state_blob option \<Rightarrow> 'h \<Rightarrow> 'h \<times> (unit, machine_error) result" where
  "restore_irqchip hv b h =
     (case b of None \<Rightarrow> (h, Ok ()) | Some b \<Rightarrow> (case set_irqchip_state hv b h of (h1, r) \<Rightarrow> (h1, map_err (\<lambda>_. MachineHv) r)))"

definition restore_clock :: "'h hv_ops \<Rightarrow> state_blob option \<Rightarrow> 'h \<Rightarrow> 'h \<times> (unit, machine_error) result" where
  "restore_clock hv b h =
     (case b of
        None \<Rightarrow> (h, Ok ())
      | Some b \<Rightarrow>
          (case set_clock_elapsed hv b h of
             (h1, Inr _) \<Rightarrow> (h1, Ok ())
           | (h1, Inl _) \<Rightarrow> (case set_clock hv b h1 of (h2, r) \<Rightarrow> (h2, map_err (\<lambda>_. MachineHv) r))))"

definition restore_guest ::
  "'h hv_ops \<Rightarrow> 'd device_ops \<Rightarrow> ('e, 'l) genid_ops \<Rightarrow> 'm vm \<Rightarrow> snapshot \<Rightarrow> ('h, 'd, 'm, 'e, 'l) guest \<Rightarrow>
     ('h, 'd, 'm, 'e, 'l) guest \<times> (unit, machine_error) result" where
  "restore_guest hv dops gops vm s g =
     (if gu_state g \<noteq> Created then (g, Err (BadTransition (gu_state g) Created))
      else case fits s (gu_memory g) (gu_vcpus g) of
        Inl e \<Rightarrow> (g, Err e)
      | Inr _ \<Rightarrow>
          (case restore_irqchip hv (sn_irqchip s) (gu_hv g) of
             (h1, Inl e) \<Rightarrow> (g\<lparr>gu_hv := h1\<rparr>, Err e)
           | (h1, Inr _) \<Rightarrow>
               (case set_vcpus hv h1 (zip [0..<unat (gu_vcpus g)] (sn_processors s)) of
                  (h2, Inl e) \<Rightarrow> (g\<lparr>gu_hv := h2\<rparr>, Err e)
                | (h2, Inr _) \<Rightarrow>
                    (case bus_restore dops (gu_bus g) (sn_devices s) of
                       (b, Inl _) \<Rightarrow> (g\<lparr>gu_hv := h2, gu_bus := b\<rparr>, Err MachineDevices)
                     | (b, Inr _) \<Rightarrow>
                         (case genid_renew gops vm (gu_genid g) (gu_ram g) of
                            (gid, m, Inl e) \<Rightarrow> (g\<lparr>gu_hv := h2, gu_bus := b, gu_genid := gid, gu_ram := m\<rparr>, Err e)
                          | (gid, m, Inr _) \<Rightarrow>
                              (case restore_clock hv (sn_clock s) h2 of
                                 (h3, r) \<Rightarrow> (g\<lparr>gu_hv := h3, gu_bus := b, gu_genid := gid, gu_ram := m\<rparr>, r)))))))"

section \<open>What a restore relies on\<close>

locale hv_state =
  fixes hv :: "'h hv_ops"
  assumes set_irqchip_get: "set_irqchip_state hv b h = (h', Inr u) \<Longrightarrow> get_irqchip_state hv h' = Inr b"
    and set_vcpu_get: "set_state hv i b h = (h', Inr u) \<Longrightarrow> get_state hv j h' = (if j = i then Inr b else get_state hv j h)"
    and set_vcpu_irqchip: "set_state hv i b h = (h', r) \<Longrightarrow> get_irqchip_state hv h' = get_irqchip_state hv h"
    and set_clock_keeps: "set_clock hv b h = (h', r) \<Longrightarrow> get_state hv i h' = get_state hv i h \<and> get_irqchip_state hv h' = get_irqchip_state hv h"
    and set_elapsed_keeps: "set_clock_elapsed hv b h = (h', r) \<Longrightarrow> get_state hv i h' = get_state hv i h \<and> get_irqchip_state hv h' = get_irqchip_state hv h"
begin

lemma set_vcpus_get:
  "set_vcpus hv h ibs = (h', Inr u) \<Longrightarrow> distinct (map fst ibs) \<Longrightarrow>
   get_irqchip_state hv h' = get_irqchip_state hv h \<and> (\<forall>(i, b) \<in> set ibs. get_state hv i h' = Inr b) \<and>
   (\<forall>i. i \<notin> fst ` set ibs \<longrightarrow> get_state hv i h' = get_state hv i h)"
proof (induction ibs arbitrary: h)
  case (Cons x ibs)
  obtain i b where x: "x = (i, b)" by (cases x)
  with Cons.prems obtain h1 v where one: "set_state hv i b h = (h1, Inr v)" "set_vcpus hv h1 ibs = (h', Inr u)"
    by (auto split: prod.splits sum.splits)
  note more = Cons.IH [OF one(2)] set_vcpu_get [OF one(1)] set_vcpu_irqchip [OF one(1)]
  have "i \<notin> fst ` set ibs" using Cons.prems(2) x by simp
  with more Cons.prems(2) x show ?case by auto
qed simp

lemma restore_irqchip_get:
  "restore_irqchip hv b h = (h', Inr u) \<Longrightarrow> (case b of None \<Rightarrow> h' = h | Some b \<Rightarrow> get_irqchip_state hv h' = Inr b)"
  by (auto simp: restore_irqchip_def map_err_def split: option.splits prod.splits sum.splits dest: set_irqchip_get)

lemma restore_clock_keeps:
  "restore_clock hv b h = (h', r) \<Longrightarrow> get_state hv i h' = get_state hv i h \<and> get_irqchip_state hv h' = get_irqchip_state hv h"
  by (auto simp: restore_clock_def split: option.splits prod.splits sum.splits dest!: set_clock_keeps [of _ _ _ _ i] set_elapsed_keeps [of _ _ _ _ i])

end

lemma read_vcpus_states:
  "read_vcpus hv taken h is = Inr bs \<Longrightarrow> length bs = length is \<and> (\<forall>k < length is. get_state hv (is ! k) h = Inr (bs ! k))"
proof (induction "is" arbitrary: bs)
  case (Cons i "is")
  then obtain b cs where "get_state hv i h = Inr b" "read_vcpus hv taken h is = Inr cs" "bs = b # cs"
    by (auto simp: and_then_eq_Inr split: if_splits)
  with Cons.IH show ?case by (auto simp: less_Suc_eq_0_disj)
qed simp

lemma capture_guest_parts:
  assumes "capture_guest hv dops taken g = Inr s"
  shows "gu_state g = Paused" "sn_format s = FORMAT_VERSION" "sn_memory s = gu_memory g" "sn_vcpus s = gu_vcpus g"
    and "bus_capture dops (gu_bus g) = Inr (sn_devices s)" "length (sn_processors s) = unat (gu_vcpus g)"
    and "k < unat (gu_vcpus g) \<Longrightarrow> get_state hv k (gu_hv g) = Inr (sn_processors s ! k)"
  using assms read_vcpus_states [of hv taken "gu_hv g" "[0..<unat (gu_vcpus g)]"]
  by (auto simp: capture_guest_def read_state_def and_then_eq_Inr snapshot_new_def split: if_splits)

lemma capture_fits: "capture_guest hv dops taken g = Inr s \<Longrightarrow> fits s (gu_memory g) (gu_vcpus g) = Ok ()"
  using capture_guest_parts [of hv dops taken g s] by (simp add: fits_def)

context restorable
begin

lemma bus_restore_captured:
  assumes "bus_capture ops b = Inr caps" "bus_capture ops b0 = Inr caps0" "map (map_option blob_kind) caps0 = map (map_option blob_kind) caps"
  shows "\<exists>ps. capture_all ops ps = Inr caps \<and>
    bus_restore ops b0 caps = (set_placed b0 (map (\<lambda>p. p\<lparr>p_device := dev_restored ops (p_device p)\<rparr>) ps), Inr ())"
proof -
  have count: "count_list (flatten (map (map_option blob_kind) cs)) k = length (filter (\<lambda>y. blob_kind y = k) (flatten cs))"
    for cs :: "blob option list" and k
    by (induction cs) (auto simp: map_option_case split: option.splits)
  show ?thesis
    using apply_captured [of "all_placed b" caps "all_placed b0" caps0] assms
    by (auto simp: bus_restore_def bus_capture_def saved_blobs_def Let_def list_ex_iff count)
qed

end

text \<open>A new identifier is in RAM before the line is raised, and no other byte changes.\<close>

lemma genid_renew_writes:
  assumes "vm_memory vm" "genid_renew gops vm g m = (g', m', Inr u)"
  shows "\<exists>e drawn. draw gops GENID_ROOM (gid_source g) = (e, Some drawn) \<and> g' = \<lparr>gid_at = gid_at g, gid_line = fst (send_line gops (gid_line g)), gid_source = e\<rparr> \<and>
    (drawn \<noteq> [] \<longrightarrow> ram_read vm m' (gid_at g) (length drawn) = Inr drawn) \<and>
    (\<forall>b n. apart (gid_at g) (length drawn) b n \<longrightarrow> ram_read vm m' b n = ram_read vm m b n)"
proof -
  from assms(2) obtain e drawn m1 v l w where d: "draw gops GENID_ROOM (gid_source g) = (e, Some drawn)"
    "ram_write vm m (gid_at g) drawn = (m1, Inr v)" "send_line gops (gid_line g) = (l, Inr w)" "m' = m1"
    "g' = g\<lparr>gid_source := e, gid_line := l\<rparr>"
    by (auto simp: genid_renew_def genid_lay_def map_err_def split: prod.splits sum.splits option.splits)
  with vm_memory.ram_write_read [OF assms(1), of m "gid_at g" drawn m1] vm_memory.ram_write_apart [OF assms(1) d(2)]
  show ?thesis by simp
qed

text \<open>The calls of a restore which succeeds.\<close>

lemma restore_guest_calls:
  assumes "restore_guest hv dops gops vm s g = (g', Inr u)"
  obtains h1 h2 h3 b gid m where "gu_state g = Created" "fits s (gu_memory g) (gu_vcpus g) = Ok ()"
    "restore_irqchip hv (sn_irqchip s) (gu_hv g) = (h1, Ok ())"
    "set_vcpus hv h1 (zip [0..<unat (gu_vcpus g)] (sn_processors s)) = (h2, Ok ())"
    "bus_restore dops (gu_bus g) (sn_devices s) = (b, Ok ())" "genid_renew gops vm (gu_genid g) (gu_ram g) = (gid, m, Ok ())"
    "restore_clock hv (sn_clock s) h2 = (h3, Ok ())" "g' = g\<lparr>gu_hv := h3, gu_bus := b, gu_genid := gid, gu_ram := m\<rparr>"
  using assms by (auto simp: restore_guest_def split: if_splits sum.splits prod.splits)

section \<open>Property of a snapshot\<close>

text \<open>A hypervisor and hosts which refuse nothing.\<close>

definition accepting :: "'h hv_ops \<Rightarrow> ('e, 'l) genid_ops \<Rightarrow> 'm vm \<Rightarrow> ('h, 'd, 'm, 'e, 'l) guest \<Rightarrow> bool" where
  "accepting hv gops vm g \<longleftrightarrow>
     (\<forall>b h. is_ok (snd (set_irqchip_state hv b h)) \<and> is_ok (snd (set_clock hv b h)) \<and> (\<forall>i. is_ok (snd (set_state hv i b h)))) \<and>
     is_ok (snd (snd (genid_renew gops vm (gu_genid g) (gu_ram g))))"

lemma set_vcpus_accepted: "accepting hv gops vm g \<Longrightarrow> is_ok (snd (set_vcpus hv h ibs))"
proof (induction ibs arbitrary: h)
  case (Cons x ibs)
  then have "is_ok (snd (set_state hv (fst x) (snd x) h))" by (simp add: accepting_def)
  with Cons show ?case by (cases x; cases "set_state hv (fst x) (snd x) h"; cases "snd (set_state hv (fst x) (snd x) h)") auto
qed simp

lemma restore_guest_accepted:
  assumes "accepting hv gops vm g" "gu_state g = Created" "fits s (gu_memory g) (gu_vcpus g) = Ok ()"
    and "snd (bus_restore dops (gu_bus g) (sn_devices s)) = Ok ()"
  shows "is_ok (snd (restore_guest hv dops gops vm s g))"
proof -
  obtain h1 r1 where c1: "restore_irqchip hv (sn_irqchip s) (gu_hv g) = (h1, r1)" by (cases "restore_irqchip hv (sn_irqchip s) (gu_hv g)")
  let ?ibs = "zip [0..<unat (gu_vcpus g)] (sn_processors s)"
  obtain h2 r2 where c2: "set_vcpus hv h1 ?ibs = (h2, r2)" by (cases "set_vcpus hv h1 ?ibs")
  obtain b r3 where c3: "bus_restore dops (gu_bus g) (sn_devices s) = (b, r3)" by (cases "bus_restore dops (gu_bus g) (sn_devices s)")
  obtain gid m r4 where c4: "genid_renew gops vm (gu_genid g) (gu_ram g) = (gid, m, r4)" by (cases "genid_renew gops vm (gu_genid g) (gu_ram g)")
  obtain h3 r5 where c5: "restore_clock hv (sn_clock s) h2 = (h3, r5)" by (cases "restore_clock hv (sn_clock s) h2")
  have "is_ok r1"
  proof (cases "sn_irqchip s")
    case (Some b)
    have "is_ok (snd (set_irqchip_state hv b (gu_hv g)))" using assms(1) by (simp add: accepting_def)
    with c1 Some show ?thesis by (cases r1) (auto simp: restore_irqchip_def map_err_def split: prod.splits sum.splits)
  qed (use c1 in \<open>auto simp: restore_irqchip_def\<close>)
  moreover have "is_ok r2" using set_vcpus_accepted [OF assms(1), of h1 ?ibs] c2 by simp
  moreover have "is_ok r4" using assms(1) c4 by (simp add: accepting_def)
  moreover have "is_ok r5"
  proof (cases "sn_clock s")
    case (Some b)
    have "is_ok (snd (set_clock hv b h))" for h using assms(1) by (simp add: accepting_def)
    with c5 Some show ?thesis by (cases r5) (auto simp: restore_clock_def map_err_def split: prod.splits sum.splits, metis is_ok_simps(1) snd_conv)
  qed (use c5 in \<open>auto simp: restore_clock_def\<close>)
  ultimately show ?thesis using assms(2-4) c1 c2 c3 c4 c5 by (cases r1; cases r2; cases r4; cases r5) (simp_all add: restore_guest_def)
qed

text \<open>
  Property C30.  The document of a paused guest, written as JSON and read back, is the document; a
  guest of another state or shape refuses it and changes nothing.  Restored on a guest just
  created with the same shape and the same kinds of devices, by a hypervisor and a host which refuse
  nothing, it gives the interrupt controller, every vCPU and every device the state they were captured
  with; the identifier in RAM is a new one, no other byte of RAM changes, and the line of the
  identifier is raised once.
\<close>

theorem guest_restores_captured_state:
  assumes "hv_state hv" "restorable dops" "vm_memory vm" "codec json"
    and "capture_guest hv dops taken g = Inr s" "snapshot_write json s = Inr doc"
  shows "snapshot_read json doc = Ok s \<and>
    (gu_state g0 \<noteq> Created \<or> gu_memory g0 \<noteq> gu_memory g \<or> gu_vcpus g0 \<noteq> gu_vcpus g \<longrightarrow>
      fst (restore_guest hv dops gops vm s g0) = g0 \<and> \<not> is_ok (snd (restore_guest hv dops gops vm s g0))) \<and>
    (gu_state g0 = Created \<and> gu_memory g0 = gu_memory g \<and> gu_vcpus g0 = gu_vcpus g \<and> accepting hv gops vm g0 \<and>
      bus_capture dops (gu_bus g0) = Inr caps0 \<and> map (map_option blob_kind) caps0 = map (map_option blob_kind) (sn_devices s) \<longrightarrow>
      (\<exists>g1. restore_guest hv dops gops vm s g0 = (g1, Ok ()) \<and>
        (\<forall>k < unat (gu_vcpus g). get_state hv k (gu_hv g1) = get_state hv k (gu_hv g)) \<and>
        (\<forall>b. sn_irqchip s = Some b \<longrightarrow> get_irqchip_state hv (gu_hv g1) = Inr b) \<and>
        (\<exists>ps. capture_all dops ps = bus_capture dops (gu_bus g) \<and>
          gu_bus g1 = set_placed (gu_bus g0) (map (\<lambda>p. p\<lparr>p_device := dev_restored dops (p_device p)\<rparr>) ps)) \<and>
        (\<exists>e drawn. draw gops GENID_ROOM (gid_source (gu_genid g0)) = (e, Some drawn) \<and>
          gu_genid g1 = \<lparr>gid_at = gid_at (gu_genid g0), gid_line = fst (send_line gops (gid_line (gu_genid g0))), gid_source = e\<rparr> \<and>
          (drawn \<noteq> [] \<longrightarrow> ram_read vm (gu_ram g1) (gid_at (gu_genid g0)) (length drawn) = Inr drawn) \<and>
          (\<forall>b n. apart (gid_at (gu_genid g0)) (length drawn) b n \<longrightarrow> ram_read vm (gu_ram g1) b n = ram_read vm (gu_ram g0) b n))))"
    (is "?A \<and> ?B \<and> (?C \<longrightarrow> ?D)")
proof (intro conjI impI)
  note parts = capture_guest_parts [OF assms(5)]
  show ?A using codec.decode_encode [OF assms(4), of s doc] assms(6) parts(2) by (simp add: snapshot_write_def snapshot_read_def)
  show "fst (restore_guest hv dops gops vm s g0) = g0" "\<not> is_ok (snd (restore_guest hv dops gops vm s g0))"
    if "gu_state g0 \<noteq> Created \<or> gu_memory g0 \<noteq> gu_memory g \<or> gu_vcpus g0 \<noteq> gu_vcpus g"
    using that parts(3,4) by (auto simp: restore_guest_def fits_def)
  assume C: ?C
  obtain ps where ps: "capture_all dops ps = Inr (sn_devices s)"
    "bus_restore dops (gu_bus g0) (sn_devices s) = (set_placed (gu_bus g0) (map (\<lambda>p. p\<lparr>p_device := dev_restored dops (p_device p)\<rparr>) ps), Inr ())"
    using restorable.bus_restore_captured [OF assms(2) parts(5)] C by blast
  have "is_ok (snd (restore_guest hv dops gops vm s g0))"
    using restore_guest_accepted [of hv gops vm g0 s dops] C ps(2) capture_fits [OF assms(5)] by simp
  then obtain g1 where g1: "restore_guest hv dops gops vm s g0 = (g1, Ok ())"
    by (cases "restore_guest hv dops gops vm s g0"; cases "snd (restore_guest hv dops gops vm s g0)") auto
  then obtain h1 h2 h3 b gid m where calls: "restore_irqchip hv (sn_irqchip s) (gu_hv g0) = (h1, Ok ())"
    "set_vcpus hv h1 (zip [0..<unat (gu_vcpus g)] (sn_processors s)) = (h2, Ok ())"
    "bus_restore dops (gu_bus g0) (sn_devices s) = (b, Ok ())" "genid_renew gops vm (gu_genid g0) (gu_ram g0) = (gid, m, Ok ())"
    "restore_clock hv (sn_clock s) h2 = (h3, Ok ())" "g1 = g0\<lparr>gu_hv := h3, gu_bus := b, gu_genid := gid, gu_ram := m\<rparr>"
    using C by (elim restore_guest_calls) simp
  note set = hv_state.set_vcpus_get [OF assms(1) calls(2)] and clock = hv_state.restore_clock_keeps [OF assms(1) calls(5)]
  have "distinct (map fst (zip [0..<unat (gu_vcpus g)] (sn_processors s)))" by (simp add: map_fst_zip_take)
  note set = set [OF this]
  have "get_state hv k h3 = get_state hv k (gu_hv g)" if "k < unat (gu_vcpus g)" for k
  proof -
    have "(k, sn_processors s ! k) \<in> set (zip [0..<unat (gu_vcpus g)] (sn_processors s))"
      using that parts(6) by (auto simp: set_zip intro!: exI [of _ k])
    with set clock [of k] parts(7) [OF that] show ?thesis by auto
  qed
  moreover have "get_irqchip_state hv h3 = Inr c" if "sn_irqchip s = Some c" for c
    using hv_state.restore_irqchip_get [OF assms(1) calls(1)] that set clock by simp
  moreover note genid_renew_writes [OF assms(3) calls(4)]
  ultimately show ?D
    by (intro exI [of _ g1] conjI allI impI g1) (use ps parts(5) calls in auto)
qed

text \<open>A hypervisor which keeps what it is given, and a guest with one vCPU and the power block.\<close>

record kept =
  k_irqchip :: state_blob
  k_clock :: state_blob
  k_vcpus :: "nat \<Rightarrow> state_blob"

definition kept_hv :: "kept hv_ops" where
  "kept_hv = \<lparr>get_irqchip_state = (\<lambda>h. Ok (k_irqchip h)), set_irqchip_state = (\<lambda>b h. (h\<lparr>k_irqchip := b\<rparr>, Ok ())),
     get_clock = (\<lambda>h. Ok (k_clock h)), set_clock = (\<lambda>b h. (h\<lparr>k_clock := b\<rparr>, Ok ())),
     set_clock_elapsed = (\<lambda>b h. (h, Err (Unsupported ''realtime''))),
     get_state = (\<lambda>i h. Ok (k_vcpus h i)), set_state = (\<lambda>i b h. (h\<lparr>k_vcpus := (k_vcpus h)(i := b)\<rparr>, Ok ()))\<rparr>"

interpretation kept: hv_state kept_hv
  by unfold_locales (auto simp: kept_hv_def)

definition count_genid :: "(u8, nat) genid_ops" where
  "count_genid = \<lparr>draw = (\<lambda>n e. (e + 1, Some (replicate n e))), send_line = (\<lambda>l. (l + 1, Ok ()))\<rparr>"

definition a_blob :: "u8 \<Rightarrow> state_blob" where
  "a_blob x = \<lparr>sb_backend = Kvm, sb_arch = X86_64, sb_version = 1, sb_data = [x]\<rparr>"

definition a_guest :: "mstate \<Rightarrow> u8 \<Rightarrow> u16 \<Rightarrow> (kept, bytes legacy, flat_ram, u8, nat) guest" where
  "a_guest st x e = \<lparr>gu_state = st, gu_memory = 64, gu_vcpus = 1, gu_hv = \<lparr>k_irqchip = a_blob x, k_clock = a_blob x, k_vcpus = (\<lambda>_. a_blob x)\<rparr>,
     gu_bus = \<lparr>ports = [\<lparr>p_base = 0x600, p_size = 6, p_device = PowerBlock \<lparr>pm_enable = e\<rparr>\<rparr>], mmio = []\<rparr>,
     gu_ram = ram_of 64 [], gu_genid = \<lparr>gid_at = 16, gid_line = 0, gid_source = 5\<rparr>\<rparr>"

definition a_snapshot :: snapshot where
  "a_snapshot = snapshot_new 64 1 (Some (a_blob 7)) (Some (a_blob 7)) [a_blob 7]
     [Some \<lparr>blob_kind = PM1_KIND, blob_version = 1, blob_data = to_le 2 (9 :: u16)\<rparr>]"

definition a_json :: "snapshot serde" where
  "a_json = \<lparr>to_vec = (\<lambda>s. if s = a_snapshot then Some [1] else None), from_slice = (\<lambda>bs. if bs = [1] then Some a_snapshot else None)\<rparr>"

interpretation a_codec: codec a_json
  by unfold_locales (simp add: a_json_def split: if_splits)

abbreviation a_ops :: "bytes legacy device_ops" where
  "a_ops \<equiv> legacy_ops quiet_host serial_bytes pm1_bytes"

lemma a_bus_capture:
  "bus_capture a_ops (gu_bus (a_guest st x e)) = Inr [Some \<lparr>blob_kind = PM1_KIND, blob_version = 1, blob_data = to_le 2 e\<rparr>]"
  by (simp add: a_guest_def bus_capture_def all_placed_def legacy_ops_def pm1_capture_def captured_blob_def pm1_bytes_def PM1_VERSION_def)

lemma a_guest_capture: "capture_guest kept_hv a_ops (\<lambda>_. False) (a_guest Paused 7 9) = Inr a_snapshot"
  using a_bus_capture [of Paused 7 9]
  by (simp add: capture_guest_def read_state_def kept_hv_def reported_part_def a_snapshot_def) (simp add: a_guest_def)

lemma a_guest_accepting: "accepting kept_hv count_genid flat_vm (a_guest Created 1 2)"
  by (simp add: accepting_def kept_hv_def genid_renew_def genid_lay_def count_genid_def a_guest_def GENID_ROOM_def ram_write_def flat_write_def)

theorem guest_restores_captured_state_witness:
  "\<exists>g1. restore_guest kept_hv a_ops count_genid flat_vm a_snapshot (a_guest Created 1 2) = (g1, Ok ()) \<and>
     get_state kept_hv 0 (gu_hv g1) = Ok (a_blob 7) \<and> gid_line (gu_genid g1) = 1 \<and>
     ram_read flat_vm (gu_ram g1) 16 16 = Inr (replicate 16 5)"
proof -
  have "snapshot_write a_json a_snapshot = Inr [1]" by (simp add: snapshot_write_def a_json_def)
  note restored = guest_restores_captured_state [OF kept.hv_state_axioms port_devices.restorable_axioms flat.vm_memory_axioms a_codec.codec_axioms
      a_guest_capture this, of "a_guest Created 1 2" count_genid]
  have shape: "gu_state (a_guest st x e) = st" "gu_memory (a_guest st x e) = 64" "gu_vcpus (a_guest st x e) = 1"
    "gu_genid (a_guest st x e) = \<lparr>gid_at = 16, gid_line = 0, gid_source = 5\<rparr>" "get_state kept_hv k (gu_hv (a_guest st x e)) = Ok (a_blob x)" for st x e k
    by (simp_all add: a_guest_def kept_hv_def)
  have kinds: "map (map_option blob_kind) [Some \<lparr>blob_kind = PM1_KIND, blob_version = 1, blob_data = to_le 2 (2 :: u16)\<rparr>] =
      map (map_option blob_kind) (sn_devices a_snapshot)" by (simp add: a_snapshot_def snapshot_new_def)
  show ?thesis
    using restored [THEN conjunct2, THEN conjunct2, rule_format, OF conjI [OF _ conjI [OF _ conjI [OF _ conjI [OF a_guest_accepting conjI [OF a_bus_capture kinds]]]]]]
    by (auto simp: shape count_genid_def GENID_ROOM_def)
qed

end
