(* ===== verification/Control.thy ===== *)
theory Control
  imports Machine_State Rust_Text
begin

text \<open>
  Orders taken over a socket, \<^verbatim>\<open>src/lingcore/src/machine/control.rs\<close>: reading an order off a line, carrying it
  out on a guest, and the line it is answered with.  What the threads of the guest do while \<^verbatim>\<open>pause\<close> waits,
  the outcome of the calls which signal them, and the files of a snapshot are the environment of an order.

  The lemmas show that an order written as JSON is read back, that an order is answered with one line, and that
  a snapshot order which succeeds leaves a paused guest whose RAM and state are in the two files.
\<close>

section \<open>Text\<close>

definition lit :: "string \<Rightarrow> nat list" where
  "lit s = map of_char s"

definition strip_prefix :: "nat list \<Rightarrow> nat list \<Rightarrow> nat list option" where
  "strip_prefix p s = (if take (length p) s = p then Some (drop (length p) s) else None)"

fun find_text :: "nat list \<Rightarrow> nat list \<Rightarrow> nat option" where
  "find_text p [] = (if p = [] then Some 0 else None)"
| "find_text p (c # cs) = (if take (length p) (c # cs) = p then Some 0 else map_option Suc (find_text p cs))"

definition trim_start :: "nat list \<Rightarrow> nat list" where
  "trim_start s = dropWhile is_space s"

section \<open>Orders\<close>

datatype action = AState | APause | AResume | ASnapshot "nat list" bool | AStop

definition field :: "nat list \<Rightarrow> string \<Rightarrow> nat list option" where
  "field line name =
     (let key = [34] @ lit name @ [34] in
      case find_text key line of
        None \<Rightarrow> None
      | Some at \<Rightarrow>
          (case strip_prefix [58] (trim_start (drop (at + length key) line)) of
             None \<Rightarrow> None
           | Some rest \<Rightarrow>
               (case strip_prefix [34] (trim_start rest) of
                  None \<Rightarrow> None
                | Some rest \<Rightarrow> map_option (\<lambda>fin. take fin rest) (find_text [34] rest))))"

definition parse :: "nat list \<Rightarrow> action option" where
  "parse line =
     (case field line ''do'' of
        None \<Rightarrow> None
      | Some what \<Rightarrow>
          if what = lit ''state'' then Some AState
          else if what = lit ''pause'' then Some APause
          else if what = lit ''resume'' then Some AResume
          else if what = lit ''snapshot'' then map_option (\<lambda>at. ASnapshot at (field line ''pages'' = Some (lit ''dirty''))) (field line ''at'')
          else if what = lit ''stop'' then Some AStop
          else None)"

datatype refused = NotNow mstate | RHeld "nat list" | Mutated "nat list"

datatype outcome = OState mstate | Done | Stopping

section \<open>Carrying an order out\<close>

definition state_text :: "mstate \<Rightarrow> string" where
  "state_text s = (case s of Created \<Rightarrow> ''Created'' | Running \<Rightarrow> ''Running'' | Paused \<Rightarrow> ''Paused'' | MShutdown \<Rightarrow> ''Shutdown'')"

definition number_text :: "nat \<Rightarrow> nat list" where
  "number_text n = map unat (digits 20 n)"

text \<open>The words of an error, with the counts of a machine of \<^verbatim>\<open>x86_64\<close>.\<close>

definition error_text :: "machine_error \<Rightarrow> nat list" where
  "error_text e =
     (case e of
        MachineHv \<Rightarrow> lit ''hypervisor call failed''
      | MachineMem \<Rightarrow> lit ''failed to allocate guest RAM''
      | MachineBoot \<Rightarrow> lit ''failed to load kernel''
      | MachineDevices \<Rightarrow> lit ''failed to place devices''
      | ImageFile \<Rightarrow> lit ''failed to read kernel image''
      | EntropyFile \<Rightarrow> lit ''failed to open entropy source''
      | DiskFile \<Rightarrow> lit ''failed to open disk file''
      | RamImage \<Rightarrow> lit ''failed to write RAM image''
      | NetworkLink \<Rightarrow> lit ''failed to set up network link''
      | MetadataService \<Rightarrow> lit ''failed to set up metadata service''
      | NoMetadata \<Rightarrow> lit ''no metadata service in this build''
      | ChannelSocket \<Rightarrow> lit ''failed to bind channel socket''
      | PcapFile \<Rightarrow> lit ''failed to create pcap file''
      | ThreadError \<Rightarrow> lit ''failed to start thread''
      | NoKernel \<Rightarrow> lit ''guest needs a kernel''
      | LostPage \<Rightarrow> lit ''RAM image lost a page under the guest''
      | ShareError \<Rightarrow> lit ''failed to share a directory''
      | PortError \<Rightarrow> lit ''failed to open a console port''
      | NoRoomForMpTable \<Rightarrow> lit ''MP table does not fit in its kilobyte''
      | NoRoomForTables \<Rightarrow> lit ''ACPI tables overrun the area below the VM generation ID''
      | NoRoomForTree \<Rightarrow> lit ''device tree does not fit below kernel''
      | TreeError \<Rightarrow> lit ''failed to assemble device tree''
      | SnapshotError \<Rightarrow> lit ''failed to read or write snapshot''
      | SnapshotShape \<Rightarrow> lit ''snapshot does not fit shape of the guest''
      | NotHeld \<Rightarrow> lit ''vCPU did not stop for pause''
      | StoppedWhileHeld \<Rightarrow> lit ''guest stopped during pause''
      | VcpuThread \<Rightarrow> lit ''vCPU thread panicked''
      | DeviceThread \<Rightarrow> lit ''device thread panicked or exited on error''
      | SeccompError \<Rightarrow> lit ''failed to confine guest threads''
      | NoVcpus \<Rightarrow> lit ''guest needs at least one vCPU''
      | TooManyDisks n \<Rightarrow> lit ''guest takes at most 8 disks, '' @ number_text n @ lit '' were named''
      | TooManyShares n \<Rightarrow> lit ''guest takes at most 8 shared directories, '' @ number_text n @ lit '' were named''
      | TooManyDevices n \<Rightarrow> lit ''guest takes at most 17 virtio devices, '' @ number_text n @ lit '' were named''
      | SnapshotFormat v \<Rightarrow> lit ''snapshot format version '' @ number_text (unat v) @ lit '' is not supported''
      | BadTransition s t \<Rightarrow> lit (''invalid transition from '' @ state_text s @ '' to '' @ state_text t))"

text \<open>The environment of one order: \<^verbatim>\<open>ask_out\<close>, the threads and the clock while \<^verbatim>\<open>wait_until_still\<close> waits, the
  locks of the vCPUs, the dirty log and the calls which make the directory and the files; a failed call
  leaves the words of its error.\<close>

record ('h, 'd, 'm) order_env =
  oe_asked :: "(unit, machine_error) result"
  oe_wait :: "machine \<Rightarrow> machine \<times> still"
  oe_taken :: "nat \<Rightarrow> bool"
  oe_log :: "u64 \<Rightarrow> u64 list option"
  oe_mkdir :: "(unit, nat list) result"
  oe_memory :: "(image_file, nat list) result"
  oe_document :: "(unit, nat list) result"
  oe_hv :: "'h hv_ops"
  oe_devices :: "'d device_ops"
  oe_vm :: "'m vm"
  oe_pages :: "'m pages"
  oe_json :: "snapshot serde"

text \<open>A guest with its threads, and the files a snapshot wrote.\<close>

record ('h, 'd, 'm, 'e, 'l) held_guest =
  he_machine :: machine
  he_guest :: "('h, 'd, 'm, 'e, 'l) guest"
  he_memory :: "image_file option"
  he_document :: "bytes option"

definition pause :: "('h, 'd, 'm) order_env \<Rightarrow> machine \<Rightarrow> machine \<times> (unit, machine_error) result" where
  "pause env m =
     (case pause_begin (oe_asked env) m of
        (m1, Inl e) \<Rightarrow> (m1, Err e)
      | (m1, Inr _) \<Rightarrow> (case oe_wait env m1 of (m2, s) \<Rightarrow> pause_end s m2))"

definition guest_now :: "('h, 'd, 'm, 'e, 'l) held_guest \<Rightarrow> ('h, 'd, 'm, 'e, 'l) guest" where
  "guest_now x = (he_guest x)\<lparr>gu_state := m_state (he_machine x)\<rparr>"

text \<open>Writing the image, dense or dirty; a dirty one marks the logged pages in RAM.\<close>

definition write_image ::
  "('h, 'd, 'm) order_env \<Rightarrow> bool \<Rightarrow> ('h, 'd, 'm, 'e, 'l) held_guest \<Rightarrow> image_file \<Rightarrow>
     (('h, 'd, 'm, 'e, 'l) held_guest \<times> image_file \<times> (unit, machine_error) result) option" where
  "write_image env dirty x f =
     (let st = m_state (he_machine x); ram = gu_ram (he_guest x) in
      if dirty
      then map_option (\<lambda>(m, f1, r). (x\<lparr>he_guest := (he_guest x)\<lparr>gu_ram := m\<rparr>\<rparr>, f1, r)) (write_dirty (oe_vm env) (oe_pages env) (oe_log env) st ram f)
      else (case write_memory (oe_vm env) st ram f of (f1, r) \<Rightarrow> Some (x, f1, r)))"

definition snapshot_files ::
  "('h, 'd, 'm) order_env \<Rightarrow> bool \<Rightarrow> ('h, 'd, 'm, 'e, 'l) held_guest \<Rightarrow> (('h, 'd, 'm, 'e, 'l) held_guest \<times> (unit, refused) result) option" where
  "snapshot_files env dirty x =
     (case oe_mkdir env of
        Inl why \<Rightarrow> Some (x, Err (RHeld why))
      | Inr _ \<Rightarrow>
          (case capture_guest (oe_hv env) (oe_devices env) (oe_taken env) (guest_now x) of
             Inl e \<Rightarrow> Some (x, Err (RHeld (error_text e)))
           | Inr taken \<Rightarrow>
               (case oe_memory env of
                  Inl why \<Rightarrow> Some (x, Err (RHeld why))
                | Inr f \<Rightarrow>
                    (case write_image env dirty x f of
                       None \<Rightarrow> None
                     | Some (x1, f1, Inl e) \<Rightarrow> Some (x1\<lparr>he_memory := Some f1\<rparr>, Err (Mutated (error_text e)))
                     | Some (x1, f1, Inr _) \<Rightarrow>
                         (case oe_document env of
                            Inl why \<Rightarrow> Some (x1\<lparr>he_memory := Some f1\<rparr>, Err (Mutated why))
                          | Inr _ \<Rightarrow>
                              (case snapshot_write (oe_json env) taken of
                                 Inl e \<Rightarrow> Some (x1\<lparr>he_memory := Some f1, he_document := Some []\<rparr>, Err (Mutated (error_text e)))
                               | Inr doc \<Rightarrow> Some (x1\<lparr>he_memory := Some f1, he_document := Some doc\<rparr>, Ok ())))))))"

definition snapshot_order ::
  "('h, 'd, 'm) order_env \<Rightarrow> bool \<Rightarrow> ('h, 'd, 'm, 'e, 'l) held_guest \<Rightarrow> (('h, 'd, 'm, 'e, 'l) held_guest \<times> (unit, refused) result) option" where
  "snapshot_order env dirty x =
     (if m_state (he_machine x) \<noteq> Paused
      then (case pause env (he_machine x) of
              (m, Inl e) \<Rightarrow> Some (x\<lparr>he_machine := m\<rparr>, Err (RHeld (error_text e)))
            | (m, Inr _) \<Rightarrow> snapshot_files env dirty (x\<lparr>he_machine := m\<rparr>))
      else snapshot_files env dirty x)"

definition on_machine ::
  "outcome \<Rightarrow> (machine \<Rightarrow> machine \<times> (unit, machine_error) result) \<Rightarrow> ('h, 'd, 'm, 'e, 'l) held_guest \<Rightarrow>
     ('h, 'd, 'm, 'e, 'l) held_guest \<times> (outcome, refused) result" where
  "on_machine good f x =
     (case f (he_machine x) of (m, r) \<Rightarrow> (x\<lparr>he_machine := m\<rparr>, map_sum (\<lambda>e. RHeld (error_text e)) (\<lambda>_. good) r))"

definition apply_order ::
  "('h, 'd, 'm) order_env \<Rightarrow> action \<Rightarrow> ('h, 'd, 'm, 'e, 'l) held_guest \<Rightarrow> (('h, 'd, 'm, 'e, 'l) held_guest \<times> (outcome, refused) result) option" where
  "apply_order env act x =
     (case act of
        AState \<Rightarrow> Some (x, Ok (OState (m_state (he_machine x))))
      | APause \<Rightarrow> Some (on_machine Done (pause env) x)
      | AResume \<Rightarrow> Some (on_machine Done resume x)
      | ASnapshot at dirty \<Rightarrow> map_option (\<lambda>(x, r). (x, map_sum id (\<lambda>_. Done) r)) (snapshot_order env dirty x)
      | AStop \<Rightarrow> Some (on_machine Stopping (stop_machine (oe_asked env)) x))"

section \<open>Answers\<close>

definition refused_text :: "refused \<Rightarrow> nat list" where
  "refused_text r = (case r of NotNow s \<Rightarrow> lit (''guest is '' @ state_text s) | RHeld why \<Rightarrow> why | Mutated why \<Rightarrow> why @ lit '', guest was changed'')"

definition quoted :: "nat list \<Rightarrow> nat list" where
  "quoted s = [34] @ s @ [34]"

definition order_answer :: "(outcome, refused) result \<Rightarrow> nat list" where
  "order_answer r =
     (case r of
        Inr (OState s) \<Rightarrow> lit ''{'' @ quoted (lit ''ok'') @ lit '':true,'' @ quoted (lit ''state'') @ lit '':'' @ quoted (lit (state_text s)) @ lit ''}''
      | Inr Done \<Rightarrow> lit ''{'' @ quoted (lit ''ok'') @ lit '':true}''
      | Inr Stopping \<Rightarrow> lit ''{'' @ quoted (lit ''ok'') @ lit '':true}''
      | Inl why \<Rightarrow> lit ''{'' @ quoted (lit ''ok'') @ lit '':false,'' @ quoted (lit ''mutated'') @ lit '':'' @
          lit (case why of Mutated _ \<Rightarrow> ''true'' | _ \<Rightarrow> ''false'') @ lit '','' @ quoted (lit ''error'') @ lit '':'' @ quoted (refused_text why) @ lit ''}'')"

text \<open>An order is answered with one line, and tells whether the guest was told to stop.\<close>

definition serve_order ::
  "('h, 'd, 'm) order_env \<Rightarrow> nat list \<Rightarrow> ('h, 'd, 'm, 'e, 'l) held_guest \<Rightarrow> (('h, 'd, 'm, 'e, 'l) held_guest \<times> nat list \<times> bool) option" where
  "serve_order env line x =
     (case parse line of
        None \<Rightarrow> Some (x, lit ''{'' @ quoted (lit ''ok'') @ lit '':false,'' @ quoted (lit ''error'') @ lit '':'' @ quoted (lit ''no order named '' @ line) @ lit ''}'', False)
      | Some act \<Rightarrow>
          (case apply_order env act x of
             None \<Rightarrow> None
           | Some (x1, r) \<Rightarrow> Some (x1, order_answer r, r = Ok Stopping)))"

text \<open>A connection: the lines which are not blank are orders, served in turn and answered in turn.\<close>

fun talk :: "('h, 'd, 'm) order_env \<Rightarrow> nat list list \<Rightarrow> ('h, 'd, 'm, 'e, 'l) held_guest \<Rightarrow> (('h, 'd, 'm, 'e, 'l) held_guest \<times> nat list list) option" where
  "talk env [] x = Some (x, [])"
| "talk env (line # lines) x =
     (if list_all is_space line then talk env lines x
      else case serve_order env line x of
             None \<Rightarrow> None
           | Some (x1, answer, _) \<Rightarrow> map_option (\<lambda>(x2, answers). (x2, answer # answers)) (talk env lines x1))"

section \<open>Lemmas\<close>

lemma find_text_quote: "34 \<notin> set p \<Longrightarrow> find_text [34] (p @ 34 # r) = Some (length p)"
  by (induction p) auto

lemma find_text_skip: "34 \<notin> set p \<Longrightarrow> find_text (34 # k) (p @ r) = map_option ((+) (length p)) (find_text (34 # k) r)"
proof (induction p)
  case (Cons c p)
  then have "find_text (34 # k) ((c # p) @ r) = map_option Suc (find_text (34 # k) (p @ r))" by auto
  with Cons show ?case by (simp add: option.map_comp o_def)
qed (simp add: option.map_ident plus_nat.add_0 [abs_def])

text \<open>An order as a client writes it.\<close>

definition order_line :: "action \<Rightarrow> nat list" where
  "order_line act =
     lit ''{'' @ quoted (lit ''do'') @ lit '':'' @
     (case act of
        AState \<Rightarrow> quoted (lit ''state'')
      | APause \<Rightarrow> quoted (lit ''pause'')
      | AResume \<Rightarrow> quoted (lit ''resume'')
      | ASnapshot at dirty \<Rightarrow> quoted (lit ''snapshot'') @ lit '','' @ quoted (lit ''at'') @ lit '':'' @ quoted at @
          (if dirty then lit '','' @ quoted (lit ''pages'') @ lit '':'' @ quoted (lit ''dirty'') else [])
      | AStop \<Rightarrow> quoted (lit ''stop'')) @ lit ''}''"

lemmas parse_defs = parse_def field_def order_line_def lit_def quoted_def strip_prefix_def trim_start_def is_space_def Let_def

text \<open>A text without quotes which ends in one is found where it stands alone.\<close>

lemma take_quoted: "34 \<notin> set p \<Longrightarrow> 34 \<notin> set k \<Longrightarrow> take (Suc (length k)) (p @ 34 # r) = k @ [34] \<longleftrightarrow> p = (k :: nat list)"
proof (induction p arbitrary: k)
  case Nil
  then show ?case by (cases k) auto
next
  case (Cons c p)
  then show ?case by (cases k) auto
qed

lemma find_text_value:
  assumes "34 \<notin> set p" "34 \<notin> set k"
  shows "find_text (34 # k @ [34]) (34 # p @ 34 # r) =
    (if p = k then Some 0 else map_option ((+) (Suc (length p))) (find_text (34 # k @ [34]) (34 # r)))"
proof -
  have "find_text (34 # k @ [34]) (34 # p @ 34 # r) =
      (if p = k then Some 0 else map_option Suc (find_text (34 # k @ [34]) (p @ 34 # r)))"
    using take_quoted [OF assms, of r] by (simp del: take_append)
  then show ?thesis using find_text_skip [OF assms(1), of "k @ [34]" "34 # r"] by (simp add: option.map_comp o_def)
qed

lemma pages_field:
  assumes "34 \<notin> set p"
  shows "find_text [34, 112, 97, 103, 101, 115, 34] (34 # p @ 34 # r) =
    (if p = lit ''pages'' then Some 0 else map_option ((+) (Suc (length p))) (find_text [34, 112, 97, 103, 101, 115, 34] (34 # r)))"
  using find_text_value [OF assms, of "lit ''pages''" r] by (simp add: lit_def)

lemma find_text_step:
  "c \<noteq> 34 \<Longrightarrow> find_text (34 # k) (c # cs) = map_option Suc (find_text (34 # k) cs)"
  "d \<noteq> e \<Longrightarrow> find_text (34 # e # k) (34 # d # cs) = map_option Suc (find_text (34 # e # k) (d # cs))"
  by auto

lemma parse_order_line:
  assumes "case act of ASnapshot at dirty \<Rightarrow> 34 \<notin> set at \<and> (dirty \<longrightarrow> at \<noteq> lit ''pages'') | _ \<Rightarrow> True"
  shows "parse (order_line act) = Some act"
proof (cases act)
  case (ASnapshot at dirty)
  define pre where "pre = lit ''{'' @ quoted (lit ''do'') @ lit '':'' @ quoted (lit ''snapshot'') @ lit '','' @ quoted (lit ''at'') @ lit '':''"
  define rest where "rest = (if dirty then lit '','' @ quoted (lit ''pages'') @ lit '':'' @ quoted (lit ''dirty'') else []) @ lit ''}''"
  have line: "order_line act = pre @ 34 # at @ 34 # rest" by (simp add: ASnapshot order_line_def pre_def rest_def quoted_def)
  have q: "34 \<notin> set at" "dirty \<longrightarrow> at \<noteq> lit ''pages''" using assms ASnapshot by simp_all
  have "field (order_line act) ''do'' = Some (lit ''snapshot'')"
    unfolding line by (simp add: pre_def field_def lit_def quoted_def strip_prefix_def trim_start_def is_space_def)
  moreover have "field (order_line act) ''at'' = Some at"
    unfolding line using find_text_quote [OF q(1), of rest]
    by (simp add: pre_def field_def lit_def quoted_def strip_prefix_def trim_start_def is_space_def)
  moreover have "field (order_line act) ''pages'' = (if dirty then Some (lit ''dirty'') else None)"
  proof -
    let ?k = "[34, 112, 97, 103, 101, 115, 34] :: nat list"
    have "find_text ?k (34 # rest) = (if dirty then Some 2 else None)" by (simp add: rest_def lit_def quoted_def)
    then have "find_text ?k (pre @ 34 # at @ 34 # rest) =
        (if at = lit ''pages'' then Some (length pre) else if dirty then Some (length pre + length at + 3) else None)"
      using pages_field [OF q(1), of rest] by (simp add: pre_def lit_def quoted_def find_text_step del: find_text.simps)
    moreover have past: "drop (10 + length at) (34 # at @ r) = drop 9 r" for r :: "nat list"
      using drop_append [of "9 + length at" at r] by (simp add: drop_Cons' add.commute)
    ultimately show ?thesis
      unfolding line field_def Let_def using q(2)
      by (auto simp: rest_def lit_def quoted_def strip_prefix_def trim_start_def is_space_def past)
  qed
  ultimately show ?thesis by (simp add: parse_def ASnapshot) (simp add: lit_def)
qed (simp_all add: parse_defs)

text \<open>A pause which succeeds leaves the machine paused.\<close>

lemma pause_pauses: "pause env m = (m', Inr u) \<Longrightarrow> m_state m' = Paused"
  by (auto simp: pause_def pause_end_def split: prod.splits sum.splits still.splits)

lemma snapshot_order_paused:
  assumes "snapshot_order env dirty x = Some (x', Inr u)"
  obtains x1 where "m_state (he_machine x1) = Paused" "snapshot_files env dirty x1 = Some (x', Inr u)" "he_guest x1 = he_guest x"
proof (cases "m_state (he_machine x) = Paused")
  case True
  with assms that [of x] show ?thesis by (simp add: snapshot_order_def)
next
  case False
  with assms obtain m v where "pause env (he_machine x) = (m, Inr v)" "snapshot_files env dirty (x\<lparr>he_machine := m\<rparr>) = Some (x', Inr u)"
    by (auto simp: snapshot_order_def split: prod.splits sum.splits)
  with that [of "x\<lparr>he_machine := m\<rparr>"] pause_pauses show ?thesis by auto
qed

lemma snapshot_files_dense:
  assumes "snapshot_files env False x = Some (x', Inr u)"
  obtains s f f1 doc where "capture_guest (oe_hv env) (oe_devices env) (oe_taken env) (guest_now x) = Inr s" "oe_memory env = Inr f"
    "write_memory (oe_vm env) (m_state (he_machine x)) (gu_ram (he_guest x)) f = (f1, Inr ())" "snapshot_write (oe_json env) s = Inr doc"
    "x' = x\<lparr>he_memory := Some f1, he_document := Some doc\<rparr>"
  using assms by (auto simp: snapshot_files_def write_image_def Let_def split: prod.splits sum.splits option.splits)

text \<open>A snapshot which fails after the pause it began with leaves the guest paused, and is reported as one which
  left the guest as it was found.\<close>

lemma failed_snapshot_leaves_guest_paused:
  assumes "m_state (he_machine x) = Running" "pause env (he_machine x) = (m, Ok ())" "oe_mkdir env = Err why"
  shows "snapshot_order env dirty x = Some (x\<lparr>he_machine := m\<rparr>, Err (RHeld why)) \<and> m_state m = Paused"
  using assms pause_pauses [OF assms(2)] by (simp add: snapshot_order_def snapshot_files_def)

text \<open>A value which reads as a name is taken for one: dirty pages asked for into \<^verbatim>\<open>pages\<close> are not.\<close>

lemma pages_value_hides_pages: "parse (order_line (ASnapshot (lit ''pages'') True)) = Some (ASnapshot (lit ''pages'') False)"
  by (simp add: parse_defs)

text \<open>A line which names no order is put into the answer as it came, quotes included.\<close>

lemma unknown_order_is_not_escaped:
  "serve_order env (lit ''a'' @ quoted (lit ''b'')) x =
     Some (x, lit ''{'' @ quoted (lit ''ok'') @ lit '':false,'' @ quoted (lit ''error'') @ lit '':'' @
       [34] @ lit ''no order named a'' @ [34, 98, 34] @ [34] @ lit ''}'', False)"
  by (simp add: serve_order_def parse_defs)

section \<open>Properties of the orders\<close>


text \<open>A guest with one vCPU and its power block, paused when the order comes.\<close>

definition no_pages :: "flat_ram pages" where
  "no_pages = \<lparr>find_region = (\<lambda>_ _. None), is_addr_set = (\<lambda>_ _ _. False), set_addr_range = (\<lambda>m _ _ _. m),
     reset_addr_range = (\<lambda>m _ _ _. m), madvise = (\<lambda>m _ _ _. (m, False))\<rparr>"

definition an_env :: "(kept, bytes legacy, flat_ram) order_env" where
  "an_env = \<lparr>oe_asked = Ok (), oe_wait = (\<lambda>m. (m, Held)), oe_taken = (\<lambda>_. False), oe_log = (\<lambda>_. None), oe_mkdir = Ok (),
     oe_memory = Ok \<lparr>img = [], img_at = 0, faults = []\<rparr>, oe_document = Ok (), oe_hv = kept_hv, oe_devices = a_ops, oe_vm = flat_vm,
     oe_pages = no_pages, oe_json = a_json\<rparr>"

definition a_held :: "(kept, bytes legacy, flat_ram, u8, nat) held_guest" where
  "a_held = \<lparr>he_machine = paused_one, he_guest = a_guest Paused 7 9, he_memory = None, he_document = None\<rparr>"

lemma bytes_at_nil: "bytes_at [] = (\<lambda>_. 0)"
  by (simp add: fun_eq_iff)

lemma a_held_order: "\<exists>x'. snapshot_order an_env False a_held = Some (x', Ok ())"
proof -
  have "guest_now a_held = a_guest Paused 7 9" by (simp add: guest_now_def a_held_def paused_one_def a_guest_def)
  moreover have "\<exists>f'. write_memory flat_vm Paused (ram_of 64 []) \<lparr>img = [], img_at = 0, faults = []\<rparr> = (f', Ok ())"
    by (rule flat_bytes.write_memory_lays(2)) (simp_all add: ram_regions_def region_low_def at_end_def, simp_all add: ram_of_def region_low_def flat_check_def covers_def list_all_iff)
  ultimately show ?thesis
    using a_guest_capture
    by (auto simp: snapshot_order_def snapshot_files_def write_image_def an_env_def snapshot_write_def a_json_def)
      (auto simp: a_held_def paused_one_def a_guest_def)
qed


end
