(* ===== verification/Fuse_Wire.thy ===== *)
theory Fuse_Wire
  imports Prelude
begin

text \<open>
  The wire format of the filesystem device, \<^verbatim>\<open>src/lingcore/src/devices/virtio/fs/fuse.rs\<close>: the header of a
  request, answers, attributes and directory entries, laid out byte by byte.

  The lemmas give the length of each structure, and that a directory entry takes the bytes the device
  reserves for it, a multiple of eight.
\<close>

section \<open>Constants\<close>

definition FUSE_MAJOR :: u32 where "FUSE_MAJOR = 7"
definition FUSE_MINOR :: u32 where "FUSE_MINOR = 31"
definition IN_HEADER :: nat where "IN_HEADER = 40"
definition OUT_HEADER :: nat where "OUT_HEADER = 16"
definition ATTR :: nat where "ATTR = 88"
definition ENTRY_OUT :: nat where "ENTRY_OUT = 40 + ATTR"
definition DIRENT :: nat where "DIRENT = 24"
definition MAX_WRITE :: u32 where "MAX_WRITE = push_bit 20 1"
definition VALID :: u64 where "VALID = 1"

text \<open>The opcodes of \<^verbatim>\<open>op\<close> which are served, by name.\<close>

datatype opcode =
    OP_LOOKUP | OP_FORGET | OP_GETATTR | OP_SETATTR | OP_READLINK | OP_SYMLINK | OP_MKDIR | OP_UNLINK | OP_RMDIR | OP_RENAME | OP_OPEN | OP_READ | OP_WRITE
  | OP_STATFS | OP_RELEASE | OP_FSYNC | OP_FLUSH | OP_INIT | OP_OPENDIR | OP_READDIR | OP_RELEASEDIR | OP_FSYNCDIR | OP_ACCESS | OP_CREATE | OP_INTERRUPT
  | OP_DESTROY | OP_BATCH_FORGET | OP_READDIRPLUS | OP_RENAME2 | OP_SYNCFS | OP_OTHER

definition opcode_of :: "u32 \<Rightarrow> opcode" where
  "opcode_of n =
     (case map_of [(1, OP_LOOKUP), (2, OP_FORGET), (3, OP_GETATTR), (4, OP_SETATTR), (5, OP_READLINK), (6, OP_SYMLINK), (9, OP_MKDIR), (10, OP_UNLINK),
        (11, OP_RMDIR), (12, OP_RENAME), (14, OP_OPEN), (15, OP_READ), (16, OP_WRITE), (17, OP_STATFS), (18, OP_RELEASE), (20, OP_FSYNC), (25, OP_FLUSH),
        (26, OP_INIT), (27, OP_OPENDIR), (28, OP_READDIR), (29, OP_RELEASEDIR), (30, OP_FSYNCDIR), (34, OP_ACCESS), (35, OP_CREATE), (36, OP_INTERRUPT),
        (38, OP_DESTROY), (42, OP_BATCH_FORGET), (44, OP_READDIRPLUS), (45, OP_RENAME2), (50, OP_SYNCFS)] n of
        None \<Rightarrow> OP_OTHER
      | Some c \<Rightarrow> c)"

definition ASYNC_READ :: u32 where "ASYNC_READ = 1"
definition BIG_WRITES :: u32 where "BIG_WRITES = push_bit 5 1"
definition DO_READDIRPLUS :: u32 where "DO_READDIRPLUS = push_bit 13 1"
definition MAX_PAGES :: u32 where "MAX_PAGES = push_bit 22 1"

section \<open>Structures\<close>

text \<open>\<^verbatim>\<open>u32\<close> and \<^verbatim>\<open>u64\<close> at an offset; the callers check that the bytes are there, where they do.\<close>

definition fuse_u32 :: "bytes \<Rightarrow> nat \<Rightarrow> u32" where
  "fuse_u32 bs at = from_le (bslice at 4 bs)"

definition fuse_u64 :: "bytes \<Rightarrow> nat \<Rightarrow> u64" where
  "fuse_u64 bs at = from_le (bslice at 8 bs)"

record in_header =
  ih_len :: u32
  ih_opcode :: u32
  ih_unique :: u64
  ih_nodeid :: u64
  ih_uid :: u32
  ih_gid :: u32
  ih_pid :: u32

definition read_in_header :: "bytes \<Rightarrow> in_header option" where
  "read_in_header bs =
     (if length bs < IN_HEADER then None
      else Some \<lparr>ih_len = fuse_u32 bs 0, ih_opcode = fuse_u32 bs 4, ih_unique = fuse_u64 bs 8, ih_nodeid = fuse_u64 bs 16,
        ih_uid = fuse_u32 bs 24, ih_gid = fuse_u32 bs 28, ih_pid = fuse_u32 bs 32\<rparr>)"

text \<open>An answer; its error is the negated errno.\<close>

record fuse_answer =
  a_body :: bytes
  a_error :: "32 word"

definition answer_ok :: "bytes \<Rightarrow> fuse_answer" where
  "answer_ok body = \<lparr>a_body = body, a_error = 0\<rparr>"

definition answer_empty :: fuse_answer where
  "answer_empty = \<lparr>a_body = [], a_error = 0\<rparr>"

definition answer_error :: "32 word \<Rightarrow> fuse_answer" where
  "answer_error e = \<lparr>a_body = [], a_error = - e\<rparr>"

definition answer_lay :: "fuse_answer \<Rightarrow> u64 \<Rightarrow> bytes" where
  "answer_lay a unique =
     to_le 4 (of_nat (OUT_HEADER + length (a_body a)) :: u32) @ to_le 4 (a_error a) @ to_le 8 unique @ a_body a"

record fuse_attr =
  fa_ino :: u64
  fa_size :: u64
  fa_blocks :: u64
  fa_atime :: u64
  fa_mtime :: u64
  fa_ctime :: u64
  fa_atimensec :: u32
  fa_mtimensec :: u32
  fa_ctimensec :: u32
  fa_mode :: u32
  fa_nlink :: u32
  fa_uid :: u32
  fa_gid :: u32
  fa_rdev :: u32
  fa_blksize :: u32

definition attr_default :: fuse_attr where
  "attr_default = \<lparr>fa_ino = 0, fa_size = 0, fa_blocks = 0, fa_atime = 0, fa_mtime = 0, fa_ctime = 0, fa_atimensec = 0,
     fa_mtimensec = 0, fa_ctimensec = 0, fa_mode = 0, fa_nlink = 0, fa_uid = 0, fa_gid = 0, fa_rdev = 0, fa_blksize = 0\<rparr>"

definition attr_lay :: "fuse_attr \<Rightarrow> bytes" where
  "attr_lay a =
     to_le 8 (fa_ino a) @ to_le 8 (fa_size a) @ to_le 8 (fa_blocks a) @ to_le 8 (fa_atime a) @ to_le 8 (fa_mtime a) @
     to_le 8 (fa_ctime a) @ to_le 4 (fa_atimensec a) @ to_le 4 (fa_mtimensec a) @ to_le 4 (fa_ctimensec a) @ to_le 4 (fa_mode a) @
     to_le 4 (fa_nlink a) @ to_le 4 (fa_uid a) @ to_le 4 (fa_gid a) @ to_le 4 (fa_rdev a) @ to_le 4 (fa_blksize a) @ to_le 4 (0 :: u32)"

definition entry_lay :: "u64 \<Rightarrow> fuse_attr \<Rightarrow> bytes" where
  "entry_lay nodeid a =
     to_le 8 nodeid @ to_le 8 (0 :: u64) @ to_le 8 VALID @ to_le 8 VALID @ to_le 4 (0 :: u32) @ to_le 4 (0 :: u32) @ attr_lay a"

definition attr_out :: "fuse_attr \<Rightarrow> bytes" where
  "attr_out a = to_le 8 VALID @ to_le 4 (0 :: u32) @ to_le 4 (0 :: u32) @ attr_lay a"

definition dirent_lay :: "u64 \<Rightarrow> u64 \<Rightarrow> u32 \<Rightarrow> bytes \<Rightarrow> bytes" where
  "dirent_lay ino offset kind name =
     to_le 8 ino @ to_le 8 offset @ to_le 4 (of_nat (length name) :: u32) @ to_le 4 kind @ name @
     replicate ((8 - (DIRENT + length name) mod 8) mod 8) 0"

definition dirent_len :: "bytes \<Rightarrow> nat" where
  "dirent_len name = (let n = DIRENT + length name in n + (8 - n mod 8) mod 8)"

definition open_out :: "u64 \<Rightarrow> bytes" where
  "open_out handle = to_le 8 handle @ to_le 4 (0 :: u32) @ to_le 4 (0 :: u32)"

section \<open>Lengths\<close>

lemma length_attr_lay [simp]: "length (attr_lay a) = 88"
  by (simp add: attr_lay_def)

lemma length_entry_lay [simp]: "length (entry_lay n a) = ENTRY_OUT"
  by (simp add: entry_lay_def ENTRY_OUT_def ATTR_def)

lemma length_attr_out [simp]: "length (attr_out a) = 104"
  by (simp add: attr_out_def)

lemma length_dirent_lay [simp]: "length (dirent_lay ino off kind name) = dirent_len name"
  by (simp add: dirent_lay_def dirent_len_def DIRENT_def Let_def)

lemma dirent_len_padded: "8 dvd dirent_len name"
proof -
  have pad: "8 dvd r + (8 - r) mod 8" if "r < 8" for r :: nat
    using that by (cases "r = 0") simp_all
  have "8 dvd n + (8 - n mod 8) mod 8" for n :: nat
  proof -
    have "n + (8 - n mod 8) mod 8 = 8 * (n div 8) + (n mod 8 + (8 - n mod 8) mod 8)" by simp
    then show ?thesis using pad [of "n mod 8"] by (metis dvd_add dvd_triv_left mod_less_divisor zero_less_numeral)
  qed
  then show ?thesis unfolding dirent_len_def Let_def by blast
qed

lemma length_answer_lay [simp]: "length (answer_lay a u) = OUT_HEADER + length (a_body a)"
  by (simp add: answer_lay_def OUT_HEADER_def)

text \<open>What a guest reads back of the header of an answer.\<close>

lemma answer_lay_reads:
  assumes "OUT_HEADER + length (a_body a) < 2 ^ 32"
  shows "unat (fuse_u32 (answer_lay a u) 0) = length (answer_lay a u)" "fuse_u32 (answer_lay a u) 4 = a_error a"
    "fuse_u64 (answer_lay a u) 8 = u" "drop 16 (answer_lay a u) = a_body a"
proof -
  have "unat (of_nat (OUT_HEADER + length (a_body a)) :: u32) = OUT_HEADER + length (a_body a)"
    using assms by (simp add: unat_of_nat del: of_nat_add)
  then show "unat (fuse_u32 (answer_lay a u) 0) = length (answer_lay a u)"
    by (simp add: fuse_u32_def answer_lay_def bslice_def from_le_to_le OUT_HEADER_def)
qed (simp_all add: fuse_u32_def fuse_u64_def answer_lay_def bslice_def from_le_to_le)

end
