(* ===== verification/Fs_Shared.thy ===== *)
theory Fs_Shared
  imports Fuse_Wire Rust_Text Devices
begin

text \<open>
  A directory of the host served to a guest, \<^verbatim>\<open>src/lingcore/src/devices/virtio/fs/passthrough.rs\<close>: the nodes a
  guest has met, with the paths they stand for, and the files it holds open.  A path is the list of its
  components; the filesystem of the host is the record \<open>host\<close> of the calls which are made on it.

  The lemmas show that nodes and paths are one to one, and that every path a guest can name lies, component
  by component, under the shared directory.
\<close>

section \<open>Paths\<close>

type_synonym name = "nat list"
type_synonym path = "name list"

definition DOT :: name where "DOT = [46]"
definition DOTDOT :: name where "DOTDOT = [46, 46]"

text \<open>\<^verbatim>\<open>join\<close> of a name without a separator: a dot is no component of its own.\<close>

definition path_join :: "path \<Rightarrow> name \<Rightarrow> path" where
  "path_join p n = (if n = DOT then p else p @ [n])"

definition starts_with :: "path \<Rightarrow> path \<Rightarrow> bool" where
  "starts_with p root \<longleftrightarrow> take (length root) p = root"

section \<open>The host\<close>

text \<open>Errors carry the errno of the host, if there is one.  A read which is interrupted is tried again, so
  \<open>h_read\<close> gives the outcome of the first which is not.\<close>

type_synonym named = "bytes \<times> u64 \<times> u32"

record statvfs =
  f_blocks :: u64
  f_bfree :: u64
  f_bavail :: u64
  f_files :: u64
  f_ffree :: u64
  f_bsize :: u32
  f_namemax :: u32
  f_frsize :: u32

record 'w host =
  h_lstat :: "path \<Rightarrow> 'w \<Rightarrow> (fuse_attr, io_error) result"
  h_readlink :: "path \<Rightarrow> 'w \<Rightarrow> (bytes, io_error) result"
  h_statvfs :: "path \<Rightarrow> 'w \<Rightarrow> (statvfs, io_error) result"
  h_read_dir :: "path \<Rightarrow> 'w \<Rightarrow> (named list, io_error) result"
  h_open :: "path \<Rightarrow> bool \<Rightarrow> 'w \<Rightarrow> 'w \<times> (nat, io_error) result"
  h_read :: "nat \<Rightarrow> nat \<Rightarrow> 'w \<Rightarrow> 'w \<times> (bytes, io_error) result"
  h_seek :: "nat \<Rightarrow> u64 \<Rightarrow> 'w \<Rightarrow> 'w \<times> (unit, io_error) result"
  h_write_all :: "nat \<Rightarrow> bytes \<Rightarrow> 'w \<Rightarrow> 'w \<times> (unit, io_error) result"
  h_sync :: "nat \<Rightarrow> 'w \<Rightarrow> 'w \<times> (unit, io_error) result"
  h_close :: "nat \<Rightarrow> 'w \<Rightarrow> 'w"
  h_truncate :: "path \<Rightarrow> u64 \<Rightarrow> 'w \<Rightarrow> 'w \<times> (unit, io_error) result"
  h_create :: "path \<Rightarrow> bool \<Rightarrow> 'w \<Rightarrow> 'w \<times> (unit, io_error) result"
  h_mkdir :: "path \<Rightarrow> 'w \<Rightarrow> 'w \<times> (unit, io_error) result"
  h_unlink :: "path \<Rightarrow> 'w \<Rightarrow> 'w \<times> (unit, io_error) result"
  h_rmdir :: "path \<Rightarrow> 'w \<Rightarrow> 'w \<times> (unit, io_error) result"
  h_rename :: "path \<Rightarrow> path \<Rightarrow> 'w \<Rightarrow> 'w \<times> (unit, io_error) result"
  h_symlink :: "name \<Rightarrow> path \<Rightarrow> 'w \<Rightarrow> 'w \<times> (unit, io_error) result"

definition FS_ENOENT :: "32 word" where "FS_ENOENT = 2"
definition EIO :: "32 word" where "EIO = 5"
definition EBADF :: "32 word" where "EBADF = 9"
definition EINVAL :: "32 word" where "EINVAL = 22"
definition EROFS :: "32 word" where "EROFS = 30"
definition ENOSYS :: "32 word" where "ENOSYS = 38"
definition EPROTO :: "32 word" where "EPROTO = 71"

definition errno_of :: "io_error \<Rightarrow> 32 word" where
  "errno_of e = (case e of IoError None \<Rightarrow> EIO | IoError (Some n) \<Rightarrow> of_int n)"

definition raw_os_error :: "32 word \<Rightarrow> io_error" where
  "raw_os_error e = IoError (Some (uint e))"

section \<open>The shared directory\<close>

definition ROOT :: u64 where "ROOT = 1"

datatype opened_at = OpenFile nat | OpenDir path "named list"

record shared_dir =
  sh_root :: path
  sh_nodes :: "u64 \<rightharpoonup> path"
  sh_numbers :: "path \<rightharpoonup> u64"
  sh_next :: u64
  sh_open :: "u64 \<rightharpoonup> opened_at"
  sh_handle :: u64
  sh_writable :: bool

text \<open>\<^verbatim>\<open>new\<close> on the canonical form of its root.\<close>

definition shared_new :: "path \<Rightarrow> bool \<Rightarrow> shared_dir" where
  "shared_new root w =
     \<lparr>sh_root = root, sh_nodes = [ROOT \<mapsto> root], sh_numbers = [root \<mapsto> ROOT], sh_next = ROOT + 1, sh_open = Map.empty,
      sh_handle = 1, sh_writable = w\<rparr>"

definition shared_path :: "shared_dir \<Rightarrow> u64 \<Rightarrow> path option" where
  "shared_path s n = sh_nodes s n"

definition under :: "shared_dir \<Rightarrow> u64 \<Rightarrow> bytes \<Rightarrow> path option" where
  "under s parent nm =
     (case utf8 nm of
        None \<Rightarrow> None
      | Some name \<Rightarrow>
          if name = [] \<or> 47 \<in> set name \<or> name = DOTDOT then None
          else case sh_nodes s parent of
                 None \<Rightarrow> None
               | Some p \<Rightarrow>
                   let at = path_join p name in
                   if \<not> starts_with at (sh_root s) \<or> DOTDOT \<in> set at then None else Some at)"

definition number :: "path \<Rightarrow> shared_dir \<Rightarrow> shared_dir \<times> u64" where
  "number at s =
     (case sh_numbers s at of
        Some n \<Rightarrow> (s, n)
      | None \<Rightarrow>
          let n = sh_next s in
          (s\<lparr>sh_next := n + 1, sh_nodes := (sh_nodes s)(n \<mapsto> at), sh_numbers := (sh_numbers s)(at \<mapsto> n)\<rparr>, n))"

definition forget :: "u64 \<Rightarrow> shared_dir \<Rightarrow> shared_dir" where
  "forget n s =
     (if n = ROOT then s
      else case sh_nodes s n of
             None \<Rightarrow> s
           | Some at \<Rightarrow> s\<lparr>sh_nodes := (sh_nodes s)(n := None), sh_numbers := (sh_numbers s)(at := None)\<rparr>)"

text \<open>A new handle on \<open>x\<close>.\<close>

definition hold :: "opened_at \<Rightarrow> shared_dir \<Rightarrow> shared_dir \<times> u64" where
  "hold x s = (let h = sh_handle s in (s\<lparr>sh_handle := h + 1, sh_open := (sh_open s)(h \<mapsto> x)\<rparr>, h))"

text \<open>\<^verbatim>\<open>O_WRONLY | O_RDWR\<close> is 3 on every architecture served.\<close>

definition shared_open :: "'w host \<Rightarrow> path \<Rightarrow> u32 \<Rightarrow> shared_dir \<Rightarrow> 'w \<Rightarrow> shared_dir \<times> 'w \<times> (u64, io_error) result" where
  "shared_open ho at flags s w =
     (let wr = flags AND 3 \<noteq> 0 in
      if wr \<and> \<not> sh_writable s then (s, w, Err (raw_os_error EROFS))
      else case h_open ho at wr w of
             (w1, Inl e) \<Rightarrow> (s, w1, Err e)
           | (w1, Inr fd) \<Rightarrow> (case hold (OpenFile fd) s of (s1, h) \<Rightarrow> (s1, w1, Ok h)))"

definition DT_DIR :: u32 where "DT_DIR = 4"

definition shared_open_dir :: "'w host \<Rightarrow> path \<Rightarrow> shared_dir \<Rightarrow> 'w \<Rightarrow> shared_dir \<times> (u64, io_error) result" where
  "shared_open_dir ho at s w =
     (case h_read_dir ho at w of
        Inl e \<Rightarrow> (s, Err e)
      | Inr names \<Rightarrow>
          (case hold (OpenDir at ([([46], 0, DT_DIR), ([46, 46], 0, DT_DIR)] @ names)) s of (s1, h) \<Rightarrow> (s1, Ok h)))"

definition listing :: "shared_dir \<Rightarrow> u64 \<Rightarrow> u64 \<Rightarrow> (path \<times> named list) option" where
  "listing s h off =
     (case sh_open s h of
        Some (OpenDir at names) \<Rightarrow> Some (at, drop (unat off) names)
      | _ \<Rightarrow> None)"

function read_more :: "'w host \<Rightarrow> nat \<Rightarrow> nat \<Rightarrow> bytes \<Rightarrow> 'w \<Rightarrow> 'w \<times> (bytes, io_error) result" where
  "read_more ho fd n got w =
     (if length got < n
      then case h_read ho fd (n - length got) w of
             (w1, Inl e) \<Rightarrow> (w1, Err e)
           | (w1, Inr bs) \<Rightarrow> if bs = [] then (w1, Ok got) else read_more ho fd n (got @ take (n - length got) bs) w1
      else (w, Ok got))"
  by pat_completeness auto
termination
  by (relation "measure (\<lambda>(ho, fd, n, got, w). n - length got)") (auto simp: min_def neq_Nil_conv)

declare read_more.simps [simp del]

definition shared_read :: "'w host \<Rightarrow> u64 \<Rightarrow> u64 \<Rightarrow> nat \<Rightarrow> shared_dir \<Rightarrow> 'w \<Rightarrow> 'w \<times> (bytes, io_error) result" where
  "shared_read ho h off n s w =
     (case sh_open s h of
        Some (OpenFile fd) \<Rightarrow>
          (case h_seek ho fd off w of
             (w1, Inl e) \<Rightarrow> (w1, Err e)
           | (w1, Inr _) \<Rightarrow> read_more ho fd n [] w1)
      | _ \<Rightarrow> (w, Err (raw_os_error EBADF)))"

definition shared_write :: "'w host \<Rightarrow> u64 \<Rightarrow> u64 \<Rightarrow> bytes \<Rightarrow> shared_dir \<Rightarrow> 'w \<Rightarrow> 'w \<times> (u32, io_error) result" where
  "shared_write ho h off bs s w =
     (if \<not> sh_writable s then (w, Err (raw_os_error EROFS))
      else case sh_open s h of
        Some (OpenFile fd) \<Rightarrow>
          (case h_seek ho fd off w of
             (w1, Inl e) \<Rightarrow> (w1, Err e)
           | (w1, Inr _) \<Rightarrow>
               (case h_write_all ho fd bs w1 of
                  (w2, Inl e) \<Rightarrow> (w2, Err e)
                | (w2, Inr _) \<Rightarrow> (w2, Ok (of_nat (length bs)))))
      | _ \<Rightarrow> (w, Err (raw_os_error EBADF)))"

definition shared_sync :: "'w host \<Rightarrow> u64 \<Rightarrow> shared_dir \<Rightarrow> 'w \<Rightarrow> 'w \<times> (unit, io_error) result" where
  "shared_sync ho h s w = (case sh_open s h of Some (OpenFile fd) \<Rightarrow> h_sync ho fd w | _ \<Rightarrow> (w, Ok ()))"

definition shared_close :: "'w host \<Rightarrow> u64 \<Rightarrow> shared_dir \<Rightarrow> 'w \<Rightarrow> shared_dir \<times> 'w" where
  "shared_close ho h s w =
     (s\<lparr>sh_open := (sh_open s)(h := None)\<rparr>, case sh_open s h of Some (OpenFile fd) \<Rightarrow> h_close ho fd w | _ \<Rightarrow> w)"

section \<open>Paths under the root\<close>

definition inside :: "path \<Rightarrow> path \<Rightarrow> bool" where
  "inside root p \<longleftrightarrow> starts_with p root \<and> DOTDOT \<notin> set p"

lemma starts_with_iff: "starts_with p root \<longleftrightarrow> (\<exists>q. p = root @ q)"
  by (metis append_eq_conv_conj append_take_drop_id starts_with_def)

lemma inside_join: "inside root p \<Longrightarrow> n \<noteq> DOTDOT \<Longrightarrow> inside root (path_join p n)"
  by (auto simp: inside_def starts_with_iff path_join_def)

lemma under_inside: "under s parent nm = Some p \<Longrightarrow> inside (sh_root s) p"
  by (auto simp: under_def inside_def Let_def split: option.splits if_splits)

text \<open>Every path a guest can reach through a node or a directory it holds open lies under the root.\<close>

definition shared_inside :: "shared_dir \<Rightarrow> bool" where
  "shared_inside s \<longleftrightarrow> (\<forall>n p. sh_nodes s n = Some p \<longrightarrow> inside (sh_root s) p) \<and>
     (\<forall>h at names. sh_open s h = Some (OpenDir at names) \<longrightarrow> inside (sh_root s) at)"

lemma shared_new_inside: "DOTDOT \<notin> set root \<Longrightarrow> shared_inside (shared_new root w)"
  by (auto simp: shared_inside_def shared_new_def inside_def starts_with_def split: if_splits)

lemma shared_path_inside: "shared_inside s \<Longrightarrow> shared_path s n = Some p \<Longrightarrow> inside (sh_root s) p"
  by (auto simp: shared_inside_def shared_path_def)

lemma listing_inside: "shared_inside s \<Longrightarrow> listing s h off = Some (at, names) \<Longrightarrow> inside (sh_root s) at"
  by (auto simp: shared_inside_def listing_def split: option.splits opened_at.splits) blast

lemma number_inside: "shared_inside s \<Longrightarrow> inside (sh_root s) at \<Longrightarrow> shared_inside (fst (number at s))"
  by (auto simp: shared_inside_def number_def Let_def split: option.splits if_splits)

lemma number_keeps [simp]:
  "sh_root (fst (number at s)) = sh_root s" "sh_writable (fst (number at s)) = sh_writable s" "sh_open (fst (number at s)) = sh_open s"
  by (auto simp: number_def Let_def split: option.splits)

lemma forget_inside: "shared_inside s \<Longrightarrow> shared_inside (forget n s)"
  by (auto simp: shared_inside_def forget_def split: option.splits)

lemma hold_inside: "shared_inside s \<Longrightarrow> (\<And>at names. x = OpenDir at names \<Longrightarrow> inside (sh_root s) at) \<Longrightarrow> shared_inside (fst (hold x s))"
  by (auto simp: shared_inside_def hold_def Let_def split: if_splits)

lemma shared_open_inside: "shared_inside s \<Longrightarrow> shared_inside (fst (shared_open ho at flags s w))"
  by (auto simp: shared_open_def shared_inside_def hold_def Let_def split: prod.splits sum.splits)

lemma shared_open_dir_inside: "shared_inside s \<Longrightarrow> inside (sh_root s) at \<Longrightarrow> shared_inside (fst (shared_open_dir ho at s w))"
  by (auto simp: shared_open_dir_def shared_inside_def hold_def Let_def split: prod.splits sum.splits)

lemma shared_close_inside: "shared_inside s \<Longrightarrow> shared_inside (fst (shared_close ho h s w))"
  by (auto simp: shared_inside_def shared_close_def)

text \<open>Only the bytes of two dots read as two dots.\<close>

lemma utf8_lossy_dot: "utf8_lossy (a # bs) = 46 # cs \<Longrightarrow> a = 46 \<and> utf8_lossy bs = cs"
proof -
  assume lossy: "utf8_lossy (a # bs) = 46 # cs"
  have low: "n mod 64 = n - 128" if "128 \<le> n" "n \<le> 191" for n :: nat
  proof -
    from that obtain k where "n = 128 + k" "k < 64" by (auto simp: le_iff_add [of 128])
    then have "n mod 64 = (k + 2 * 64) mod 64" by (simp add: add.commute)
    with \<open>n = 128 + k\<close> \<open>k < 64\<close> show ?thesis by (simp only: mod_mult_self1) simp
  qed
  have unat_46: "unat a = 46 \<Longrightarrow> a = 46" by (simp add: word_unat_eq_iff)
  show ?thesis
    using lossy unat_46
    by (auto simp: Let_def REPLACEMENT_def cont_def tail6_def low split: if_splits list.splits)
qed

lemma utf8_lossy_dotdot: "utf8_lossy bs = DOTDOT \<Longrightarrow> bs = [46, 46]"
  by (cases bs; cases "tl bs") (auto simp: DOTDOT_def utf8_lossy_nonempty dest!: utf8_lossy_dot simp del: utf8_lossy.simps(2))

section \<open>Nodes and paths are one to one\<close>

definition shared_wf :: "shared_dir \<Rightarrow> bool" where
  "shared_wf s \<longleftrightarrow> sh_nodes s ROOT = Some (sh_root s) \<and> (\<forall>n p. sh_nodes s n = Some p \<longleftrightarrow> sh_numbers s p = Some n) \<and>
     (\<forall>n \<in> dom (sh_nodes s). 0 < n \<and> n < sh_next s)"

lemma shared_new_wf: "shared_wf (shared_new root w)"
  by (auto simp: shared_wf_def shared_new_def ROOT_def)

lemma number_wf:
  assumes "shared_wf s" "sh_next s + 1 \<noteq> 0"
  shows "shared_wf (fst (number at s))" "sh_nodes (fst (number at s)) (snd (number at s)) = Some at"
proof -
  have up: "n < sh_next s \<Longrightarrow> n < sh_next s + 1" "sh_next s < sh_next s + 1" for n
    using unatSuc [of "sh_next s"] assms(2) by (simp_all add: word_less_nat_alt add.commute)
  have fresh: "sh_nodes s (sh_next s) = None" using assms(1) by (auto simp: shared_wf_def)
  have pos: "0 < sh_next s" using assms(1) by (auto simp: shared_wf_def dom_def ROOT_def) (metis word_gt_0 word_not_simps(1))
  show "sh_nodes (fst (number at s)) (snd (number at s)) = Some at"
    using assms(1) by (auto simp: number_def Let_def shared_wf_def split: option.splits)
  show "shared_wf (fst (number at s))"
  proof (cases "sh_numbers s at")
    case None
    with assms(1) fresh pos up show ?thesis
      by (auto simp: number_def Let_def shared_wf_def dom_def ROOT_def) (metis option.distinct(1))
  qed (use assms(1) in \<open>simp add: number_def\<close>)
qed

lemma forget_wf: "shared_wf s \<Longrightarrow> shared_wf (forget n s)"
  by (auto simp: shared_wf_def forget_def dom_def split: option.splits) (metis option.inject)+

lemma hold_wf: "shared_wf s \<Longrightarrow> shared_wf (fst (hold x s))"
  by (simp add: shared_wf_def hold_def Let_def)

end
