(* ===== verification/Virtio_Fs.thy ===== *)
theory Virtio_Fs
  imports Fs_Shared Queue_Loop Chain_Bytes
begin

text \<open>
  The filesystem device, \<^verbatim>\<open>src/lingcore/src/devices/virtio/fs/mod.rs\<close>: a FUSE server over a directory of the
  host.  A handler takes the body of a request and gives an answer; \<open>None\<close> stands for a panic, which only
  \<^verbatim>\<open>setattr\<close> can come to.

  The lemmas show that the device keeps the contract of a device which serves chains, that its nodes and paths
  stay one to one, that whatever a guest asks, the host is only ever called on paths under the shared directory
  and, if the directory is read only, never on a call which changes it, and that answers fit their room.
  Confinement is by the names of a path: a symlink inside the directory which leads out of it is followed by the
  host, as \<open>symlink_leads_outside\<close> shows.
\<close>

section \<open>Definitions\<close>

definition FS_DEVICE_ID :: u32 where "FS_DEVICE_ID = 26"
definition TAG :: nat where "TAG = 36"
definition REQUEST_QUEUE :: u16 where "REQUEST_QUEUE = 1"
definition FATTR_SIZE :: u32 where "FATTR_SIZE = push_bit 3 1"
definition MAX_ANSWER :: nat where "MAX_ANSWER = 2 ^ 20"
definition O_TRUNC :: u32 where "O_TRUNC = 0x200"

record 'w fs =
  fs_tag :: bytes
  fs_shared :: shared_dir
  fs_served :: u64
  fs_refused :: u64
  fs_host :: 'w

definition fs_new :: "bytes \<Rightarrow> path \<Rightarrow> bool \<Rightarrow> 'w \<Rightarrow> 'w fs option" where
  "fs_new tag root wr w =
     (if tag = [] \<or> TAG < length tag then None
      else Some \<lparr>fs_tag = tag, fs_shared = shared_new root wr, fs_served = 0, fs_refused = 0, fs_host = w\<rparr>)"

type_synonym 'w handled = "shared_dir \<times> 'w \<times> fuse_answer"

definition fs_init :: "bytes \<Rightarrow> fuse_answer" where
  "fs_init body =
     (if length body < 16 then answer_error EINVAL
      else if fuse_u32 body 0 < FUSE_MAJOR then answer_error EPROTO
      else answer_ok
        (to_le 4 FUSE_MAJOR @ to_le 4 FUSE_MINOR @ to_le 4 (fuse_u32 body 8) @
         to_le 4 (fuse_u32 body 12 AND (ASYNC_READ OR BIG_WRITES OR DO_READDIRPLUS OR MAX_PAGES)) @
         to_le 2 (16 :: u16) @ to_le 2 (12 :: u16) @ to_le 4 MAX_WRITE @ to_le 4 (1 :: u32) @
         to_le 2 (ucast (MAX_WRITE div 4096) :: u16) @ to_le 2 (0 :: u16) @ replicate 32 0))"

definition fs_name :: "bytes \<Rightarrow> bytes option" where
  "fs_name body = (if 0 \<in> set body then Some (takeWhile (\<lambda>b. b \<noteq> 0) body) else None)"

text \<open>The entry of a path which was just looked up or made.\<close>

definition fs_entry :: "'w host \<Rightarrow> path \<Rightarrow> shared_dir \<Rightarrow> 'w \<Rightarrow> 'w handled" where
  "fs_entry ho at s w =
     (case h_lstat ho at w of
        Inl e \<Rightarrow> (s, w, answer_error (errno_of e))
      | Inr a \<Rightarrow> (case number at s of (s1, n) \<Rightarrow> (s1, w, answer_ok (entry_lay n a))))"

definition fs_lookup :: "'w host \<Rightarrow> u64 \<Rightarrow> bytes \<Rightarrow> shared_dir \<Rightarrow> 'w \<Rightarrow> 'w handled" where
  "fs_lookup ho parent body s w =
     (case fs_name body of
        None \<Rightarrow> (s, w, answer_error EINVAL)
      | Some nm \<Rightarrow> (case under s parent nm of None \<Rightarrow> (s, w, answer_error FS_ENOENT) | Some at \<Rightarrow> fs_entry ho at s w))"

definition fs_getattr :: "'w host \<Rightarrow> u64 \<Rightarrow> shared_dir \<Rightarrow> 'w \<Rightarrow> fuse_answer" where
  "fs_getattr ho n s w =
     (case shared_path s n of
        None \<Rightarrow> answer_error FS_ENOENT
      | Some at \<Rightarrow> (case h_lstat ho at w of Inr a \<Rightarrow> answer_ok (attr_out a) | Inl e \<Rightarrow> answer_error (errno_of e)))"

definition fs_readlink :: "'w host \<Rightarrow> u64 \<Rightarrow> shared_dir \<Rightarrow> 'w \<Rightarrow> fuse_answer" where
  "fs_readlink ho n s w =
     (case shared_path s n of
        None \<Rightarrow> answer_error FS_ENOENT
      | Some at \<Rightarrow> (case h_readlink ho at w of Inr bs \<Rightarrow> answer_ok bs | Inl e \<Rightarrow> answer_error (errno_of e)))"

definition fs_open :: "'w host \<Rightarrow> u64 \<Rightarrow> bytes \<Rightarrow> shared_dir \<Rightarrow> 'w \<Rightarrow> 'w handled" where
  "fs_open ho n body s w =
     (if length body < 4 then (s, w, answer_error EINVAL)
      else case shared_path s n of
        None \<Rightarrow> (s, w, answer_error FS_ENOENT)
      | Some at \<Rightarrow>
          (case shared_open ho at (fuse_u32 body 0) s w of
             (s1, w1, Inr h) \<Rightarrow> (s1, w1, answer_ok (open_out h))
           | (s1, w1, Inl e) \<Rightarrow> (s1, w1, answer_error (errno_of e))))"

definition fs_opendir :: "'w host \<Rightarrow> u64 \<Rightarrow> shared_dir \<Rightarrow> 'w \<Rightarrow> shared_dir \<times> fuse_answer" where
  "fs_opendir ho n s w =
     (case shared_path s n of
        None \<Rightarrow> (s, answer_error FS_ENOENT)
      | Some at \<Rightarrow>
          (case shared_open_dir ho at s w of
             (s1, Inr h) \<Rightarrow> (s1, answer_ok (open_out h))
           | (s1, Inl e) \<Rightarrow> (s1, answer_error (errno_of e))))"

definition fs_release :: "'w host \<Rightarrow> bytes \<Rightarrow> shared_dir \<Rightarrow> 'w \<Rightarrow> 'w handled" where
  "fs_release ho body s w =
     (if length body < 8 then (s, w, answer_error EINVAL)
      else case shared_close ho (fuse_u64 body 0) s w of (s1, w1) \<Rightarrow> (s1, w1, answer_empty))"

definition fs_fsync :: "'w host \<Rightarrow> bytes \<Rightarrow> shared_dir \<Rightarrow> 'w \<Rightarrow> 'w \<times> fuse_answer" where
  "fs_fsync ho body s w =
     (if length body < 8 then (w, answer_error EINVAL)
      else case shared_sync ho (fuse_u64 body 0) s w of
        (w1, Inr _) \<Rightarrow> (w1, answer_empty)
      | (w1, Inl e) \<Rightarrow> (w1, answer_error (errno_of e)))"

definition fs_read :: "'w host \<Rightarrow> bytes \<Rightarrow> nat \<Rightarrow> shared_dir \<Rightarrow> 'w \<Rightarrow> 'w \<times> fuse_answer" where
  "fs_read ho body room s w =
     (if length body < 20 then (w, answer_error EINVAL)
      else let n = min (min (unat (fuse_u32 body 16)) (room - OUT_HEADER)) MAX_ANSWER in
           (case shared_read ho (fuse_u64 body 0) (fuse_u64 body 8) n s w of
              (w1, Inr bs) \<Rightarrow> (w1, answer_ok bs)
            | (w1, Inl e) \<Rightarrow> (w1, answer_error (errno_of e))))"

definition fs_write :: "'w host \<Rightarrow> bytes \<Rightarrow> shared_dir \<Rightarrow> 'w \<Rightarrow> 'w \<times> fuse_answer" where
  "fs_write ho body s w =
     (if length body < 40 then (w, answer_error EINVAL)
      else let n = unat (fuse_u32 body 16); bs = drop 40 body in
           if length bs < n then (w, answer_error EINVAL)
           else (case shared_write ho (fuse_u64 body 0) (fuse_u64 body 8) (take n bs) s w of
                   (w1, Inr k) \<Rightarrow> (w1, answer_ok (to_le 4 k @ to_le 4 (0 :: u32)))
                 | (w1, Inl e) \<Rightarrow> (w1, answer_error (errno_of e))))"

text \<open>The names of a listing until one does not fit; with attributes a name is met as a lookup meets it.\<close>

definition plus_entry :: "'w host \<Rightarrow> path \<Rightarrow> bytes \<Rightarrow> shared_dir \<Rightarrow> 'w \<Rightarrow> shared_dir \<times> bytes" where
  "plus_entry ho dir nm s w =
     (if nm = [46] \<or> nm = [46, 46] then (s, entry_lay 0 attr_default)
      else let at = path_join dir (utf8_lossy nm) in
           (case h_lstat ho at w of
              Inl _ \<Rightarrow> (s, entry_lay 0 attr_default)
            | Inr a \<Rightarrow> (case number at s of (s1, n) \<Rightarrow> (s1, entry_lay n a))))"

fun list_names ::
  "'w host \<Rightarrow> path \<Rightarrow> bool \<Rightarrow> nat \<Rightarrow> u64 \<Rightarrow> named list \<Rightarrow> bytes \<Rightarrow> shared_dir \<Rightarrow> 'w \<Rightarrow> shared_dir \<times> bytes" where
  "list_names ho dir pl asked pos [] out s w = (s, out)"
| "list_names ho dir pl asked pos ((nm, ino, kind) # names) out s w =
     (if asked < length out + (if pl then ENTRY_OUT else 0) + dirent_len nm then (s, out)
      else case (if pl then plus_entry ho dir nm s w else (s, [])) of
             (s1, ahead) \<Rightarrow> list_names ho dir pl asked (pos + 1) names (out @ ahead @ dirent_lay ino (pos + 1) kind nm) s1 w)"

definition fs_readdir :: "'w host \<Rightarrow> bytes \<Rightarrow> nat \<Rightarrow> bool \<Rightarrow> shared_dir \<Rightarrow> 'w \<Rightarrow> shared_dir \<times> fuse_answer" where
  "fs_readdir ho body room pl s w =
     (if length body < 20 then (s, answer_error EINVAL)
      else let off = fuse_u64 body 8; asked = min (unat (fuse_u32 body 16)) (room - OUT_HEADER) in
           (case listing s (fuse_u64 body 0) off of
              None \<Rightarrow> (s, answer_error EBADF)
            | Some (dir, names) \<Rightarrow> (case list_names ho dir pl asked off names [] s w of (s1, out) \<Rightarrow> (s1, answer_ok out))))"

definition fs_statfs :: "'w host \<Rightarrow> u64 \<Rightarrow> shared_dir \<Rightarrow> 'w \<Rightarrow> fuse_answer" where
  "fs_statfs ho n s w =
     (case shared_path s (max n ROOT) of
        None \<Rightarrow> answer_error FS_ENOENT
      | Some at \<Rightarrow>
          (case h_statvfs ho at w of
             Inl e \<Rightarrow> answer_error (errno_of e)
           | Inr st \<Rightarrow> answer_ok
               (to_le 8 (f_blocks st) @ to_le 8 (f_bfree st) @ to_le 8 (f_bavail st) @ to_le 8 (f_files st) @ to_le 8 (f_ffree st) @
                to_le 4 (f_bsize st) @ to_le 4 (f_namemax st) @ to_le 4 (f_frsize st) @ replicate 28 0)))"

text \<open>\<^verbatim>\<open>setattr\<close> reads the new size behind sixteen bytes of body, and checks for no more than those.\<close>

definition fs_setattr :: "'w host \<Rightarrow> u64 \<Rightarrow> bytes \<Rightarrow> shared_dir \<Rightarrow> 'w \<Rightarrow> ('w \<times> fuse_answer) option" where
  "fs_setattr ho n body s w =
     (if \<not> sh_writable s then Some (w, answer_error EROFS)
      else if length body < 16 then Some (w, answer_error EINVAL)
      else case shared_path s n of
        None \<Rightarrow> Some (w, answer_error FS_ENOENT)
      | Some at \<Rightarrow>
          if fuse_u32 body 0 AND FATTR_SIZE \<noteq> 0
          then (if length body < 24 then None
                else case h_truncate ho at (fuse_u64 body 16) w of
                  (w1, Inl e) \<Rightarrow> Some (w1, answer_error (errno_of e))
                | (w1, Inr _) \<Rightarrow> Some (w1, case h_lstat ho at w1 of Inr a \<Rightarrow> answer_ok (attr_out a) | Inl e \<Rightarrow> answer_error (errno_of e)))
          else Some (w, case h_lstat ho at w of Inr a \<Rightarrow> answer_ok (attr_out a) | Inl e \<Rightarrow> answer_error (errno_of e)))"

text \<open>The path of the name in the body, past \<open>skip\<close> bytes, of a request which changes the directory.\<close>

definition fs_target :: "u64 \<Rightarrow> nat \<Rightarrow> bytes \<Rightarrow> shared_dir \<Rightarrow> (path, 32 word) result" where
  "fs_target parent skip body s =
     (if \<not> sh_writable s then Err EROFS
      else if length body < skip then Err EINVAL
      else case fs_name (drop skip body) of
        None \<Rightarrow> Err EINVAL
      | Some nm \<Rightarrow> ok_or EINVAL (under s parent nm))"

definition fs_create :: "'w host \<Rightarrow> u64 \<Rightarrow> bytes \<Rightarrow> shared_dir \<Rightarrow> 'w \<Rightarrow> 'w handled" where
  "fs_create ho parent body s w =
     (case fs_target parent 16 body s of
        Inl e \<Rightarrow> (s, w, answer_error e)
      | Inr at \<Rightarrow>
          let flags = fuse_u32 body 0 in
          (case h_create ho at (flags AND O_TRUNC \<noteq> 0) w of
             (w1, Inl e) \<Rightarrow> (s, w1, answer_error (errno_of e))
           | (w1, Inr _) \<Rightarrow>
               (case h_lstat ho at w1 of
                  Inl e \<Rightarrow> (s, w1, answer_error (errno_of e))
                | Inr a \<Rightarrow>
                    (case number at s of
                       (s1, n) \<Rightarrow>
                         (case shared_open ho at flags s1 w1 of
                            (s2, w2, Inl e) \<Rightarrow> (s2, w2, answer_error (errno_of e))
                          | (s2, w2, Inr h) \<Rightarrow> (s2, w2, answer_ok (entry_lay n a @ open_out h)))))))"

definition fs_mkdir :: "'w host \<Rightarrow> u64 \<Rightarrow> bytes \<Rightarrow> shared_dir \<Rightarrow> 'w \<Rightarrow> 'w handled" where
  "fs_mkdir ho parent body s w =
     (case fs_target parent 8 body s of
        Inl e \<Rightarrow> (s, w, answer_error e)
      | Inr at \<Rightarrow>
          (case h_mkdir ho at w of
             (w1, Inl e) \<Rightarrow> (s, w1, answer_error (errno_of e))
           | (w1, Inr _) \<Rightarrow> fs_entry ho at s w1))"

definition fs_unlink :: "'w host \<Rightarrow> u64 \<Rightarrow> bytes \<Rightarrow> bool \<Rightarrow> shared_dir \<Rightarrow> 'w \<Rightarrow> 'w \<times> fuse_answer" where
  "fs_unlink ho parent body directory s w =
     (case fs_target parent 0 body s of
        Inl e \<Rightarrow> (w, answer_error e)
      | Inr at \<Rightarrow>
          (case (if directory then h_rmdir ho at w else h_unlink ho at w) of
             (w1, Inr _) \<Rightarrow> (w1, answer_empty)
           | (w1, Inl e) \<Rightarrow> (w1, answer_error (errno_of e))))"

definition fs_rename :: "'w host \<Rightarrow> u64 \<Rightarrow> bytes \<Rightarrow> bool \<Rightarrow> shared_dir \<Rightarrow> 'w \<Rightarrow> 'w \<times> fuse_answer" where
  "fs_rename ho parent body two s w =
     (let ahead = (if two then 16 else 8) in
      if \<not> sh_writable s then (w, answer_error EROFS)
      else if length body < ahead then (w, answer_error EINVAL)
      else case fs_name (drop ahead body) of
        None \<Rightarrow> (w, answer_error EINVAL)
      | Some from \<Rightarrow>
          (case fs_name (drop (length from + 1) (drop ahead body)) of
             None \<Rightarrow> (w, answer_error EINVAL)
           | Some to \<Rightarrow>
               (case (under s parent from, under s (fuse_u64 body 0) to) of
                  (Some p, Some q) \<Rightarrow>
                    (case h_rename ho p q w of
                       (w1, Inr _) \<Rightarrow> (w1, answer_empty)
                     | (w1, Inl e) \<Rightarrow> (w1, answer_error (errno_of e)))
                | _ \<Rightarrow> (w, answer_error EINVAL))))"

definition fs_symlink :: "'w host \<Rightarrow> u64 \<Rightarrow> bytes \<Rightarrow> shared_dir \<Rightarrow> 'w \<Rightarrow> 'w handled" where
  "fs_symlink ho parent body s w =
     (if \<not> sh_writable s then (s, w, answer_error EROFS)
      else case fs_name body of
        None \<Rightarrow> (s, w, answer_error EINVAL)
      | Some nm \<Rightarrow>
          (case fs_name (drop (length nm + 1) body) of
             None \<Rightarrow> (s, w, answer_error EINVAL)
           | Some to \<Rightarrow>
               (case under s parent nm of
                  None \<Rightarrow> (s, w, answer_error EINVAL)
                | Some at \<Rightarrow>
                    (case h_symlink ho (utf8_lossy to) at w of
                       (w1, Inl e) \<Rightarrow> (s, w1, answer_error (errno_of e))
                     | (w1, Inr _) \<Rightarrow> fs_entry ho at s w1))))"

definition fs_serve :: "'w host \<Rightarrow> in_header \<Rightarrow> bytes \<Rightarrow> nat \<Rightarrow> shared_dir \<Rightarrow> 'w \<Rightarrow> 'w handled option" where
  "fs_serve ho h body room s w =
     (let n = ih_nodeid h in
      case opcode_of (ih_opcode h) of
        OP_INIT \<Rightarrow> Some (s, w, fs_init body)
      | OP_FORGET \<Rightarrow> Some (forget n s, w, answer_empty)
      | OP_LOOKUP \<Rightarrow> Some (fs_lookup ho n body s w)
      | OP_GETATTR \<Rightarrow> Some (s, w, fs_getattr ho n s w)
      | OP_SETATTR \<Rightarrow> map_option (Pair s) (fs_setattr ho n body s w)
      | OP_READLINK \<Rightarrow> Some (s, w, fs_readlink ho n s w)
      | OP_OPEN \<Rightarrow> Some (fs_open ho n body s w)
      | OP_READ \<Rightarrow> Some (s, fs_read ho body room s w)
      | OP_WRITE \<Rightarrow> Some (s, fs_write ho body s w)
      | OP_RELEASE \<Rightarrow> Some (fs_release ho body s w)
      | OP_RELEASEDIR \<Rightarrow> Some (fs_release ho body s w)
      | OP_FSYNC \<Rightarrow> Some (s, fs_fsync ho body s w)
      | OP_FSYNCDIR \<Rightarrow> Some (s, fs_fsync ho body s w)
      | OP_OPENDIR \<Rightarrow> (case fs_opendir ho n s w of (s1, a) \<Rightarrow> Some (s1, w, a))
      | OP_READDIR \<Rightarrow> (case fs_readdir ho body room False s w of (s1, a) \<Rightarrow> Some (s1, w, a))
      | OP_READDIRPLUS \<Rightarrow> (case fs_readdir ho body room True s w of (s1, a) \<Rightarrow> Some (s1, w, a))
      | OP_STATFS \<Rightarrow> Some (s, w, fs_statfs ho n s w)
      | OP_CREATE \<Rightarrow> Some (fs_create ho n body s w)
      | OP_MKDIR \<Rightarrow> Some (fs_mkdir ho n body s w)
      | OP_UNLINK \<Rightarrow> Some (s, fs_unlink ho n body False s w)
      | OP_RMDIR \<Rightarrow> Some (s, fs_unlink ho n body True s w)
      | OP_RENAME \<Rightarrow> Some (s, fs_rename ho n body False s w)
      | OP_RENAME2 \<Rightarrow> Some (s, fs_rename ho n body True s w)
      | OP_SYMLINK \<Rightarrow> Some (fs_symlink ho n body s w)
      | OP_OTHER \<Rightarrow> Some (s, w, answer_error ENOSYS)
      | _ \<Rightarrow> Some (s, w, answer_empty))"

text \<open>The request in the readable buffers of a chain, and the answer into its writable ones.\<close>

primrec fs_request :: "'m vm \<Rightarrow> 'm \<Rightarrow> descriptor list \<Rightarrow> bytes option" where
  "fs_request vm m [] = Some []"
| "fs_request vm m (d # ds) =
     (if writable d then fs_request vm m ds
      else case ram_read vm m (addr d) (unat (len d)) of
             Inl _ \<Rightarrow> None
           | Inr part \<Rightarrow> map_option ((@) part) (fs_request vm m ds))"

primrec fs_answer :: "'m vm \<Rightarrow> bytes \<Rightarrow> descriptor list \<Rightarrow> 'm \<Rightarrow> nat \<Rightarrow> 'm \<times> nat" where
  "fs_answer vm whole [] m n = (m, n)"
| "fs_answer vm whole (d # ds) m n =
     (if \<not> writable d then fs_answer vm whole ds m n
      else if length whole \<le> n then (m, n)
      else let r = min (unat (len d)) (length whole - n) in
           (case ram_write vm m (addr d) (bslice n r whole) of
              (m1, Inl _) \<Rightarrow> (m1, n)
            | (m1, Inr _) \<Rightarrow> fs_answer vm whole ds m1 (n + r)))"

definition count_answer :: "fuse_answer \<Rightarrow> 'w fs \<Rightarrow> 'w fs" where
  "count_answer a f = (if a_error a \<noteq> 0 then f\<lparr>fs_refused := fs_refused f + 1\<rparr> else f\<lparr>fs_served := fs_served f + 1\<rparr>)"

definition report :: "'m vm \<Rightarrow> 'd \<Rightarrow> 'm \<Rightarrow> queue \<Rightarrow> chain \<Rightarrow> u32 \<Rightarrow> 'd \<times> 'm \<times> queue \<times> (bool, virtio_error) result" where
  "report vm d m q c n = (case add_used vm m q (head c) n of (m1, q1, r) \<Rightarrow> (d, m1, q1, map_sum id (\<lambda>_. True) r))"

definition fs_body ::
  "'m vm \<Rightarrow> 'w host \<Rightarrow> u16 \<Rightarrow> 'w fs \<Rightarrow> 'm \<Rightarrow> queue \<Rightarrow> chain \<Rightarrow> ('w fs \<times> 'm \<times> queue \<times> (bool, virtio_error) result) option" where
  "fs_body vm ho index f m q c =
     (if index \<noteq> REQUEST_QUEUE then Some (report vm f m q c 0)
      else case fs_request vm m (descriptors c) of
        None \<Rightarrow> Some (f, m, q, Err Request)
      | Some request \<Rightarrow>
          (case read_in_header request of
             None \<Rightarrow> Some (f, m, q, Err Request)
           | Some h \<Rightarrow>
               (case fs_serve ho h (drop IN_HEADER request) (writable_room c) (fs_shared f) (fs_host f) of
                  None \<Rightarrow> None
                | Some (s, w, a) \<Rightarrow>
                    (case (if opcode_of (ih_opcode h) = OP_FORGET \<or> opcode_of (ih_opcode h) = OP_BATCH_FORGET then (m, 0)
                           else fs_answer vm (answer_lay a (ih_unique h)) (descriptors c) m 0) of
                       (m1, n) \<Rightarrow> Some (report vm (count_answer a (f\<lparr>fs_shared := s, fs_host := w\<rparr>)) m1 q c (of_nat n))))))"

definition fs_notify ::
  "nat \<Rightarrow> 'm vm \<Rightarrow> 'w host \<Rightarrow> u16 \<Rightarrow> 'w fs \<Rightarrow> 'm \<Rightarrow> queue \<Rightarrow> ('w fs \<times> 'm \<times> queue \<times> (unit, virtio_error) result) option" where
  "fs_notify fuel vm ho index f m q = opt_loop fuel vm (fs_body vm ho index) f m q"

definition fs_space :: "'w fs \<Rightarrow> bytes" where
  "fs_space f = fs_tag f @ replicate (TAG - length (fs_tag f)) 0 @ to_le 4 (1 :: u32)"

definition fs_read_config :: "'w fs \<Rightarrow> u64 \<Rightarrow> u8 \<Rightarrow> u64" where
  "fs_read_config f off sz =
     foldl (\<lambda>v i. v OR push_bit (i * 8) (ucast (if unat off + i < length (fs_space f) then fs_space f ! (unat off + i) else 0))) 0 [0..<unat sz]"

section \<open>The chains of a notification\<close>

text \<open>A body which may panic, with a panic taken for an error.\<close>

definition settled :: "('d \<Rightarrow> 'm \<Rightarrow> queue \<Rightarrow> chain \<Rightarrow> ('d \<times> 'm \<times> queue \<times> (bool, virtio_error) result) option) \<Rightarrow> ('m, 'd) body" where
  "settled body d m q c = (case body d m q c of None \<Rightarrow> (d, m, q, Err Request) | Some x \<Rightarrow> x)"

lemma opt_loop_settled: "opt_loop fuel vm body d m q = Some x \<Longrightarrow> pop_loop fuel vm (settled body) d m q = Some x"
proof (induction fuel arbitrary: d m q)
  case (Suc fuel)
  obtain q1 r where p: "pop vm m q = (q1, r)" by fastforce
  show ?case
  proof (cases "\<exists>c. r = Inr (Some c)")
    case True
    then obtain c where c: "r = Inr (Some c)" by blast
    with Suc.prems p obtain d' m' q' r' where "body d m q1 c = Some (d', m', q', r')" by (cases "body d m q1 c") auto
    with p c Suc show ?thesis by (cases r') (auto simp: settled_def split: if_splits)
  qed (use p Suc.prems in \<open>auto split: sum.splits option.splits\<close>)
qed simp

context vm_memory
begin

lemma fs_answer_touches:
  assumes "fs_answer vm whole ds m n = (m', n')"
  shows "vm_check_range vm m' b k = vm_check_range vm m b k" "buffers_clear ds b k \<Longrightarrow> ram_read vm m' b k = ram_read vm m b k"
  using assms
proof (induction ds arbitrary: m n)
  case (Cons d ds)
  {
    case 1
    with Cons.IH(1) ram_write_range show ?case by (auto simp: Let_def split: if_splits prod.splits sum.splits)
  next
    case 2
    have ap: "apart (addr d) (length (bslice n (min (unat (len d)) (length whole - n)) whole)) b k" if "writable d"
      using 2(1) that by (auto simp: buffers_clear_def apart_def)
    have "buffers_clear ds b k" using 2(1) by (simp add: buffers_clear_def)
    with Cons.IH(2) 2(2) ram_write_apart [OF _ ap] show ?case by (auto simp: Let_def split: if_splits prod.splits sum.splits)
  }
qed simp_all

lemma fs_answer_fits: "fs_answer vm whole ds m n = (m', n') \<Longrightarrow> n \<le> length whole \<Longrightarrow> n \<le> n' \<and> n' \<le> length whole"
proof (induction ds arbitrary: m n)
  case (Cons d ds)
  then show ?case by (fastforce simp: Let_def split: if_splits prod.splits sum.splits)
qed simp

lemma report_shape: "touches vm m m1 c \<Longrightarrow> report vm d m1 q c n = (d', m', q', r) \<Longrightarrow> body_shape vm m q c m' q' r"
  by (auto simp: report_def body_shape_def split: prod.splits)

lemma fs_body_shape:
  assumes "settled (fs_body vm ho index) f m q c = (f', m', q', r)"
  shows "body_shape vm m q c m' q' r"
proof (cases "fs_body vm ho index f m q c")
  case None
  with assms show ?thesis by (auto simp: settled_def body_shape_def)
next
  case (Some x)
  then have x: "x = (f', m', q', r)" using assms by (simp add: settled_def)
  consider "m' = m \<and> q' = q \<and> (\<exists>e. r = Inl e)"
    | d m1 n where "report vm d m1 q c n = (f', m', q', r)" "touches vm m m1 c"
    using Some fs_answer_touches
    unfolding x fs_body_def touches_def
    by (fastforce split: if_splits option.splits prod.splits)
  then show ?thesis
  proof cases
    case 1
    then show ?thesis by (auto simp: body_shape_def)
  qed (rule report_shape)
qed

end

sublocale vm_memory \<subseteq> fs_chains: chain_server vm "settled (fs_body vm ho index)" for ho index
  by (rule chain_serverI) (rule fs_body_shape)

section \<open>Confinement\<close>

text \<open>Two hosts which answer alike below a root, and whose calls which change something need only be alike if
  changes are allowed.\<close>

definition agree :: "path \<Rightarrow> bool \<Rightarrow> 'w host \<Rightarrow> 'w host \<Rightarrow> bool" where
  "agree root wr a b \<longleftrightarrow>
     (\<forall>p. inside root p \<longrightarrow> h_lstat a p = h_lstat b p \<and> h_readlink a p = h_readlink b p \<and> h_statvfs a p = h_statvfs b p \<and>
        h_read_dir a p = h_read_dir b p \<and> h_open a p False = h_open b p False) \<and>
     h_read a = h_read b \<and> h_seek a = h_seek b \<and> h_sync a = h_sync b \<and> h_close a = h_close b \<and>
     (wr \<longrightarrow> h_write_all a = h_write_all b \<and>
        (\<forall>p. inside root p \<longrightarrow> h_open a p True = h_open b p True \<and> h_truncate a p = h_truncate b p \<and> h_create a p = h_create b p \<and>
           h_mkdir a p = h_mkdir b p \<and> h_unlink a p = h_unlink b p \<and> h_rmdir a p = h_rmdir b p \<and>
           (\<forall>to. h_symlink a to p = h_symlink b to p) \<and> (\<forall>q. inside root q \<longrightarrow> h_rename a p q = h_rename b p q)))"

lemma agree_reads:
  assumes "agree root wr a b"
  shows "inside root p \<Longrightarrow> h_lstat a p = h_lstat b p" "inside root p \<Longrightarrow> h_readlink a p = h_readlink b p"
    "inside root p \<Longrightarrow> h_statvfs a p = h_statvfs b p" "inside root p \<Longrightarrow> h_read_dir a p = h_read_dir b p"
    "inside root p \<Longrightarrow> h_open a p False = h_open b p False"
    "h_read a = h_read b" "h_seek a = h_seek b" "h_sync a = h_sync b" "h_close a = h_close b"
  using assms by (simp_all add: agree_def)

lemma agree_changes:
  assumes "agree root wr a b" "wr"
  shows "h_write_all a = h_write_all b" "inside root p \<Longrightarrow> h_open a p True = h_open b p True" "inside root p \<Longrightarrow> h_truncate a p = h_truncate b p"
    "inside root p \<Longrightarrow> h_create a p = h_create b p" "inside root p \<Longrightarrow> h_mkdir a p = h_mkdir b p" "inside root p \<Longrightarrow> h_unlink a p = h_unlink b p"
    "inside root p \<Longrightarrow> h_rmdir a p = h_rmdir b p" "inside root p \<Longrightarrow> h_symlink a to p = h_symlink b to p"
    "inside root p \<Longrightarrow> inside root q \<Longrightarrow> h_rename a p q = h_rename b p q"
  using assms by (simp_all add: agree_def)

lemma read_more_agree: "h_read a = h_read b \<Longrightarrow> read_more a fd n got w = read_more b fd n got w"
proof (induction a fd n got w rule: read_more.induct)
  case (1 a fd n got w)
  show ?case
    using 1 by (subst (1 2) read_more.simps) (auto split: prod.splits sum.splits)
qed

lemma shared_open_agree:
  assumes "agree (sh_root s) (sh_writable s) a b" "inside (sh_root s) p"
  shows "shared_open a p flags s w = shared_open b p flags s w"
proof (cases "flags AND 3 \<noteq> 0")
  case True
  then show ?thesis using agree_changes(2) [OF assms(1) _ assms(2)] by (cases "sh_writable s") (simp_all add: shared_open_def)
next
  case False
  then show ?thesis using agree_reads(5) [OF assms] by (simp add: shared_open_def)
qed

lemma fs_entry_agree:
  "agree root wr a b \<Longrightarrow> inside root p \<Longrightarrow> fs_entry a p s w = fs_entry b p s w"
  using agree_reads(1) [of root wr a b p] by (simp add: fs_entry_def)

lemma fs_entry_inside: "shared_inside s \<Longrightarrow> inside (sh_root s) p \<Longrightarrow> shared_inside (fst (fs_entry a p s w))"
  using number_inside [of s p] by (auto simp: fs_entry_def split: sum.splits prod.splits)

lemma number_kept: "number p s = (s1, n) \<Longrightarrow> sh_root s1 = sh_root s \<and> sh_writable s1 = sh_writable s \<and> sh_open s1 = sh_open s"
  using number_keeps [of p s] by auto

lemma plus_entry_step:
  assumes "agree (sh_root s) wr a b" "shared_inside s" "inside (sh_root s) dir"
  shows "plus_entry a dir nm s w = plus_entry b dir nm s w" "shared_inside (fst (plus_entry b dir nm s w))"
    "sh_root (fst (plus_entry b dir nm s w)) = sh_root s" "sh_writable (fst (plus_entry b dir nm s w)) = sh_writable s"
proof -
  have at: "inside (sh_root s) (path_join dir (utf8_lossy nm))" if "nm \<noteq> [46, 46]"
    using inside_join [OF assms(3)] utf8_lossy_dotdot [of nm] that by blast
  show "plus_entry a dir nm s w = plus_entry b dir nm s w"
    using agree_reads(1) [OF assms(1) at] by (auto simp: plus_entry_def Let_def)
  show "shared_inside (fst (plus_entry b dir nm s w))"
    using number_inside [OF assms(2) at] assms(2) by (auto simp: plus_entry_def Let_def split: sum.splits prod.splits)
  show "sh_root (fst (plus_entry b dir nm s w)) = sh_root s" "sh_writable (fst (plus_entry b dir nm s w)) = sh_writable s"
    by (auto simp: plus_entry_def Let_def split: sum.splits prod.splits dest: number_kept)
qed

lemma list_names_step:
  assumes "agree (sh_root s) wr a b" "shared_inside s" "inside (sh_root s) dir"
  shows "list_names a dir pl asked pos names out s w = list_names b dir pl asked pos names out s w \<and>
    shared_inside (fst (list_names b dir pl asked pos names out s w)) \<and>
    sh_root (fst (list_names b dir pl asked pos names out s w)) = sh_root s \<and>
    sh_writable (fst (list_names b dir pl asked pos names out s w)) = sh_writable s"
  using assms
proof (induction names arbitrary: pos out s)
  case (Cons x names)
  obtain nm ino kind where x: "x = (nm, ino, kind)" by (cases x)
  obtain s1 ahead where step: "(if pl then plus_entry b dir nm s w else (s, [])) = (s1, ahead)" by (cases "if pl then plus_entry b dir nm s w else (s, [])")
  have s1: "shared_inside s1" "sh_root s1 = sh_root s" "sh_writable s1 = sh_writable s"
    using step plus_entry_step(2-4) [OF Cons.prems, of nm w] Cons.prems(2) by (auto split: if_splits)
  have eq: "plus_entry a dir nm s w = plus_entry b dir nm s w" by (rule plus_entry_step(1) [OF Cons.prems])
  have "agree (sh_root s1) wr a b" "inside (sh_root s1) dir" using Cons.prems s1 by simp_all
  note IH = Cons.IH [OF this(1) s1(1) this(2), of "pos + 1" "out @ ahead @ dirent_lay ino (pos + 1) kind nm", unfolded s1(2,3)]
  show ?case
  proof (cases pl)
    case True
    then have "plus_entry b dir nm s w = (s1, ahead)" using step by simp
    with IH True Cons.prems(2) show ?thesis by (simp add: x eq)
  next
    case False
    with step have "s1 = s" "ahead = []" by simp_all
    with IH False Cons.prems(2) show ?thesis by (simp add: x)
  qed
qed simp

text \<open>Each handler asks hosts which agree the same, and keeps the paths under the root.\<close>

definition keeps :: "shared_dir \<Rightarrow> shared_dir \<Rightarrow> bool" where
  "keeps s s' \<longleftrightarrow> shared_inside s' \<and> sh_root s' = sh_root s \<and> sh_writable s' = sh_writable s"

lemma keeps_refl: "shared_inside s \<Longrightarrow> keeps s s"
  by (simp add: keeps_def)

lemma keeps_number:
  assumes "shared_inside s" "inside (sh_root s) p" "number p s = (s1, n)"
  shows "keeps s s1"
  using number_inside [OF assms(1,2)] number_kept [OF assms(3)] assms(3) by (simp add: keeps_def)

lemma keeps_open: "shared_inside s \<Longrightarrow> shared_open ho p flags s w = (s1, w1, r) \<Longrightarrow> keeps s s1"
  using shared_open_inside [of s ho p flags w]
  by (auto simp: keeps_def shared_open_def hold_def Let_def split: if_splits prod.splits sum.splits)

lemma keeps_entry: "shared_inside s \<Longrightarrow> inside (sh_root s) p \<Longrightarrow> keeps s (fst (fs_entry ho p s w))"
  by (auto simp: fs_entry_def keeps_refl keeps_number split: sum.splits prod.splits)

lemma fs_target_inside: "fs_target parent n body s = Inr p \<Longrightarrow> sh_writable s \<and> inside (sh_root s) p"
  by (auto simp: fs_target_def under_inside split: if_splits option.splits)

lemma fs_lookup_step:
  assumes "agree (sh_root s) (sh_writable s) a b" "shared_inside s"
  shows "fs_lookup a n body s w = fs_lookup b n body s w" "keeps s (fst (fs_lookup b n body s w))"
  by (auto simp: fs_lookup_def split: option.splits intro: keeps_refl [OF assms(2)] keeps_entry [OF assms(2)] fs_entry_agree [OF assms(1)] under_inside)

lemma fs_open_step:
  assumes "agree (sh_root s) (sh_writable s) a b" "shared_inside s"
  shows "fs_open a n body s w = fs_open b n body s w" "keeps s (fst (fs_open b n body s w))"
  using shared_open_agree [OF assms(1)] shared_path_inside [OF assms(2), of n] keeps_refl [OF assms(2)]
  by (auto simp: fs_open_def split: option.splits prod.splits sum.splits dest: keeps_open [OF assms(2)])

lemma fs_opendir_step:
  assumes "agree (sh_root s) (sh_writable s) a b" "shared_inside s"
  shows "fs_opendir a n s w = fs_opendir b n s w" "keeps s (fst (fs_opendir b n s w))"
proof -
  show "fs_opendir a n s w = fs_opendir b n s w"
    using agree_reads(4) [OF assms(1) shared_path_inside [OF assms(2), of n]] by (auto simp: fs_opendir_def shared_open_dir_def split: option.splits)
  show "keeps s (fst (fs_opendir b n s w))"
    using shared_open_dir_inside [OF assms(2) shared_path_inside [OF assms(2), of n], of _ b w] keeps_refl [OF assms(2)]
    by (auto simp: fs_opendir_def keeps_def shared_open_dir_def hold_def Let_def split: option.splits sum.splits prod.splits)
qed

lemma fs_create_step:
  assumes "agree (sh_root s) (sh_writable s) a b" "shared_inside s"
  shows "fs_create a n body s w = fs_create b n body s w" "keeps s (fst (fs_create b n body s w))"
proof -
  consider e where "fs_target n 16 body s = Inl e" | p where "fs_target n 16 body s = Inr p" "sh_writable s" "inside (sh_root s) p"
    using fs_target_inside [of n 16 body s] by (cases "fs_target n 16 body s") auto
  then show "fs_create a n body s w = fs_create b n body s w" "keeps s (fst (fs_create b n body s w))"
  proof (atomize (full), cases)
    case 2
    obtain s1 k where num: "number p s = (s1, k)" by (cases "number p s")
    note k1 = keeps_number [OF assms(2) 2(3) num]
    then have "shared_open a p flags s1 w' = shared_open b p flags s1 w'" for flags w'
      using shared_open_agree [of s1 a b p] assms(1) 2(3) by (simp add: keeps_def)
    moreover have "shared_open b p flags s1 w' = (s2, w2, r) \<Longrightarrow> keeps s s2" for flags w' s2 w2 r
      using keeps_open [of s1 b p flags w'] k1 by (auto simp: keeps_def)
    ultimately show "fs_create a n body s w = fs_create b n body s w \<and> keeps s (fst (fs_create b n body s w))"
      using 2 agree_reads(1) [OF assms(1)] agree_changes(4) [OF assms(1)] keeps_refl [OF assms(2)]
      by (auto simp: fs_create_def num Let_def split: prod.splits sum.splits)
  qed (use keeps_refl [OF assms(2)] in \<open>simp add: fs_create_def\<close>)
qed

lemma fs_mkdir_step:
  assumes "agree (sh_root s) (sh_writable s) a b" "shared_inside s"
  shows "fs_mkdir a n body s w = fs_mkdir b n body s w" "keeps s (fst (fs_mkdir b n body s w))"
proof -
  consider e where "fs_target n 8 body s = Inl e" | p where "fs_target n 8 body s = Inr p" "sh_writable s" "inside (sh_root s) p"
    using fs_target_inside [of n 8 body s] by (cases "fs_target n 8 body s") auto
  then show "fs_mkdir a n body s w = fs_mkdir b n body s w" "keeps s (fst (fs_mkdir b n body s w))"
    by (atomize (full), cases)
      (auto simp: fs_mkdir_def agree_changes(5) [OF assms(1)] fs_entry_agree [OF assms(1)] split: prod.splits sum.splits
        intro: keeps_refl [OF assms(2)] keeps_entry [OF assms(2)])
qed

lemma fs_symlink_step:
  assumes "agree (sh_root s) (sh_writable s) a b" "shared_inside s"
  shows "fs_symlink a n body s w = fs_symlink b n body s w" "keeps s (fst (fs_symlink b n body s w))"
  by (auto simp: fs_symlink_def agree_changes(8) [OF assms(1) _ under_inside] fs_entry_agree [OF assms(1) under_inside]
      split: prod.splits sum.splits option.splits intro: keeps_refl [OF assms(2)] keeps_entry [OF assms(2)] under_inside)

lemma fs_readdir_step:
  assumes "agree (sh_root s) (sh_writable s) a b" "shared_inside s"
  shows "fs_readdir a body room pl s w = fs_readdir b body room pl s w" "keeps s (fst (fs_readdir b body room pl s w))"
proof -
  have list: "list_names a dir pl asked off names [] s w = list_names b dir pl asked off names [] s w"
      "keeps s (fst (list_names b dir pl asked off names [] s w))" if "listing s h off = Some (dir, names)" for h off dir names asked
    using list_names_step [OF assms listing_inside [OF assms(2) that], of pl asked off names "[]" w] by (simp_all add: keeps_def)
  show "fs_readdir a body room pl s w = fs_readdir b body room pl s w"
    by (auto simp: fs_readdir_def Let_def list(1) split: option.splits)
  show "keeps s (fst (fs_readdir b body room pl s w))"
    using list(2) keeps_refl [OF assms(2)] by (auto simp: fs_readdir_def Let_def split: option.splits prod.splits) (metis fst_conv)
qed

lemma fs_reads_agree:
  assumes "agree (sh_root s) (sh_writable s) a b" "shared_inside s"
  shows "fs_getattr a n s w = fs_getattr b n s w" "fs_readlink a n s w = fs_readlink b n s w" "fs_statfs a n s w = fs_statfs b n s w"
    "fs_read a body room s w = fs_read b body room s w" "fs_fsync a body s w = fs_fsync b body s w" "fs_release a body s w = fs_release b body s w"
  using agree_reads [OF assms(1)] shared_path_inside [OF assms(2)] read_more_agree [of a b]
  by (auto simp: fs_getattr_def fs_readlink_def fs_statfs_def fs_read_def shared_read_def fs_fsync_def shared_sync_def fs_release_def shared_close_def
      Let_def split: option.splits opened_at.splits)

lemma fs_changes_agree:
  assumes "agree (sh_root s) (sh_writable s) a b" "shared_inside s"
  shows "fs_setattr a n body s w = fs_setattr b n body s w" "fs_write a body s w = fs_write b body s w"
    "fs_unlink a n body dir s w = fs_unlink b n body dir s w" "fs_rename a n body two s w = fs_rename b n body two s w"
proof -
  note reads = agree_reads [OF assms(1)] and changes = agree_changes [OF assms(1)]
  show "fs_setattr a n body s w = fs_setattr b n body s w"
    using reads(1) changes(3) shared_path_inside [OF assms(2), of n] by (auto simp: fs_setattr_def split: option.splits prod.splits sum.splits)
  show "fs_write a body s w = fs_write b body s w"
    using reads(7) changes(1) by (auto simp: fs_write_def shared_write_def Let_def split: option.splits opened_at.splits prod.splits sum.splits)
  show "fs_unlink a n body dir s w = fs_unlink b n body dir s w"
    using changes(6,7) fs_target_inside [of n 0 body s] by (auto simp: fs_unlink_def split: sum.splits)
  show "fs_rename a n body two s w = fs_rename b n body two s w"
    using changes(9) under_inside [of s] by (auto simp: fs_rename_def Let_def split: option.splits)
qed

lemma keeps_release: "shared_inside s \<Longrightarrow> keeps s (fst (fs_release ho body s w))"
  using shared_close_inside [of s] by (auto simp: fs_release_def keeps_def shared_close_def)

lemma keeps_forget: "shared_inside s \<Longrightarrow> keeps s (forget n s)"
  using forget_inside [of s n] by (auto simp: keeps_def forget_def split: option.splits)

lemma fs_serve_step:
  assumes "agree (sh_root s) (sh_writable s) a b" "shared_inside s"
  shows "fs_serve a h body room s w = fs_serve b h body room s w"
    and "fs_serve b h body room s w = Some (s', w', x) \<Longrightarrow> keeps s s'"
proof -
  note steps = fs_lookup_step [OF assms] fs_open_step [OF assms] fs_opendir_step [OF assms] fs_create_step [OF assms] fs_mkdir_step [OF assms]
    fs_symlink_step [OF assms] fs_readdir_step [OF assms] fs_reads_agree [OF assms] fs_changes_agree [OF assms]
    keeps_release [OF assms(2)] keeps_forget [OF assms(2)] keeps_refl [OF assms(2)]
  show "fs_serve a h body room s w = fs_serve b h body room s w"
    by (simp add: fs_serve_def Let_def steps split: opcode.splits)
  assume "fs_serve b h body room s w = Some (s', w', x)"
  then show "keeps s s'"
    using steps(2) [of "ih_nodeid h" body w] steps(4) [of "ih_nodeid h" body w] steps(6) [of "ih_nodeid h" w] steps(8) [of "ih_nodeid h" body w]
      steps(10) [of "ih_nodeid h" body w] steps(12) [of "ih_nodeid h" body w] steps(14) [of body room False w] steps(14) [of body room True w]
      keeps_release [OF assms(2), of b body w] keeps_forget [OF assms(2), of "ih_nodeid h"] keeps_refl [OF assms(2)]
    by (cases "opcode_of (ih_opcode h)") (auto simp: fs_serve_def Let_def split: prod.splits)
qed

section \<open>Answers fit\<close>

lemma read_more_length: "length got \<le> n \<Longrightarrow> read_more ho fd n got w = (w', Inr bs) \<Longrightarrow> length bs \<le> n"
proof (induction ho fd n got w rule: read_more.induct)
  case (1 ho fd n got w)
  from 1(3) show ?case
    by (subst (asm) read_more.simps) (use 1 in \<open>auto split: if_splits prod.splits sum.splits\<close>)
qed

lemma fs_read_length:
  assumes "fs_read ho body room s w = (w', x)"
  shows "length (a_body x) \<le> min (min (unat (fuse_u32 body 16)) (room - OUT_HEADER)) MAX_ANSWER"
  using assms read_more_length [of "[]" "min (min (unat (fuse_u32 body 16)) (room - OUT_HEADER)) MAX_ANSWER" ho]
  by (auto simp: fs_read_def shared_read_def Let_def answer_ok_def answer_error_def split: if_splits prod.splits sum.splits option.splits opened_at.splits)

lemma list_names_length:
  "length out \<le> asked \<Longrightarrow> length (snd (list_names ho dir pl asked pos names out s w)) \<le> asked"
proof (induction names arbitrary: pos out s)
  case (Cons x names)
  obtain nm ino kind where x: "x = (nm, ino, kind)" by (cases x)
  obtain s1 ahead where step: "(if pl then plus_entry ho dir nm s w else (s, [])) = (s1, ahead)" by (cases "if pl then plus_entry ho dir nm s w else (s, [])")
  then have "length ahead = (if pl then ENTRY_OUT else 0)"
    by (auto simp: plus_entry_def Let_def split: if_splits sum.splits prod.splits)
  with Cons step show ?case by (auto simp: x split: if_splits)
qed simp

lemma fs_readdir_length:
  assumes "fs_readdir ho body room pl s w = (s', x)"
  shows "length (a_body x) \<le> min (unat (fuse_u32 body 16)) (room - OUT_HEADER)"
  using assms list_names_length [of "[]" "min (unat (fuse_u32 body 16)) (room - OUT_HEADER)" ho]
  by (auto simp: fs_readdir_def Let_def answer_ok_def answer_error_def split: if_splits prod.splits option.splits) (metis snd_conv)+

section \<open>Properties of the filesystem device\<close>

text \<open>A guest which sends requests in turn, up to a panic.\<close>

fun fs_run :: "'w host \<Rightarrow> (in_header \<times> bytes \<times> nat) list \<Rightarrow> shared_dir \<Rightarrow> 'w \<Rightarrow> shared_dir \<times> 'w \<times> fuse_answer option list" where
  "fs_run ho [] s w = (s, w, [])"
| "fs_run ho ((h, body, room) # rs) s w =
     (case fs_serve ho h body room s w of
        None \<Rightarrow> (s, w, [None])
      | Some (s1, w1, a) \<Rightarrow> (case fs_run ho rs s1 w1 of (s2, w2, as) \<Rightarrow> (s2, w2, Some a # as)))"

lemma fs_run_step:
  assumes "agree (sh_root s) (sh_writable s) a b" "shared_inside s"
  shows "fs_run a rs s w = fs_run b rs s w \<and> shared_inside (fst (fs_run b rs s w))"
  using assms
proof (induction rs arbitrary: s w)
  case (Cons r rs)
  obtain h body room where r: "r = (h, body, room)" by (cases r)
  note eq = fs_serve_step(1) [OF Cons.prems, of h body room w]
  show ?case
  proof (cases "fs_serve b h body room s w")
    case None
    with eq Cons.prems(2) show ?thesis by (simp add: r)
  next
    case (Some y)
    obtain s1 w1 x where y: "y = (s1, w1, x)" by (cases y)
    have "keeps s s1" using fs_serve_step(2) [OF Cons.prems, of h body room w s1 w1 x] Some y by simp
    then have "agree (sh_root s1) (sh_writable s1) a b" "shared_inside s1" using Cons.prems(1) by (simp_all add: keeps_def)
    from Cons.IH [OF this, of w1] Some eq y show ?thesis by (auto simp: r split: prod.splits)
  qed
qed simp

text \<open>
  Property C32.  Whatever a guest asks, and in whatever order, the host is only called on paths which lie, name by
  name, under the shared directory, and if the directory is not writable, never on a call which changes it: two
  hosts which agree on those calls give the same answers and end in the same state, however they differ
  elsewhere.  And every node and open directory stands for a path under the shared directory.
\<close>

theorem share_is_confined:
  assumes "DOTDOT \<notin> set root" "agree root wr a b"
  shows "fs_run a rs (shared_new root wr) w = fs_run b rs (shared_new root wr) w \<and>
    (\<forall>n p. shared_path (fst (fs_run a rs (shared_new root wr) w)) n = Some p \<longrightarrow>
       inside (sh_root (fst (fs_run a rs (shared_new root wr) w))) p)"
proof -
  have "shared_inside (shared_new root wr)" using assms(1) by (rule shared_new_inside)
  with fs_run_step [of "shared_new root wr" a b rs w] assms(2) shared_path_inside show ?thesis
    by (auto simp: shared_new_def)
qed

text \<open>
  What a guest gets to read, of a file or of a directory, is no longer than what it asked for and than
  the room of its buffers behind the header; a file is read into at most \<^verbatim>\<open>MAX_ANSWER\<close> bytes; the length field of
  an answer is its length, and the fields behind it are read back as they were laid.
\<close>

lemma fs_answers_fit:
  assumes "OUT_HEADER \<le> room" "room < 2 ^ 32"
  shows "(case fs_read ho body room s w of (w', x) \<Rightarrow> length (answer_lay x u) \<le> room \<and> length (a_body x) \<le> MAX_ANSWER \<and>
        unat (fuse_u32 (answer_lay x u) 0) = length (answer_lay x u) \<and> fuse_u64 (answer_lay x u) 8 = u) \<and>
    (case fs_readdir ho body room pl s w of (s', x) \<Rightarrow> length (answer_lay x u) \<le> room \<and> length (a_body x) \<le> unat (fuse_u32 body 16) \<and>
        unat (fuse_u32 (answer_lay x u) 0) = length (answer_lay x u) \<and> fuse_u64 (answer_lay x u) 8 = u)"
proof -
  have fits: "length (a_body x) \<le> room - OUT_HEADER \<Longrightarrow> length (answer_lay x u) \<le> room \<and>
      unat (fuse_u32 (answer_lay x u) 0) = length (answer_lay x u) \<and> fuse_u64 (answer_lay x u) 8 = u" for x
    using answer_lay_reads [of x u] assms by simp
  show ?thesis
    using fs_read_length [of ho body room s w] fs_readdir_length [of ho body room pl s w] fits by (auto split: prod.splits)
qed

text \<open>A host with a tree of files: links inside a path are followed, as Linux does, the last name of it is not.\<close>

datatype node = Regular bytes | Folder | Link path

type_synonym tree = "path \<Rightarrow> node option"

fun follow :: "nat \<Rightarrow> tree \<Rightarrow> path \<Rightarrow> path \<Rightarrow> path option" where
  "follow 0 t at rest = None"
| "follow (Suc k) t at [] = Some at"
| "follow (Suc k) t at [n] = Some (at @ [n])"
| "follow (Suc k) t at (n # ns) = (case t (at @ [n]) of Some (Link to) \<Rightarrow> follow k t [] (to @ ns) | _ \<Rightarrow> follow k t (at @ [n]) ns)"

lemma follow_numeral [simp]:
  "follow (numeral k) t at [] = Some at"
  "follow (numeral k) t at [n] = Some (at @ [n])"
  "follow (numeral k) t at (n # m # ns) =
     (case t (at @ [n]) of Some (Link to) \<Rightarrow> follow (pred_numeral k) t [] (to @ m # ns) | _ \<Rightarrow> follow (pred_numeral k) t (at @ [n]) (m # ns))"
  by (simp_all add: numeral_eq_Suc)

definition tree_lstat :: "path \<Rightarrow> tree \<Rightarrow> (fuse_attr, io_error) result" where
  "tree_lstat p t =
     (case follow 40 t [] p of
        None \<Rightarrow> Err (IoError (Some 40))
      | Some q \<Rightarrow>
          (case t q of
             None \<Rightarrow> Err (IoError (Some 2))
           | Some (Regular bs) \<Rightarrow> Ok (attr_default\<lparr>fa_size := of_nat (length bs)\<rparr>)
           | Some _ \<Rightarrow> Ok attr_default))"

text \<open>A target which begins with a slash is read as a path of one name.\<close>

definition tree_host :: "tree host" where
  "tree_host = \<lparr>h_lstat = tree_lstat, h_readlink = (\<lambda>_ _. Err (IoError None)), h_statvfs = (\<lambda>_ _. Err (IoError None)), h_read_dir = (\<lambda>_ _. Ok []),
     h_open = (\<lambda>_ _ t. (t, Err (IoError None))), h_read = (\<lambda>_ _ t. (t, Ok [])), h_seek = (\<lambda>_ _ t. (t, Ok ())), h_write_all = (\<lambda>_ _ t. (t, Ok ())),
     h_sync = (\<lambda>_ t. (t, Ok ())), h_close = (\<lambda>_ t. t), h_truncate = (\<lambda>_ _ t. (t, Ok ())), h_create = (\<lambda>_ _ t. (t, Ok ())),
     h_mkdir = (\<lambda>_ t. (t, Ok ())), h_unlink = (\<lambda>p t. (t(p := None), Ok ())), h_rmdir = (\<lambda>_ t. (t, Ok ())), h_rename = (\<lambda>_ _ t. (t, Ok ())),
     h_symlink = (\<lambda>to p t. (t(p \<mapsto> Link [tl to]), Ok ()))\<rparr>"

definition ask_header :: "u32 \<Rightarrow> u64 \<Rightarrow> in_header" where
  "ask_header opc n = \<lparr>ih_len = 0, ih_opcode = opc, ih_unique = 1, ih_nodeid = n, ih_uid = 0, ih_gid = 0, ih_pid = 0\<rparr>"

text \<open>The root is \<^verbatim>\<open>/s\<close>; outside of it is \<^verbatim>\<open>/e/x\<close>, of three bytes.\<close>

definition outside_tree :: tree where
  "outside_tree = [[[115]] \<mapsto> Folder, [[101]] \<mapsto> Folder, [[101], [120]] \<mapsto> Regular [1, 2, 3]]"

text \<open>The guest makes a link \<^verbatim>\<open>l\<close> to \<^verbatim>\<open>/e\<close> in the root, and looks up \<^verbatim>\<open>x\<close> under its node.\<close>

definition leave_requests :: "(in_header \<times> bytes \<times> nat) list" where
  "leave_requests = [(ask_header 6 1, [108, 0, 47, 101, 0], 200), (ask_header 1 2, [120, 0], 200)]"

lemma symlink_request:
  "fs_serve tree_host (ask_header 6 1) [108, 0, 47, 101, 0] 200 (shared_new [[115]] True) outside_tree =
     Some (fst (number [[115], [108]] (shared_new [[115]] True)), outside_tree([[115], [108]] \<mapsto> Link [[101]]), answer_ok (entry_lay 2 attr_default))"
  by (simp add: ask_header_def fs_serve_def opcode_of_def fs_symlink_def fs_target_def fs_name_def under_def shared_new_def shared_path_def
      path_join_def starts_with_def DOT_def DOTDOT_def ROOT_def Let_def tree_host_def fs_entry_def tree_lstat_def number_def outside_tree_def)

lemma lookup_through_link:
  "\<exists>s. fs_serve tree_host (ask_header 1 2) [120, 0] 200 (fst (number [[115], [108]] (shared_new [[115]] True)))
     (outside_tree([[115], [108]] \<mapsto> Link [[101]])) =
     Some (s, outside_tree([[115], [108]] \<mapsto> Link [[101]]), answer_ok (entry_lay 3 (attr_default\<lparr>fa_size := 3\<rparr>)))"
  by (simp add: ask_header_def fs_serve_def opcode_of_def fs_lookup_def fs_name_def under_def shared_new_def shared_path_def
      path_join_def starts_with_def DOT_def DOTDOT_def ROOT_def Let_def tree_host_def fs_entry_def tree_lstat_def number_def outside_tree_def)

lemma symlink_leads_outside:
  "snd (snd (fs_run tree_host leave_requests (shared_new [[115]] True) outside_tree)) =
     [Some (answer_ok (entry_lay 2 attr_default)), Some (answer_ok (entry_lay 3 (attr_default\<lparr>fa_size := 3\<rparr>)))]"
  using lookup_through_link by (auto simp: leave_requests_def symlink_request)

text \<open>A forget drops a node however often it was looked up.\<close>

lemma forget_ignores_lookups:
  "shared_wf s \<Longrightarrow> n \<noteq> ROOT \<Longrightarrow> shared_path (forget n s) n = None"
  by (auto simp: forget_def shared_path_def split: option.splits)

text \<open>A path keeps its node when its file is removed and another is made there.\<close>

lemma unlinked_path_keeps_node:
  assumes "shared_wf s" "shared_path s n = Some p" "fs_serve ho h body room s w = Some (s', w', a)" "opcode_of (ih_opcode h) = OP_UNLINK"
  shows "snd (number p s') = n"
  using assms by (auto simp: fs_serve_def shared_path_def shared_wf_def number_def)

theorem share_is_confined_witness:
  "fs_run tree_host leave_requests (shared_new [[115]] False) outside_tree =
   fs_run (tree_host\<lparr>h_symlink := (\<lambda>_ _ t. (Map.empty, Ok ()))\<rparr>) leave_requests (shared_new [[115]] False) outside_tree"
  using share_is_confined [of "[[115]]" False tree_host "tree_host\<lparr>h_symlink := (\<lambda>_ _ t. (Map.empty, Ok ()))\<rparr>" leave_requests outside_tree]
  by (simp add: DOTDOT_def agree_def)

end
