(* ===== verification/Acts.thy ===== *)
theory Acts
  imports Prelude
begin

text \<open>
  Actions on a state which may fail, for code which threads a host through many calls and leaves at the first error
  (\<^verbatim>\<open>src/lingcage/src/template/store.rs\<close>, \<^verbatim>\<open>assemble\<close> of \<^verbatim>\<open>src/lingcore/src/machine/mod.rs\<close>).  A call which fails leaves the
  state it ran into.
\<close>

type_synonym ('s, 'a, 'e) act = "'s \<Rightarrow> 's \<times> ('a, 'e) result"

definition ret :: "'a \<Rightarrow> ('s, 'a, 'e) act" where
  "ret a s = (s, Ok a)"

definition throw :: "'e \<Rightarrow> ('s, 'a, 'e) act" where
  "throw e s = (s, Err e)"

text \<open>The operator \<^verbatim>\<open>?\<close>: the rest is run on the value of the first, unless that is an error.\<close>

definition bind_act :: "('s, 'a, 'e) act \<Rightarrow> ('a \<Rightarrow> ('s, 'b, 'e) act) \<Rightarrow> ('s, 'b, 'e) act" where
  "bind_act f g s = (case f s of (s1, Inl e) \<Rightarrow> (s1, Err e) | (s1, Inr a) \<Rightarrow> g a s1)"

definition map_act :: "('e \<Rightarrow> 'f) \<Rightarrow> ('s, 'a, 'e) act \<Rightarrow> ('s, 'a, 'f) act" where
  "map_act h f s = (case f s of (s1, r) \<Rightarrow> (s1, map_err h r))"

lemma bind_act_Ok: "bind_act f g s = (s', Inr b) \<longleftrightarrow> (\<exists>s1 a. f s = (s1, Inr a) \<and> g a s1 = (s', Inr b))"
  by (auto simp: bind_act_def split: prod.splits sum.splits)

lemma bind_act_Err: "bind_act f g s = (s', Inl e) \<longleftrightarrow> f s = (s', Inl e) \<or> (\<exists>s1 a. f s = (s1, Inr a) \<and> g a s1 = (s', Inl e))"
  by (auto simp: bind_act_def split: prod.splits sum.splits)

lemma bind_ret [simp]: "bind_act (ret a) g = g a"
  by (rule ext) (simp add: bind_act_def ret_def)

section \<open>What an action gives and raises\<close>

definition gives :: "('a \<Rightarrow> bool) \<Rightarrow> ('s, 'a, 'e) act \<Rightarrow> bool" where
  "gives P f \<longleftrightarrow> (\<forall>s s' a. f s = (s', Inr a) \<longrightarrow> P a)"

definition raises :: "'e set \<Rightarrow> ('s, 'a, 'e) act \<Rightarrow> bool" where
  "raises E f \<longleftrightarrow> (\<forall>s s' e. f s = (s', Inl e) \<longrightarrow> e \<in> E)"

named_theorems act_rules

lemma gives_ret [act_rules]: "P a \<Longrightarrow> gives P (ret a)"
  by (auto simp: gives_def ret_def)

lemma gives_throw [act_rules]: "gives P (throw e)"
  by (simp add: gives_def throw_def)

lemma gives_bind: "gives P f \<Longrightarrow> (\<And>a. P a \<Longrightarrow> gives Q (g a)) \<Longrightarrow> gives Q (bind_act f g)"
  by (force simp: gives_def bind_act_Ok)

lemma gives_all: "gives (\<lambda>_. True) f"
  by (simp add: gives_def)

lemma gives_then: "(\<And>a. gives Q (g a)) \<Longrightarrow> gives Q (bind_act f g)"
  by (rule gives_bind [OF gives_all])

lemma raises_ret [act_rules]: "raises E (ret a)"
  by (simp add: raises_def ret_def)

lemma raises_throw [act_rules]: "e \<in> E \<Longrightarrow> raises E (throw e)"
  by (simp add: raises_def throw_def)

lemma raises_bind: "raises E f \<Longrightarrow> gives P f \<Longrightarrow> (\<And>a. P a \<Longrightarrow> raises E (g a)) \<Longrightarrow> raises E (bind_act f g)"
  by (fastforce simp: raises_def gives_def bind_act_Err)

lemma raises_then [act_rules]: "raises E f \<Longrightarrow> (\<And>a. raises E (g a)) \<Longrightarrow> raises E (bind_act f g)"
  by (rule raises_bind [OF _ gives_all])

lemma raises_reader: "(\<And>s. raises E (f s)) \<Longrightarrow> raises E (\<lambda>s. f s s)"
  by (auto simp: raises_def)

end
