(* ===== verification/Host_Files.thy ===== *)
theory Host_Files
  imports Acts "HOL-Library.AList" "HOL-Library.Sublist"
begin

text \<open>
  The part of \<^verbatim>\<open>std::fs\<close> and of \<^verbatim>\<open>flock\<close> the template store of \<^verbatim>\<open>src/lingcage/src/template/store.rs\<close> calls: a tree
  of directories, files and symbolic links, files as inodes which several names may share, open files with their
  locks.  Any call may fail for a reason of the host; which calls do is a list of the state, read one at a time, and
  a call which fails changes nothing.

  A path is canonical but for its last component, which may be a link to a file or a directory; what a chain of
  links or a link further up would lead to is taken to be missing.  The order of a directory is the order of the
  list of entries.

  The lemmas say what of a set of files each call keeps.
\<close>

section \<open>Paths\<close>

type_synonym fpath = "string list"

fun split_slash :: "string \<Rightarrow> string list" where
  "split_slash [] = [[]]"
| "split_slash (c # cs) = (if c = CHR ''/'' then [] # split_slash cs else (case split_slash cs of [] \<Rightarrow> [[c]] | n # ns \<Rightarrow> (c # n) # ns))"

fun norm_path :: "fpath \<Rightarrow> string list \<Rightarrow> fpath" where
  "norm_path at [] = at"
| "norm_path at (n # ns) =
     (if n = [] \<or> n = ''.'' then norm_path at ns
      else if n = ''..'' then norm_path (butlast at) ns
      else norm_path (at @ [n]) ns)"

definition join_path :: "fpath \<Rightarrow> string \<Rightarrow> fpath" where
  "join_path p s = (if take 1 s = ''/'' then norm_path [] (split_slash s) else norm_path p (split_slash s))"

text \<open>A name which is one component of a path.\<close>

definition plain :: "string \<Rightarrow> bool" where
  "plain n \<longleftrightarrow> n \<noteq> [] \<and> n \<noteq> ''.'' \<and> n \<noteq> ''..'' \<and> CHR ''/'' \<notin> set n"

lemma split_slash_plain: "CHR ''/'' \<notin> set n \<Longrightarrow> split_slash n = [n]"
  by (induction n) auto

lemma join_plain [simp]: "plain n \<Longrightarrow> join_path p n = p @ [n]"
  by (cases n) (auto simp: plain_def join_path_def split_slash_plain)

section \<open>The tree and its calls\<close>

datatype fentry = KDir | KFile nat | KLink "string list"

datatype file_error = FNotFound | FExists | FCrossDevice | FOther

datatype flock = Unlocked | LockShared | LockExclusive

record files =
  f_at :: "(fpath \<times> fentry) list"
  f_data :: "nat \<Rightarrow> bytes"
  f_fresh :: nat
  f_open :: "(nat \<times> nat \<times> flock) list"
  f_fd :: nat
  f_far :: "fpath \<Rightarrow> bool"
  f_faults :: "bool list"

definition entry :: "files \<Rightarrow> fpath \<Rightarrow> fentry option" where
  "entry s p = (if p = [] then Some KDir else map_of (f_at s) p)"

definition canonicalize :: "files \<Rightarrow> fpath \<Rightarrow> fpath option" where
  "canonicalize s p =
     (case entry s p of
        None \<Rightarrow> None
      | Some (KLink to) \<Rightarrow>
          (let q = norm_path (butlast p) to in
           case entry s q of Some KDir \<Rightarrow> Some q | Some (KFile _) \<Rightarrow> Some q | _ \<Rightarrow> None)
      | Some _ \<Rightarrow> Some p)"

definition is_dir :: "files \<Rightarrow> fpath \<Rightarrow> bool" where
  "is_dir s p = (case canonicalize s p of None \<Rightarrow> False | Some q \<Rightarrow> entry s q = Some KDir)"

definition inode_at :: "files \<Rightarrow> fpath \<Rightarrow> nat option" where
  "inode_at s p =
     (case canonicalize s p of
        None \<Rightarrow> None
      | Some q \<Rightarrow> (case entry s q of Some (KFile i) \<Rightarrow> Some i | _ \<Rightarrow> None))"

definition is_file :: "files \<Rightarrow> fpath \<Rightarrow> bool" where
  "is_file s p \<longleftrightarrow> inode_at s p \<noteq> None"

definition faulty :: "(files, 'a, file_error) act \<Rightarrow> (files, 'a, file_error) act" where
  "faulty f s =
     (case f_faults s of
        [] \<Rightarrow> f s
      | b # bs \<Rightarrow> (if b then (s\<lparr>f_faults := bs\<rparr>, Err FOther) else f (s\<lparr>f_faults := bs\<rparr>)))"

definition make_dirs :: "fpath \<Rightarrow> (fpath \<times> fentry) list \<Rightarrow> (fpath \<times> fentry) list" where
  "make_dirs p al =
     fold (\<lambda>k al. if map_of al (take k p) = None then AList.update (take k p) KDir al else al) [1..<Suc (length p)] al"

definition create_dir_all :: "fpath \<Rightarrow> (files, unit, file_error) act" where
  "create_dir_all p = faulty (\<lambda>s.
     if list_all (\<lambda>k. entry s (take k p) = None \<or> entry s (take k p) = Some KDir) [0..<Suc (length p)]
     then (s\<lparr>f_at := make_dirs p (f_at s)\<rparr>, Ok ())
     else (s, Err FExists))"

definition without :: "fpath \<Rightarrow> (fpath \<times> fentry) list \<Rightarrow> (fpath \<times> fentry) list" where
  "without p al = filter (\<lambda>(q, _). \<not> prefix p q) al"

definition remove_dir_all :: "fpath \<Rightarrow> (files, unit, file_error) act" where
  "remove_dir_all p = faulty (\<lambda>s.
     case entry s p of
       None \<Rightarrow> (s, Err FNotFound)
     | Some KDir \<Rightarrow> (s\<lparr>f_at := without p (f_at s)\<rparr>, Ok ())
     | Some (KFile _) \<Rightarrow> (s, Err FOther)
     | Some (KLink _) \<Rightarrow> (s\<lparr>f_at := AList.delete p (f_at s)\<rparr>, Ok ()))"

definition hard_link :: "fpath \<Rightarrow> fpath \<Rightarrow> (files, unit, file_error) act" where
  "hard_link a b = faulty (\<lambda>s.
     case entry s a of
       None \<Rightarrow> (s, Err FNotFound)
     | Some KDir \<Rightarrow> (s, Err FOther)
     | Some x \<Rightarrow>
         if entry s b \<noteq> None then (s, Err FExists)
         else if entry s (butlast b) \<noteq> Some KDir then (s, Err FNotFound)
         else if f_far s a \<noteq> f_far s b then (s, Err FCrossDevice)
         else (s\<lparr>f_at := AList.update b x (f_at s)\<rparr>, Ok ()))"

text \<open>Creating or truncating a file and writing all of it.\<close>

definition put_file :: "fpath \<Rightarrow> bytes \<Rightarrow> files \<Rightarrow> files \<times> (unit, file_error) result" where
  "put_file p bs s =
     (case entry s p of
        None \<Rightarrow>
          if entry s (butlast p) \<noteq> Some KDir then (s, Err FNotFound)
          else (s\<lparr>f_at := AList.update p (KFile (f_fresh s)) (f_at s), f_data := (f_data s)(f_fresh s := bs), f_fresh := Suc (f_fresh s)\<rparr>, Ok ())
      | Some _ \<Rightarrow>
          (case inode_at s p of
             None \<Rightarrow> (s, Err FOther)
           | Some i \<Rightarrow> (s\<lparr>f_data := (f_data s)(i := bs)\<rparr>, Ok ())))"

definition write_file :: "fpath \<Rightarrow> bytes \<Rightarrow> (files, unit, file_error) act" where
  "write_file p bs = faulty (put_file p bs)"

definition read_file :: "fpath \<Rightarrow> (files, bytes, file_error) act" where
  "read_file p = faulty (\<lambda>s.
     case entry s p of
       None \<Rightarrow> (s, Err FNotFound)
     | Some _ \<Rightarrow> (case inode_at s p of None \<Rightarrow> (s, Err FOther) | Some i \<Rightarrow> (s, Ok (f_data s i))))"

definition copy_file :: "fpath \<Rightarrow> fpath \<Rightarrow> (files, unit, file_error) act" where
  "copy_file a b = bind_act (read_file a) (\<lambda>bs. write_file b bs)"

definition moved_path :: "fpath \<Rightarrow> fpath \<Rightarrow> fpath \<Rightarrow> fpath" where
  "moved_path a b q = (if prefix a q then b @ drop (length a) q else q)"

definition rename_dir :: "fpath \<Rightarrow> fpath \<Rightarrow> (files, unit, file_error) act" where
  "rename_dir a b = faulty (\<lambda>s.
     if entry s a = None then (s, Err FNotFound)
     else if entry s b \<noteq> None \<or> entry s (butlast b) \<noteq> Some KDir then (s, Err FOther)
     else (s\<lparr>f_at := map (map_prod (moved_path a b) id) (without b (f_at s))\<rparr>, Ok ()))"

definition symlink :: "string list \<Rightarrow> fpath \<Rightarrow> (files, unit, file_error) act" where
  "symlink to p = faulty (\<lambda>s.
     if entry s p \<noteq> None then (s, Err FExists)
     else if entry s (butlast p) \<noteq> Some KDir then (s, Err FNotFound)
     else (s\<lparr>f_at := AList.update p (KLink to) (f_at s)\<rparr>, Ok ()))"

definition unlink_file :: "fpath \<Rightarrow> (files, unit, file_error) act" where
  "unlink_file p = faulty (\<lambda>s.
     case entry s p of
       None \<Rightarrow> (s, Err FNotFound)
     | Some KDir \<Rightarrow> (s, Err FOther)
     | Some _ \<Rightarrow> (s\<lparr>f_at := AList.delete p (f_at s)\<rparr>, Ok ()))"

definition read_link :: "fpath \<Rightarrow> (files, string list, file_error) act" where
  "read_link p = faulty (\<lambda>s. case entry s p of None \<Rightarrow> (s, Err FNotFound) | Some (KLink to) \<Rightarrow> (s, Ok to) | Some _ \<Rightarrow> (s, Err FOther))"

definition names_in :: "files \<Rightarrow> fpath \<Rightarrow> string list" where
  "names_in s p = map (\<lambda>(q, _). List.last q) (filter (\<lambda>(q, _). q \<noteq> [] \<and> butlast q = p) (f_at s))"

definition read_dir :: "fpath \<Rightarrow> (files, string list, file_error) act" where
  "read_dir p = faulty (\<lambda>s.
     case canonicalize s p of
       None \<Rightarrow> (s, Err FNotFound)
     | Some q \<Rightarrow> if entry s q = Some KDir then (s, Ok (names_in s q)) else (s, Err FOther))"

section \<open>Open files and their locks\<close>

definition open_file :: "fpath \<Rightarrow> (files, nat, file_error) act" where
  "open_file p = faulty (\<lambda>s.
     case entry s p of
       None \<Rightarrow> (s, Err FNotFound)
     | Some _ \<Rightarrow>
         (case inode_at s p of
            None \<Rightarrow> (s, Err FOther)
          | Some i \<Rightarrow> (s\<lparr>f_open := (f_fd s, i, Unlocked) # f_open s, f_fd := Suc (f_fd s)\<rparr>, Ok (f_fd s))))"

definition close_file :: "nat \<Rightarrow> files \<Rightarrow> files" where
  "close_file fd s = s\<lparr>f_open := AList.delete fd (f_open s)\<rparr>"

definition set_lock :: "nat \<Rightarrow> flock \<Rightarrow> files \<Rightarrow> files" where
  "set_lock fd l s = s\<lparr>f_open := AList.map_entry fd (\<lambda>(i, _). (i, l)) (f_open s)\<rparr>"

text \<open>The locks other open files have on the inode of an open file.\<close>

definition other_locks :: "nat \<Rightarrow> files \<Rightarrow> flock list" where
  "other_locks fd s =
     (case map_of (f_open s) fd of
        None \<Rightarrow> []
      | Some (i, _) \<Rightarrow> map (\<lambda>(_, _, l). l) (filter (\<lambda>(fd', i', _). fd' \<noteq> fd \<and> i' = i) (f_open s)))"

text \<open>A shared lock waits for an exclusive one of another; \<open>None\<close> is a call which waits.\<close>

definition lock_shared :: "nat \<Rightarrow> files \<Rightarrow> (files \<times> (unit, file_error) result) option" where
  "lock_shared fd s =
     (if LockExclusive \<in> set (other_locks fd s) then None
      else Some (faulty (\<lambda>s. (set_lock fd LockShared s, Ok ())) s))"

definition try_lock_exclusive :: "nat \<Rightarrow> (files, bool, file_error) act" where
  "try_lock_exclusive fd = faulty (\<lambda>s.
     if list_all (\<lambda>l. l = Unlocked) (other_locks fd s) then (set_lock fd LockExclusive s, Ok True) else (s, Ok False))"

section \<open>Running calls in sequence\<close>

lemma map_act_Ok [simp]: "map_act h f s = (s1, Inr a) \<longleftrightarrow> f s = (s1, Inr a)"
  by (auto simp: map_act_def split: prod.splits)

lemma ret_Ok [simp]: "ret a s = (s1, r) \<longleftrightarrow> s1 = s \<and> r = Ok a"
  by (auto simp: ret_def)

lemma throw_Ok [simp]: "throw e s = (s1, r) \<longleftrightarrow> s1 = s \<and> r = Err e"
  by (auto simp: throw_def)

text \<open>A predicate every outcome of an action keeps.\<close>

definition inv_act :: "('s \<Rightarrow> bool) \<Rightarrow> ('s, 'a, 'e) act \<Rightarrow> bool" where
  "inv_act I f \<longleftrightarrow> (\<forall>s. I s \<longrightarrow> I (fst (f s)))"

lemma inv_actD: "inv_act I f \<Longrightarrow> I s \<Longrightarrow> f s = (s1, r) \<Longrightarrow> I s1"
  by (auto simp: inv_act_def)

lemma inv_ret [intro!]: "inv_act I (ret a)"
  by (simp add: inv_act_def ret_def)

lemma inv_throw [intro!]: "inv_act I (throw e)"
  by (simp add: inv_act_def throw_def)

lemma inv_bind [intro]: "inv_act I f \<Longrightarrow> (\<And>a. inv_act I (g a)) \<Longrightarrow> inv_act I (bind_act f g)"
  by (auto simp: inv_act_def bind_act_def split: prod.splits sum.splits)

lemma inv_map [intro]: "inv_act I f \<Longrightarrow> inv_act I (map_act h f)"
  by (auto simp: inv_act_def map_act_def split: prod.splits)

lemma inv_if [intro]: "(b \<Longrightarrow> inv_act I f) \<Longrightarrow> (\<not> b \<Longrightarrow> inv_act I g) \<Longrightarrow> inv_act I (if b then f else g)"
  by simp

section \<open>What calls keep\<close>

definition files_ok :: "files \<Rightarrow> bool" where
  "files_ok s \<longleftrightarrow> (\<forall>i. KFile i \<in> snd ` set (f_at s) \<longrightarrow> i < f_fresh s) \<and> (\<forall>fd x. map_of (f_open s) fd = Some x \<longrightarrow> fd < f_fd s)"

text \<open>
  The files at some paths are there with their bytes, the directories at them are there, and the files open before
  are open with their locks.
\<close>

definition solid :: "fentry \<Rightarrow> bool" where
  "solid x = (case x of KLink _ \<Rightarrow> False | _ \<Rightarrow> True)"

lemma solid_simps [simp]: "solid KDir" "solid (KFile i)" "\<not> solid (KLink to)"
  by (simp_all add: solid_def)

definition kept_files :: "fpath set \<Rightarrow> files \<Rightarrow> files \<Rightarrow> bool" where
  "kept_files Q s0 s \<longleftrightarrow>
     (\<forall>p \<in> Q. \<forall>x. entry s0 p = Some x \<and> solid x \<longrightarrow> entry s p = Some x \<and> (\<forall>i. x = KFile i \<longrightarrow> f_data s i = f_data s0 i)) \<and>
     (\<forall>fd < f_fd s0. map_of (f_open s) fd = map_of (f_open s0) fd) \<and> f_fd s0 \<le> f_fd s"

definition good :: "fpath set \<Rightarrow> files \<Rightarrow> files \<Rightarrow> bool" where
  "good Q s0 s \<longleftrightarrow> files_ok s \<and> kept_files Q s0 s"

lemma good_refl: "files_ok s \<Longrightarrow> good Q s s"
  by (simp add: good_def kept_files_def)

lemma good_trans: "good Q s0 s1 \<Longrightarrow> good Q s1 s2 \<Longrightarrow> good Q s0 s2"
  by (simp add: good_def kept_files_def) metis

lemma entry_faults [simp]: "entry (s\<lparr>f_faults := bs\<rparr>) p = entry s p"
  by (simp add: entry_def)

lemma good_faults [simp]: "good Q s0 (s\<lparr>f_faults := bs\<rparr>) = good Q s0 s"
  by (simp add: good_def files_ok_def kept_files_def)

lemma inv_faulty [intro]: "inv_act (good Q s0) f \<Longrightarrow> inv_act (good Q s0) (faulty f)"
  by (auto simp: inv_act_def faulty_def split: list.splits)

lemma entry_at: "entry (s\<lparr>f_at := al\<rparr>) p = (if p = [] then Some KDir else map_of al p)"
  by (simp add: entry_def)

lemma entry_in: "entry s p = Some x \<Longrightarrow> x \<noteq> KDir \<Longrightarrow> x \<in> snd ` set (f_at s)"
  by (auto simp: entry_def split: if_splits dest!: map_of_SomeD) (metis image_eqI snd_conv)

text \<open>A change of the tree which keeps the files of the tree and adds none of its own.\<close>

lemma good_tree:
  assumes "good Q s0 s" "snd ` set al \<subseteq> snd ` set (f_at s) \<union> {KDir} \<union> range KLink"
    "\<And>p x. p \<in> Q \<Longrightarrow> p \<noteq> [] \<Longrightarrow> map_of (f_at s) p = Some x \<Longrightarrow> solid x \<Longrightarrow> map_of al p = Some x"
  shows "good Q s0 (s\<lparr>f_at := al\<rparr>)"
proof -
  have "files_ok (s\<lparr>f_at := al\<rparr>)"
    using assms(1,2) by (auto simp: good_def files_ok_def subset_iff)
  moreover have "kept_files Q s0 (s\<lparr>f_at := al\<rparr>)"
    using assms(1,3) by (auto simp: good_def kept_files_def entry_def)
  ultimately show ?thesis by (simp add: good_def)
qed

lemma set_update_snd: "snd ` set (AList.update p x al) \<subseteq> insert x (snd ` set al)"
  by (induction al) auto

text \<open>An entry is added where there is none.\<close>

lemma good_add:
  assumes "good Q s0 s" "entry s p = None" "x \<in> snd ` set (f_at s) \<union> range KLink"
  shows "good Q s0 (s\<lparr>f_at := AList.update p x (f_at s)\<rparr>)"
proof (rule good_tree [OF assms(1)])
  show "snd ` set (AList.update p x (f_at s)) \<subseteq> snd ` set (f_at s) \<union> {KDir} \<union> range KLink"
    using set_update_snd [of p x "f_at s"] assms(3) by blast
  show "map_of (AList.update p x (f_at s)) q = Some y" if "map_of (f_at s) q = Some y" for q y
    using that assms(2) by (auto simp: update_conv' entry_def split: if_splits)
qed

lemma map_of_without: "map_of (without p al) q = (if prefix p q then None else map_of al q)"
  by (induction al) (auto simp: without_def)

lemma map_of_make_dirs:
  "map_of (fold (\<lambda>k al. if map_of al (take k p) = None then AList.update (take k p) KDir al else al) ks al) q =
     (case map_of al q of Some e \<Rightarrow> Some e | None \<Rightarrow> if q \<in> (\<lambda>k. take k p) ` set ks then Some KDir else None)"
  by (induction ks arbitrary: al) (auto simp: update_conv' split: option.splits)

lemma map_of_moved:
  assumes "\<not> prefix a p" "\<not> prefix b p"
  shows "map_of (map (map_prod (moved_path a b) id) (without b al)) p = map_of al p"
  using assms by (induction al) (auto simp: without_def moved_path_def)

lemma snd_make_dirs:
  "snd ` set (fold (\<lambda>k al. if map_of al (take k p) = None then AList.update (take k p) KDir al else al) ks al) \<subseteq> insert KDir (snd ` set al)"
proof (induction ks arbitrary: al)
  case (Cons k ks)
  let ?al = "if map_of al (take k p) = None then AList.update (take k p) KDir al else al"
  have "snd ` set ?al \<subseteq> insert KDir (snd ` set al)" using set_update_snd [of "take k p" KDir al] by auto
  with Cons.IH [of ?al] show ?case unfolding fold_simps comp_apply by blast
qed auto

lemma snd_delete: "snd ` set (AList.delete p al) \<subseteq> snd ` set al"
  by (auto simp: AList.delete_eq)

lemma snd_without: "snd ` set (without p al) \<subseteq> snd ` set al"
  by (auto simp: without_def)

lemma snd_moved: "snd ` set (map (map_prod f id) al) = snd ` set al"
  by (simp add: image_image)

lemma inv_create_dir_all [intro!]: "inv_act (good Q s0) (create_dir_all p)"
  unfolding create_dir_all_def
proof (rule inv_faulty, unfold inv_act_def, intro allI impI)
  fix s
  assume g: "good Q s0 s"
  have "good Q s0 (s\<lparr>f_at := make_dirs p (f_at s)\<rparr>)"
  proof (rule good_tree [OF g])
    show "snd ` set (make_dirs p (f_at s)) \<subseteq> snd ` set (f_at s) \<union> {KDir} \<union> range KLink"
      using snd_make_dirs [of p "[1..<Suc (length p)]" "f_at s"] unfolding make_dirs_def by blast
    show "map_of (make_dirs p (f_at s)) q = Some y" if "map_of (f_at s) q = Some y" for q y
      using that by (simp add: make_dirs_def map_of_make_dirs entry_def split: if_splits del: upt_Suc)
  qed
  with g show "good Q s0 (fst (if list_all (\<lambda>k. entry s (take k p) = None \<or> entry s (take k p) = Some KDir) [0..<Suc (length p)]
      then (s\<lparr>f_at := make_dirs p (f_at s)\<rparr>, Ok ()) else (s, Err FExists)))" by simp
qed

lemma inv_hard_link [intro!]: "inv_act (good Q s0) (hard_link a b)"
  unfolding hard_link_def
proof (rule inv_faulty, unfold inv_act_def, intro allI impI)
  fix s
  assume g: "good Q s0 s"
  have "good Q s0 (s\<lparr>f_at := AList.update b x (f_at s)\<rparr>)" if "entry s a = Some x" "x \<noteq> KDir" "entry s b = None" for x
    using good_add [OF g that(3), of x] entry_in [OF that(1,2)] by simp
  with g show "good Q s0 (fst (case entry s a of None \<Rightarrow> (s, Err FNotFound) | Some KDir \<Rightarrow> (s, Err FOther)
      | Some x \<Rightarrow>
         if entry s b \<noteq> None then (s, Err FExists)
         else if entry s (butlast b) \<noteq> Some KDir then (s, Err FNotFound)
         else if f_far s a \<noteq> f_far s b then (s, Err FCrossDevice)
         else (s\<lparr>f_at := AList.update b x (f_at s)\<rparr>, Ok ())))"
    by (simp split: option.split fentry.split)
qed

lemma inv_symlink [intro!]: "inv_act (good Q s0) (symlink to p)"
  unfolding symlink_def by (rule inv_faulty) (auto simp: inv_act_def intro!: good_add)

lemma inv_read_file [intro!]: "inv_act (good Q s0) (read_file p)"
  unfolding read_file_def by (rule inv_faulty) (auto simp: inv_act_def split: option.splits)

lemma inv_read_link [intro!]: "inv_act (good Q s0) (read_link p)"
  unfolding read_link_def by (rule inv_faulty) (auto simp: inv_act_def split: option.splits fentry.splits)

lemma inv_read_dir [intro!]: "inv_act (good Q s0) (read_dir p)"
  unfolding read_dir_def by (rule inv_faulty) (auto simp: inv_act_def split: option.splits)

lemma good_without:
  "good Q s0 s \<Longrightarrow> (\<And>q. q \<in> Q \<Longrightarrow> \<not> prefix p q) \<Longrightarrow> good Q s0 (s\<lparr>f_at := without p (f_at s)\<rparr>)"
  using snd_without [of p "f_at s"] by (auto simp: map_of_without entry_def subset_iff split: if_splits intro!: good_tree)

lemma good_delete:
  "good Q s0 s \<Longrightarrow> p \<notin> Q \<or> (\<forall>x. entry s p = Some x \<longrightarrow> \<not> solid x) \<Longrightarrow> good Q s0 (s\<lparr>f_at := AList.delete p (f_at s)\<rparr>)"
  using snd_delete [of p "f_at s"] by (auto simp: delete_conv' entry_def subset_iff split: if_splits intro!: good_tree)

lemma inv_remove_dir_all:
  assumes "\<And>q. q \<in> Q \<Longrightarrow> \<not> prefix p q"
  shows "inv_act (good Q s0) (remove_dir_all p)"
  unfolding remove_dir_all_def
  by (rule inv_faulty) (auto simp: inv_act_def intro!: good_without good_delete dest: assms split: option.splits fentry.splits)

lemma good_unlink:
  assumes "good Q s0 s" "p \<notin> Q \<or> (\<exists>to. entry s p = Some (KLink to))"
  shows "good Q s0 (fst (unlink_file p s))"
proof -
  have "good Q s0 ((s\<lparr>f_faults := bs\<rparr>)\<lparr>f_at := AList.delete p (f_at (s\<lparr>f_faults := bs\<rparr>))\<rparr>)" for bs
    by (rule good_delete) (use assms in auto)
  then show ?thesis
    using assms good_delete [of Q s0 s p] by (auto simp: unlink_file_def faulty_def split: list.splits option.splits fentry.splits)
qed

lemma inv_rename_dir:
  assumes "\<And>q. q \<in> Q \<Longrightarrow> \<not> prefix a q \<and> \<not> prefix b q"
  shows "inv_act (good Q s0) (rename_dir a b)"
  unfolding rename_dir_def
proof (rule inv_faulty, unfold inv_act_def, intro allI impI)
  fix s
  assume g: "good Q s0 s"
  let ?al = "map (map_prod (moved_path a b) id) (without b (f_at s))"
  have "good Q s0 (s\<lparr>f_at := ?al\<rparr>)"
    using snd_without [of b "f_at s"] assms snd_moved [of "moved_path a b" "without b (f_at s)"]
    by (intro good_tree [OF g]) (auto simp: map_of_moved entry_def split: if_splits)
  with g show "good Q s0 (fst (if entry s a = None then (s, Err FNotFound)
      else if entry s b \<noteq> None \<or> entry s (butlast b) \<noteq> Some KDir then (s, Err FOther) else (s\<lparr>f_at := ?al\<rparr>, Ok ())))" by simp
qed

text \<open>Writing a file which is not there takes a new inode.\<close>

lemma good_put_new:
  assumes "good Q s0 s" "entry s p = None"
  shows "good Q s0 (fst (put_file p bs s))"
proof -
  let ?s = "s\<lparr>f_at := AList.update p (KFile (f_fresh s)) (f_at s), f_data := (f_data s)(f_fresh s := bs), f_fresh := Suc (f_fresh s)\<rparr>"
  have "files_ok ?s"
  proof -
    have "i < Suc (f_fresh s)" if "KFile i \<in> snd ` set (AList.update p (KFile (f_fresh s)) (f_at s))" for i
      using subsetD [OF set_update_snd that] assms(1) by (auto simp: good_def files_ok_def less_Suc_eq)
    with assms(1) show ?thesis by (simp add: good_def files_ok_def)
  qed
  moreover have "kept_files Q s0 ?s"
  proof -
    have "i < f_fresh s" if "entry s q = Some (KFile i)" for q i
      using entry_in [OF that] assms(1) by (simp add: good_def files_ok_def)
    moreover have "entry ?s q = Some x" if "entry s q = Some x" for q x
      using that assms(2) by (auto simp: entry_def update_conv' split: if_splits)
    moreover have "kept_files Q s0 s" using assms(1) by (simp add: good_def)
    ultimately show ?thesis unfolding kept_files_def by simp (metis less_irrefl)
  qed
  ultimately show ?thesis using assms by (simp add: put_file_def good_def)
qed

lemma good_write_new:
  assumes "good Q s0 s" "entry s p = None"
  shows "good Q s0 (fst (write_file p bs s))"
proof -
  have "good Q s0 (fst (put_file p bs (s\<lparr>f_faults := fs\<rparr>)))" for fs
    by (rule good_put_new) (use assms in simp_all)
  with good_put_new [OF assms] assms(1) show ?thesis
    by (simp add: write_file_def faulty_def split: list.split)
qed

section \<open>What calls keep of the open files\<close>

lemma good_open: "good Q s0 s \<Longrightarrow> open_file p s = (s1, r) \<Longrightarrow> good Q s0 s1 \<and> (\<forall>fd. r = Inr fd \<longrightarrow> f_fd s0 \<le> fd)"
proof -
  assume g: "good Q s0 s" and o: "open_file p s = (s1, r)"
  have "good Q s0 (s\<lparr>f_faults := bs, f_open := (f_fd s, i, Unlocked) # f_open s, f_fd := Suc (f_fd s)\<rparr>)" for i bs
    using g by (auto simp: good_def files_ok_def kept_files_def entry_def less_Suc_eq)
  note new = this
  have old: "good Q s0 (s\<lparr>f_open := (f_fd s, i, Unlocked) # f_open s, f_fd := Suc (f_fd s)\<rparr>)" for i
    using new [where bs = "f_faults s" and i = i] by simp
  have "f_fd s0 \<le> f_fd s" using g by (simp add: good_def kept_files_def)
  with o g show ?thesis
    by (auto simp: open_file_def faulty_def split: list.splits option.splits if_splits intro: new old)
qed

lemma good_close: "good Q s0 s \<Longrightarrow> f_fd s0 \<le> fd \<Longrightarrow> good Q s0 (close_file fd s)"
  by (auto simp: close_file_def good_def files_ok_def kept_files_def entry_def delete_conv' split: if_splits)

lemma good_lock: "good Q s0 s \<Longrightarrow> f_fd s0 \<le> fd \<Longrightarrow> good Q s0 (set_lock fd l s)"
  by (auto simp: set_lock_def good_def files_ok_def kept_files_def entry_def map_of_map_entry split: if_splits option.splits)

section \<open>Files of a staging directory\<close>

text \<open>What is in a directory was made since a state, so that writing it changes no file of that state.\<close>

definition staged :: "fpath set \<Rightarrow> files \<Rightarrow> fpath \<Rightarrow> files \<Rightarrow> bool" where
  "staged Q s0 st s \<longleftrightarrow> good Q s0 s \<and> f_fresh s0 \<le> f_fresh s \<and> (\<forall>n x. entry s (st @ [n]) = Some x \<longrightarrow> (\<exists>i. x = KFile i \<and> f_fresh s0 \<le> i))"

lemma staged_good: "staged Q s0 st s \<Longrightarrow> good Q s0 s"
  by (simp add: staged_def)

lemma staged_faults [simp]: "staged Q s0 st (s\<lparr>f_faults := bs\<rparr>) = staged Q s0 st s"
  by (simp add: staged_def)

lemma inv_staged_faulty: "inv_act (staged Q s0 st) f \<Longrightarrow> inv_act (staged Q s0 st) (faulty f)"
  by (auto simp: inv_act_def faulty_def split: list.splits)

lemma inv_staged_read_file [intro!]: "inv_act (staged Q s0 st) (read_file p)"
  unfolding read_file_def by (rule inv_staged_faulty) (auto simp: inv_act_def split: option.splits)

lemma inv_staged_read_dir [intro!]: "inv_act (staged Q s0 st) (read_dir p)"
  unfolding read_dir_def by (rule inv_staged_faulty) (auto simp: inv_act_def split: option.splits)

lemma staged_put:
  assumes "files_ok s0" "staged Q s0 st s"
  shows "staged Q s0 st (fst (put_file (st @ [n]) bs s))"
proof (cases "entry s (st @ [n])")
  case None
  have "good Q s0 (fst (put_file (st @ [n]) bs s))"
    using good_put_new [OF staged_good [OF assms(2)] None] .
  with assms(2) None show ?thesis
    by (auto simp: staged_def put_file_def entry_def update_conv' split: if_splits)
next
  case (Some x)
  then obtain i where i: "x = KFile i" "f_fresh s0 \<le> i" using assms(2) by (auto simp: staged_def)
  then have put: "fst (put_file (st @ [n]) bs s) = s\<lparr>f_data := (f_data s)(i := bs)\<rparr>"
    using Some by (simp add: put_file_def inode_at_def canonicalize_def)
  have "j < f_fresh s0" if "entry s0 q = Some (KFile j)" for q j
    using entry_in [OF that] assms(1) by (simp add: files_ok_def)
  with i(2) assms(2) have "good Q s0 (s\<lparr>f_data := (f_data s)(i := bs)\<rparr>)"
    by (fastforce simp: staged_def good_def files_ok_def kept_files_def entry_def split: if_splits)
  with assms(2) show ?thesis unfolding put by (simp add: staged_def entry_def)
qed

lemma inv_staged_write:
  "files_ok s0 \<Longrightarrow> inv_act (staged Q s0 st) (write_file (st @ [n]) bs)"
  unfolding write_file_def by (rule inv_staged_faulty) (simp add: inv_act_def staged_put)

lemma inv_staged_copy: "files_ok s0 \<Longrightarrow> inv_act (staged Q s0 st) (copy_file a (st @ [n]))"
  unfolding copy_file_def by (intro inv_bind inv_staged_read_file inv_staged_write)

lemma remove_dir_all_entry: "remove_dir_all p s = (s1, r) \<Longrightarrow> entry s1 q = Some x \<Longrightarrow> entry s q = Some x"
  by (auto simp: remove_dir_all_def faulty_def entry_def map_of_without delete_conv' split: list.splits option.splits fentry.splits if_splits)

lemma remove_dir_all_fresh: "remove_dir_all p s = (s1, r) \<Longrightarrow> f_fresh s1 = f_fresh s"
  by (auto simp: remove_dir_all_def faulty_def split: list.splits option.splits fentry.splits if_splits)

lemma inv_staged_remove_dir:
  assumes "\<And>q. q \<in> Q \<Longrightarrow> \<not> prefix p q"
  shows "inv_act (staged Q s0 st) (remove_dir_all p)"
proof -
  have "staged Q s0 st s1" if "staged Q s0 st s" "remove_dir_all p s = (s1, r)" for s s1 r
    using inv_actD [OF inv_remove_dir_all [OF assms, of Q s0] staged_good [OF that(1)] that(2)]
      remove_dir_all_entry [OF that(2)] remove_dir_all_fresh [OF that(2)] that(1)
    unfolding staged_def by metis
  then show ?thesis by (auto simp: inv_act_def) (metis prod.collapse)
qed

lemma create_dir_all_entry:
  "create_dir_all p s = (s1, r) \<Longrightarrow> entry s1 q = Some x \<Longrightarrow> entry s q = Some x \<or> (prefix q p \<and> x = KDir)"
  by (auto simp: create_dir_all_def faulty_def entry_def make_dirs_def map_of_make_dirs take_is_prefix simp del: upt_Suc
      split: list.splits option.splits if_splits)

lemma create_dir_all_fresh: "create_dir_all p s = (s1, r) \<Longrightarrow> f_fresh s1 = f_fresh s"
  by (auto simp: create_dir_all_def faulty_def split: list.splits if_splits)

lemma staged_create_dir:
  assumes "staged Q s0 st s" "create_dir_all p s = (s1, r)" "\<not> strict_prefix st p"
  shows "staged Q s0 st s1"
proof -
  have "\<not> prefix (st @ [n]) p" for n using assms(3) by (auto simp: strict_prefix_def prefix_def)
  then show ?thesis
    using assms(1) inv_actD [OF inv_create_dir_all [of Q s0 p] staged_good [OF assms(1)] assms(2)] create_dir_all_entry [OF assms(2)] create_dir_all_fresh [OF assms(2)]
    by (fastforce simp: staged_def)
qed

end
