(* ===== verification/Sanitize.thy ===== *)
theory Sanitize
  imports Control Lcp
begin

text \<open>
  The check of an initramfs before it is baked into a template, \<^verbatim>\<open>src/lingcage/src/template/sanitize.rs\<close>.  The
  commands which list and read the archive are parameters; text is a list of code points.

  The lemmas say which archives pass the check, and where it misses a name its comments say it finds.
\<close>

section \<open>Text\<close>

text \<open>\<^verbatim>\<open>str::lines\<close>: a line ends at a line feed, a carriage return before it is not part of it, and there is no empty last line.\<close>

definition chomp :: "nat list \<Rightarrow> nat list" where
  "chomp s = (if s \<noteq> [] \<and> List.last s = 13 then butlast s else s)"

function text_lines :: "nat list \<Rightarrow> nat list list" where
  "text_lines s =
     (if s = [] then []
      else let line = takeWhile (\<lambda>c. c \<noteq> 10) s; rest = dropWhile (\<lambda>c. c \<noteq> 10) s in
           case rest of [] \<Rightarrow> [line] | _ # others \<Rightarrow> chomp line # text_lines others)"
  by pat_completeness auto
termination
proof (relation "measure length")
  fix s line rest x others
  assume "rest = dropWhile (\<lambda>c. c \<noteq> 10) s" "rest = x # others" "s \<noteq> []"
  then have "length (x # others) \<le> length s" by (metis length_dropWhile_le)
  then show "(others, s) \<in> measure length" by simp
qed simp

declare text_lines.simps [simp del]

text \<open>The UTF-8 bytes of a code point, as characters of a string.\<close>

definition utf8_char :: "nat \<Rightarrow> string" where
  "utf8_char c = map char_of
     (if c < 0x80 then [c]
      else if c < 0x800 then [0xC0 + c div 64, 0x80 + c mod 64]
      else if c < 0x10000 then [0xE0 + c div 4096, 0x80 + c div 64 mod 64, 0x80 + c mod 64]
      else [0xF0 + c div 262144, 0x80 + c div 4096 mod 64, 0x80 + c div 64 mod 64, 0x80 + c mod 64 :: nat])"

definition text_string :: "nat list \<Rightarrow> string" where
  "text_string s = List.bind s utf8_char"

section \<open>The check\<close>

definition FORBIDDEN :: "nat list list" where
  "FORBIDDEN = map lit [''var/lib/systemd/random-seed'', ''loader/random-seed'', ''var/lib/systemd/credential.secret'',
     ''etc/hostname'', ''etc/machine-info'']"

definition HOST_KEYS :: "nat list" where "HOST_KEYS = lit ''etc/ssh/ssh_host_''"
definition MACHINE_ID :: "nat list" where "MACHINE_ID = lit ''etc/machine-id''"

function strip_dots :: "nat list \<Rightarrow> nat list" where
  "strip_dots s = (case strip_prefix [46, 47] s of Some rest \<Rightarrow> strip_dots rest | None \<Rightarrow> s)"
  by pat_completeness auto
termination by (relation "measure length") (auto simp: strip_prefix_def split: if_splits dest: arg_cong [where f = length])

declare strip_dots.simps [simp del]

definition normalize :: "nat list \<Rightarrow> nat list" where
  "normalize line = dropWhile (\<lambda>c. c = 47) (strip_dots (trim line))"

definition populated :: "bytes \<Rightarrow> bool" where
  "populated content \<longleftrightarrow> (let marker = trim (utf8_lossy content) in marker \<noteq> [] \<and> marker \<noteq> lit ''uninitialized'')"

definition forbidden :: "nat list \<Rightarrow> bytes option \<Rightarrow> nat list list" where
  "forbidden listed machine_id =
     remdups_adj
       (filter (\<lambda>name. name \<in> set FORBIDDEN \<or> take (length HOST_KEYS) name = HOST_KEYS) (map normalize (text_lines listed)) @
        (case machine_id of None \<Rightarrow> [] | Some content \<Rightarrow> if populated content then [MACHINE_ID] else []))"

text \<open>The pipelines of \<^verbatim>\<open>zcat\<close> and \<^verbatim>\<open>cpio\<close> over an archive.\<close>

record 'p archive =
  ar_list :: "'p \<Rightarrow> (bytes, sock_error) result"
  ar_read :: "'p \<Rightarrow> nat list \<Rightarrow> (bytes, sock_error) result"

definition list_members :: "'p archive \<Rightarrow> 'p \<Rightarrow> (nat list, 'l lc_error) result" where
  "list_members ar initrd = map_err ErrIo (map_sum id utf8_lossy (ar_list ar initrd))"

definition read_member :: "'p archive \<Rightarrow> 'p \<Rightarrow> nat list \<Rightarrow> (bytes, 'l lc_error) result" where
  "read_member ar initrd member = map_err ErrIo (ar_read ar initrd member)"

definition sanitize_check :: "'p archive \<Rightarrow> 'p \<Rightarrow> (unit, 'l lc_error) result" where
  "sanitize_check ar initrd =
     (case list_members ar initrd of
        Inl e \<Rightarrow> Err e
      | Inr listed \<Rightarrow>
          (case find (\<lambda>line. normalize line = MACHINE_ID) (text_lines listed) of
             None \<Rightarrow> (let found = forbidden listed None in if found = [] then Ok () else Err (ErrSanitize (map text_string found)))
           | Some member \<Rightarrow>
               (case read_member ar initrd (trim member) of
                  Inl e \<Rightarrow> Err e
                | Inr content \<Rightarrow>
                    (let found = forbidden listed (Some content) in
                     if found = [] then Ok () else Err (ErrSanitize (map text_string found))))))"

section \<open>What passes\<close>

definition carries :: "nat list \<Rightarrow> nat list \<Rightarrow> bool" where
  "carries listed name \<longleftrightarrow> name \<in> normalize ` set (text_lines listed)"

lemma remdups_adj_empty [simp]: "remdups_adj xs = [] \<longleftrightarrow> xs = []"
  by (metis remdups_adj.simps(1) remdups_adj_set set_empty)

lemma forbidden_empty:
  "forbidden listed machine_id = [] \<longleftrightarrow>
     (\<forall>name. carries listed name \<longrightarrow> name \<notin> set FORBIDDEN \<and> take (length HOST_KEYS) name \<noteq> HOST_KEYS) \<and>
     (\<forall>content. machine_id = Some content \<longrightarrow> \<not> populated content)"
  by (auto simp: forbidden_def carries_def filter_empty_conv split: option.splits if_splits)

lemma forbidden_set:
  "name \<in> set (forbidden listed None) \<longleftrightarrow> carries listed name \<and> (name \<in> set FORBIDDEN \<or> take (length HOST_KEYS) name = HOST_KEYS)"
  by (auto simp: forbidden_def carries_def)


text \<open>A name which is stored with a slash before its dot is not found, and a name found twice is named twice.\<close>

lemma rooted_dot_is_missed:
  "normalize (lit ''/./etc/hostname'') = lit ''./etc/hostname''" "forbidden (lit ''/./etc/hostname'') None = []"
  by code_simp+

lemma forbidden_has_duplicates:
  "forbidden (lit ''etc/hostname'' @ [10] @ lit ''loader/random-seed'' @ [10] @ lit ''etc/hostname'') None =
     map lit [''etc/hostname'', ''loader/random-seed'', ''etc/hostname'']"
  by code_simp

definition one_archive :: "bytes \<Rightarrow> unit archive" where
  "one_archive bs = \<lparr>ar_list = (\<lambda>_. Ok bs), ar_read = (\<lambda>_ _. Ok [])\<rparr>"

definition hostname_bytes :: bytes where
  "hostname_bytes = [46, 47, 101, 116, 99, 47, 104, 111, 115, 116, 110, 97, 109, 101]"

lemma hostname_lossy: "utf8_lossy hostname_bytes = lit ''./etc/hostname''"
proof -
  have "lit ''./etc/hostname'' = [46, 47, 101, 116, 99, 47, 104, 111, 115, 116, 110, 97, 109, 101]" by code_simp
  then show ?thesis by (simp add: utf8_lossy_ascii hostname_bytes_def del: utf8_lossy.simps)
qed

lemma hostname_lines: "text_lines (lit ''./etc/hostname'') = [lit ''./etc/hostname'']"
  by code_simp

lemma hostname_normal: "normalize (lit ''./etc/hostname'') = lit ''etc/hostname''" "lit ''etc/hostname'' \<noteq> MACHINE_ID" "lit ''etc/hostname'' \<in> set FORBIDDEN"
  by (code_simp, code_simp) (simp add: FORBIDDEN_def)

lemma hostname_forbidden: "forbidden (lit ''./etc/hostname'') None = [lit ''etc/hostname'']"
  by (simp add: forbidden_def hostname_lines hostname_normal)


end
