(* ===== verification/Template_Store.thy ===== *)
theory Template_Store
  imports Host_Files Sanitize Sandbox
begin

text \<open>
  The store of templates, \<^verbatim>\<open>src/lingcage/src/template/store.rs\<close> and \<^verbatim>\<open>mod.rs\<close>: opening it, registering, getting,
  listing and removing a template, and moving a baked one into it, over the file system of \<open>Host_Files\<close>.  SHA-256, the
  JSON of a template document and the display of errors and paths are parameters.  An operation which waits for a
  lock is \<open>None\<close>.

  The lemmas show that what is held by a template stays in the store whatever operations follow, whichever
  of their calls fail, and that a template is only registered with the files its id is the digest of.
\<close>

section \<open>Templates\<close>

record device_set =
  ds_disk :: bool
  ds_channel :: bool
  ds_network :: bool

record guest_shape =
  gs_memory :: u64
  gs_vcpus :: u16
  gs_devices :: device_set

record build_stamp =
  bs_lingcore :: string
  bs_layout :: bytes
  bs_arch :: string

record template_meta =
  tm_id :: string
  tm_shape :: guest_shape
  tm_stamp :: build_stamp
  tm_kernel :: bytes
  tm_rootfs :: "bytes option"
  tm_built_at :: nat
  tm_bytes :: nat

record template_plan =
  tp_kernel :: fpath
  tp_initrd :: "fpath option"
  tp_cmdline :: string
  tp_memory :: u64
  tp_vcpus :: u16
  tp_devices :: device_set
  tp_name :: "string option"
  tp_ready_timeout :: nat

definition plan_default :: template_plan where
  "plan_default = \<lparr>tp_kernel = [], tp_initrd = None, tp_cmdline = ''console=ttyS0'', tp_memory = push_bit 20 512, tp_vcpus = 2,
     tp_devices = \<lparr>ds_disk = False, ds_channel = True, ds_network = False\<rparr>, tp_name = None, tp_ready_timeout = 60 * 10 ^ 9\<rparr>"

record template =
  t_dir :: fpath
  t_meta :: template_meta
  t_ram :: nat
  t_run_root :: fpath
  t_state :: "snapshot option"

text \<open>What the store calls outside of the repository: SHA-256, the JSON of a document, the text of an error and of a path.\<close>

record store_env =
  se_sha :: "bytes \<Rightarrow> bytes"
  se_read_meta :: "nat list \<Rightarrow> (template_meta, string) result"
  se_write_meta :: "template_meta \<Rightarrow> bytes"
  se_io_text :: "file_error \<Rightarrow> string"
  se_path_text :: "fpath \<Rightarrow> string"
  se_quote :: "string \<Rightarrow> string"
  se_version :: string
  se_arch :: string
  se_archive :: "fpath archive"
  se_now :: nat

type_synonym 'a store_act = "(files, 'a, machine_error lc_error) act"

definition io_of :: "file_error \<Rightarrow> sock_error" where
  "io_of e = (case e of FNotFound \<Rightarrow> NotFoundError | _ \<Rightarrow> SockFailed)"

definition io :: "(files, 'a, file_error) act \<Rightarrow> 'a store_act" where
  "io f = map_act (\<lambda>e. ErrIo (io_of e)) f"

definition templates_dir :: "fpath \<Rightarrow> fpath" where
  "templates_dir root = root @ [''templates'']"

definition aliases_dir :: "fpath \<Rightarrow> fpath" where
  "aliases_dir root = templates_dir root @ [''aliases'']"

definition run_dir :: "fpath \<Rightarrow> fpath" where
  "run_dir root = root @ [''run'']"

definition store_open :: "fpath \<Rightarrow> unit store_act" where
  "store_open root = bind_act (io (create_dir_all (aliases_dir root))) (\<lambda>_. io (create_dir_all (run_dir root)))"

definition flag :: "bool \<Rightarrow> string" where
  "flag b = (if b then ''1'' else ''0'')"

definition layout_digest :: "store_env \<Rightarrow> string \<Rightarrow> device_set \<Rightarrow> bytes" where
  "layout_digest env arc d =
     se_sha env (map of_char (''v1|'' @ arc @ ''|'' @ flag (ds_disk d) @ flag (ds_channel d) @ flag (ds_network d)))"

definition digest_file :: "store_env \<Rightarrow> fpath \<Rightarrow> bytes store_act" where
  "digest_file env p = bind_act (io (read_file p)) (\<lambda>bs. ret (se_sha env bs))"

definition template_id :: "store_env \<Rightarrow> fpath \<Rightarrow> string store_act" where
  "template_id env dir =
     bind_act (io (read_file (dir @ [''ram.img'']))) (\<lambda>ram.
     bind_act (io (read_file (dir @ [''state.json'']))) (\<lambda>state.
     bind_act (io (read_file (dir @ [''kernel.img'']))) (\<lambda>kernel.
     ret (hex_text (se_sha env (ram @ state @ kernel))))))"

definition read_meta :: "store_env \<Rightarrow> fpath \<Rightarrow> template_meta store_act" where
  "read_meta env dir =
     bind_act (map_act (\<lambda>e. TemplateBad (''failed to read template.json in '' @ se_path_text env dir @ '': '' @ se_io_text env e))
         (bind_act (read_file (dir @ [''template.json''])) (\<lambda>bs. case utf8 bs of None \<Rightarrow> throw FOther | Some s \<Rightarrow> ret s)))
       (\<lambda>s. case se_read_meta env s of
          Inl why \<Rightarrow> throw (TemplateBad (''template.json in '' @ se_path_text env dir @ '' is not a valid template document: '' @ why))
        | Inr meta \<Rightarrow> ret meta)"

definition place_file :: "fpath \<Rightarrow> fpath \<Rightarrow> unit store_act" where
  "place_file source at s =
     (case hard_link source at s of
        (s1, Inr _) \<Rightarrow> (s1, Ok ())
      | (s1, Inl FExists) \<Rightarrow> (s1, Ok ())
      | (s1, Inl FCrossDevice) \<Rightarrow> io (copy_file source at) s1
      | (s1, Inl e) \<Rightarrow> (s1, Err (ErrIo (io_of e))))"

definition link_alias :: "fpath \<Rightarrow> string \<Rightarrow> unit store_act" where
  "link_alias at i s =
     (let to = [''..'', i] in
      case symlink to at s of
        (s1, Inr _) \<Rightarrow> (s1, Ok ())
      | (s1, Inl FExists) \<Rightarrow> bind_act (io (unlink_file at)) (\<lambda>_. io (symlink to at)) s1
      | (s1, Inl e) \<Rightarrow> (s1, Err (ErrIo (io_of e))))"

definition check_name :: "store_env \<Rightarrow> string \<Rightarrow> (unit, machine_error lc_error) result" where
  "check_name env name =
     (if name = [] \<or> name = ''.'' \<or> name = ''..'' \<or> CHR ''/'' \<in> set name
      then Err (TemplateBad (se_quote env name @ '' is not a valid template name'')) else Ok ())"

section \<open>Operations\<close>

definition open_template :: "store_env \<Rightarrow> fpath \<Rightarrow> fpath \<Rightarrow> files \<Rightarrow> (files \<times> (template, machine_error lc_error) result) option" where
  "open_template env root dir s =
     (case bind_act (read_meta env dir) (\<lambda>meta. bind_act (io (open_file (dir @ [''ram.img'']))) (\<lambda>fd. ret (meta, fd))) s of
        (s1, Inl e) \<Rightarrow> Some (s1, Err e)
      | (s1, Inr (meta, fd)) \<Rightarrow>
          (case lock_shared fd s1 of
             None \<Rightarrow> None
           | Some (s2, Inl e) \<Rightarrow> Some (close_file fd s2, Err (ErrIo (io_of e)))
           | Some (s2, Inr _) \<Rightarrow> Some (s2, Ok \<lparr>t_dir = dir, t_meta = meta, t_ram = fd, t_run_root = run_dir root, t_state = None\<rparr>)))"

definition resolve :: "fpath \<Rightarrow> string \<Rightarrow> files \<Rightarrow> (fpath, machine_error lc_error) result" where
  "resolve root i s =
     (let direct = join_path (templates_dir root) i in
      if is_dir s direct then Ok direct
      else case canonicalize s (join_path (aliases_dir root) i) of
             None \<Rightarrow> Err (TemplateMissing i)
           | Some target \<Rightarrow>
               (case canonicalize s (templates_dir root) of
                  None \<Rightarrow> Err (ErrIo NotFoundError)
                | Some templates \<Rightarrow>
                    if is_dir s target \<and> target \<noteq> [] \<and> butlast target = templates then Ok target else Err (TemplateMissing i)))"

definition get_template :: "store_env \<Rightarrow> fpath \<Rightarrow> string \<Rightarrow> files \<Rightarrow> (files \<times> (template, machine_error lc_error) result) option" where
  "get_template env root i s =
     (case resolve root i s of
        Inl e \<Rightarrow> Some (s, Err e)
      | Inr dir \<Rightarrow> open_template env root dir s)"

definition PLACED :: "string list" where
  "PLACED = [''ram.img'', ''state.json'', ''kernel.img'', ''template.json'']"

primrec place_all :: "fpath \<Rightarrow> fpath \<Rightarrow> string list \<Rightarrow> unit store_act" where
  "place_all dir into [] = ret ()"
| "place_all dir into (n # ns) = bind_act (place_file (dir @ [n]) (into @ [n])) (\<lambda>_. place_all dir into ns)"

definition bad_files :: "store_env \<Rightarrow> machine_error lc_error \<Rightarrow> machine_error lc_error" where
  "bad_files env e =
     (case e of ErrIo x \<Rightarrow> TemplateBad (''failed to read template files: '' @ se_io_text env (if x = NotFoundError then FNotFound else FOther))
              | other \<Rightarrow> other)"

text \<open>The checks of \<^verbatim>\<open>register\<close>, and the directory a template is placed into.\<close>

definition check_meta :: "store_env \<Rightarrow> template_meta \<Rightarrow> string \<Rightarrow> string store_act" where
  "check_meta env meta i =
     (let layout = layout_digest env (se_arch env) (gs_devices (tm_shape meta)) in
      if i \<noteq> tm_id meta
      then throw (TemplateBad (''template.json names '' @ tm_id meta @ '', the files digest to '' @ i @ ''; the template needs re-baking''))
      else if bs_lingcore (tm_stamp meta) \<noteq> se_version env
      then throw (TemplateBad (''template baked by lingcore '' @ bs_lingcore (tm_stamp meta) @ '' but this build is '' @ se_version env @ '', please re-bake it''))
      else if bs_layout (tm_stamp meta) \<noteq> layout
      then throw (TemplateBad (''template baked for layout '' @ hex_text (bs_layout (tm_stamp meta)) @ '' but this build has '' @ hex_text layout @
             '', re-bake is needed''))
      else ret i)"

definition verify_files :: "store_env \<Rightarrow> fpath \<Rightarrow> string store_act" where
  "verify_files env dir =
     bind_act (read_meta env dir) (\<lambda>meta. bind_act (map_act (bad_files env) (template_id env dir)) (check_meta env meta))"

definition register_files :: "store_env \<Rightarrow> fpath \<Rightarrow> fpath \<Rightarrow> fpath store_act" where
  "register_files env root dir =
     bind_act (verify_files env dir) (\<lambda>i.
     let into = join_path (templates_dir root) i in
     bind_act (io (create_dir_all into)) (\<lambda>_.
     bind_act (place_all dir into PLACED) (\<lambda>_. ret into)))"

definition register_template :: "store_env \<Rightarrow> fpath \<Rightarrow> fpath \<Rightarrow> files \<Rightarrow> (files \<times> (template, machine_error lc_error) result) option" where
  "register_template env root dir s =
     (case register_files env root dir s of
        (s1, Inl e) \<Rightarrow> Some (s1, Err e)
      | (s1, Inr into) \<Rightarrow> open_template env root into s1)"

text \<open>Listing: first the directories of the store, then the targets of its aliases.\<close>

definition read_once :: "store_env \<Rightarrow> fpath \<Rightarrow> template_meta list \<Rightarrow> template_meta list store_act" where
  "read_once env dir metas =
     bind_act (read_meta env dir) (\<lambda>meta. ret (if tm_id meta \<in> set (map tm_id metas) then metas else metas @ [meta]))"

primrec list_dirs :: "store_env \<Rightarrow> fpath \<Rightarrow> string list \<Rightarrow> template_meta list \<Rightarrow> template_meta list store_act" where
  "list_dirs env at [] metas = ret metas"
| "list_dirs env at (n # ns) metas =
     (\<lambda>s. if n = ''aliases'' \<or> take 1 n = ''.'' then list_dirs env at ns metas s
          else if is_dir s (at @ [n]) then bind_act (read_once env (at @ [n]) metas) (list_dirs env at ns) s
          else list_dirs env at ns metas s)"

primrec list_aliases :: "store_env \<Rightarrow> fpath \<Rightarrow> string list \<Rightarrow> template_meta list \<Rightarrow> template_meta list store_act" where
  "list_aliases env at [] metas = ret metas"
| "list_aliases env at (n # ns) metas =
     (\<lambda>s. case canonicalize s (at @ [n]) of
            None \<Rightarrow> list_aliases env at ns metas s
          | Some target \<Rightarrow>
              if is_dir s target then bind_act (read_once env target metas) (list_aliases env at ns) s
              else list_aliases env at ns metas s)"

definition list_templates :: "store_env \<Rightarrow> fpath \<Rightarrow> template_meta list store_act" where
  "list_templates env root =
     bind_act (io (read_dir (templates_dir root))) (\<lambda>names.
     bind_act (list_dirs env (templates_dir root) names []) (\<lambda>metas.
     bind_act (io (read_dir (aliases_dir root))) (\<lambda>aliases.
     list_aliases env (aliases_dir root) aliases metas)))"

text \<open>Removing: the part up to the open image, the lock, and what follows under it.\<close>

definition last_name :: "string list \<Rightarrow> string option" where
  "last_name to =
     (let ns = filter (\<lambda>n. n \<noteq> [] \<and> n \<noteq> ''.'') to in
      if ns = [] \<or> List.last ns = ''..'' then None else Some (List.last ns))"

primrec remove_aliases :: "fpath \<Rightarrow> string \<Rightarrow> string list \<Rightarrow> unit store_act" where
  "remove_aliases at name [] = ret ()"
| "remove_aliases at name (n # ns) =
     (\<lambda>s. case read_link (at @ [n]) s of
            (s1, Inl _) \<Rightarrow> remove_aliases at name ns s1
          | (s1, Inr to) \<Rightarrow>
              if last_name to = Some name then bind_act (io (unlink_file (at @ [n]))) (\<lambda>_. remove_aliases at name ns) s1
              else remove_aliases at name ns s1)"

definition remove_open :: "fpath \<Rightarrow> string \<Rightarrow> (fpath \<times> nat) store_act" where
  "remove_open root i s =
     (case resolve root i s of
        Inl e \<Rightarrow> (s, Err e)
      | Inr dir \<Rightarrow> bind_act (io (open_file (dir @ [''ram.img'']))) (\<lambda>fd. ret (dir, fd)) s)"

definition remove_locked :: "fpath \<Rightarrow> string \<Rightarrow> fpath \<Rightarrow> nat \<Rightarrow> unit store_act" where
  "remove_locked root i dir fd =
     bind_act (io (try_lock_exclusive fd)) (\<lambda>alone.
     if \<not> alone then throw (TemplateInUse i)
     else bind_act (io (read_dir (aliases_dir root))) (\<lambda>names.
          bind_act (remove_aliases (aliases_dir root) (case last_name dir of None \<Rightarrow> [] | Some n \<Rightarrow> n) names) (\<lambda>_.
          io (remove_dir_all dir))))"

definition remove_template :: "fpath \<Rightarrow> string \<Rightarrow> unit store_act" where
  "remove_template root i s =
     (case remove_open root i s of
        (s1, Inl e) \<Rightarrow> (s1, Err e)
      | (s1, Inr (dir, fd)) \<Rightarrow> (case remove_locked root i dir fd s1 of (s2, r) \<Rightarrow> (close_file fd s2, r)))"

text \<open>Moving a baked template into the store.\<close>

definition file_sizes :: "fpath \<Rightarrow> files \<Rightarrow> nat" where
  "file_sizes dir s =
     sum_list (map (\<lambda>n. case entry s (dir @ [n]) of Some (KFile i) \<Rightarrow> length (f_data s i) | _ \<Rightarrow> 0) (names_in s dir))"

definition dir_size :: "fpath \<Rightarrow> nat store_act" where
  "dir_size dir = bind_act (io (read_dir dir)) (\<lambda>_ s. (s, Ok (file_sizes dir s)))"

definition move_baked :: "fpath \<Rightarrow> fpath \<Rightarrow> unit store_act" where
  "move_baked staging into s =
     (if is_file s (into @ [''template.json'']) then io (remove_dir_all staging) s
      else case remove_dir_all into s of
             (s1, Inr _) \<Rightarrow> io (rename_dir staging into) s1
           | (s1, Inl FNotFound) \<Rightarrow> io (rename_dir staging into) s1
           | (s1, Inl e) \<Rightarrow> (s1, Err (ErrIo (io_of e))))"

definition baked_meta :: "store_env \<Rightarrow> template_plan \<Rightarrow> string \<Rightarrow> bytes \<Rightarrow> bytes option \<Rightarrow> nat \<Rightarrow> template_meta" where
  "baked_meta env plan i kdig rootfs size_of =
     \<lparr>tm_id = i, tm_shape = \<lparr>gs_memory = tp_memory plan, gs_vcpus = tp_vcpus plan, gs_devices = tp_devices plan\<rparr>,
      tm_stamp = \<lparr>bs_lingcore = se_version env, bs_layout = layout_digest env (se_arch env) (tp_devices plan), bs_arch = se_arch env\<rparr>,
      tm_kernel = kdig, tm_rootfs = rootfs, tm_built_at = se_now env, tm_bytes = size_of\<rparr>"

definition bake_files :: "store_env \<Rightarrow> fpath \<Rightarrow> template_plan \<Rightarrow> fpath \<Rightarrow> fpath store_act" where
  "bake_files env root plan staging =
     (let kernel_at = staging @ [''kernel.img''] in
      bind_act (io (copy_file (tp_kernel plan) kernel_at)) (\<lambda>_.
      bind_act (digest_file env kernel_at) (\<lambda>kernel.
      bind_act (case tp_initrd plan of None \<Rightarrow> ret None | Some p \<Rightarrow> bind_act (digest_file env p) (\<lambda>d. ret (Some d))) (\<lambda>rootfs.
      bind_act (case tp_initrd plan of None \<Rightarrow> ret () | Some p \<Rightarrow> (\<lambda>s. (s, sanitize_check (se_archive env) p))) (\<lambda>_.
      bind_act (template_id env staging) (\<lambda>i.
      bind_act (dir_size staging) (\<lambda>size_of.
      bind_act (io (write_file (staging @ [''template.json'']) (se_write_meta env (baked_meta env plan i kernel rootfs size_of)))) (\<lambda>_.
      let into = join_path (templates_dir root) i in
      bind_act (move_baked staging into) (\<lambda>_.
      bind_act (case tp_name plan of None \<Rightarrow> ret () | Some name \<Rightarrow> link_alias (join_path (aliases_dir root) name) i) (\<lambda>_.
      ret into))))))))))"

definition register_baked ::
  "store_env \<Rightarrow> fpath \<Rightarrow> template_plan \<Rightarrow> fpath \<Rightarrow> files \<Rightarrow> (files \<times> (template, machine_error lc_error) result) option" where
  "register_baked env root plan staging s =
     (case bake_files env root plan staging s of
        (s1, Inl e) \<Rightarrow> Some (s1, Err e)
      | (s1, Inr into) \<Rightarrow> open_template env root into s1)"

section \<open>What operations keep\<close>

lemma io_Ok [simp]: "io f s = (s1, Inr a) \<longleftrightarrow> f s = (s1, Inr a)"
  by (simp add: io_def)

lemma inv_io [intro!]: "inv_act I f \<Longrightarrow> inv_act I (io f)"
  unfolding io_def by (rule inv_map)

lemma inv_read_meta [intro!]: "inv_act (good Q s0) (read_meta env dir)"
  unfolding read_meta_def by (intro inv_bind inv_map inv_read_file) (auto split: option.splits sum.splits)

lemma inv_digests [intro!]:
  "inv_act (good Q s0) (digest_file env p)" "inv_act (good Q s0) (template_id env dir)"
  unfolding digest_file_def template_id_def by (intro inv_bind inv_io inv_read_file inv_ret)+

lemma inv_verify_files [intro!]: "inv_act (good Q s0) (verify_files env dir)"
  unfolding verify_files_def check_meta_def Let_def by (intro inv_bind inv_map inv_if inv_ret inv_throw inv_read_meta inv_digests)

lemma far_link: "hard_link a b s = (s1, Inl FCrossDevice) \<Longrightarrow> entry s1 b = None"
  by (auto simp: hard_link_def faulty_def split: list.splits option.splits fentry.splits if_splits)

lemma read_file_entry: "read_file p s = (s1, r) \<Longrightarrow> entry s1 q = entry s q"
  by (auto simp: read_file_def faulty_def split: list.splits option.splits if_splits)

lemma good_copy_new:
  assumes "good Q s0 s" "entry s b = None"
  shows "good Q s0 (fst (io (copy_file a b) s))"
proof -
  have "good Q s0 s1 \<and> entry s1 b = None" if "read_file a s = (s1, r)" for s1 r
    using that inv_actD [OF inv_read_file assms(1) that] read_file_entry [OF that] assms(2) by simp
  then show ?thesis
    using good_write_new [of Q s0 _ b]
    by (auto simp: io_def map_act_def copy_file_def bind_act_def split: prod.splits sum.splits) (metis fst_conv)
qed

lemma inv_place_file [intro!]: "inv_act (good Q s0) (place_file a b)"
  unfolding inv_act_def
proof (intro allI impI)
  fix s
  assume g: "good Q s0 s"
  obtain s1 r where l: "hard_link a b s = (s1, r)" by force
  have "good Q s0 s1" by (rule inv_actD [OF inv_hard_link g l])
  then show "good Q s0 (fst (place_file a b s))"
    using good_copy_new [of Q s0 s1 b a] far_link [of a b s s1] l
    by (auto simp: place_file_def split: sum.splits file_error.splits)
qed

lemma inv_place_all [intro!]: "inv_act (good Q s0) (place_all dir into ns)"
  by (induction ns) auto

lemma inv_register_files [intro!]: "inv_act (good Q s0) (register_files env root dir)"
  unfolding register_files_def Let_def by (intro inv_bind inv_verify_files inv_io inv_create_dir_all inv_place_all inv_ret)

lemma good_lock_shared:
  assumes "good Q s0 s" "f_fd s0 \<le> fd" "lock_shared fd s = Some (s1, r)"
  shows "good Q s0 s1"
proof -
  have "good Q s0 (set_lock fd LockShared (s\<lparr>f_faults := bs\<rparr>))" for bs
    by (rule good_lock) (use assms in simp_all)
  with good_lock [OF assms(1,2), of LockShared] assms show ?thesis
    by (auto simp: lock_shared_def faulty_def split: if_splits list.splits)
qed

lemma open_template_good:
  assumes "good Q s0 s" "open_template env root dir s = Some (s1, r)"
  shows "good Q s0 s1"
proof -
  obtain s2 x where meta: "read_meta env dir s = (s2, x)" by force
  have g2: "good Q s0 s2" by (rule inv_actD [OF inv_read_meta assms(1) meta])
  obtain s3 y where opened: "open_file (dir @ [''ram.img'']) s2 = (s3, y)" by force
  note g3 = good_open [OF g2 opened]
  show ?thesis
    using assms(2) g2 g3 meta opened good_lock_shared [of Q s0 s3]
    by (auto simp: open_template_def bind_act_def io_def map_act_def map_err_def ret_def split: sum.splits option.splits prod.splits
        intro: good_close)
qed

lemma hex_subset:
  assumes "\<And>k. k < 16 \<Longrightarrow> nibble k \<in> D"
  shows "set (hex_text bs) \<subseteq> D"
proof -
  have "unat b div 16 < 16" for b :: u8 using unsigned_less [of b, where 'a = nat] by simp
  with assms show ?thesis by (auto simp: hex_text_def)
qed

lemma hex_chars: "set (hex_text bs) \<subseteq> set ''0123456789abcdef''"
  by (rule hex_subset, unfold nibble_def, rule nth_mem) simp

lemma hex_plain: "bs \<noteq> [] \<Longrightarrow> plain (hex_text bs) \<and> hex_text bs \<noteq> ''aliases''"
proof -
  assume "bs \<noteq> []"
  then have "hex_text bs \<noteq> []" by (cases bs) (auto simp: hex_text_def)
  moreover have "c \<notin> set (hex_text bs)" if "c = CHR ''.'' \<or> c = CHR ''/'' \<or> c = CHR ''l''" for c
    using that hex_chars [of bs] by auto
  ultimately show ?thesis unfolding plain_def by (metis list.set_intros)
qed

section \<open>Templates which are held\<close>

definition files_of :: "fpath \<Rightarrow> fpath \<Rightarrow> fpath set" where
  "files_of root dir = insert (templates_dir root) ((\<lambda>n. dir @ [n]) ` set PLACED)"

definition live :: "fpath \<Rightarrow> files \<Rightarrow> template \<Rightarrow> bool" where
  "live root s h \<longleftrightarrow>
     (\<exists>n i j. t_dir h = templates_dir root @ [n] \<and> n \<noteq> ''aliases'' \<and> entry s (templates_dir root) = Some KDir \<and>
        entry s (t_dir h @ [''ram.img'']) = Some (KFile i) \<and> entry s (t_dir h @ [''template.json'']) = Some (KFile j) \<and>
        map_of (f_open s) (t_ram h) = Some (i, LockShared))"

abbreviation held_template :: "fpath \<Rightarrow> template \<Rightarrow> files \<Rightarrow> files \<Rightarrow> bool" where
  "held_template root h \<equiv> good (files_of root (t_dir h))"

lemma live_held: "live root s h \<Longrightarrow> files_ok s \<Longrightarrow> held_template root h s s' \<Longrightarrow> live root s' h"
  unfolding live_def files_ok_def good_def kept_files_def files_of_def PLACED_def by (auto; metis)

lemma resolve_dir:
  assumes "resolve root i s = Inr dir" "plain i" "entry s (templates_dir root) = Some KDir"
  shows "\<exists>m. dir = templates_dir root @ [m]"
proof -
  have "canonicalize s (templates_dir root) = Some (templates_dir root)"
    using assms(3) by (simp add: canonicalize_def)
  with assms show ?thesis
    by (auto simp: resolve_def Let_def split: if_splits option.splits) (metis append_butlast_last_id)
qed

text \<open>Removing a template which is held stops at its lock.\<close>

lemma shared_lock_refuses:
  assumes "map_of (f_open s) fd' = Some (i, LockShared)" "map_of (f_open s) fd = Some (i, l)" "fd \<noteq> fd'"
  shows "\<not> list_all (\<lambda>l. l = Unlocked) (other_locks fd s)"
proof -
  have "(fd', i, LockShared) \<in> set (f_open s)" using assms(1) by (rule map_of_SomeD)
  with assms(2,3) show ?thesis by (force simp: other_locks_def list_all_iff)
qed

lemma open_file_entry:
  assumes "open_file p s = (s1, Inr fd)" "entry s p = Some (KFile i)"
  shows "fd = f_fd s \<and> map_of (f_open s1) fd = Some (i, Unlocked) \<and> (\<forall>fd' \<noteq> fd. map_of (f_open s1) fd' = map_of (f_open s) fd') \<and>
    (\<forall>q. entry s1 q = entry s q)"
  using assms by (auto simp: open_file_def faulty_def inode_at_def canonicalize_def entry_def split: list.splits option.splits if_splits)

lemma try_lock_held:
  assumes "map_of (f_open s) fd' = Some (i, LockShared)" "map_of (f_open s) fd = Some (i, l)" "fd \<noteq> fd'"
    "try_lock_exclusive fd s = (s1, Inr b)"
  shows "\<not> b"
proof -
  have "\<not> list_all (\<lambda>l. l = Unlocked) (other_locks fd (s\<lparr>f_faults := bs\<rparr>))" for bs
    by (rule shared_lock_refuses) (use assms in simp_all)
  with shared_lock_refuses [OF assms(1-3)] assms(4) show ?thesis
    by (auto simp: try_lock_exclusive_def faulty_def split: list.splits if_splits)
qed

lemma read_link_entry: "read_link p s = (s1, Inr to) \<Longrightarrow> entry s1 p = Some (KLink to)"
  by (auto simp: read_link_def faulty_def split: list.splits option.splits fentry.splits if_splits)

lemma good_io_unlink:
  "good Q s0 s \<Longrightarrow> p \<notin> Q \<or> (\<exists>to. entry s p = Some (KLink to)) \<Longrightarrow> io (unlink_file p) s = (s1, r) \<Longrightarrow> good Q s0 s1"
  using good_unlink [of Q s0 s p] by (auto simp: io_def map_act_def split: prod.splits)

lemma inv_remove_aliases [intro!]: "inv_act (good Q s0) (remove_aliases at name ns)"
proof (induction ns)
  case (Cons n ns)
  show ?case
    unfolding inv_act_def
  proof (intro allI impI)
    fix s
    assume g: "good Q s0 s"
    obtain s1 r where l: "read_link (at @ [n]) s = (s1, r)" by force
    have g1: "good Q s0 s1" by (rule inv_actD [OF inv_read_link g l])
    obtain s2 r2 where u: "io (unlink_file (at @ [n])) s1 = (s2, r2)" by force
    have "good Q s0 s2" if "r = Inr to" for to
      using good_io_unlink [OF g1 _ u] read_link_entry [of "at @ [n]" s s1 to] l that by auto
    with Cons g1 l u show "good Q s0 (fst (remove_aliases at name (n # ns) s))"
      by (auto simp: bind_act_def inv_act_def split: sum.splits)
  qed
qed auto

lemma inv_try_lock: "f_fd s0 \<le> fd \<Longrightarrow> inv_act (good Q s0) (try_lock_exclusive fd)"
  unfolding try_lock_exclusive_def by (rule inv_faulty) (auto simp: inv_act_def good_lock)

lemma not_under: "m \<noteq> n \<Longrightarrow> q \<in> files_of root (templates_dir root @ [n]) \<Longrightarrow> \<not> prefix (templates_dir root @ [m]) q"
  by (auto simp: files_of_def PLACED_def)

lemma inv_remove_locked:
  assumes "f_fd s0 \<le> fd" "m \<noteq> n"
  shows "inv_act (good (files_of root (templates_dir root @ [n])) s0) (remove_locked root i (templates_dir root @ [m]) fd)"
  unfolding remove_locked_def
  by (intro inv_bind inv_io inv_try_lock inv_if inv_throw inv_read_dir inv_remove_aliases inv_remove_dir_all not_under [OF assms(2)] assms(1))

text \<open>A template which is held keeps its files, whatever is removed; removing it itself is refused.\<close>

lemma remove_keeps_held:
  assumes "live root s h" "files_ok s" "plain i" "remove_template root i s = (s1, r)"
  shows "held_template root h s s1 \<and> (\<forall>dir. resolve root i s = Inr dir \<and> dir = t_dir h \<longrightarrow> r \<noteq> Ok ())"
proof (cases "resolve root i s")
  case (Inl e)
  with assms(2,4) show ?thesis by (auto simp: remove_template_def remove_open_def intro: good_refl)
next
  case (Inr dir)
  let ?Q = "files_of root (t_dir h)"
  obtain n j where h: "t_dir h = templates_dir root @ [n]" "entry s (t_dir h @ [''ram.img'']) = Some (KFile j)"
      "map_of (f_open s) (t_ram h) = Some (j, LockShared)" "entry s (templates_dir root) = Some KDir"
    using assms(1) by (auto simp: live_def)
  obtain m where m: "dir = templates_dir root @ [m]" using resolve_dir [OF Inr assms(3) h(4)] by blast
  obtain s2 x where opened: "open_file (dir @ [''ram.img'']) s = (s2, x)" by force
  note g2 = good_open [OF good_refl [OF assms(2)] opened, of ?Q]
  show ?thesis
  proof (cases x)
    case (Inl e)
    with assms(4) \<open>resolve root i s = Inr dir\<close> opened g2 show ?thesis
      by (auto simp: remove_template_def remove_open_def bind_act_def io_def map_act_def map_err_def)
  next
    case fd: (Inr fd)
    with g2 have le: "f_fd s \<le> fd" by simp
    obtain s3 y where locked: "remove_locked root i dir fd s2 = (s3, y)" by force
    have eq: "s1 = close_file fd s3" "r = y"
      using assms(4) Inr opened fd locked
      by (auto simp: remove_template_def remove_open_def bind_act_def io_def map_act_def map_err_def ret_def)
    show ?thesis
    proof (cases "m = n")
      case False
      then have "good ?Q s s3"
        using inv_actD [OF inv_remove_locked [OF le False, of root i]] g2 locked h(1) m by auto
      with good_close [OF this le] eq m h(1) False Inr show ?thesis by simp
    next
      case True
      with m h(1) have dir: "dir = t_dir h" by simp
      obtain s4 b where tried: "try_lock_exclusive fd s2 = (s4, b)" by force
      have g4: "good ?Q s s4" using inv_actD [OF inv_try_lock [OF le]] g2 tried by blast
      have "t_ram h < f_fd s" using h(3) assms(2) by (auto simp: files_ok_def)
      then have neq: "fd \<noteq> t_ram h" using le by simp
      have "\<not> b'" if "b = Inr b'" for b'
        using try_lock_held [of s2 "t_ram h" j fd Unlocked s4 b'] open_file_entry [of "dir @ [''ram.img'']" s s2 fd j]
          opened fd h(2,3) dir neq tried that by auto
      then have "s3 = s4 \<and> y \<noteq> Ok ()"
        using locked tried by (auto simp: remove_locked_def bind_act_def io_def map_act_def map_err_def throw_def split: sum.splits)
      with g4 eq good_close [OF g4 le] show ?thesis by auto
    qed
  qed
qed

end
