(* ===== verification/Template_Build.thy ===== *)
theory Template_Build
  imports Template_Store
begin

text \<open>
  Building a template, \<^verbatim>\<open>build\<close> of \<^verbatim>\<open>src/lingcage/src/template/store.rs\<close>: the boot of a guest, the handshake with
  its agent, the capture of its state and RAM into a staging directory, and the move of that into the store.  The
  guest is the one of \<open>Machine_State\<close> and \<open>Control\<close>; assembling it, what it does until the handshake is over and how
  its threads end are parameters.
\<close>

definition BUILD_HOSTNAME :: string where "BUILD_HOSTNAME = ''lc-build''"
definition FIRST_REQUEST :: u32 where "FIRST_REQUEST = 1"
definition CONSOLE_TAIL :: nat where "CONSOLE_TAIL = 4096"

text \<open>The ring of the console of a build boot, and what an error shows of it.\<close>

definition tail_write :: "bytes \<Rightarrow> bytes \<Rightarrow> bytes \<times> nat" where
  "tail_write bs kept_out = (let all = kept_out @ bs in (drop (length all - CONSOLE_TAIL) all, length bs))"

definition tail_text :: "bytes \<Rightarrow> string" where
  "tail_text kept_out = text_string (utf8_lossy kept_out)"

record ('w, 'f, 'h, 'd, 'm, 'e, 'l) build_env =
  be_store :: store_env
  be_hv :: "(unit, machine_error) result"
  be_cid :: u64
  be_pid :: nat
  be_bind :: "(unit, sock_error) result"
  be_new :: "template_plan \<Rightarrow> u64 \<Rightarrow> fpath \<Rightarrow> (('h, 'd, 'm, 'e, 'l) held_guest, machine_error) result"
  be_boot :: "('h, 'd, 'm, 'e, 'l) held_guest \<Rightarrow> ('h, 'd, 'm, 'e, 'l) held_guest"
  be_console :: bytes
  be_order :: "('h, 'd, 'm) order_env"
  be_faults :: "nat option list"
  be_asked :: "(unit, machine_error) result"
  be_ending :: "machine \<Rightarrow> machine"
  be_handshake :: "('w, 'f) handshake"
  be_listen :: "'w listening"
  be_socks :: "nat \<Rightarrow> 'w sock"
  be_write_timeout :: "nat \<Rightarrow> nat \<Rightarrow> 'w \<Rightarrow> 'w \<times> (unit, sock_error) result"

type_synonym ('h, 'd, 'm, 'e, 'l, 'w) built =
  "(('h, 'd, 'm, 'e, 'l) held_guest \<times> files \<times> 'w \<times> (unit, machine_error lc_error) result) option"

text \<open>Accepting the control connection: a poll of at most a second at a time, until the deadline.\<close>

partial_function (option) build_accept :: "'w timed \<Rightarrow> 'w listening \<Rightarrow> nat \<Rightarrow> 'w \<Rightarrow> ('w \<times> (nat, 'x lc_error) result) option" where
  "build_accept t l deadline w =
     (let (w1, now) = clock t w in
      if deadline \<le> now then Some (w1, Err (ErrTimeout ''build boot''))
      else case l_poll l (min ((deadline - now) div 1000000) 1000) w1 of
             (w2, Inl e) \<Rightarrow> (if e = SockInterrupted then build_accept t l deadline w2 else Some (w2, Err (ErrIo e)))
           | (w2, Inr ready) \<Rightarrow>
               (if ready then (let (w3, r) = l_accept l w2 in Some (w3, map_err ErrIo r)) else build_accept t l deadline w2))"

definition build_identity :: "('w, 'f) handshake \<Rightarrow> 'w \<Rightarrow> ('w \<times> (identify, 'x lc_error) result) option" where
  "build_identity h w =
     (case draw (getrandom h) 32 [] w of
        None \<Rightarrow> None
      | Some (w1, Inl e) \<Rightarrow> Some (w1, Err e)
      | Some (w1, Inr entropy) \<Rightarrow>
          (case draw (getrandom h) 16 [] w1 of
             None \<Rightarrow> None
           | Some (w2, Inl e) \<Rightarrow> Some (w2, Err e)
           | Some (w2, Inr machine) \<Rightarrow>
               (case draw (getrandom h) 8 [] w2 of
                  None \<Rightarrow> None
                | Some (w3, Inl e) \<Rightarrow> Some (w3, Err e)
                | Some (w3, Inr g) \<Rightarrow>
                    (case nanos_now h w3 of
                       (w4, now) \<Rightarrow>
                         Some (w4, Ok \<lparr>i_hostname = BUILD_HOSTNAME, i_machine_id = hex_text machine, i_generation = from_le g,
                                 i_entropy = entropy, i_unix_nanos = now\<rparr>)))))"

definition build_ready :: "bytes \<Rightarrow> 'f ready json \<Rightarrow> frame \<Rightarrow> ('f ready, 'x lc_error) result" where
  "build_ready kept_out j f =
     (if f_kind f \<noteq> READY \<or> f_flags f AND SESSION_START = 0
      then Err (ErrAgent (''first frame is type '' @ shown (unat (f_kind f)) @ '' instead of READY, console tail: '' @ tail_text kept_out))
      else and_then (map_err ErrProtocol (frame_payload j f))
        (\<lambda>r. if PROTOCOL < r_protocol r
             then Err (ErrAgent (''agent protocol is '' @ shown (unat (r_protocol r)) @ '' but this build is '' @ shown (unat PROTOCOL)))
             else Ok r))"

definition build_identified :: "store_env \<Rightarrow> bytes \<Rightarrow> identified json \<Rightarrow> string \<Rightarrow> frame \<Rightarrow> (unit, 'x lc_error) result" where
  "build_identified env kept_out j host f =
     (if f_kind f \<noteq> IDENTIFIED
      then Err (ErrAgent (''reply to IDENTIFY is type '' @ shown (unat (f_kind f)) @ '' instead of IDENTIFIED, console tail: '' @ tail_text kept_out))
      else and_then (map_err ErrProtocol (frame_payload j f))
        (\<lambda>x. if hostname_now x \<noteq> host
             then Err (ErrAgent (''hostname is '' @ se_quote env (hostname_now x) @ '' instead of '' @ se_quote env host @
                     '' we sent, console tail: '' @ tail_text kept_out))
             else Ok ()))"

definition build_handshake ::
  "store_env \<Rightarrow> bytes \<Rightarrow> ('w, 'f) handshake \<Rightarrow> 'w sock \<Rightarrow> nat \<Rightarrow> identify \<Rightarrow> 'w \<Rightarrow> ('w \<times> (unit, 'x lc_error) result) option" where
  "build_handshake env kept_out h k deadline who w =
     (case deadline_frame (h_timed h) k deadline ''ready frame of build'' w of
        None \<Rightarrow> None
      | Some (w1, Inl e) \<Rightarrow> Some (w1, Err e)
      | Some (w1, Inr first) \<Rightarrow>
          (case build_ready kept_out (json_ready h) first of
             Inl e \<Rightarrow> Some (w1, Err e)
           | Inr _ \<Rightarrow>
               (case with_payload (json_identify h) FIRST_REQUEST IDENTIFY 0 who of
                  Inl e \<Rightarrow> Some (w1, Err (ErrProtocol e))
                | Inr f \<Rightarrow>
                    (case write_to k f w1 of
                       None \<Rightarrow> None
                     | Some (w2, Inl e) \<Rightarrow> Some (w2, Err (ErrProtocol e))
                     | Some (w2, Inr _) \<Rightarrow>
                         (case deadline_frame (h_timed h) k deadline ''identified frame of build'' w2 of
                            None \<Rightarrow> None
                          | Some (w3, Inl e) \<Rightarrow> Some (w3, Err e)
                          | Some (w3, Inr answer) \<Rightarrow> Some (w3, build_identified env kept_out (json_identified h) (i_hostname who) answer))))))"

text \<open>A file which is created and then written by a call which may fail after some of its bytes.\<close>

definition create_with :: "fpath \<Rightarrow> bytes \<Rightarrow> (unit, machine_error) result \<Rightarrow> unit store_act" where
  "create_with p bs r = bind_act (io (write_file p bs)) (\<lambda>_. case r of Inl e \<Rightarrow> throw (ErrLingcore e) | Inr _ \<Rightarrow> ret ())"

definition capture_files ::
  "('h, 'd, 'm) order_env \<Rightarrow> nat option list \<Rightarrow> fpath \<Rightarrow> ('h, 'd, 'm, 'e, 'l) held_guest \<Rightarrow> files \<Rightarrow>
     ('h, 'd, 'm, 'e, 'l) held_guest \<times> files \<times> (unit, machine_error lc_error) result" where
  "capture_files env fs staging x s =
     (case pause env (he_machine x) of
        (m, Inl e) \<Rightarrow> (x\<lparr>he_machine := m\<rparr>, s, Err (ErrLingcore e))
      | (m, Inr _) \<Rightarrow>
          (let x1 = x\<lparr>he_machine := m\<rparr> in
           case capture_guest (oe_hv env) (oe_devices env) (oe_taken env) (guest_now x1) of
             Inl e \<Rightarrow> (x1, s, Err (ErrLingcore e))
           | Inr taken \<Rightarrow>
               Pair x1 (bind_act
                 (case snapshot_write (oe_json env) taken of
                    Inl e \<Rightarrow> create_with (staging @ [''state.json'']) [] (Err e)
                  | Inr doc \<Rightarrow> create_with (staging @ [''state.json'']) doc (Ok ()))
                 (\<lambda>_. case write_memory (oe_vm env) (m_state m) (gu_ram (he_guest x1)) \<lparr>img = [], img_at = 0, faults = fs\<rparr> of
                        (f, r) \<Rightarrow> create_with (staging @ [''ram.img'']) (img f) r) s)))"

definition capture_ready ::
  "('w, 'f, 'h, 'd, 'm, 'e, 'l) build_env \<Rightarrow> nat \<Rightarrow> fpath \<Rightarrow> ('h, 'd, 'm, 'e, 'l) held_guest \<Rightarrow> files \<Rightarrow> 'w \<Rightarrow>
     ('h, 'd, 'm, 'e, 'l, 'w) built" where
  "capture_ready be within staging x s w =
     (let h = be_handshake be; (w1, now) = clock (h_timed h) w; deadline = now + within in
      case build_accept (h_timed h) (be_listen be) deadline w1 of
        None \<Rightarrow> None
      | Some (w2, Inl e) \<Rightarrow> Some (x, s, w2, Err e)
      | Some (w2, Inr c) \<Rightarrow>
          (case be_write_timeout be c within w2 of
             (w3, Inl e) \<Rightarrow> Some (x, s, w3, Err (ErrIo e))
           | (w3, Inr _) \<Rightarrow>
               (case build_identity h w3 of
                  None \<Rightarrow> None
                | Some (w4, Inl e) \<Rightarrow> Some (x, s, w4, Err e)
                | Some (w4, Inr who) \<Rightarrow>
                    (case build_handshake (be_store be) (be_console be) h (be_socks be c) deadline who w4 of
                       None \<Rightarrow> None
                     | Some (w5, Inl e) \<Rightarrow> Some (x, s, w5, Err e)
                     | Some (w5, Inr _) \<Rightarrow>
                         (case capture_files (be_order be) (be_faults be) staging (be_boot be x) s of (x1, s1, r) \<Rightarrow> Some (x1, s1, w5, r))))))"

definition build_stop :: "(unit, machine_error) result \<Rightarrow> (machine \<Rightarrow> machine) \<Rightarrow> machine \<Rightarrow> (machine \<times> (unit, machine_error lc_error) result) option" where
  "build_stop woken ending m =
     (case stop_machine woken m of
        (m1, Inl e) \<Rightarrow> Some (m1, Err (ErrLingcore e))
      | (m1, Inr _) \<Rightarrow>
          map_option (\<lambda>(m2, r). (m2, case r of Inl e \<Rightarrow> Err (ErrLingcore e) | Inr _ \<Rightarrow> Ok ())) (wait_machine woken (ending m1)))"

text \<open>\<^verbatim>\<open>Result::and\<close>.\<close>

definition result_and :: "('a, 'e) result \<Rightarrow> ('b, 'e) result \<Rightarrow> ('b, 'e) result" where
  "result_and a b = (case a of Inl e \<Rightarrow> Err e | Inr _ \<Rightarrow> b)"

text \<open>The boot, up to its end, and what is left of it.\<close>

definition boot_guest ::
  "('w, 'f, 'h, 'd, 'm, 'e, 'l) build_env \<Rightarrow> template_plan \<Rightarrow> fpath \<Rightarrow> fpath \<Rightarrow> files \<Rightarrow> 'w \<Rightarrow>
     (files \<times> 'w \<times> (unit, machine_error lc_error) result) option" where
  "boot_guest be plan run staging s w =
     (case be_new be plan (be_cid be) (run @ [''vs'']) of
        Inl e \<Rightarrow> Some (s, w, Err (ErrLingcore e))
      | Inr x \<Rightarrow>
          (case start_machine (unat (tp_vcpus plan)) (he_machine x) of
             (m, Inl e) \<Rightarrow> Some (s, w, Err (ErrLingcore e))
           | (m, Inr _) \<Rightarrow>
               (case capture_ready be (tp_ready_timeout plan) staging (x\<lparr>he_machine := m\<rparr>) s w of
                  None \<Rightarrow> None
                | Some (x1, s1, w1, captured) \<Rightarrow>
                    (case build_stop (be_asked be) (be_ending be) (he_machine x1) of
                       None \<Rightarrow> None
                     | Some (_, stopped) \<Rightarrow>
                         (case io (remove_dir_all run) s1 of
                            (s2, removed) \<Rightarrow> Some (s2, w1, result_and (result_and captured stopped) removed))))))"

definition boot_and_capture ::
  "('w, 'f, 'h, 'd, 'm, 'e, 'l) build_env \<Rightarrow> fpath \<Rightarrow> template_plan \<Rightarrow> string \<Rightarrow> fpath \<Rightarrow> files \<Rightarrow> 'w \<Rightarrow>
     (files \<times> 'w \<times> (template, machine_error lc_error) result) option" where
  "boot_and_capture be root plan tag staging s w =
     (let run = join_path (run_dir root) tag in
      case io (create_dir_all run) s of
        (s1, Inl e) \<Rightarrow> Some (s1, w, Err e)
      | (s1, Inr _) \<Rightarrow>
          (case be_bind be of
             Inl e \<Rightarrow> Some (s1, w, Err (ErrIo e))
           | Inr _ \<Rightarrow>
               (case boot_guest be plan run staging s1 w of
                  None \<Rightarrow> None
                | Some (s2, w1, Inl e) \<Rightarrow> Some (s2, w1, Err e)
                | Some (s2, w1, Inr _) \<Rightarrow> map_option (\<lambda>(s3, r). (s3, w1, r)) (register_baked (be_store be) root plan staging s2))))"

definition check_plan :: "store_env \<Rightarrow> template_plan \<Rightarrow> (unit, machine_error lc_error) result" where
  "check_plan env plan =
     (if ds_disk (tp_devices plan) then Err (ErrUnsupported ''template with disk'')
      else if ds_network (tp_devices plan) then Err (ErrUnsupported ''template with network link'')
      else if \<not> ds_channel (tp_devices plan) then Err (ErrUnsupported ''template without channel'')
      else case tp_name plan of None \<Rightarrow> Ok () | Some name \<Rightarrow> check_name env name)"

definition clear_build :: "fpath \<Rightarrow> fpath \<Rightarrow> files \<Rightarrow> files" where
  "clear_build staging run s = fst (remove_dir_all run (fst (remove_dir_all staging s)))"

definition build_tag :: "('w, 'f, 'h, 'd, 'm, 'e, 'l) build_env \<Rightarrow> string" where
  "build_tag be = ''build-'' @ shown (be_pid be) @ ''-'' @ shown (unat (be_cid be))"

definition build ::
  "('w, 'f, 'h, 'd, 'm, 'e, 'l) build_env \<Rightarrow> fpath \<Rightarrow> template_plan \<Rightarrow> files \<Rightarrow> 'w \<Rightarrow>
     (files \<times> 'w \<times> (template, machine_error lc_error) result) option" where
  "build be root plan s w =
     (case check_plan (be_store be) plan of
        Inl e \<Rightarrow> Some (s, w, Err e)
      | Inr _ \<Rightarrow>
          (case be_hv be of
             Inl e \<Rightarrow> Some (s, w, Err (ErrLingcore e))
           | Inr _ \<Rightarrow>
               (let tag = build_tag be; staging = join_path (templates_dir root) (''.'' @ tag) in
                case io (create_dir_all staging) s of
                  (s1, Inl e) \<Rightarrow> Some (s1, w, Err e)
                | (s1, Inr _) \<Rightarrow>
                    (case boot_and_capture be root plan tag staging s1 w of
                       None \<Rightarrow> None
                     | Some (s2, w1, Inr t) \<Rightarrow> Some (s2, w1, Ok t)
                     | Some (s2, w1, Inl e) \<Rightarrow> Some (clear_build staging (join_path (run_dir root) tag) s2, w1, Err e)))))"

section \<open>A build keeps the templates which are held\<close>

text \<open>Predicates before and after an action.\<close>

definition leads :: "('s \<Rightarrow> bool) \<Rightarrow> ('s \<Rightarrow> bool) \<Rightarrow> ('s, 'a, 'e) act \<Rightarrow> bool" where
  "leads P G f \<longleftrightarrow> (\<forall>s. P s \<longrightarrow> G (fst (f s)))"

lemma leads_bind:
  assumes "inv_act P f" "\<And>s. P s \<Longrightarrow> G s" "\<And>s s1 a. f s = (s1, Inr a) \<Longrightarrow> leads P G (g a)"
  shows "leads P G (bind_act f g)"
  unfolding leads_def
proof (intro allI impI)
  fix s
  assume "P s"
  obtain s1 r where f: "f s = (s1, r)" by force
  have "P s1" by (rule inv_actD [OF assms(1) \<open>P s\<close> f])
  with assms(2,3) f show "G (fst (bind_act f g s))"
    by (cases r) (auto simp: bind_act_def leads_def)
qed

lemma leads_then:
  assumes "leads P G f" "\<And>a. inv_act G (g a)"
  shows "leads P G (bind_act f g)"
  unfolding leads_def
proof (intro allI impI)
  fix s
  assume "P s"
  obtain s1 r where f: "f s = (s1, r)" by force
  with assms(1) \<open>P s\<close> have "G s1" by (auto simp: leads_def)
  with assms(2) f show "G (fst (bind_act f g s))" by (cases r) (auto simp: bind_act_def inv_act_def)
qed

lemma template_id_hex: "template_id env dir s = (s1, Inr i) \<Longrightarrow> \<exists>bs. i = hex_text (se_sha env bs)"
  by (auto simp: template_id_def bind_act_Ok)

lemma leads_move_baked:
  assumes h: "live root s0 h" "files_ok s0" and st: "\<And>q. q \<in> files_of root (t_dir h) \<Longrightarrow> \<not> prefix st q"
    and into: "into = templates_dir root @ [i]"
  shows "leads (staged (files_of root (t_dir h)) s0 st) (held_template root h s0) (move_baked st into)"
  unfolding leads_def
proof (intro allI impI)
  fix s
  let ?Q = "files_of root (t_dir h)"
  assume "staged ?Q s0 st s"
  then have g: "good ?Q s0 s" by (rule staged_good)
  have live: "live root s h" by (rule live_held [OF h g])
  show "good ?Q s0 (fst (move_baked st into s))"
  proof (cases "is_file s (into @ [''template.json''])")
    case True
    then show ?thesis
      using inv_io [OF inv_remove_dir_all [OF st]] g by (simp add: move_baked_def inv_act_def)
  next
    case False
    with live into have "t_dir h \<noteq> into"
      by (auto simp: live_def is_file_def inode_at_def canonicalize_def)
    moreover obtain n where n: "t_dir h = templates_dir root @ [n]" using live by (auto simp: live_def)
    ultimately have free: "\<not> prefix into q" if "q \<in> ?Q" for q
      using not_under [of i n q root] that into by auto
    obtain s1 r where rm: "remove_dir_all into s = (s1, r)" by force
    have g1: "good ?Q s0 s1" by (rule inv_actD [OF inv_remove_dir_all [OF free] g rm])
    have "good ?Q s0 (fst (io (rename_dir st into) s1))"
      using inv_io [OF inv_rename_dir [of ?Q st into]] st free g1 by (simp add: inv_act_def)
    with False g1 rm show ?thesis by (auto simp: move_baked_def split: sum.splits file_error.splits)
  qed
qed

lemma inv_link_alias:
  assumes "at \<notin> Q"
  shows "inv_act (good Q s0) (link_alias at i)"
  unfolding inv_act_def
proof (intro allI impI)
  fix s
  assume g: "good Q s0 s"
  have unlink: "inv_act (good Q s0) (io (unlink_file at))"
    using good_io_unlink assms by (auto simp: inv_act_def) (metis prod.collapse)
  obtain s1 r where l: "symlink [''..'', i] at s = (s1, r)" by force
  have g1: "good Q s0 s1" by (rule inv_actD [OF inv_symlink g l])
  have "inv_act (good Q s0) (bind_act (io (unlink_file at)) (\<lambda>_. io (symlink [''..'', i] at)))"
    by (intro inv_bind unlink inv_io inv_symlink)
  with g1 l show "good Q s0 (fst (link_alias at i s))"
    by (auto simp: link_alias_def inv_act_def Let_def split: sum.splits file_error.splits)
qed

definition plan_ok :: "template_plan \<Rightarrow> bool" where
  "plan_ok plan = (case tp_name plan of None \<Rightarrow> True | Some name \<Rightarrow> plain name)"

lemma leads_bake_files:
  assumes h: "live root s0 h" "files_ok s0" and st: "\<And>q. q \<in> files_of root (t_dir h) \<Longrightarrow> \<not> prefix st q"
    and sha: "\<And>bs. se_sha env bs \<noteq> []" and plan: "plan_ok plan"
  shows "leads (staged (files_of root (t_dir h)) s0 st) (held_template root h s0) (bake_files env root plan st)"
proof -
  let ?P = "staged (files_of root (t_dir h)) s0 st"
  have digest: "inv_act ?P (digest_file env p)" for p
    unfolding digest_file_def by (intro inv_bind inv_io inv_staged_read_file inv_ret)
  have name: "inv_act ?P (template_id env st)"
    unfolding template_id_def by (intro inv_bind inv_io inv_staged_read_file inv_ret)
  have sized: "inv_act ?P (dir_size st)"
    unfolding dir_size_def by (intro inv_bind inv_io inv_staged_read_dir) (simp add: inv_act_def)
  have rootfs: "inv_act ?P (case tp_initrd plan of None \<Rightarrow> ret None | Some p \<Rightarrow> bind_act (digest_file env p) (\<lambda>d. ret (Some d)))"
    by (auto split: option.splits intro!: digest inv_bind)
  have clean: "inv_act ?P (case tp_initrd plan of None \<Rightarrow> ret () | Some p \<Rightarrow> (\<lambda>s. (s, sanitize_check (se_archive env) p)))"
    by (auto simp: inv_act_def ret_def split: option.splits)
  have away: "aliases_dir root @ [name] \<notin> files_of root (t_dir h)" for name
    using h(1) by (auto simp: live_def files_of_def aliases_dir_def)
  have aliased: "inv_act (held_template root h s0)
      (case tp_name plan of None \<Rightarrow> ret () | Some name \<Rightarrow> link_alias (join_path (aliases_dir root) name) i)" for i
    using plan away by (auto simp: plan_ok_def split: option.splits intro!: inv_link_alias)
  have moved: "leads ?P (held_template root h s0) (bind_act (move_baked st (join_path (templates_dir root) i)) (\<lambda>_.
      bind_act (case tp_name plan of None \<Rightarrow> ret () | Some name \<Rightarrow> link_alias (join_path (aliases_dir root) name) i) (\<lambda>_. ret into)))"
    if "i = hex_text (se_sha env bs)" for i bs into
  proof -
    have i: "join_path (templates_dir root) i = templates_dir root @ [i]" using hex_plain [OF sha, of bs] that by simp
    show ?thesis by (intro leads_then leads_move_baked [OF h st i] inv_bind aliased inv_ret)
  qed
  show ?thesis
    unfolding bake_files_def Let_def
    apply (rule leads_bind [OF inv_io [OF inv_staged_copy [OF h(2)]] staged_good], assumption)
    apply (rule leads_bind [OF digest staged_good], assumption)
    apply (rule leads_bind [OF rootfs staged_good], assumption)
    apply (rule leads_bind [OF clean staged_good], assumption)
    apply (rule leads_bind [OF name staged_good], assumption)
    apply (rule leads_bind [OF sized staged_good], assumption)
    apply (rule leads_bind [OF inv_io [OF inv_staged_write [OF h(2)]] staged_good], assumption)
    by (drule template_id_hex, elim exE, rule moved)
qed

lemma register_baked_held:
  assumes h: "live root s0 h" "files_ok s0" and st: "\<And>q. q \<in> files_of root (t_dir h) \<Longrightarrow> \<not> prefix st q"
    and sha: "\<And>bs. se_sha env bs \<noteq> []" and plan: "plan_ok plan" and s: "staged (files_of root (t_dir h)) s0 st s"
    and ran: "register_baked env root plan st s = Some (s1, r)"
  shows "held_template root h s0 s1"
proof -
  obtain s2 x where bake: "bake_files env root plan st s = (s2, x)" by force
  have g: "held_template root h s0 s2"
    using leads_bake_files [OF h st sha plan] s bake by (auto simp: leads_def)
  with ran bake open_template_good [OF g] show ?thesis by (cases x) (auto simp: register_baked_def)
qed

lemma shown_plain: "CHR ''/'' \<notin> set (shown k)"
proof -
  have "47 \<notin> unat ` set (digits f n)" for f n
  proof (induction f arbitrary: n)
    case (Suc f)
    have digit: "unat (of_nat (48 + d) :: u8) \<noteq> 47" if "d < 10" for d
    proof -
      have "unat (of_nat (48 + d) :: u8) = 48 + d"
        using that by (simp add: unsigned_of_nat take_bit_nat_eq_self del: of_nat_add)
      then show ?thesis by linarith
    qed
    have "unat (of_nat (48 + n mod 10) :: u8) \<noteq> 47" by (rule digit) simp
    with Suc digit [of n] show ?case by (auto simp del: of_nat_add)
  qed simp
  moreover have "unat b = 47" if "CHR ''/'' = char_of (unat b)" for b :: u8
    using arg_cong [OF that, of "of_char :: char \<Rightarrow> nat"] unsigned_less [of b, where 'a = nat] by simp
  ultimately show ?thesis by (fastforce simp: shown_def text_of_def)
qed

lemma build_tag_plain: "plain (build_tag be)" "plain (''.'' @ build_tag be)"
  using shown_plain by (simp_all add: build_tag_def plain_def)

lemma inv_staged_create_with: "files_ok s0 \<Longrightarrow> inv_act (staged Q s0 st) (create_with (st @ [n]) bs r)"
  unfolding create_with_def by (intro inv_bind inv_io inv_staged_write) (auto split: sum.splits)

lemma capture_files_staged:
  assumes "files_ok s0" "staged Q s0 st s" "capture_files env fs st x s = (x1, s1, r)"
  shows "staged Q s0 st s1"
proof -
  have "inv_act (staged Q s0 st) (bind_act
      (case snapshot_write (oe_json env) taken of
         Inl e \<Rightarrow> create_with (st @ [''state.json'']) [] (Err e)
       | Inr doc \<Rightarrow> create_with (st @ [''state.json'']) doc (Ok ()))
      (\<lambda>_. case write_memory (oe_vm env) m g f of (f, r) \<Rightarrow> create_with (st @ [''ram.img'']) (img f) r))" for taken m g f
    using inv_staged_create_with [OF assms(1)] by (intro inv_bind) (auto split: sum.splits prod.splits)
  note files = inv_actD [OF this assms(2)]
  obtain m y where p: "pause env (he_machine x) = (m, y)" by force
  show ?thesis
  proof (cases y)
    case (Inr u)
    with p assms(2,3) files show ?thesis
      by (cases "capture_guest (oe_hv env) (oe_devices env) (oe_taken env) (guest_now (x\<lparr>he_machine := m\<rparr>))")
        (auto simp: capture_files_def Let_def)
  qed (use p assms(2,3) in \<open>simp add: capture_files_def\<close>)
qed

lemma capture_ready_staged:
  assumes "files_ok s0" "staged Q s0 st s" "capture_ready be within st x s w = Some (x1, s1, w1, r)"
  shows "staged Q s0 st s1"
  using assms(2,3) capture_files_staged [OF assms(1,2), of "be_order be" "be_faults be" "be_boot be x"]
  by (auto simp: capture_ready_def Let_def split: option.splits prod.splits sum.splits)

lemma boot_guest_staged:
  assumes "files_ok s0" "staged Q s0 st s" "\<And>q. q \<in> Q \<Longrightarrow> \<not> prefix run q" "boot_guest be plan run st s w = Some (s1, w1, r)"
  shows "staged Q s0 st s1"
proof -
  have rm: "inv_act (staged Q s0 st) (io (remove_dir_all run))"
    by (intro inv_io inv_staged_remove_dir assms(3))
  show ?thesis
    using assms(2,4)
    by (auto simp: boot_guest_def split: sum.splits prod.splits option.splits dest!: capture_ready_staged [OF assms(1,2)] dest: inv_actD [OF rm])
qed

definition staging_of :: "('w, 'f, 'h, 'd, 'm, 'e, 'l) build_env \<Rightarrow> fpath \<Rightarrow> fpath" where
  "staging_of be root = templates_dir root @ [''.'' @ build_tag be]"

lemma build_held:
  assumes h: "live root s h" "files_ok s" and sha: "\<And>bs. se_sha (be_store be) bs \<noteq> []"
    and free: "\<And>q. prefix (staging_of be root) q \<Longrightarrow> entry s q = None"
    and ran: "build be root plan s w = Some (s1, w1, r)"
  shows "held_template root h s s1"
proof -
  let ?Q = "files_of root (t_dir h)" and ?st = "staging_of be root" and ?run = "run_dir root @ [build_tag be]"
  obtain n where n: "t_dir h = templates_dir root @ [n]" using h(1) by (auto simp: live_def)
  have "n \<noteq> ''.'' @ build_tag be"
    using h(1) n free [of "?st @ [''ram.img'']"] by (auto simp: live_def staging_of_def)
  then have st: "\<not> prefix ?st q" if "q \<in> ?Q" for q
    using not_under [of _ n q root] that n by (auto simp: staging_of_def)
  have run: "\<not> prefix ?run q" if "q \<in> ?Q" for q
    using that n by (auto simp: run_dir_def files_of_def templates_dir_def)
  have paths: "join_path (templates_dir root) (CHR ''.'' # build_tag be) = ?st" "join_path (run_dir root) (build_tag be) = ?run"
    using build_tag_plain [of be] by (simp_all add: staging_of_def)
  have clear: "held_template root h s (clear_build ?st ?run t)" if "held_template root h s t" for t
    using inv_remove_dir_all [OF st, of ?Q s] inv_remove_dir_all [OF run, of ?Q s] that by (simp add: clear_build_def inv_act_def)
  have begins: "staged ?Q s ?st s" using good_refl [OF h(2)] free by (auto simp: staged_def)
  have made: "staged ?Q s ?st t" if "io (create_dir_all p) u = (t, x)" "staged ?Q s ?st u" "\<not> strict_prefix ?st p" for t x u p
    using that staged_create_dir [of ?Q s ?st u p] by (auto simp: io_def map_act_def split: prod.splits)
  have apart: "\<not> strict_prefix ?st ?run" "\<not> strict_prefix ?st ?st"
    by (auto simp: staging_of_def run_dir_def templates_dir_def strict_prefix_def prefix_def)
  have named: "plan_ok plan" if "check_plan (be_store be) plan = Inr ()"
    using that by (auto simp: check_plan_def check_name_def plan_ok_def plain_def split: if_splits option.splits)
  have boot: "held_template root h s t" if "boot_and_capture be root plan (build_tag be) ?st u w = Some (t, w2, x)" "staged ?Q s ?st u" "plan_ok plan"
    for t w2 x u
  proof -
    obtain u1 y where made_run: "io (create_dir_all ?run) u = (u1, y)" by force
    have u1: "staged ?Q s ?st u1" by (rule made [OF made_run that(2) apart(1)])
    have booted: "staged ?Q s ?st u2" if "boot_guest be plan ?run ?st u1 w = Some (u2, w3, z)" for u2 w3 z
      by (rule boot_guest_staged [OF h(2) u1 run that])
    have registered: "held_template root h s u3" if "register_baked (be_store be) root plan ?st u2 = Some (u3, z)" "staged ?Q s ?st u2" for u2 u3 z
      by (rule register_baked_held [OF h st sha \<open>plan_ok plan\<close> that(2,1)])
    show ?thesis
      using that(1) staged_good [OF u1]
      by (auto simp: boot_and_capture_def Let_def paths made_run split: sum.splits option.splits dest!: booted intro: staged_good registered)
  qed
  show ?thesis
  proof (cases "check_plan (be_store be) plan")
    case (Inr v)
    with named have ok: "plan_ok plan" by simp
    obtain u y where made_st: "io (create_dir_all ?st) s = (u, y)" by force
    have u: "staged ?Q s ?st u" by (rule made [OF made_st begins apart(2)])
    show ?thesis
      using ran Inr staged_good [OF u] good_refl [OF h(2)]
      by (auto simp: build_def Let_def paths made_st split: sum.splits option.splits dest!: boot [OF _ u ok] intro: clear)
  qed (use ran good_refl [OF h(2)] in \<open>auto simp: build_def\<close>)
qed

section \<open>Operations of a store, one after the other\<close>

text \<open>
  One whole operation on a store, in whatever state its files are in: opening it, a build in a staging directory which is not
  there, registering, getting, listing, removing, and the end of a template, which closes its image.
\<close>

inductive store_step ::
  "('w, 'f, 'h, 'd, 'm, 'e, 'l) build_env set \<Rightarrow> store_env \<Rightarrow> fpath \<Rightarrow> nat set \<Rightarrow> files \<Rightarrow> files \<Rightarrow> bool"
  for builds env root ends where
  opens: "store_step builds env root ends s (fst (store_open root s))"
| registers: "register_template env root dir s = Some (s1, r) \<Longrightarrow> store_step builds env root ends s s1"
| gets: "get_template env root i s = Some (s1, r) \<Longrightarrow> store_step builds env root ends s s1"
| lists: "store_step builds env root ends s (fst (list_templates env root s))"
| removes: "plain i \<Longrightarrow> store_step builds env root ends s (fst (remove_template root i s))"
| makes: "be \<in> builds \<Longrightarrow> be_store be = env \<Longrightarrow> (\<And>q. prefix (staging_of be root) q \<Longrightarrow> entry s q = None) \<Longrightarrow>
    build be root plan s w = Some (s1, w1, r) \<Longrightarrow> store_step builds env root ends s s1"
| finishes: "fd \<in> ends \<Longrightarrow> store_step builds env root ends s (close_file fd s)"

lemma inv_list_dirs: "inv_act (good Q s0) (list_dirs env at ns metas)"
proof (induction ns arbitrary: metas)
  case (Cons n ns)
  have "inv_act (good Q s0) (bind_act (read_once env (at @ [n]) metas) (list_dirs env at ns))"
    unfolding read_once_def by (intro inv_bind Cons inv_read_meta inv_ret)
  with Cons show ?case by (auto simp: inv_act_def)
qed (simp add: inv_ret)

lemma inv_list_aliases: "inv_act (good Q s0) (list_aliases env at ns metas)"
proof (induction ns arbitrary: metas)
  case (Cons n ns)
  have "inv_act (good Q s0) (bind_act (read_once env target metas) (list_aliases env at ns))" for target
    unfolding read_once_def by (intro inv_bind Cons inv_read_meta inv_ret)
  with Cons show ?case by (auto simp: inv_act_def split: option.splits)
qed (simp add: inv_ret)

lemma inv_list_templates: "inv_act (good Q s0) (list_templates env root)"
  unfolding list_templates_def by (intro inv_bind inv_io inv_read_dir inv_list_dirs inv_list_aliases)

lemma inv_store_open: "inv_act (good Q s0) (store_open root)"
  unfolding store_open_def by (intro inv_bind inv_io inv_create_dir_all)

text \<open>A template is live after an operation, and its files are those it had.\<close>

definition intact :: "fpath \<Rightarrow> template \<Rightarrow> files \<Rightarrow> files \<Rightarrow> bool" where
  "intact root h s s1 \<longleftrightarrow> files_ok s1 \<and> live root s1 h \<and>
     (\<forall>n \<in> set PLACED. \<forall>i. entry s (t_dir h @ [n]) = Some (KFile i) \<longrightarrow> entry s1 (t_dir h @ [n]) = Some (KFile i) \<and> f_data s1 i = f_data s i)"

lemma held_intact:
  assumes "live root s h" "files_ok s" "held_template root h s s1"
  shows "intact root h s s1"
proof -
  have "entry s1 p = Some (KFile i) \<and> f_data s1 i = f_data s i" if "entry s p = Some (KFile i)" "p \<in> files_of root (t_dir h)" for p i
    using assms(3) that by (auto simp: good_def kept_files_def)
  with live_held [OF assms] assms(3) show ?thesis by (simp add: intact_def good_def files_of_def)
qed

lemma step_held:
  assumes "store_step builds env root ends s s1" "live root s h" "files_ok s" "t_ram h \<notin> ends" "\<And>bs. se_sha env bs \<noteq> []"
  shows "intact root h s s1"
proof -
  let ?Q = "files_of root (t_dir h)"
  note keep = held_intact [OF assms(2,3)]
  have g: "good ?Q s s" by (rule good_refl [OF assms(3)])
  from assms(1) show ?thesis
  proof cases
    case opens
    with inv_store_open [of ?Q s root] g show ?thesis by (simp add: inv_act_def keep)
  next
    case (registers dir r)
    obtain s2 x where r: "register_files env root dir s = (s2, x)" by force
    have g2: "good ?Q s s2" by (rule inv_actD [OF inv_register_files g r])
    with registers r open_template_good [OF g2] show ?thesis by (cases x) (auto simp: register_template_def intro: keep)
  next
    case (gets i r)
    with g open_template_good [OF g] have "held_template root h s s1" by (cases "resolve root i s") (auto simp: get_template_def)
    then show ?thesis by (rule keep)
  next
    case lists
    with inv_list_templates [of ?Q s env root] g show ?thesis by (simp add: inv_act_def keep)
  next
    case (removes i)
    with remove_keeps_held [OF assms(2,3), of i] show ?thesis by (metis keep prod.collapse)
  next
    case (makes be plan w w1 r)
    with build_held [OF assms(2,3), of be plan w s1 w1 r] assms(5) show ?thesis by (simp add: keep)
  next
    case (finishes fd)
    with assms(2,3,4) show ?thesis
      by (auto simp: intact_def live_def close_file_def files_ok_def entry_def delete_conv' split: if_splits)
  qed
qed


end
