(* ===== verification/Template_Life.thy ===== *)
theory Template_Life
  imports Template_Build
begin

text \<open>
  The life of a template in its store, \<^verbatim>\<open>src/lingcage/src/template/store.rs\<close>: what registering one establishes, and, on a
  small store, what the operations do when they meet: a removal which was begun before another, a directory left by
  a registration which failed, and files which are shared with the directory a template was registered from.
\<close>

section \<open>Registering\<close>

text \<open>Calls which only read change nothing but the list of faults.\<close>

definition unchanged :: "files \<Rightarrow> files \<Rightarrow> bool" where
  "unchanged s s1 \<longleftrightarrow> (\<exists>bs. s1 = s\<lparr>f_faults := bs\<rparr>)"

lemma unchanged_refl [simp]: "unchanged s s"
  unfolding unchanged_def by (metis files.surjective files.update_convs(7))

lemma unchanged_trans: "unchanged s s1 \<Longrightarrow> unchanged s1 s2 \<Longrightarrow> unchanged s s2"
  by (auto simp: unchanged_def)

lemma unchanged_same:
  "unchanged s s1 \<Longrightarrow> entry s1 p = entry s p \<and> f_data s1 = f_data s \<and> f_fresh s1 = f_fresh s \<and> files_ok s1 = files_ok s \<and> f_open s1 = f_open s \<and> f_fd s1 = f_fd s \<and> f_at s1 = f_at s"
  unfolding unchanged_def by (elim exE) (simp add: files_ok_def entry_def)

lemma unchanged_faults [simp]: "unchanged s (s\<lparr>f_faults := bs\<rparr>)"
  by (auto simp: unchanged_def)

lemma read_file_unchanged:
  assumes "read_file p s = (s1, Inr bs)" "entry s p = Some (KFile i)"
  shows "unchanged s s1 \<and> bs = f_data s i"
  using assms
  by (auto simp: read_file_def faulty_def inode_at_def canonicalize_def split: list.splits if_splits)

lemma read_meta_file:
  assumes "read_meta env dir s = (s1, Inr meta)" "entry s (dir @ [''template.json'']) = Some (KFile i)"
  shows "unchanged s s1 \<and> (\<exists>t. utf8 (f_data s i) = Some t \<and> se_read_meta env t = Ok meta)"
  using assms(1) read_file_unchanged [OF _ assms(2)]
  by (auto simp: read_meta_def bind_act_Ok split: option.splits sum.splits)

lemma template_id_files:
  assumes "template_id env dir s = (s1, Inr i)" "entry s (dir @ [''ram.img'']) = Some (KFile a)"
    "entry s (dir @ [''state.json'']) = Some (KFile b)" "entry s (dir @ [''kernel.img'']) = Some (KFile c)"
  shows "unchanged s s1 \<and> i = hex_text (se_sha env (f_data s a @ f_data s b @ f_data s c))"
proof -
  obtain s2 ram s3 state kernel where r: "read_file (dir @ [''ram.img'']) s = (s2, Inr ram)" "read_file (dir @ [''state.json'']) s2 = (s3, Inr state)"
      "read_file (dir @ [''kernel.img'']) s3 = (s1, Inr kernel)" and i: "i = hex_text (se_sha env (ram @ state @ kernel))"
    using assms(1) by (auto simp: template_id_def bind_act_Ok)
  have one: "unchanged s s2" "ram = f_data s a" using read_file_unchanged [OF r(1) assms(2)] by simp_all
  have two: "unchanged s2 s3" "state = f_data s b"
    using read_file_unchanged [OF r(2), of b] assms(3) unchanged_same [OF one(1)] by simp_all
  have s3: "unchanged s s3" by (rule unchanged_trans [OF one(1) two(1)])
  have three: "unchanged s3 s1" "kernel = f_data s c"
    using read_file_unchanged [OF r(3), of c] assms(4) unchanged_same [OF s3] by simp_all
  show ?thesis using unchanged_trans [OF s3 three(1)] one two three i by simp
qed

lemma verify_files_Ok:
  assumes "verify_files env dir s = (s1, Inr i)" and at: "entry s (dir @ [''ram.img'']) = Some (KFile a)"
    "entry s (dir @ [''state.json'']) = Some (KFile b)" "entry s (dir @ [''kernel.img'']) = Some (KFile c)" "entry s (dir @ [''template.json'']) = Some (KFile d)"
  shows "unchanged s s1 \<and> i = hex_text (se_sha env (f_data s a @ f_data s b @ f_data s c)) \<and>
    (\<exists>t meta. utf8 (f_data s d) = Some t \<and> se_read_meta env t = Ok meta \<and> tm_id meta = i \<and> bs_lingcore (tm_stamp meta) = se_version env \<and>
       bs_layout (tm_stamp meta) = layout_digest env (se_arch env) (gs_devices (tm_shape meta)))"
proof -
  obtain s2 meta s3 j where r: "read_meta env dir s = (s2, Inr meta)" "template_id env dir s2 = (s3, Inr j)" and rest: "check_meta env meta j s3 = (s1, Inr i)"
    using assms(1) unfolding verify_files_def bind_act_Ok map_act_Ok by blast
  have ok: "s3 = s1" "j = i" "tm_id meta = i"
      "bs_lingcore (tm_stamp meta) = se_version env" "bs_layout (tm_stamp meta) = layout_digest env (se_arch env) (gs_devices (tm_shape meta))"
    using rest by (simp_all add: check_meta_def Let_def split: if_splits)
  have one: "unchanged s s2" "\<exists>t. utf8 (f_data s d) = Some t \<and> se_read_meta env t = Ok meta"
    using read_meta_file [OF r(1) at(4)] by simp_all
  have two: "unchanged s2 s3" "j = hex_text (se_sha env (f_data s a @ f_data s b @ f_data s c))"
    using template_id_files [OF r(2), of a b c] at unchanged_same [OF one(1)] by simp_all
  show ?thesis using unchanged_trans [OF one(1) two(1)] two(2) one(2) ok by auto
qed

text \<open>A file placed where there is none has the bytes of its source.\<close>

definition placed_since :: "files \<Rightarrow> files \<Rightarrow> fpath set \<Rightarrow> bool" where
  "placed_since s s1 news \<longleftrightarrow> files_ok s1 \<and> f_fresh s \<le> f_fresh s1 \<and> (\<forall>k < f_fresh s. f_data s1 k = f_data s k) \<and> (\<forall>q. q \<notin> news \<longrightarrow> entry s1 q = entry s q) \<and>
     f_open s1 = f_open s \<and> f_fd s1 = f_fd s"

lemma files_ok_update:
  assumes "files_ok s" "x = KDir \<or> x \<in> snd ` set (f_at s) \<or> (\<exists>to. x = KLink to)"
  shows "files_ok (s\<lparr>f_at := AList.update p x (f_at s)\<rparr>)"
  using assms set_update_snd [of p x "f_at s"] by (auto simp: files_ok_def subset_iff)

lemma hard_link_new:
  assumes "hard_link a b s = (s1, Inr ())" "entry s a = Some (KFile i)" "files_ok s"
  shows "placed_since s s1 {b} \<and> entry s1 b = Some (KFile i)"
proof -
  have "files_ok (t\<lparr>f_at := AList.update b (KFile i) (f_at t)\<rparr>)" if "f_at t = f_at s" "f_fresh t = f_fresh s" "f_open t = f_open s" "f_fd t = f_fd s" for t
    using files_ok_update [OF assms(3), of "KFile i" b] entry_in [OF assms(2)] that by (simp add: files_ok_def)
  with assms show ?thesis
    by (auto simp: hard_link_def faulty_def placed_since_def entry_def update_conv' split: list.splits if_splits option.splits)
qed

lemma write_file_new:
  assumes "write_file p bs s = (s1, Inr ())" "entry s p = None" "files_ok s"
  shows "placed_since s s1 {p} \<and> entry s1 p = Some (KFile (f_fresh s)) \<and> f_data s1 (f_fresh s) = bs"
proof -
  have "p \<noteq> []" using assms(2) by (auto simp: entry_def)
  let ?put = "\<lambda>t. t\<lparr>f_at := AList.update p (KFile (f_fresh s)) (f_at s), f_data := (f_data s)(f_fresh s := bs), f_fresh := Suc (f_fresh s)\<rparr>"
  have "files_ok (?put s)"
    using good_put_new [OF good_refl [OF assms(3), of "{}"] assms(2), of bs] assms(1,2)
    by (auto simp: put_file_def good_def write_file_def faulty_def split: list.splits if_splits)
  then have "files_ok (?put (s\<lparr>f_faults := fs\<rparr>))" for fs by (simp add: files_ok_def)
  with \<open>files_ok (?put s)\<close> assms(1,2) \<open>p \<noteq> []\<close> show ?thesis
    by (auto simp: write_file_def faulty_def put_file_def placed_since_def entry_def update_conv' split: list.splits if_splits)
qed

lemma unchanged_placed: "unchanged s s1 \<Longrightarrow> files_ok s \<Longrightarrow> placed_since s s1 {}"
  by (auto simp: placed_since_def dest: unchanged_same)

lemma placed_since_trans: "placed_since s s1 A \<Longrightarrow> placed_since s1 s2 B \<Longrightarrow> placed_since s s2 (A \<union> B)"
  by (auto simp: placed_since_def)

lemma place_file_new:
  assumes "place_file a b s = (s1, Inr ())" "entry s a = Some (KFile i)" "entry s b = None" "files_ok s"
  shows "placed_since s s1 {b} \<and> (\<exists>j. entry s1 b = Some (KFile j) \<and> f_data s1 j = f_data s i)"
proof -
  have low: "i < f_fresh s" using entry_in [OF assms(2)] assms(4) by (simp add: files_ok_def)
  obtain s2 r where l: "hard_link a b s = (s2, r)" by force
  show ?thesis
  proof (cases r)
    case (Inr u)
    with l assms hard_link_new [of a b s s2 i] low show ?thesis by (auto simp: place_file_def placed_since_def)
  next
    case (Inl e)
    have e: "e = FCrossDevice" "unchanged s s2"
      using l Inl assms unfolding place_file_def hard_link_def faulty_def
      by (auto split: list.splits if_splits option.splits fentry.splits file_error.splits)
    note same = unchanged_same [OF e(2)]
    obtain s3 bs where c: "read_file a s2 = (s3, Inr bs)" "write_file b bs s3 = (s1, Inr ())"
      using assms(1) l Inl e(1) by (auto simp: place_file_def copy_file_def bind_act_Ok)
    have s3: "unchanged s2 s3" "bs = f_data s2 i" using read_file_unchanged [OF c(1), of i] same assms(2) by simp_all
    have s03: "unchanged s s3" by (rule unchanged_trans [OF e(2) s3(1)])
    have w: "placed_since s3 s1 {b}" "entry s1 b = Some (KFile (f_fresh s3))" "f_data s1 (f_fresh s3) = bs"
      using write_file_new [OF c(2)] unchanged_same [OF s03] assms(3,4) by simp_all
    have "placed_since s s1 {b}" using placed_since_trans [OF unchanged_placed [OF s03 assms(4)] w(1)] by simp
    with w s3(2) same show ?thesis by auto
  qed
qed

lemma place_all_new:
  assumes "place_all dir into ns s = (s1, Inr ())" "distinct ns" "files_ok s"
    "\<forall>n \<in> set ns. entry s (into @ [n]) = None \<and> entry s (dir @ [n]) = Some (KFile (at n))"
  shows "placed_since s s1 ((\<lambda>n. into @ [n]) ` set ns) \<and>
    (\<forall>n \<in> set ns. \<exists>j. entry s1 (into @ [n]) = Some (KFile j) \<and> f_data s1 j = f_data s (at n))"
  using assms
proof (induction ns arbitrary: s)
  case (Cons n ns)
  obtain s2 where r: "place_file (dir @ [n]) (into @ [n]) s = (s2, Inr ())" "place_all dir into ns s2 = (s1, Inr ())"
    using Cons.prems(1) by (auto simp: bind_act_Ok)
  have p: "placed_since s s2 {into @ [n]}" "\<exists>j. entry s2 (into @ [n]) = Some (KFile j) \<and> f_data s2 j = f_data s (at n)"
    using place_file_new [OF r(1), of "at n"] Cons.prems by auto
  have low: "at m < f_fresh s" if "m \<in> set (n # ns)" for m
    using Cons.prems(3,4) that entry_in by (fastforce simp: files_ok_def)
  have "dir \<noteq> into" using Cons.prems(4) by auto
  moreover have "m \<noteq> n" if "m \<in> set ns" for m using Cons.prems(2) that by auto
  ultimately have "\<forall>m \<in> set ns. entry s2 (into @ [m]) = None \<and> entry s2 (dir @ [m]) = Some (KFile (at m))"
    using p(1) Cons.prems(4) by (simp add: placed_since_def)
  with Cons.IH [OF r(2)] Cons.prems(2) p(1) have IH: "placed_since s2 s1 ((\<lambda>n. into @ [n]) ` set ns)"
      "\<forall>m \<in> set ns. \<exists>j. entry s1 (into @ [m]) = Some (KFile j) \<and> f_data s1 j = f_data s2 (at m)"
    by (auto simp: placed_since_def)
  obtain j where j: "entry s2 (into @ [n]) = Some (KFile j)" "f_data s2 j = f_data s (at n)" using p(2) by blast
  have "j < f_fresh s2" using entry_in [OF j(1)] p(1) by (simp add: placed_since_def files_ok_def)
  moreover have "into @ [n] \<notin> (\<lambda>n. into @ [n]) ` set ns" using Cons.prems(2) by auto
  ultimately have "entry s1 (into @ [n]) = Some (KFile j) \<and> f_data s1 j = f_data s (at n)"
    using IH(1) j by (simp add: placed_since_def)
  moreover have "f_data s2 (at m) = f_data s (at m)" if "m \<in> set ns" for m
    using low [of m] p(1) that by (simp add: placed_since_def)
  ultimately show ?case using placed_since_trans [OF p(1) IH(1)] IH(2) by (auto simp: insert_is_Un [symmetric])
qed (simp add: placed_since_def)

lemma create_dir_all_blocks:
  "create_dir_all p s = (s1, Inr ()) \<Longrightarrow> prefix q p \<Longrightarrow> entry s q = None \<or> entry s q = Some KDir"
proof -
  assume c: "create_dir_all p s = (s1, Inr ())" and q: "prefix q p"
  have all: "list_all (\<lambda>k. entry s (take k p) = None \<or> entry s (take k p) = Some KDir) [0..<Suc (length p)]"
    using c by (auto simp: create_dir_all_def faulty_def split: list.splits if_splits simp del: upt_Suc)
  from q have "q = take (length q) p" "length q < Suc (length p)" by (auto simp: prefix_def)
  moreover from this(2) have "entry s (take (length q) p) = None \<or> entry s (take (length q) p) = Some KDir"
    using all by (auto simp: list_all_iff simp del: upt_Suc)
  ultimately show ?thesis by simp
qed

lemma create_dir_all_placed:
  assumes "create_dir_all p s = (s1, Inr ())" "files_ok s"
  shows "placed_since s s1 {q. prefix q p} \<and> (\<forall>q. prefix q p \<longrightarrow> entry s1 q = Some KDir)"
proof -
  have ok: "files_ok s1" using inv_actD [OF inv_create_dir_all good_refl [OF assms(2)] assms(1), of "{}"] by (simp add: good_def)
  have all: "f_at s1 = make_dirs p (f_at s)" "f_fresh s1 = f_fresh s" "f_data s1 = f_data s" "f_open s1 = f_open s" "f_fd s1 = f_fd s"
    using assms(1) by (auto simp: create_dir_all_def faulty_def split: list.splits if_splits simp del: upt_Suc)
  have taken: "q \<in> (\<lambda>k. take k p) ` set [1..<Suc (length p)] \<longleftrightarrow> prefix q p" if "q \<noteq> []" for q
  proof
    assume "prefix q p"
    with that have "q = take (length q) p" "length q \<in> set [1..<Suc (length p)]"
      by (auto simp: prefix_def Suc_le_eq simp del: upt_Suc)
    then show "q \<in> (\<lambda>k. take k p) ` set [1..<Suc (length p)]" by (rule image_eqI)
  qed (auto simp: take_is_prefix simp del: upt_Suc)
  have ent: "entry s1 q = (case entry s q of Some e \<Rightarrow> Some e | None \<Rightarrow> if prefix q p then Some KDir else None)" for q
    using taken [of q] unfolding entry_def all(1) make_dirs_def map_of_make_dirs by (auto split: option.split simp del: upt_Suc)
  have "entry s1 q = Some KDir" if "prefix q p" for q
    using create_dir_all_blocks [OF assms(1) that] ent [of q] that by auto
  moreover have "entry s1 q = entry s q" if "\<not> prefix q p" for q
    using ent [of q] that by (simp split: option.split)
  ultimately show ?thesis using ok all by (simp add: placed_since_def)
qed

lemma open_template_files:
  assumes "open_template env root dir s = Some (s1, Inr t)" "entry s (dir @ [''template.json'']) = Some (KFile j)"
    "entry s (dir @ [''ram.img'']) = Some (KFile i)"
  shows "t_dir t = dir \<and> (\<exists>x. utf8 (f_data s j) = Some x \<and> se_read_meta env x = Ok (t_meta t)) \<and> map_of (f_open s1) (t_ram t) = Some (i, LockShared) \<and>
    (\<forall>q. entry s1 q = entry s q) \<and> f_data s1 = f_data s"
proof -
  obtain s2 meta s3 fd where r: "read_meta env dir s = (s2, Inr meta)" "open_file (dir @ [''ram.img'']) s2 = (s3, Inr fd)" "lock_shared fd s3 = Some (s1, Inr ())"
      "t = \<lparr>t_dir = dir, t_meta = meta, t_ram = fd, t_run_root = run_dir root, t_state = None\<rparr>"
  proof -
    obtain u y where "bind_act (read_meta env dir) (\<lambda>meta. bind_act (io (open_file (dir @ [''ram.img'']))) (\<lambda>fd. ret (meta, fd))) s = (u, y)" by force
    with assms(1) that show thesis
      by (auto simp: open_template_def bind_act_Ok split: sum.splits option.splits prod.splits)
  qed
  have one: "unchanged s s2" "\<exists>x. utf8 (f_data s j) = Some x \<and> se_read_meta env x = Ok meta"
    using read_meta_file [OF r(1) assms(2)] by simp_all
  note same = unchanged_same [OF one(1)]
  have two: "map_of (f_open s3) fd = Some (i, Unlocked)" "\<forall>q. entry s3 q = entry s2 q"
    using open_file_entry [OF r(2), of i] assms(3) same by (metis (no_types, lifting))+
  have data: "f_data s3 = f_data s2" using r(2) by (auto simp: open_file_def faulty_def split: list.splits option.splits if_splits)
  have "map_of (f_open s1) fd = Some (i, LockShared) \<and> (\<forall>q. entry s1 q = entry s3 q) \<and> f_data s1 = f_data s3"
    using r(3) two(1) by (auto simp: lock_shared_def faulty_def set_lock_def map_of_map_entry entry_def split: if_splits list.splits)
  with one(2) two data same r(4) show ?thesis by simp
qed

definition files_digest :: "store_env \<Rightarrow> files \<Rightarrow> (string \<Rightarrow> nat) \<Rightarrow> string" where
  "files_digest env s at = hex_text (se_sha env (f_data s (at ''ram.img'') @ f_data s (at ''state.json'') @ f_data s (at ''kernel.img'')))"


section \<open>A small store\<close>

definition tiny_meta :: template_meta where
  "tiny_meta = \<lparr>tm_id = ''010203'', tm_shape = \<lparr>gs_memory = 0, gs_vcpus = 1, gs_devices = \<lparr>ds_disk = False, ds_channel = True, ds_network = False\<rparr>\<rparr>,
     tm_stamp = \<lparr>bs_lingcore = [], bs_layout = map of_char ''v1||010'', bs_arch = []\<rparr>, tm_kernel = [], tm_rootfs = None, tm_built_at = 0, tm_bytes = 0\<rparr>"

definition tiny_env :: store_env where
  "tiny_env = \<lparr>se_sha = (\<lambda>bs. if bs = [] then [0] else bs), se_read_meta = (\<lambda>_. Ok tiny_meta), se_write_meta = (\<lambda>_. []), se_io_text = (\<lambda>_. []),
     se_path_text = (\<lambda>_. []), se_quote = id, se_version = [], se_arch = [], se_archive = \<lparr>ar_list = (\<lambda>_. Ok []), ar_read = (\<lambda>_ _. Ok [])\<rparr>, se_now = 0\<rparr>"

text \<open>The root is the root of the file system; beside the store lies a directory with the files of a template, on another file system or not.\<close>

definition tiny_files :: "bool \<Rightarrow> bool list \<Rightarrow> files" where
  "tiny_files far fs = \<lparr>f_at = [([''src''], KDir), ([''src'', ''ram.img''], KFile 0), ([''src'', ''state.json''], KFile 1), ([''src'', ''kernel.img''], KFile 2),
       ([''src'', ''template.json''], KFile 3), ([''templates''], KDir), ([''templates'', ''aliases''], KDir), ([''run''], KDir)],
     f_data = (\<lambda>i. if i = 0 then [1] else if i = 1 then [2] else if i = 2 then [3] else []),
     f_fresh = 4, f_open = [], f_fd = 0, f_far = (\<lambda>p. far \<and> take 1 p = [''src'']), f_faults = fs\<rparr>"

definition ends_at :: "(files \<times> ('a, 'e) result) option \<Rightarrow> files" where
  "ends_at x = (case x of None \<Rightarrow> tiny_files False [] | Some (s, _) \<Rightarrow> s)"

definition succeeds :: "(files \<times> ('a, 'e) result) option \<Rightarrow> bool" where
  "succeeds x = (case x of None \<Rightarrow> False | Some (_, r) \<Rightarrow> is_ok r)"

text \<open>
  Of two removals of a template the second is between its open and its lock while the first runs whole and the template is
  registered again and held; the second then locks the image which is gone, and takes the directory of the held one away.
\<close>

definition once :: files where "once = close_file 0 (ends_at (register_template tiny_env [] [''src''] (tiny_files True [])))"
definition second_open :: files where "second_open = fst (remove_open [] ''010203'' once)"
definition again :: files where "again = ends_at (register_template tiny_env [] [''src''] (fst (remove_template [] ''010203'' second_open)))"
definition second_locked :: "files \<times> (unit, machine_error lc_error) result" where
  "second_locked = remove_locked [] ''010203'' [''templates'', ''010203''] 1 again"

lemma late_remove_takes_live_template:
  "map_of (f_open again) 3 = Some (8, LockShared)" "entry again [''templates'', ''010203'', ''ram.img''] = Some (KFile 8)"
  "snd second_locked = Ok ()" "entry (fst second_locked) [''templates'', ''010203'', ''ram.img''] = None"
  by code_simp+

text \<open>A registration which stops after its first file leaves a directory without a document, and no template is listed then.\<close>

definition stopped_register :: files where
  "stopped_register = ends_at (register_template tiny_env [] [''src''] (tiny_files False [False, False, False, False, False, False, True]))"

lemma failed_register_breaks_list:
  "is_ok (snd (list_templates tiny_env [] (tiny_files False [])))" "\<not> is_ok (snd (list_templates tiny_env [] stopped_register))"
  by code_simp+

text \<open>A file which is there already is kept without being looked at, so that a template can be registered whose files do not digest to its id.\<close>

definition partial_store :: files where
  "partial_store = (tiny_files True [])\<lparr>f_at := f_at (tiny_files True []) @ [([''templates'', ''010203''], KDir), ([''templates'', ''010203'', ''ram.img''], KFile 9)], f_fresh := 10\<rparr>"

lemma register_keeps_partial_file:
  "succeeds (register_template tiny_env [] [''src''] partial_store)"
  "f_data (ends_at (register_template tiny_env [] [''src''] partial_store)) 9 = []"
  "entry (ends_at (register_template tiny_env [] [''src''] partial_store)) [''templates'', ''010203'', ''ram.img''] = Some (KFile 9)"
  by code_simp+

text \<open>A template is linked to the files it was registered from: writing these in place changes it.\<close>

lemma registered_template_shares_files:
  "entry (ends_at (register_template tiny_env [] [''src''] (tiny_files False []))) [''templates'', ''010203'', ''ram.img''] = Some (KFile 0)"
  "f_data (fst (write_file [''src'', ''ram.img''] [9] (ends_at (register_template tiny_env [] [''src''] (tiny_files False []))))) 0 = [9]"
  by code_simp+

section \<open>Witnesses\<close>

definition source_inode :: "string \<Rightarrow> nat" where
  "source_inode n = (if n = ''ram.img'' then 0 else if n = ''state.json'' then 1 else if n = ''kernel.img'' then 2 else 3)"

definition tiny_template :: template where
  "tiny_template = \<lparr>t_dir = [''templates'', ''010203''], t_meta = tiny_meta, t_ram = 0, t_run_root = [''run''], t_state = None\<rparr>"

definition tiny_registered :: files where
  "tiny_registered = ends_at (register_template tiny_env [] [''src''] (tiny_files False []))"

lemma tiny_result: "map_option snd (register_template tiny_env [] [''src''] (tiny_files False [])) = Some (Ok tiny_template)"
  by code_simp

lemma tiny_runs: "register_template tiny_env [] [''src''] (tiny_files False []) = Some (tiny_registered, Ok tiny_template)"
  using tiny_result by (auto simp: tiny_registered_def ends_at_def)

lemma tiny_state:
  "f_open tiny_registered = [(0, 0, LockShared)]" "f_fd tiny_registered = 1" "f_fresh tiny_registered = 4"
  "list_all (\<lambda>x. case x of KFile i \<Rightarrow> i < 4 | _ \<Rightarrow> True) (map snd (f_at tiny_registered))"
  by code_simp+

lemma tiny_files_ok: "files_ok (tiny_files far fs)"
  by (auto simp: files_ok_def tiny_files_def)

lemma tiny_registered_ok: "files_ok tiny_registered"
  using tiny_state by (fastforce simp: files_ok_def list_all_iff)

lemma tiny_live: "live [] tiny_registered tiny_template"
proof -
  have "entry tiny_registered [''templates''] = Some KDir" "entry tiny_registered [''templates'', ''010203'', ''ram.img''] = Some (KFile 0)"
    "entry tiny_registered [''templates'', ''010203'', ''template.json''] = Some (KFile 3)"
    by code_simp+
  with tiny_state(1) show ?thesis by (simp add: live_def tiny_template_def templates_dir_def)
qed

lemma tiny_sha: "se_sha tiny_env bs \<noteq> []"
  by (simp add: tiny_env_def)



end
