(* ===== verification/Boot_Load.thy ===== *)
theory Boot_Load
  imports Ram_Image
begin

text \<open>
  Loading a kernel without firmware: \<^verbatim>\<open>src/lingcore/src/boot/bzimage.rs\<close>, \<^verbatim>\<open>image.rs\<close> and the memory map of
  \<^verbatim>\<open>src/lingcore/src/machine/x86_64/mod.rs\<close>.  The loaders of the \<^verbatim>\<open>linux_loader\<close> crate, the bytes of its \<^verbatim>\<open>boot_params\<close>
  and the files of the kernel and the initramfs are parameters.

  The lemmas show where an initramfs is placed, and which addresses the guest is told it may use.
\<close>

section \<open>A bzImage or an ELF\<close>

definition LOAD_ADDRESS :: u64 where "LOAD_ADDRESS = 0x100000"
definition BOOT_PARAMS :: u64 where "BOOT_PARAMS = 0x7000"
definition CMDLINE :: u64 where "CMDLINE = 0x20000"
definition LOW_MEMORY_END :: u64 where "LOW_MEMORY_END = 0x9fc00"
definition BOOT_PAGE :: u64 where "BOOT_PAGE = 0x1000"
definition INITRD_ADDR_MAX_DEFAULT :: u32 where "INITRD_ADDR_MAX_DEFAULT = 0x37ffffff"
definition E820_RAM :: u32 where "E820_RAM = 1"
definition LOADER_OTHER :: u8 where "LOADER_OTHER = 0xff"
definition ELF_MAGIC :: bytes where "ELF_MAGIC = [0x7f, 0x45, 0x4c, 0x46]"
definition SETUP_MAGIC :: u32 where "SETUP_MAGIC = 0x53726448"
definition BOOT_FLAG :: u16 where "BOOT_FLAG = 0xaa55"
definition KERNEL_ALIGNMENT :: u32 where "KERNEL_ALIGNMENT = 0x1000000"
definition ENTRY_64 :: u64 where "ENTRY_64 = 0x200"

text \<open>\<^verbatim>\<open>E820_MAX_ENTRIES_ZEROPAGE\<close> of the crate.\<close>

definition E820_MAX :: nat where "E820_MAX = 128"

datatype boot_error =
    NotBzImage | NoRoomForKernel | NoRoomForParams | NoRoomForInitrd | InitrdRead | NoRoomForBootTables | TooManyRanges
  | CmdlineHasNul | BootVcpu | NotImage | ImageRead | UnalignedRam

text \<open>The fields of a setup header which are read or written here.\<close>

record setup_header =
  hd_boot_flag :: u16
  hd_header :: u32
  hd_type_of_loader :: u8
  hd_ramdisk_image :: u32
  hd_ramdisk_size :: u32
  hd_cmd_line_ptr :: u32
  hd_initrd_addr_max :: u32
  hd_kernel_alignment :: u32
  hd_cmdline_size :: u32

definition header_default :: setup_header where
  "header_default = \<lparr>hd_boot_flag = 0, hd_header = 0, hd_type_of_loader = 0, hd_ramdisk_image = 0, hd_ramdisk_size = 0, hd_cmd_line_ptr = 0,
     hd_initrd_addr_max = 0, hd_kernel_alignment = 0, hd_cmdline_size = 0\<rparr>"

record boot_kernel =
  bk_entry :: u64
  bk_end :: u64
  bk_setup :: setup_header

record initrd =
  rd_addr :: u64
  rd_size :: u64

text \<open>What a loader reports: where it put the kernel, where that ends, and the header it read; or whether the image or the memory was at fault.\<close>

record kernel_loaded =
  kl_load :: u64
  kl_end :: u64
  kl_setup :: "setup_header option"

datatype loader_error = LoaderFormat | LoaderOther

record ('m, 'f) boot_io =
  im_position :: "'f \<Rightarrow> 'f \<times> nat option"
  im_read :: "nat \<Rightarrow> 'f \<Rightarrow> 'f \<times> bytes option"
  im_seek :: "nat \<Rightarrow> 'f \<Rightarrow> 'f \<times> unit option"
  im_read_to_end :: "'f \<Rightarrow> 'f \<times> bytes option"
  load_elf :: "u64 \<Rightarrow> 'f \<Rightarrow> 'm \<Rightarrow> 'f \<times> 'm \<times> (kernel_loaded, loader_error) result"
  load_bz :: "u64 \<Rightarrow> 'f \<Rightarrow> 'm \<Rightarrow> 'f \<times> 'm \<times> (kernel_loaded, loader_error) result"

definition is_elf :: "('m, 'f) boot_io \<Rightarrow> 'f \<Rightarrow> 'f \<times> (bool, boot_error) result" where
  "is_elf io f =
     (case im_position io f of
        (f1, None) \<Rightarrow> (f1, Err NotBzImage)
      | (f1, Some at) \<Rightarrow>
          (case im_read io 4 f1 of
             (f2, None) \<Rightarrow> (f2, Err NotBzImage)
           | (f2, Some magic) \<Rightarrow>
               (case im_seek io at f2 of
                  (f3, None) \<Rightarrow> (f3, Err NotBzImage)
                | (f3, Some _) \<Rightarrow> (f3, Ok (length magic = 4 \<and> magic = ELF_MAGIC)))))"

definition loader_failed :: "loader_error \<Rightarrow> boot_error" where
  "loader_failed e = (case e of LoaderFormat \<Rightarrow> NotBzImage | LoaderOther \<Rightarrow> NoRoomForKernel)"

definition load_kernel :: "('m, 'f) boot_io \<Rightarrow> 'm \<Rightarrow> 'f \<Rightarrow> 'f \<times> 'm \<times> (boot_kernel, boot_error) result" where
  "load_kernel io m f =
     (case is_elf io f of
        (f1, Inl e) \<Rightarrow> (f1, m, Err e)
      | (f1, Inr True) \<Rightarrow>
          (case load_elf io LOAD_ADDRESS f1 m of
             (f2, m1, Inl e) \<Rightarrow> (f2, m1, Err (loader_failed e))
           | (f2, m1, Inr x) \<Rightarrow>
               (f2, m1, Ok \<lparr>bk_entry = kl_load x, bk_end = kl_end x,
                  bk_setup = header_default\<lparr>hd_header := SETUP_MAGIC, hd_boot_flag := BOOT_FLAG, hd_kernel_alignment := KERNEL_ALIGNMENT\<rparr>\<rparr>))
      | (f1, Inr False) \<Rightarrow>
          (case load_bz io LOAD_ADDRESS f1 m of
             (f2, m1, Inl e) \<Rightarrow> (f2, m1, Err (loader_failed e))
           | (f2, m1, Inr x) \<Rightarrow>
               (f2, m1, Ok \<lparr>bk_entry = kl_load x + ENTRY_64, bk_end = kl_end x,
                  bk_setup = (case kl_setup x of None \<Rightarrow> header_default | Some h \<Rightarrow> h)\<rparr>)))"

definition region_end :: "region \<Rightarrow> u64" where
  "region_end r = gpa r + region_size r"

definition kernel_region :: "region list \<Rightarrow> u64 \<Rightarrow> region option" where
  "kernel_region rs kend = find (\<lambda>r. gpa r < kend \<and> kend \<le> region_end r) rs"

text \<open>The highest page at which \<open>size\<close> bytes end by \<open>top\<close>, unless that is below the end of the kernel.\<close>

definition place_below :: "u64 \<Rightarrow> u64 \<Rightarrow> u64 \<Rightarrow> (u64, boot_error) result" where
  "place_below upper kend bytes_taken =
     (if upper < bytes_taken then Err NoRoomForInitrd
      else let addr = (upper - bytes_taken) AND NOT (BOOT_PAGE - 1) in
           if addr < kend then Err NoRoomForInitrd else Ok addr)"

definition initrd_limit :: "setup_header \<Rightarrow> u32" where
  "initrd_limit h = (if hd_initrd_addr_max h = 0 then INITRD_ADDR_MAX_DEFAULT else hd_initrd_addr_max h)"

definition initrd_address :: "region list \<Rightarrow> boot_kernel \<Rightarrow> u64 \<Rightarrow> (u64, boot_error) result" where
  "initrd_address rs k bytes_taken =
     (case kernel_region rs (bk_end k) of
        None \<Rightarrow> Err NoRoomForInitrd
      | Some r \<Rightarrow> place_below (min (ucast (initrd_limit (bk_setup k)) + 1) (region_end r)) (bk_end k) bytes_taken)"

definition load_initrd :: "'m vm \<Rightarrow> ('m, 'f) boot_io \<Rightarrow> boot_kernel \<Rightarrow> 'm \<Rightarrow> 'f \<Rightarrow> 'f \<times> 'm \<times> (initrd, boot_error) result" where
  "load_initrd vm io k m f =
     (case im_read_to_end io f of
        (f1, None) \<Rightarrow> (f1, m, Err InitrdRead)
      | (f1, Some bs) \<Rightarrow>
          (let n = of_nat (length bs) in
           case initrd_address (ram_regions vm m) k n of
             Inl e \<Rightarrow> (f1, m, Err e)
           | Inr addr \<Rightarrow>
               (case ram_write vm m addr bs of
                  (m1, Inl _) \<Rightarrow> (f1, m1, Err NoRoomForInitrd)
                | (m1, Inr _) \<Rightarrow> (f1, m1, Ok \<lparr>rd_addr = addr, rd_size = n\<rparr>))))"

definition split_region :: "region \<Rightarrow> (u64 \<times> u64) list" where
  "split_region r =
     (let start = gpa r; fin = region_end r in
      map (\<lambda>(a, b). (a, b - a)) (filter (\<lambda>(a, b). a < b) [(start, min fin LOW_MEMORY_END), (max start LOAD_ADDRESS, fin)]))"

definition ram_ranges :: "region list \<Rightarrow> (u64 \<times> u64) list" where
  "ram_ranges rs = concat (map split_region rs)"

record boot_params =
  bp_hdr :: setup_header
  bp_e820 :: "(u64 \<times> u64 \<times> u32) list"
  bp_entries :: u8

definition boot_header :: "setup_header \<Rightarrow> nat \<Rightarrow> initrd option \<Rightarrow> setup_header" where
  "boot_header h cmdline_len rd =
     (let h1 = (if hd_type_of_loader h = 0 then h\<lparr>hd_type_of_loader := LOADER_OTHER\<rparr> else h);
          h2 = h1\<lparr>hd_cmd_line_ptr := ucast CMDLINE, hd_cmdline_size := of_nat cmdline_len + 1\<rparr>
      in case rd of None \<Rightarrow> h2 | Some x \<Rightarrow> h2\<lparr>hd_ramdisk_image := ucast (rd_addr x), hd_ramdisk_size := ucast (rd_size x)\<rparr>)"

definition write_boot_params ::
  "'m vm \<Rightarrow> (boot_params \<Rightarrow> bytes) \<Rightarrow> boot_kernel \<Rightarrow> bytes \<Rightarrow> initrd option \<Rightarrow> 'm \<Rightarrow> 'm \<times> (unit, boot_error) result" where
  "write_boot_params vm as_slice k cmdline rd m =
     (if 0 \<in> set cmdline then (m, Err CmdlineHasNul)
      else let ranges = ram_ranges (ram_regions vm m) in
           if E820_MAX < length ranges then (m, Err TooManyRanges)
           else case ram_write vm m CMDLINE (cmdline @ [0]) of
                  (m1, Inl _) \<Rightarrow> (m1, Err NoRoomForParams)
                | (m1, Inr _) \<Rightarrow>
                    (case ram_write vm m1 BOOT_PARAMS (as_slice \<lparr>bp_hdr = boot_header (bk_setup k) (length cmdline) rd,
                            bp_e820 = map (\<lambda>(a, n). (a, n, E820_RAM)) ranges, bp_entries = of_nat (length ranges)\<rparr>) of
                       (m2, Inl _) \<Rightarrow> (m2, Err NoRoomForParams)
                     | (m2, Inr _) \<Rightarrow> (m2, Ok ())))"

section \<open>An Image\<close>

definition IMAGE_HEADER :: nat where "IMAGE_HEADER = 64"
definition TEXT_OFFSET :: nat where "TEXT_OFFSET = 8"
definition IMAGE_SIZE :: nat where "IMAGE_SIZE = 16"
definition MAGIC_AT :: nat where "MAGIC_AT = 56"
definition IMAGE_ALIGN :: u64 where "IMAGE_ALIGN = 0x200000"

record image_kernel =
  ik_entry :: u64
  ik_end :: u64

definition field_at :: "bytes \<Rightarrow> nat \<Rightarrow> u64" where
  "field_at bs at = from_le (take 8 (drop at bs))"

text \<open>Rewinding and reading the whole image is one parameter; the magic is the one of the architecture.\<close>

definition load_image :: "'m vm \<Rightarrow> u32 \<Rightarrow> u64 \<Rightarrow> bytes option \<Rightarrow> 'm \<Rightarrow> 'm \<times> (image_kernel, boot_error) result" where
  "load_image vm magic base file m =
     (if base mod IMAGE_ALIGN \<noteq> 0 then (m, Err UnalignedRam)
      else (case file of
        None \<Rightarrow> (m, Err ImageRead)
      | Some bs \<Rightarrow>
          (if length bs < IMAGE_HEADER \<or> from_le (take 4 (drop MAGIC_AT bs)) \<noteq> magic then (m, Err NotImage)
           else (case checked_add base (field_at bs TEXT_OFFSET) of
                  None \<Rightarrow> (m, Err NoRoomForKernel)
                | Some start \<Rightarrow>
                    (let taken = max (field_at bs IMAGE_SIZE) (of_nat (length bs)) in
                     (case checked_add start taken of
                       None \<Rightarrow> (m, Err NoRoomForKernel)
                     | Some fin \<Rightarrow>
                         (if \<not> ram_holds vm m start taken then (m, Err NoRoomForKernel)
                          else (case ram_write vm m start bs of
                                (m1, Inl _) \<Rightarrow> (m1, Err NoRoomForKernel)
                              | (m1, Inr _) \<Rightarrow> (m1, Ok \<lparr>ik_entry = start, ik_end = fin\<rparr>)))))))))"

definition image_initrd_address :: "region list \<Rightarrow> image_kernel \<Rightarrow> u64 \<Rightarrow> (u64, boot_error) result" where
  "image_initrd_address rs k bytes_taken =
     (case kernel_region rs (ik_end k) of
        None \<Rightarrow> Err NoRoomForInitrd
      | Some r \<Rightarrow> place_below (region_end r) (ik_end k) bytes_taken)"

section \<open>The memory map of an x86 guest\<close>

definition MMIO_HOLE :: u64 where "MMIO_HOLE = 0xc0000000"
definition HIGH_RAM :: u64 where "HIGH_RAM = 0x100000000"

definition layout :: "u64 \<Rightarrow> (u64 \<times> u64) list" where
  "layout n = (if n \<le> MMIO_HOLE then [(0, n)] else [(0, MMIO_HOLE), (HIGH_RAM, n - MMIO_HOLE)])"

section \<open>Where an initramfs goes\<close>

lemma unat_page_floor: "unat ((x :: u64) AND NOT (BOOT_PAGE - 1)) = 4096 * (unat x div 4096)"
proof -
  have "BOOT_PAGE - 1 = mask 12" by (simp add: BOOT_PAGE_def mask_eq_exp_minus_1)
  then have "x AND NOT (BOOT_PAGE - 1) = push_bit 12 (drop_bit 12 x)"
    by (intro bit_word_eqI) (auto simp: bit_simps)
  moreover have "unat x div 4096 * 4096 < 2 ^ 64"
    using unsigned_less [of x, where 'a = nat] by (simp add: order_le_less_trans [OF div_times_less_eq_dividend])
  ultimately show ?thesis by (simp add: push_bit_eq_mult drop_bit_eq_div unat_word_ariths unat_div)
qed

text \<open>The page is the highest one which fits, and there is no error if one fits.\<close>

lemma place_below_highest:
  "(case place_below upper kend n of
      Inr addr \<Rightarrow> unat addr mod 4096 = 0 \<and> kend \<le> addr \<and> unat addr + unat n \<le> unat upper \<and>
        (\<forall>a. unat a mod 4096 = 0 \<and> unat a + unat n \<le> unat upper \<longrightarrow> a \<le> addr)
    | Inl e \<Rightarrow> e = NoRoomForInitrd \<and> \<not> (\<exists>a. unat a mod 4096 = 0 \<and> kend \<le> a \<and> unat a + unat n \<le> unat upper))"
proof -
  let ?addr = "(upper - n) AND NOT (BOOT_PAGE - 1)"
  have below: "unat (upper - n) = unat upper - unat n" if "n \<le> upper"
    using that by (simp add: unat_sub word_le_nat_alt)
  have fits: "unat ?addr mod 4096 = 0" "n \<le> upper \<Longrightarrow> unat ?addr + unat n \<le> unat upper"
    using below by (auto simp: unat_page_floor word_le_nat_alt)
  have high: "a \<le> ?addr" if "n \<le> upper" "unat a mod 4096 = 0" "unat a + unat n \<le> unat upper" for a
  proof -
    have "unat a \<le> unat (upper - n)" using below that by simp
    then have "4096 * (unat a div 4096) \<le> 4096 * (unat (upper - n) div 4096)" by (simp add: div_le_mono)
    moreover have "4096 * (unat a div 4096) = unat a" using that(2) by (simp add: mod_0_imp_dvd)
    ultimately show ?thesis by (simp add: word_le_nat_alt unat_page_floor)
  qed
  show ?thesis
  proof (cases "upper < n")
    case True
    then have "unat upper < unat n" by (simp add: word_less_nat_alt)
    with True show ?thesis by (auto simp: place_below_def)
  next
    case False
    then have "n \<le> upper" by simp
    then have "\<not> (unat a mod 4096 = 0 \<and> kend \<le> a \<and> unat a + unat n \<le> unat upper)" if "?addr < kend" for a
      using high [of a] that by (metis leD order_trans)
    with False fits high show ?thesis by (auto simp: place_below_def Let_def)
  qed
qed

text \<open>An initramfs of a bzImage or an ELF is on the highest page at which it ends within the region of the kernel and by the address its header
  allows, and at or above the end of the kernel; it is refused if there is no such page.\<close>

definition initrd_fits :: "region list \<Rightarrow> boot_kernel \<Rightarrow> u64 \<Rightarrow> u64 \<Rightarrow> bool" where
  "initrd_fits rs k n a \<longleftrightarrow>
     (\<exists>r. kernel_region rs (bk_end k) = Some r \<and> unat a mod 4096 = 0 \<and> bk_end k \<le> a \<and>
        unat a + unat n \<le> unat (gpa r) + unat (region_size r) \<and> unat a + unat n \<le> unat (initrd_limit (bk_setup k)) + 1)"

definition region_ends :: "region \<Rightarrow> bool" where
  "region_ends r \<longleftrightarrow> unat (gpa r) + unat (region_size r) < 2 ^ 64"

lemma unat_region_end: "region_ends r \<Longrightarrow> unat (region_end r) = unat (gpa r) + unat (region_size r)"
  by (simp add: region_end_def region_ends_def unat_word_ariths)

lemma unat_limit: "unat (ucast (x :: u32) + 1 :: u64) = unat x + 1"
proof -
  have "unat x < 2 ^ 32" using unsigned_less [of x, where 'a = nat] by simp
  then show ?thesis by (simp add: unat_word_ariths unsigned_ucast_eq take_bit_eq_mod)
qed

lemma initrd_address_fits:
  assumes "list_all region_ends rs"
  shows "(case initrd_address rs k n of
      Inr a \<Rightarrow> initrd_fits rs k n a \<and> (\<forall>a'. initrd_fits rs k n a' \<longrightarrow> a' \<le> a)
    | Inl e \<Rightarrow> e = NoRoomForInitrd \<and> \<not> (\<exists>a. initrd_fits rs k n a))"
proof (cases "kernel_region rs (bk_end k)")
  case None
  then show ?thesis by (simp add: initrd_address_def initrd_fits_def)
next
  case (Some r)
  let ?upper = "min (ucast (initrd_limit (bk_setup k)) + 1) (region_end r)"
  have "region_ends r" using assms Some by (auto simp: kernel_region_def find_Some_iff list_all_iff)
  then have "unat ?upper = min (unat (initrd_limit (bk_setup k)) + 1) (unat (gpa r) + unat (region_size r))"
    by (simp add: min_def word_le_nat_alt unat_limit unat_region_end)
  then have "initrd_fits rs k n a \<longleftrightarrow> unat a mod 4096 = 0 \<and> bk_end k \<le> a \<and> unat a + unat n \<le> unat ?upper" for a
    using Some by (auto simp: initrd_fits_def)
  with Some place_below_highest [where upper = ?upper and kend = "bk_end k" and n = n] show ?thesis
    by (auto simp: initrd_address_def split: sum.splits)
qed

section \<open>The memory a guest may use\<close>

definition in_range :: "nat \<Rightarrow> u64 \<times> u64 \<Rightarrow> bool" where
  "in_range x p \<longleftrightarrow> unat (fst p) \<le> x \<and> x < unat (fst p) + unat (snd p)"

lemma in_piece: "a < b \<Longrightarrow> in_range x (a, b - a) \<longleftrightarrow> unat a \<le> x \<and> x < unat b"
  by (simp add: in_range_def unat_sub word_less_nat_alt word_le_nat_alt)

lemma pieces_cover:
  "list_ex (in_range x) (map (\<lambda>(a, b). (a, b - a)) (filter (\<lambda>(a, b). a < b) ps)) \<longleftrightarrow> list_ex (\<lambda>(a, b). unat a \<le> x \<and> x < unat b) ps"
  by (induction ps) (auto simp: in_piece word_less_nat_alt)

lemma split_region_covers:
  assumes "region_ends r"
  shows "list_ex (in_range x) (split_region r) \<longleftrightarrow> covers r x \<and> \<not> (0x9fc00 \<le> x \<and> x < 0x100000)"
proof -
  have bounds: "unat LOW_MEMORY_END = 0x9fc00" "unat LOAD_ADDRESS = 0x100000" by (simp_all add: LOW_MEMORY_END_def LOAD_ADDRESS_def)
  have mins: "unat (min a b) = min (unat a) (unat b)" "unat (max a b) = max (unat a) (unat b)" for a b :: u64
    by (simp_all add: min_def max_def word_le_nat_alt)
  have "list_ex (in_range x) (split_region r) \<longleftrightarrow>
      (unat (gpa r) \<le> x \<and> x < unat (min (region_end r) LOW_MEMORY_END)) \<or> (unat (max (gpa r) LOAD_ADDRESS) \<le> x \<and> x < unat (region_end r))"
    unfolding split_region_def Let_def pieces_cover by simp
  with assms bounds show ?thesis by (auto simp: covers_def mins unat_region_end)
qed

lemma ram_ranges_cover:
  "list_all region_ends rs \<Longrightarrow>
   list_ex (in_range x) (ram_ranges rs) \<longleftrightarrow> list_ex (\<lambda>r. covers r x) rs \<and> \<not> (0x9fc00 \<le> x \<and> x < 0x100000)"
  by (induction rs) (auto simp: ram_ranges_def split_region_covers)

lemma ram_ranges_few: "length (ram_ranges rs) \<le> 2 * length rs"
  by (induction rs) (auto simp: ram_ranges_def split_region_def Let_def)

end
