(* ===== verification/Boot_Tables.thy ===== *)
theory Boot_Tables
  imports Boot_Load
begin

text \<open>
  What an x86 guest finds in low memory: the descriptor tables and page tables of \<^verbatim>\<open>src/lingcore/src/boot/mode.rs\<close>, the MP
  table of \<^verbatim>\<open>machine/x86_64/mptable.rs\<close>, the cursor of \<^verbatim>\<open>machine/x86_64/acpi.rs\<close> and the leaves of \<^verbatim>\<open>machine/x86_64/cpuid.rs\<close>.
  The registers of a vCPU are reached by operations which are parameters, as are the bytes of an ACPI table, which the
  \<^verbatim>\<open>acpi_tables\<close> crate builds.

  The lemmas show that a walk of the page tables maps the first gigabyte to itself, that the MP table is one the kernel
  accepts and that it fits for 37 processors at most, and that ACPI tables are laid one behind the other in their area.
\<close>

section \<open>Registers\<close>

datatype reg = Rax | Rbx | Rcx | Rdx | Rsi | Rdi | Rsp | Rbp | R8 | R9 | R10 | R11 | R12 | R13 | R14 | R15 | Rip | Rflags
datatype sreg = Cr0 | Cr2 | Cr3 | Cr4 | Cr8 | Efer | ApicBase
datatype seg_reg = Cs | Ds | Es | Fs | Gs | Ss | Tr | Ldtr
datatype dt_reg = Gdt | Idt

record seg_reg_val =
  sr_base :: u64
  sr_limit :: u32
  sr_selector :: u16
  sr_attr :: u16

record dt_reg_val =
  dt_base :: u64
  dt_limit :: u16

record 'v vcpu_regs =
  get_sreg :: "sreg \<Rightarrow> 'v \<Rightarrow> u64 option"
  set_sregs :: "(sreg \<times> u64) list \<Rightarrow> (seg_reg \<times> seg_reg_val) list \<Rightarrow> (dt_reg \<times> dt_reg_val) list \<Rightarrow> 'v \<Rightarrow> 'v \<times> bool"
  set_regs :: "(reg \<times> u64) list \<Rightarrow> 'v \<Rightarrow> 'v \<times> bool"

section \<open>Entering long mode\<close>

definition GDT_AT :: u64 where "GDT_AT = 0x500"
definition IDT_AT :: u64 where "IDT_AT = 0x520"
definition PML4 :: u64 where "PML4 = 0x9000"
definition PDPT :: u64 where "PDPT = 0xa000"
definition PD :: u64 where "PD = 0xb000"
definition STACK :: u64 where "STACK = 0x8ff0"
definition RFLAGS_RESET :: u64 where "RFLAGS_RESET = 2"
definition CODE_ATTR :: u16 where "CODE_ATTR = 0xa09b"
definition DATA_ATTR :: u16 where "DATA_ATTR = 0xc093"
definition TSS_ATTR :: u16 where "TSS_ATTR = 0x808b"
definition GDT_LIMIT :: u16 where "GDT_LIMIT = 31"
definition GRANULARITY :: u16 where "GRANULARITY = push_bit 15 1"
definition FLAT_LIMIT :: u32 where "FLAT_LIMIT = 0xffffffff"
definition CR0_PE :: u64 where "CR0_PE = 1"
definition CR0_PG :: u64 where "CR0_PG = push_bit 31 1"
definition CR4_PAE :: u64 where "CR4_PAE = push_bit 5 1"
definition EFER_LME :: u64 where "EFER_LME = push_bit 8 1"
definition EFER_LMA :: u64 where "EFER_LMA = push_bit 10 1"
definition PRESENT_WRITE :: u64 where "PRESENT_WRITE = 3"
definition LARGE_PAGE :: u64 where "LARGE_PAGE = 0x80"
definition LARGE_PAGE_SIZE :: u64 where "LARGE_PAGE_SIZE = push_bit 21 1"
definition DIRECTORY_ENTRIES :: nat where "DIRECTORY_ENTRIES = 512"

definition gdt_descriptor :: "seg_reg_val \<Rightarrow> u64" where
  "gdt_descriptor s =
     (let limit = (if sr_attr s AND GRANULARITY = 0 then ucast (sr_limit s) else ucast (drop_bit 12 (sr_limit s)));
          attr = ucast (sr_attr s)
      in push_bit 32 (sr_base s AND 0xff000000) OR push_bit 40 (attr AND 0xf000) OR push_bit 32 (limit AND 0xf0000)
           OR push_bit 40 (attr AND 0xff) OR push_bit 16 (sr_base s AND 0x00ffffff) OR (limit AND 0xffff))"

definition flat_segment :: "u16 \<Rightarrow> u16 \<Rightarrow> seg_reg_val" where
  "flat_segment slot attr = \<lparr>sr_base = 0, sr_limit = FLAT_LIMIT, sr_selector = slot * 8, sr_attr = attr\<rparr>"

definition boot_segments :: "seg_reg_val list" where
  "boot_segments = [flat_segment 1 CODE_ATTR, flat_segment 2 DATA_ATTR, flat_segment 3 TSS_ATTR]"

definition write_tables :: "'m vm \<Rightarrow> 'm \<Rightarrow> 'm \<times> (seg_reg_val list, boot_error) result" where
  "write_tables vm m =
     (case ram_write vm m GDT_AT (replicate 8 0 @ concat (map (\<lambda>s. to_le 8 (gdt_descriptor s)) boot_segments)) of
        (m1, Inl _) \<Rightarrow> (m1, Err NoRoomForBootTables)
      | (m1, Inr _) \<Rightarrow>
          (case ram_write vm m1 IDT_AT (to_le 8 (0 :: u64)) of
             (m2, Inl _) \<Rightarrow> (m2, Err NoRoomForBootTables)
           | (m2, Inr _) \<Rightarrow> (m2, Ok boot_segments)))"

definition directory_entry :: "nat \<Rightarrow> u64" where
  "directory_entry i = (of_nat i * LARGE_PAGE_SIZE) OR LARGE_PAGE OR PRESENT_WRITE"

definition page_directory :: bytes where
  "page_directory = concat (map (\<lambda>i. to_le 8 (directory_entry i)) [0..<DIRECTORY_ENTRIES])"

definition write_page_tables :: "'m vm \<Rightarrow> 'm \<Rightarrow> 'm \<times> (u64, boot_error) result" where
  "write_page_tables vm m =
     (case ram_write vm m PML4 (to_le 8 (PDPT OR PRESENT_WRITE)) of
        (m1, Inl _) \<Rightarrow> (m1, Err NoRoomForBootTables)
      | (m1, Inr _) \<Rightarrow>
          (case ram_write vm m1 PDPT (to_le 8 (PD OR PRESENT_WRITE)) of
             (m2, Inl _) \<Rightarrow> (m2, Err NoRoomForBootTables)
           | (m2, Inr _) \<Rightarrow>
               (case ram_write vm m2 PD page_directory of
                  (m3, Inl _) \<Rightarrow> (m3, Err NoRoomForBootTables)
                | (m3, Inr _) \<Rightarrow> (m3, Ok PML4))))"

text \<open>The values given to the vCPU, as one list for each of the three kinds of register.\<close>

definition mode_sregs :: "u64 \<Rightarrow> u64 \<Rightarrow> u64 \<Rightarrow> u64 \<Rightarrow> (sreg \<times> u64) list" where
  "mode_sregs cr0 cr4 efer root =
     [(Cr0, cr0 OR CR0_PE OR CR0_PG), (Cr3, root), (Cr4, cr4 OR CR4_PAE), (Efer, efer OR EFER_LME OR EFER_LMA)]"

definition mode_segments :: "seg_reg_val list \<Rightarrow> (seg_reg \<times> seg_reg_val) list" where
  "mode_segments segs =
     (let code = segs ! 0; data = segs ! 1; tss = segs ! 2
      in [(Cs, code), (Ds, data), (Es, data), (Fs, data), (Gs, data), (Ss, data), (Tr, tss)])"

definition mode_tables :: "(dt_reg \<times> dt_reg_val) list" where
  "mode_tables = [(Gdt, \<lparr>dt_base = GDT_AT, dt_limit = GDT_LIMIT\<rparr>), (Idt, \<lparr>dt_base = IDT_AT, dt_limit = 7\<rparr>)]"

definition entry_regs :: "boot_kernel \<Rightarrow> (reg \<times> u64) list" where
  "entry_regs k = [(Rip, bk_entry k), (Rsp, STACK), (Rbp, STACK), (Rsi, BOOT_PARAMS), (Rflags, RFLAGS_RESET)]"

definition enter_long_mode ::
  "'m vm \<Rightarrow> 'v vcpu_regs \<Rightarrow> boot_kernel \<Rightarrow> 'm \<Rightarrow> 'v \<Rightarrow> 'm \<times> 'v \<times> (unit, boot_error) result" where
  "enter_long_mode vm ops k m v =
     (case write_tables vm m of
        (m1, Inl e) \<Rightarrow> (m1, v, Err e)
      | (m1, Inr segs) \<Rightarrow>
          (case write_page_tables vm m1 of
             (m2, Inl e) \<Rightarrow> (m2, v, Err e)
           | (m2, Inr root) \<Rightarrow>
               (case (get_sreg ops Cr0 v, get_sreg ops Cr4 v, get_sreg ops Efer v) of
                  (Some cr0, Some cr4, Some efer) \<Rightarrow>
                    (case set_sregs ops (mode_sregs cr0 cr4 efer root) (mode_segments segs) mode_tables v of
                       (v1, False) \<Rightarrow> (m2, v1, Err BootVcpu)
                     | (v1, True) \<Rightarrow>
                         (case set_regs ops (entry_regs k) v1 of
                            (v2, False) \<Rightarrow> (m2, v2, Err BootVcpu)
                          | (v2, True) \<Rightarrow> (m2, v2, Ok ())))
                | _ \<Rightarrow> (m2, v, Err BootVcpu))))"

section \<open>The MP table\<close>

definition MP_TABLE :: u64 where "MP_TABLE = 0x9fc00"
definition MP_ROOM :: nat where "MP_ROOM = 0x400"
definition POINTER_SIGNATURE :: bytes where "POINTER_SIGNATURE = [0x5f, 0x4d, 0x50, 0x5f]"
definition CONFIG_SIGNATURE :: bytes where "CONFIG_SIGNATURE = [0x50, 0x43, 0x4d, 0x50]"
definition MP_REVISION :: u8 where "MP_REVISION = 4"
definition POINTER_PARAGRAPHS :: u8 where "POINTER_PARAGRAPHS = 1"
definition POINTER_BYTES :: nat where "POINTER_BYTES = 16"
definition LOCAL_APIC :: u32 where "LOCAL_APIC = 0xfee00000"
definition IO_APIC :: u32 where "IO_APIC = 0xfec00000"
definition APIC_VERSION :: u8 where "APIC_VERSION = 0x14"
definition MP_PROCESSOR :: u8 where "MP_PROCESSOR = 0"
definition MP_BUS :: u8 where "MP_BUS = 1"
definition MP_IO_APIC :: u8 where "MP_IO_APIC = 2"
definition MP_INTERRUPT :: u8 where "MP_INTERRUPT = 3"
definition MP_LOCAL_INTERRUPT :: u8 where "MP_LOCAL_INTERRUPT = 4"
definition CPU_ENABLED :: u8 where "CPU_ENABLED = 1"
definition CPU_BOOTSTRAP :: u8 where "CPU_BOOTSTRAP = 2"
definition DELIVERY_VECTORED :: u8 where "DELIVERY_VECTORED = 0"
definition DELIVERY_NMI :: u8 where "DELIVERY_NMI = 1"
definition DELIVERY_EXTERNAL :: u8 where "DELIVERY_EXTERNAL = 3"
definition MP_LINES :: nat where "MP_LINES = 24"
definition BUS_KIND :: bytes where "BUS_KIND = [0x49, 0x53, 0x41, 0x20, 0x20, 0x20]"
definition BUS_ID :: u8 where "BUS_ID = 0"
definition LINT_EXTERNAL :: u8 where "LINT_EXTERNAL = 0"
definition LINT_NMI :: u8 where "LINT_NMI = 1"
definition ANY_PROCESSOR :: u8 where "ANY_PROCESSOR = 0xff"
definition MP_PRODUCT :: bytes where
  "MP_PRODUCT = [0x4c, 0x49, 0x4e, 0x47, 0x43, 0x41, 0x47, 0x45, 0x4c, 0x49, 0x4e, 0x47, 0x43, 0x4f, 0x52, 0x45, 0, 0, 0, 0]"

definition mp_checksum :: "bytes \<Rightarrow> u8" where
  "mp_checksum bs = NOT (fold (\<lambda>b sum. sum + b) bs 0) + 1"

definition processor_entry :: "nat \<Rightarrow> bytes" where
  "processor_entry cpu =
     [MP_PROCESSOR, of_nat cpu, APIC_VERSION, (if cpu = 0 then CPU_ENABLED OR CPU_BOOTSTRAP else CPU_ENABLED)]
       @ to_le 4 (0 :: u32) @ to_le 4 (0 :: u32) @ replicate 8 0"

definition bus_entry :: bytes where
  "bus_entry = [MP_BUS, BUS_ID] @ BUS_KIND"

definition io_apic_entry :: "u8 \<Rightarrow> bytes" where
  "io_apic_entry io = [MP_IO_APIC, io, APIC_VERSION, CPU_ENABLED] @ to_le 4 IO_APIC"

definition interrupt_entry :: "u8 \<Rightarrow> nat \<Rightarrow> bytes" where
  "interrupt_entry io line = [MP_INTERRUPT, DELIVERY_VECTORED] @ to_le 2 (0 :: u16) @ [BUS_ID, of_nat line, io, of_nat line]"

definition local_entry :: "u8 \<times> u8 \<Rightarrow> bytes" where
  "local_entry p = [MP_LOCAL_INTERRUPT, fst p] @ to_le 2 (0 :: u16) @ [BUS_ID, 0, ANY_PROCESSOR, snd p]"

definition entry_list :: "u16 \<Rightarrow> u8 \<Rightarrow> bytes list" where
  "entry_list vcpus io =
     map processor_entry [0..<unat vcpus] @ [bus_entry] @ [io_apic_entry io] @ map (interrupt_entry io) [0..<MP_LINES]
       @ map local_entry [(DELIVERY_EXTERNAL, LINT_EXTERNAL), (DELIVERY_NMI, LINT_NMI)]"

definition mp_entries :: "u16 \<Rightarrow> u8 \<Rightarrow> bytes \<times> u16" where
  "mp_entries vcpus io = (concat (entry_list vcpus io), of_nat (length (entry_list vcpus io)))"

definition mp_pointer :: bytes where
  "mp_pointer =
     (let p = POINTER_SIGNATURE @ to_le 4 (ucast (MP_TABLE + of_nat POINTER_BYTES) :: u32) @ [POINTER_PARAGRAPHS, MP_REVISION, 0] @ replicate 5 0
      in p[10 := mp_checksum p])"

definition mp_header :: "bytes \<Rightarrow> u16 \<Rightarrow> bytes" where
  "mp_header entries entry_count =
     (let h = CONFIG_SIGNATURE @ to_le 2 (of_nat (44 + length entries) :: u16) @ [MP_REVISION, 0] @ MP_PRODUCT
                @ to_le 4 (0 :: u32) @ to_le 2 (0 :: u16) @ to_le 2 entry_count @ to_le 4 LOCAL_APIC @ to_le 4 (0 :: u32) @ entries
      in h[7 := mp_checksum h])"

definition write_mp_table :: "'m vm \<Rightarrow> u16 \<Rightarrow> 'm \<Rightarrow> 'm \<times> (unit, machine_error) result" where
  "write_mp_table vm vcpus m =
     (let config = MP_TABLE + of_nat POINTER_BYTES;
          h = (case mp_entries vcpus (ucast vcpus) of (entries, n) \<Rightarrow> mp_header entries n)
      in if MP_ROOM < POINTER_BYTES + length h then (m, Err NoRoomForMpTable)
         else (case ram_write vm m MP_TABLE mp_pointer of
                 (m1, Inl _) \<Rightarrow> (m1, Err MachineMem)
               | (m1, Inr _) \<Rightarrow>
                   (case ram_write vm m1 config h of
                      (m2, Inl _) \<Rightarrow> (m2, Err MachineMem)
                    | (m2, Inr _) \<Rightarrow> (m2, Ok ()))))"

section \<open>The area of the ACPI tables\<close>

definition POINTER_AT :: u64 where "POINTER_AT = 0xe0000"
definition TABLES_AT :: u64 where "TABLES_AT = 0xa0000"
definition TABLE_ALIGN :: u64 where "TABLE_ALIGN = 8"
definition GENID_AT :: u64 where "GENID_AT = POINTER_AT - 16"

definition next_multiple :: "u64 \<Rightarrow> u64 \<Rightarrow> u64" where
  "next_multiple a n = (if a mod n = 0 then a else a + (n - a mod n))"

text \<open>A table of the crate is its bytes; \<open>cursor\<close> is the \<^verbatim>\<open>next\<close> of \<^verbatim>\<open>Laying\<close>.\<close>

definition lay_table :: "'m vm \<Rightarrow> bytes \<Rightarrow> u64 \<times> 'm \<Rightarrow> (u64 \<times> 'm) \<times> (u64, machine_error) result" where
  "lay_table vm table s =
     (case s of (cursor, m) \<Rightarrow>
        let past = cursor + of_nat (length table)
        in if GENID_AT < past then ((cursor, m), Err NoRoomForTables)
           else (case ram_write vm m cursor table of
                   (m1, Inl _) \<Rightarrow> ((cursor, m1), Err MachineMem)
                 | (m1, Inr _) \<Rightarrow> ((next_multiple past TABLE_ALIGN, m1), Ok cursor)))"

record acpi_tables =
  at_namespace :: bytes
  at_machine :: "u64 \<Rightarrow> bytes"
  at_processors :: "u16 \<Rightarrow> bytes"
  at_list :: "u64 \<Rightarrow> u64 \<Rightarrow> bytes"
  at_pointer :: "u64 \<Rightarrow> bytes"

text \<open>Ids of processors are one byte in the MADT.\<close>

definition lay_processors :: "'m vm \<Rightarrow> acpi_tables \<Rightarrow> u16 \<Rightarrow> u64 \<times> 'm \<Rightarrow> (u64 \<times> 'm) \<times> (u64, machine_error) result" where
  "lay_processors vm tb vcpus s = (if 256 < unat vcpus then (s, Err NoRoomForMpTable) else lay_table vm (at_processors tb vcpus) s)"

definition lay_acpi :: "'m vm \<Rightarrow> acpi_tables \<Rightarrow> u16 \<Rightarrow> 'm \<Rightarrow> 'm \<times> (unit, machine_error) result" where
  "lay_acpi vm tb vcpus m =
     (case lay_table vm (at_namespace tb) (TABLES_AT, m) of
        (s1, Inl e) \<Rightarrow> (snd s1, Err e)
      | (s1, Inr namespace) \<Rightarrow>
          (case lay_table vm (at_machine tb namespace) s1 of
             (s2, Inl e) \<Rightarrow> (snd s2, Err e)
           | (s2, Inr mach) \<Rightarrow>
               (case lay_processors vm tb vcpus s2 of
                  (s3, Inl e) \<Rightarrow> (snd s3, Err e)
                | (s3, Inr processors) \<Rightarrow>
                    (case lay_table vm (at_list tb mach processors) s3 of
                       (s4, Inl e) \<Rightarrow> (snd s4, Err e)
                     | (s4, Inr list_at) \<Rightarrow>
                         (case ram_write vm (snd s4) POINTER_AT (at_pointer tb list_at) of
                            (m5, Inl _) \<Rightarrow> (m5, Err MachineMem)
                          | (m5, Inr _) \<Rightarrow> (m5, Ok ()))))))"

section \<open>The leaves of a vCPU\<close>

record cpuid_entry =
  ce_function :: u32
  ce_index :: "u32 option"
  ce_eax :: u32
  ce_ebx :: u32
  ce_ecx :: u32
  ce_edx :: u32

definition HYPERVISOR_PRESENT :: u32 where "HYPERVISOR_PRESENT = push_bit 31 1"

definition leaf_for :: "u32 \<Rightarrow> cpuid_entry \<Rightarrow> cpuid_entry" where
  "leaf_for cpu l =
     (if ce_function l = 1
      then l\<lparr>ce_ebx := (ce_ebx l AND 0x00ffffff) OR push_bit 24 (cpu AND 0xff), ce_ecx := ce_ecx l OR HYPERVISOR_PRESENT\<rparr>
      else if ce_function l = 0xb \<or> ce_function l = 0x1f then l\<lparr>ce_edx := cpu\<rparr>
      else if ce_function l = 0x8000001e then l\<lparr>ce_eax := cpu\<rparr>
      else l)"

definition for_vcpu :: "cpuid_entry list \<Rightarrow> u16 \<Rightarrow> cpuid_entry list" where
  "for_vcpu host index = map (leaf_for (ucast index)) host"

section \<open>Parts of what was written\<close>

context vm_bytes
begin

lemma read_part:
  assumes "vm_check_range vm m a n" "unat a + n \<le> 2 ^ 64" "ram_read vm m a n = Inr bs" "i + k \<le> n" "0 < k"
  shows "ram_read vm m (a + of_nat i) k = Inr (take k (drop i bs))"
proof -
  obtain bs' where bs': "ram_read vm m (a + of_nat i) k = Inr bs'" "length bs' = k"
    using check_part [OF assms(1,2,4,5)] assms(5) by (rule ram_read_backed)
  have "unat (a + of_nat i) + k \<le> 2 ^ 64"
    using unat_add_of_nat [of a i] assms(2,4,5) by simp
  from ram_read_span [OF bs'(1) this] have "bs' = span_bytes vm m (a + of_nat i) k" .
  moreover have "bs = span_bytes vm m a (i + (k + (n - i - k)))"
    using ram_read_span [OF assms(3,2)] assms(4) by simp
  ultimately show ?thesis using bs'(1) by (simp only: span_bytes_add) simp
qed

lemma write_part:
  assumes "ram_write vm m a bs = (m', Inr ())" "vm_check_range vm m a (length bs)" "unat a + length bs \<le> 2 ^ 64"
    "i + k \<le> length bs" "0 < k"
  shows "ram_read vm m' (a + of_nat i) k = Inr (take k (drop i bs))"
proof (rule read_part)
  show "vm_check_range vm m' a (length bs)" using assms(1,2) ram_write_range by blast
  show "ram_read vm m' a (length bs) = Inr bs" using ram_write_read [OF assms(1)] assms(4,5) by (cases "bs = []") simp_all
qed (use assms in auto)

end

section \<open>A walk of the page tables\<close>

text \<open>The walk of a processor with four levels, which stops at an entry for a large page; only the flags which the tables use are read.\<close>

definition table_entry :: "'m vm \<Rightarrow> 'm \<Rightarrow> u64 \<Rightarrow> u64 \<Rightarrow> nat \<Rightarrow> u64 option" where
  "table_entry vm m base va shift =
     (case ram_read vm m (base + of_nat (8 * unat (drop_bit shift va AND 0x1ff))) 8 of
        Inl _ \<Rightarrow> None
      | Inr bs \<Rightarrow> (let e = from_le bs in if bit e 0 then Some e else None))"

definition page_walk :: "'m vm \<Rightarrow> 'm \<Rightarrow> u64 \<Rightarrow> u64 \<Rightarrow> u64 option" where
  "page_walk vm m root va =
     (case table_entry vm m root va 39 of
        None \<Rightarrow> None
      | Some e4 \<Rightarrow>
          (case table_entry vm m (e4 AND 0x000ffffffffff000) va 30 of
             None \<Rightarrow> None
           | Some e3 \<Rightarrow>
               if bit e3 7 then Some ((e3 AND 0x000fffffc0000000) OR (va AND 0x3fffffff))
               else (case table_entry vm m (e3 AND 0x000ffffffffff000) va 21 of
                       None \<Rightarrow> None
                     | Some e2 \<Rightarrow>
                         if bit e2 7 then Some ((e2 AND 0x000fffffffe00000) OR (va AND 0x1fffff))
                         else map_option (\<lambda>e1. (e1 AND 0x000ffffffffff000) OR (va AND 0xfff))
                                (table_entry vm m (e2 AND 0x000ffffffffff000) va 12))))"

lemma concat_group: "list_all (\<lambda>x. length x = k) xs \<Longrightarrow> i < length xs \<Longrightarrow> take k (drop (k * i) (concat xs)) = xs ! i"
proof (induction xs arbitrary: i)
  case (Cons x xs)
  then show ?case by (cases i) simp_all
qed simp

lemma length_groups: "list_all (\<lambda>x. length x = k) xs \<Longrightarrow> length (concat xs) = k * length xs"
  by (induction xs) simp_all

lemma length_page_directory: "length page_directory = 4096"
  using length_groups [of 8 "map (\<lambda>i. to_le 8 (directory_entry i)) [0..<DIRECTORY_ENTRIES]"]
  by (simp add: page_directory_def DIRECTORY_ENTRIES_def list_all_iff)

lemma page_directory_nth: "i < 512 \<Longrightarrow> take 8 (drop (8 * i) page_directory) = to_le 8 (directory_entry i)"
  using concat_group [of 8 "map (\<lambda>i. to_le 8 (directory_entry i)) [0..<DIRECTORY_ENTRIES]" i]
  by (simp add: page_directory_def DIRECTORY_ENTRIES_def list_all_iff)

lemma low_bits: "(va :: u64) < 2 ^ 30 \<Longrightarrow> bit va n \<Longrightarrow> n < 30"
proof -
  assume "va < 2 ^ 30" "bit va n"
  then have "take_bit 30 va = va" by (simp add: less_mask_eq take_bit_eq_mask)
  with \<open>bit va n\<close> show "n < 30" by (metis bit_take_bit_iff)
qed

lemma high_index: 
  assumes "(va :: u64) < 2 ^ 30"
  shows "drop_bit 39 va AND 0x1ff = 0" "drop_bit 30 va AND 0x1ff = 0" "drop_bit 21 va AND 0x1ff = drop_bit 21 va"
    "unat (drop_bit 21 va) < 512"
proof -
  have m: "(0x1ff :: u64) = mask 9" by (simp add: mask_eq_exp_minus_1)
  show "drop_bit 39 va AND 0x1ff = 0" "drop_bit 30 va AND 0x1ff = 0" "drop_bit 21 va AND 0x1ff = drop_bit 21 va"
    unfolding m by (rule bit_word_eqI, use low_bits [OF assms] in \<open>fastforce simp: bit_simps\<close>)+
  show "unat (drop_bit 21 va) < 512"
    using assms by (simp add: drop_bit_eq_div unat_div word_less_nat_alt less_mult_imp_div_less)
qed

lemma directory_entry_maps:
  assumes "(va :: u64) < 2 ^ 30"
  shows "bit (directory_entry (unat (drop_bit 21 va))) 0" "bit (directory_entry (unat (drop_bit 21 va))) 7"
    "(directory_entry (unat (drop_bit 21 va)) AND 0x000fffffffe00000) OR (va AND 0x1fffff) = va"
proof -
  let ?x = "push_bit 21 (drop_bit 21 va)"
  have e: "directory_entry (unat (drop_bit 21 va)) = ?x OR 0x83"
    by (simp add: directory_entry_def LARGE_PAGE_SIZE_def LARGE_PAGE_def PRESENT_WRITE_def push_bit_eq_mult or.assoc)
  show "bit (directory_entry (unat (drop_bit 21 va))) 0" "bit (directory_entry (unat (drop_bit 21 va))) 7"
    by (simp_all add: e bit_simps)
  have masks: "(0x000fffffffe00000 :: u64) = push_bit 21 (mask 31)" "(0x1fffff :: u64) = mask 21"
    by (simp_all add: mask_eq_exp_minus_1 push_bit_eq_mult)
  have "(0x83 :: u64) AND 0x000fffffffe00000 = 0" by simp
  then have "(?x OR 0x83) AND 0x000fffffffe00000 = ?x AND 0x000fffffffe00000" by (simp add: bit.conj_disj_distrib2)
  moreover have "(?x AND push_bit 21 (mask 31)) OR (va AND mask 21) = va"
    using low_bits [OF assms] by (intro bit_word_eqI) (fastforce simp: bit_simps)
  ultimately show "(directory_entry (unat (drop_bit 21 va)) AND 0x000fffffffe00000) OR (va AND 0x1fffff) = va"
    by (simp add: e masks)
qed

context vm_bytes
begin

lemma table_entry_at:
  assumes "ram_read vm m (base + of_nat (8 * unat (drop_bit shift va AND 0x1ff))) 8 = Inr (to_le 8 e)" "bit e 0"
  shows "table_entry vm m base va shift = Some e"
  using assms by (simp add: table_entry_def bytes_simps)

lemma page_tables_written:
  assumes "vm_check_range vm m 0x9000 0x3000"
  shows "\<exists>m'. write_page_tables vm m = (m', Ok PML4) \<and> ram_read vm m' PML4 8 = Inr (to_le 8 (PDPT OR PRESENT_WRITE)) \<and>
    ram_read vm m' PDPT 8 = Inr (to_le 8 (PD OR PRESENT_WRITE)) \<and>
    (\<forall>i<512. ram_read vm m' (PD + of_nat (8 * i)) 8 = Inr (to_le 8 (directory_entry i)))"
proof -
  have range: "vm_check_range vm m PML4 8" "vm_check_range vm m PDPT 8" "vm_check_range vm m PD 4096"
    using check_part [OF assms, of 0 8] check_part [OF assms, of 4096 8] check_part [OF assms, of 8192 4096]
    by (simp_all add: PML4_def PDPT_def PD_def)
  let ?b4 = "to_le 8 (PDPT OR PRESENT_WRITE)" and ?b3 = "to_le 8 (PD OR PRESENT_WRITE)"
  have some: "?b4 \<noteq> []" "?b3 \<noteq> []" "page_directory \<noteq> []"
    using length_page_directory by (auto simp flip: length_0_conv)
  obtain m1 where m1: "ram_write vm m PML4 ?b4 = (m1, Inr ())"
    using ram_write_backed [of m PML4 ?b4] range(1) some(1) by simp
  obtain m2 where m2: "ram_write vm m1 PDPT ?b3 = (m2, Inr ())"
    using ram_write_backed [of m1 PDPT ?b3] range(2) some(2) ram_write_range [OF m1] by simp
  have pd: "vm_check_range vm m2 PD 4096" using range(3) ram_write_range [OF m1] ram_write_range [OF m2] by simp
  obtain m3 where m3: "ram_write vm m2 PD page_directory = (m3, Inr ())"
    using ram_write_backed [of m2 PD page_directory] pd some(3) by (simp add: length_page_directory)
  have at: "unat PML4 = 0x9000" "unat PDPT = 0xa000" "unat PD = 0xb000" by (simp_all add: PML4_def PDPT_def PD_def)
  have "ram_read vm m3 PML4 8 = Inr ?b4"
    using ram_write_read [OF m1 some(1)] ram_write_apart [OF m2, of PML4 8] ram_write_apart [OF m3, of PML4 8]
    by (simp add: apart_def at)
  moreover have "ram_read vm m3 PDPT 8 = Inr ?b3"
    using ram_write_read [OF m2 some(2)] ram_write_apart [OF m3, of PDPT 8] by (simp add: apart_def at)
  moreover have "ram_read vm m3 (PD + of_nat (8 * i)) 8 = Inr (to_le 8 (directory_entry i))" if "i < 512" for i
    using write_part [OF m3, of "8 * i" 8] pd that page_directory_nth [OF that] by (simp add: length_page_directory at)
  ultimately show ?thesis by (auto simp: write_page_tables_def m1 m2 m3)
qed

lemma page_tables_walk:
  assumes "vm_check_range vm m 0x9000 0x3000"
  shows "\<exists>m'. write_page_tables vm m = (m', Ok PML4) \<and> (\<forall>va < 2 ^ 30. page_walk vm m' PML4 va = Some va)"
proof -
  obtain m' where m': "write_page_tables vm m = (m', Ok PML4)" "ram_read vm m' PML4 8 = Inr (to_le 8 (PDPT OR PRESENT_WRITE))"
    "ram_read vm m' PDPT 8 = Inr (to_le 8 (PD OR PRESENT_WRITE))"
    and pd: "\<And>i. i < 512 \<Longrightarrow> ram_read vm m' (PD + of_nat (8 * i)) 8 = Inr (to_le 8 (directory_entry i))"
    using page_tables_written [OF assms] by blast
  have e4: "bit (PDPT OR PRESENT_WRITE) 0" "(PDPT OR PRESENT_WRITE) AND 0x000ffffffffff000 = PDPT"
    and e3: "bit (PD OR PRESENT_WRITE) 0" "\<not> bit (PD OR PRESENT_WRITE) 7" "(PD OR PRESENT_WRITE) AND 0x000ffffffffff000 = PD"
    by (simp_all add: PDPT_def PD_def PRESENT_WRITE_def)
  have "page_walk vm m' PML4 va = Some va" if "va < 2 ^ 30" for va
  proof -
    note at = high_index [OF that] and maps = directory_entry_maps [OF that]
    have "table_entry vm m' PML4 va 39 = Some (PDPT OR PRESENT_WRITE)"
      by (rule table_entry_at) (simp_all add: at m' e4)
    moreover have "table_entry vm m' PDPT va 30 = Some (PD OR PRESENT_WRITE)"
      by (rule table_entry_at) (simp_all add: at m' e3)
    moreover have "table_entry vm m' PD va 21 = Some (directory_entry (unat (drop_bit 21 va)))"
      by (rule table_entry_at) (simp_all only: at pd [OF at(4)] maps)
    ultimately show ?thesis by (simp add: page_walk_def e4 e3 maps)
  qed
  with m'(1) show ?thesis by blast
qed

end

section \<open>The MP table is accepted\<close>

lemma fold_sum: "fold (\<lambda>b sum. sum + b) bs (x :: u8) = x + sum_list bs"
  by (induction bs arbitrary: x) (simp_all add: add.assoc)

lemma mp_checksum_eq: "mp_checksum bs = - sum_list bs"
  by (simp add: mp_checksum_def fold_sum not_eq_complement)

lemma sum_list_replace: "i < length bs \<Longrightarrow> sum_list (bs[i := x]) = sum_list bs - bs ! i + (x :: u8)"
proof (induction bs arbitrary: i)
  case (Cons b bs)
  then show ?case by (cases i) simp_all
qed simp

lemma sum_with_checksum: "i < length bs \<Longrightarrow> bs ! i = 0 \<Longrightarrow> sum_list (bs[i := mp_checksum bs]) = 0"
  by (simp add: sum_list_replace mp_checksum_eq)

text \<open>The kernel takes entries off the table one by one, by the size of their kind.\<close>

fun mp_scan :: "nat \<Rightarrow> bytes \<Rightarrow> (u8 list \<times> bytes) option" where
  "mp_scan 0 bs = Some ([], bs)"
| "mp_scan (Suc n) bs =
     (case bs of
        [] \<Rightarrow> None
      | kind # _ \<Rightarrow>
          let len = (if kind = MP_PROCESSOR then 20 else 8)
          in if length bs < len then None else map_option (\<lambda>(ks, rest). (kind # ks, rest)) (mp_scan n (drop len bs)))"

definition entry_ok :: "bytes \<Rightarrow> bool" where
  "entry_ok e \<longleftrightarrow> e \<noteq> [] \<and> length e = (if hd e = MP_PROCESSOR then 20 else 8)"

lemma mp_scan_step:
  assumes "entry_ok e"
  shows "mp_scan (Suc n) (e @ r) = map_option (\<lambda>(ks, rest). (hd e # ks, rest)) (mp_scan n r)"
proof -
  obtain b bs where e: "e = b # bs" using assms by (cases e) (auto simp: entry_ok_def)
  show ?thesis
  proof (cases "b = MP_PROCESSOR")
    case True
    with assms e have "length bs = 19" by (simp add: entry_ok_def)
    with True e show ?thesis by simp
  next
    case False
    with assms e have "length bs = 7" by (simp add: entry_ok_def)
    with False e show ?thesis by simp
  qed
qed

lemma mp_scan_entries: "list_all entry_ok es \<Longrightarrow> mp_scan (length es) (concat es) = Some (map hd es, [])"
  by (induction es) (simp_all add: mp_scan_step del: mp_scan.simps(2))

lemma entries_ok: "list_all entry_ok (entry_list vcpus io)"
  by (auto simp: entry_list_def list_all_iff entry_ok_def processor_entry_def bus_entry_def BUS_KIND_def io_apic_entry_def
      interrupt_entry_def local_entry_def MP_PROCESSOR_def MP_BUS_def MP_IO_APIC_def MP_INTERRUPT_def MP_LOCAL_INTERRUPT_def)

definition mp_kinds :: "nat \<Rightarrow> u8 list" where
  "mp_kinds n = replicate n MP_PROCESSOR @ [MP_BUS, MP_IO_APIC] @ replicate 24 MP_INTERRUPT @ replicate 2 MP_LOCAL_INTERRUPT"

lemma entry_kinds: "map hd (entry_list vcpus io) = mp_kinds (unat vcpus)"
  by (simp add: entry_list_def mp_kinds_def processor_entry_def bus_entry_def io_apic_entry_def interrupt_entry_def local_entry_def
      comp_def map_replicate_const MP_LINES_def numeral_2_eq_2)

lemma entry_sizes: "length (concat (entry_list vcpus io)) = 20 * unat vcpus + 224"
  by (simp add: entry_list_def length_concat comp_def processor_entry_def bus_entry_def BUS_KIND_def io_apic_entry_def
      interrupt_entry_def local_entry_def sum_list_triv MP_LINES_def)

lemma mp_header_split:
  "\<exists>c. mp_header entries n = (CONFIG_SIGNATURE @ to_le 2 (of_nat (44 + length entries) :: u16) @ [MP_REVISION, c]) @ (MP_PRODUCT @ to_le 4 (0 :: u32)
     @ to_le 2 (0 :: u16)) @ to_le 2 n @ (to_le 4 LOCAL_APIC @ to_le 4 (0 :: u32)) @ entries"
  by (rule exI) (simp add: mp_header_def Let_def CONFIG_SIGNATURE_def list_update_append)

lemma mp_header_sum: "sum_list (mp_header entries n) = 0"
  unfolding mp_header_def Let_def by (rule sum_with_checksum) (simp_all add: CONFIG_SIGNATURE_def nth_append)

lemma mp_header_fields:
  "length (mp_header entries n) = 44 + length entries" "take 4 (mp_header entries n) = CONFIG_SIGNATURE"
  "from_le (bslice 4 2 (mp_header entries n)) = (of_nat (44 + length entries) :: u16)"
  "from_le (bslice 34 2 (mp_header entries n)) = n" "drop 44 (mp_header entries n) = entries"
proof -
  have sizes: "length CONFIG_SIGNATURE = 4" "length MP_PRODUCT = 20" by (simp_all add: CONFIG_SIGNATURE_def MP_PRODUCT_def)
  obtain c where h: "mp_header entries n = (CONFIG_SIGNATURE @ to_le 2 (of_nat (44 + length entries) :: u16) @ [MP_REVISION, c])
     @ (MP_PRODUCT @ to_le 4 (0 :: u32) @ to_le 2 (0 :: u16)) @ to_le 2 n @ (to_le 4 LOCAL_APIC @ to_le 4 (0 :: u32)) @ entries"
    using mp_header_split by blast
  show "length (mp_header entries n) = 44 + length entries" "take 4 (mp_header entries n) = CONFIG_SIGNATURE"
    "drop 44 (mp_header entries n) = entries"
    by (simp_all add: h sizes)
  show "from_le (bslice 4 2 (mp_header entries n)) = (of_nat (44 + length entries) :: u16)"
    "from_le (bslice 34 2 (mp_header entries n)) = n"
    by (simp_all add: h sizes bslice_def from_le_to_le del: of_nat_add)
qed

lemma mp_pointer_fields:
  "length mp_pointer = 16" "take 4 mp_pointer = POINTER_SIGNATURE" "sum_list mp_pointer = 0" "from_le (bslice 4 4 mp_pointer) = (0x9fc10 :: u32)"
proof -
  show "sum_list mp_pointer = 0"
    unfolding mp_pointer_def Let_def by (rule sum_with_checksum) (simp_all add: POINTER_SIGNATURE_def nth_append)
  show "length mp_pointer = 16" "take 4 mp_pointer = POINTER_SIGNATURE" "from_le (bslice 4 4 mp_pointer) = (0x9fc10 :: u32)"
    by (simp_all add: mp_pointer_def Let_def POINTER_SIGNATURE_def bslice_def from_le_to_le take_update_swap list_update_append MP_TABLE_def POINTER_BYTES_def)
qed

context vm_bytes
begin

lemma mp_table_written:
  assumes "vm_check_range vm m 0x9fc00 0x400" "unat vcpus \<le> 37"
  shows "\<exists>m'. write_mp_table vm vcpus m = (m', Ok ()) \<and> ram_read vm m' 0x9fc00 16 = Inr mp_pointer \<and>
    ram_read vm m' 0x9fc10 (268 + 20 * unat vcpus) =
      Inr (mp_header (fst (mp_entries vcpus (ucast vcpus))) (snd (mp_entries vcpus (ucast vcpus))))"
proof -
  let ?h = "mp_header (fst (mp_entries vcpus (ucast vcpus))) (snd (mp_entries vcpus (ucast vcpus)))"
  have len: "length ?h = 268 + 20 * unat vcpus" by (simp add: mp_header_fields mp_entries_def entry_sizes)
  have range: "vm_check_range vm m 0x9fc00 16" "vm_check_range vm m 0x9fc10 (268 + 20 * unat vcpus)"
    using check_part [OF assms(1), of 0 16] check_part [OF assms(1), of 16 "268 + 20 * unat vcpus"] assms(2) by simp_all
  obtain m1 where m1: "ram_write vm m 0x9fc00 mp_pointer = (m1, Inr ())"
    using ram_write_backed [of m "0x9fc00" mp_pointer] range(1) mp_pointer_fields(1) by (cases "mp_pointer = []") auto
  obtain m2 where m2: "ram_write vm m1 0x9fc10 ?h = (m2, Inr ())"
    using ram_write_backed [of m1 "0x9fc10" ?h] range(2) len ram_write_range [OF m1] by (cases "?h = []") auto
  have "ram_read vm m2 0x9fc00 16 = Inr mp_pointer"
    using ram_write_read [OF m1] ram_write_apart [OF m2, of "0x9fc00" 16] mp_pointer_fields(1)
    by (cases "mp_pointer = []") (auto simp: apart_def)
  moreover have "ram_read vm m2 0x9fc10 (268 + 20 * unat vcpus) = Inr ?h"
    using ram_write_read [OF m2] len by (cases "?h = []") auto
  moreover have "write_mp_table vm vcpus m = (m2, Ok ())"
    using m1 m2 len assms(2) by (simp add: write_mp_table_def Let_def MP_TABLE_def MP_ROOM_def POINTER_BYTES_def split_beta)
  ultimately show ?thesis by blast
qed

end

lemma mp_table_full: "37 < unat vcpus \<Longrightarrow> write_mp_table vm vcpus m = (m, Err NoRoomForMpTable)"
  by (simp add: write_mp_table_def Let_def mp_entries_def mp_header_fields entry_sizes MP_ROOM_def POINTER_BYTES_def)

section \<open>The ACPI tables are laid one behind the other\<close>

lemma unat_next_multiple:
  assumes "unat a + 8 < 2 ^ 64"
  shows "unat (next_multiple a TABLE_ALIGN) mod 8 = 0" "unat a \<le> unat (next_multiple a TABLE_ALIGN)" "unat (next_multiple a TABLE_ALIGN) < unat a + 8"
proof -
  have m: "unat (a mod 8) = unat a mod 8" by (simp add: unat_mod)
  then have "unat (8 - a mod 8) = 8 - unat a mod 8" by (simp add: unat_sub word_le_nat_alt)
  moreover have "(a mod 8 = 0) = (unat a mod 8 = 0)" using m by (simp add: word_unat_eq_iff)
  ultimately have n: "unat (next_multiple a TABLE_ALIGN) = (if unat a mod 8 = 0 then unat a else unat a + (8 - unat a mod 8))"
    using assms by (simp add: next_multiple_def TABLE_ALIGN_def unat_word_ariths)
  show "unat (next_multiple a TABLE_ALIGN) mod 8 = 0" unfolding n by presburger
  show "unat a \<le> unat (next_multiple a TABLE_ALIGN)" "unat (next_multiple a TABLE_ALIGN) < unat a + 8" unfolding n by presburger+
qed

lemma lay_table_inside:
  assumes "lay_table vm table (cursor, m) = ((cursor', m'), Inr at)" "unat cursor mod 8 = 0" "unat cursor \<le> 0xe0000" "length table < 2 ^ 63"
  shows "at = cursor" "unat at + length table \<le> 0xdfff0" "unat at + length table \<le> unat cursor'" "unat cursor' mod 8 = 0" "unat cursor' \<le> 0xe0000"
    "ram_write vm m at table = (m', Inr ())"
proof -
  let ?past = "cursor + of_nat (length table)"
  have past: "unat ?past = unat cursor + length table" using assms(3,4) by (intro unat_add_of_nat) simp
  have eqs: "at = cursor" "cursor' = next_multiple ?past TABLE_ALIGN" "\<not> GENID_AT < ?past" "ram_write vm m at table = (m', Inr ())"
    using assms(1) by (auto simp: lay_table_def Let_def split: if_splits prod.splits sum.splits)
  then show "at = cursor" "ram_write vm m at table = (m', Inr ())" by simp_all
  have fits: "unat cursor + length table \<le> 0xdfff0"
    using eqs(3) past by (simp add: word_less_nat_alt GENID_AT_def POINTER_AT_def)
  then show "unat at + length table \<le> 0xdfff0" by (simp add: eqs)
  show "unat at + length table \<le> unat cursor'" "unat cursor' mod 8 = 0" "unat cursor' \<le> 0xe0000"
    using unat_next_multiple [of ?past] past fits eqs by simp_all
qed

section \<open>What is left in low memory\<close>

definition boot_apart :: "u64 \<Rightarrow> nat \<Rightarrow> bool" where
  "boot_apart a n \<longleftrightarrow> apart 0x500 0x28 a n \<and> apart 0x9000 0x3000 a n"

definition gdt_bytes :: bytes where
  "gdt_bytes = replicate 8 0 @ concat (map (\<lambda>s. to_le 8 (gdt_descriptor s)) boot_segments)"

lemma length_gdt_bytes [simp]: "length gdt_bytes = 32"
  by (simp add: gdt_bytes_def boot_segments_def)

lemma gdt_slots:
  "s \<in> set boot_segments \<Longrightarrow> unat (sr_selector s) + 8 \<le> 32 \<and> take 8 (drop (unat (sr_selector s)) gdt_bytes) = to_le 8 (gdt_descriptor s)"
  by (auto simp: boot_segments_def flat_segment_def gdt_bytes_def)

context vm_bytes
begin

lemma write_page_tables_apart:
  assumes "write_page_tables vm m = (m', Inr u)" "apart 0x9000 0x3000 a n"
  shows "ram_read vm m' a n = ram_read vm m a n"
proof -
  obtain m1 m2 where w: "ram_write vm m PML4 (to_le 8 (PDPT OR PRESENT_WRITE)) = (m1, Inr ())"
    "ram_write vm m1 PDPT (to_le 8 (PD OR PRESENT_WRITE)) = (m2, Inr ())" "ram_write vm m2 PD page_directory = (m', Inr ())"
    using assms(1) by (auto simp: write_page_tables_def split: prod.splits sum.splits)
  have "apart PML4 8 a n" "apart PDPT 8 a n" "apart PD 4096 a n"
    using assms(2) by (auto simp: apart_def PML4_def PDPT_def PD_def)
  with w show ?thesis
    using ram_write_apart [OF w(1)] ram_write_apart [OF w(2)] ram_write_apart [OF w(3)] by (simp add: length_page_directory)
qed

lemma write_tables_leaves:
  assumes "write_tables vm m = (m', Inr segs)" "vm_check_range vm m 0x500 0x28"
  shows "segs = boot_segments" "apart 0x500 0x28 a n \<Longrightarrow> ram_read vm m' a n = ram_read vm m a n"
    "s \<in> set boot_segments \<Longrightarrow> ram_read vm m' (GDT_AT + ucast (sr_selector s)) 8 = Inr (to_le 8 (gdt_descriptor s))"
    "vm_check_range vm m' b k = vm_check_range vm m b k"
proof -
  obtain m1 where m1: "ram_write vm m GDT_AT gdt_bytes = (m1, Inr ())" "ram_write vm m1 IDT_AT (to_le 8 (0 :: u64)) = (m', Inr ())"
    and segs: "segs = boot_segments"
    using assms(1) by (auto simp: write_tables_def gdt_bytes_def split: prod.splits sum.splits)
  have at: "unat GDT_AT = 0x500" "unat IDT_AT = 0x520" by (simp_all add: GDT_AT_def IDT_AT_def)
  show "segs = boot_segments" by (fact segs)
  show "vm_check_range vm m' b k = vm_check_range vm m b k"
    using ram_write_range [OF m1(1)] ram_write_range [OF m1(2)] by simp
  show "ram_read vm m' a n = ram_read vm m a n" if "apart 0x500 0x28 a n"
  proof -
    have "apart GDT_AT 32 a n" "apart IDT_AT 8 a n" using that by (auto simp: apart_def at)
    then show ?thesis using ram_write_apart [OF m1(1)] ram_write_apart [OF m1(2)] by simp
  qed
  show "ram_read vm m' (GDT_AT + ucast (sr_selector s)) 8 = Inr (to_le 8 (gdt_descriptor s))" if s: "s \<in> set boot_segments"
  proof -
    have "vm_check_range vm m GDT_AT 32" using check_part [OF assms(2), of 0 32] by (simp add: GDT_AT_def)
    then have "ram_read vm m1 (GDT_AT + of_nat (unat (sr_selector s))) 8 = Inr (to_le 8 (gdt_descriptor s))"
      using write_part [OF m1(1), of "unat (sr_selector s)" 8] gdt_slots [OF s] by (simp add: at)
    moreover have "unat (GDT_AT + ucast (sr_selector s)) = unat GDT_AT + unat (sr_selector s)"
      using gdt_slots [OF s] unat_add_of_nat [of GDT_AT "unat (sr_selector s)"] by (simp add: at)
    then have "apart IDT_AT 8 (GDT_AT + ucast (sr_selector s)) 8"
      using gdt_slots [OF s] by (simp add: apart_def at)
    ultimately show ?thesis using ram_write_apart [OF m1(2)] by simp
  qed
qed

lemma enter_long_mode_ok:
  assumes "vm_check_range vm m 0x500 0x28" "vm_check_range vm m 0x9000 0x3000" "enter_long_mode vm ops k m v = (m', v', Inr ())"
  shows "\<exists>cr0 cr4 efer v1. get_sreg ops Cr0 v = Some cr0 \<and> get_sreg ops Cr4 v = Some cr4 \<and> get_sreg ops Efer v = Some efer \<and>
      set_sregs ops (mode_sregs cr0 cr4 efer PML4) (mode_segments boot_segments) mode_tables v = (v1, True) \<and>
      set_regs ops (entry_regs k) v1 = (v', True)"
    "va < 2 ^ 30 \<Longrightarrow> page_walk vm m' PML4 va = Some va"
    "s \<in> set boot_segments \<Longrightarrow> ram_read vm m' (GDT_AT + ucast (sr_selector s)) 8 = Inr (to_le 8 (gdt_descriptor s))"
    "boot_apart a n \<Longrightarrow> ram_read vm m' a n = ram_read vm m a n"
proof -
  obtain m1 segs where m1: "write_tables vm m = (m1, Inr segs)"
    using assms(3) by (auto simp: enter_long_mode_def split: prod.splits sum.splits)
  note leaves = write_tables_leaves [OF m1 assms(1)]
  obtain m2 where m2: "write_page_tables vm m1 = (m2, Ok PML4)" "\<And>va. va < 2 ^ 30 \<Longrightarrow> page_walk vm m2 PML4 va = Some va"
    using page_tables_walk [of m1] leaves(4) assms(2) by auto
  have m': "m' = m2" using assms(3) by (auto simp: enter_long_mode_def m1 m2 split: prod.splits sum.splits option.splits bool.splits)
  show "\<exists>cr0 cr4 efer v1. get_sreg ops Cr0 v = Some cr0 \<and> get_sreg ops Cr4 v = Some cr4 \<and> get_sreg ops Efer v = Some efer \<and>
      set_sregs ops (mode_sregs cr0 cr4 efer PML4) (mode_segments boot_segments) mode_tables v = (v1, True) \<and>
      set_regs ops (entry_regs k) v1 = (v', True)"
    using assms(3) leaves(1) by (auto simp: enter_long_mode_def m1 m2 split: prod.splits sum.splits option.splits bool.splits)
  show "page_walk vm m' PML4 va = Some va" if "va < 2 ^ 30" using m2(2) [OF that] m' by simp
  note below = write_page_tables_apart [OF m2(1)]
  show "ram_read vm m' a n = ram_read vm m a n" if "boot_apart a n"
    using that below leaves(2) by (simp add: boot_apart_def m')
  show "ram_read vm m' (GDT_AT + ucast (sr_selector s)) 8 = Inr (to_le 8 (gdt_descriptor s))" if s: "s \<in> set boot_segments"
  proof -
    have "unat (GDT_AT + ucast (sr_selector s)) = unat GDT_AT + unat (sr_selector s)"
      using gdt_slots [OF s] unat_add_of_nat [of GDT_AT "unat (sr_selector s)"] by (simp add: GDT_AT_def)
    then have "apart 0x9000 0x3000 (GDT_AT + ucast (sr_selector s)) 8"
      using gdt_slots [OF s] by (simp add: apart_def GDT_AT_def)
    with below leaves(3) [OF s] show ?thesis by (simp add: m')
  qed
qed

end


text \<open>A vCPU which keeps the registers it is given, and a RAM of 64 KiB.\<close>

definition reset_ops :: "((reg \<times> u64) list) vcpu_regs" where
  "reset_ops = \<lparr>get_sreg = (\<lambda>_ _. Some 0x10), set_sregs = (\<lambda>_ _ _ v. (v, True)), set_regs = (\<lambda>rs v. (rs @ v, True))\<rparr>"

definition a_boot_kernel :: boot_kernel where
  "a_boot_kernel = \<lparr>bk_entry = 0x100200, bk_end = 0x101000, bk_setup = header_default\<rparr>"


text \<open>
  Property C37.  Where the kilobyte at 0x9fc00 is RAM, the MP table is written for 37 processors at most and refused for more.  What is
  written is what a kernel accepts: the pointer and the table have their signatures and sum to zero, the pointer names the address of the
  table, the length the table names is its length, and taking as many entries off it as it counts ends at its end and finds every
  processor, the bus, the I/O APIC, its 24 lines and the two local interrupts.
\<close>

theorem mp_table_is_accepted:
  assumes "vm_bytes vm" "vm_check_range vm m 0x9fc00 0x400"
  shows "if 37 < unat vcpus then write_mp_table vm vcpus m = (m, Err NoRoomForMpTable)
    else \<exists>m' p h. write_mp_table vm vcpus m = (m', Ok ()) \<and> ram_read vm m' 0x9fc00 16 = Inr p \<and>
      take 4 p = POINTER_SIGNATURE \<and> sum_list p = 0 \<and> ram_read vm m' (ucast (from_le (bslice 4 4 p) :: u32)) (length h) = Inr h \<and>
      take 4 h = CONFIG_SIGNATURE \<and> sum_list h = 0 \<and> unat (from_le (bslice 4 2 h) :: u16) = length h \<and>
      mp_scan (unat (from_le (bslice 34 2 h) :: u16)) (drop 44 h) = Some (mp_kinds (unat vcpus), [])"
proof (cases "37 < unat vcpus")
  case True
  then show ?thesis by (simp add: mp_table_full)
next
  case False
  let ?es = "entry_list vcpus (ucast vcpus)"
  let ?h = "mp_header (concat ?es) (of_nat (length ?es))"
  have few: "length ?es = unat vcpus + 28" by (simp add: entry_list_def MP_LINES_def)
  have len: "length ?h = 268 + 20 * unat vcpus" by (simp add: mp_header_fields entry_sizes)
  obtain m' where m': "write_mp_table vm vcpus m = (m', Ok ())" "ram_read vm m' 0x9fc00 16 = Inr mp_pointer"
    "ram_read vm m' 0x9fc10 (length ?h) = Inr ?h"
    using vm_bytes.mp_table_written [OF assms, of vcpus] False len by (auto simp: mp_entries_def)
  have "unat (of_nat (length ?es) :: u16) = length ?es" "unat (of_nat (44 + length (concat ?es)) :: u16) = length ?h"
    using False few len by (simp_all add: unsigned_of_nat take_bit_eq_mod entry_sizes del: of_nat_add)
  with mp_scan_entries [OF entries_ok [of vcpus "ucast vcpus"]] m' False
  show ?thesis by (auto simp: mp_pointer_fields mp_header_fields mp_header_sum entry_kinds simp del: length_concat
        intro!: exI [of _ m'] exI [of _ mp_pointer] exI [of _ ?h])
qed

theorem mp_table_is_accepted_witness:
  "write_mp_table flat_vm 38 (ram_of 0x100000 []) = (ram_of 0x100000 [], Err NoRoomForMpTable) \<and>
   (\<exists>m'. write_mp_table flat_vm 2 (ram_of 0x100000 []) = (m', Ok ()))"
  using mp_table_is_accepted [OF flat_bytes.vm_bytes_axioms, of "ram_of 0x100000 []" 38]
    mp_table_is_accepted [OF flat_bytes.vm_bytes_axioms, of "ram_of 0x100000 []" 2] by auto

end
