(* ===== verification/Assembly.thy ===== *)
theory Assembly
  imports Boot_Tables Machine_State Acts Block_Throttle Virtio_Console Mmio_Transport
begin

text \<open>
  Assembling an x86 guest on Linux: \<^verbatim>\<open>assemble\<close> and what it calls of \<^verbatim>\<open>src/lingcore/src/machine/mod.rs\<close> and
  \<^verbatim>\<open>src/lingcore/src/machine/x86_64/mod.rs\<close>.  The hypervisor, the files of the host, the constructors of devices, network links and
  channels, and the bytes of ACPI tables are parameters; a call of one of them may fail.

  The lemmas show that a guest which was assembled has every device of its configuration on the bus, in the slot and on the line its
  tables name, with no two ranges meeting each other or RAM.
\<close>

section \<open>The configuration of a guest\<close>

record disk =
  dk_at :: string
  dk_writable :: bool
  dk_rate :: "rate option"

record share =
  sh_tag :: string
  sh_at :: string
  sh_writable :: bool

record channel =
  ch_cid :: u64
  ch_at :: string
  ch_named :: "(u32 \<times> string \<times> reach) list"

datatype 'u net_link = LinkSocket string | LinkUser 'u | LinkTap string

record metadata_config =
  md_ip :: u32
  md_document :: bytes

record 'u network =
  nw_link :: "'u net_link"
  nw_mac :: "bytes option"
  nw_pcap :: "string option"
  nw_metadata :: "metadata_config option"

datatype refusal = Trap | Errno

record 'u config =
  cf_memory :: u64
  cf_vcpus :: u16
  cf_kernel :: string
  cf_initrd :: "string option"
  cf_cmdline :: bytes
  cf_disks :: "disk list"
  cf_shares :: "share list"
  cf_ports :: "(string \<times> string \<times> reach) list"
  cf_channel :: "channel option"
  cf_network :: "'u network option"
  cf_confine :: "refusal option"
  cf_balloon :: bool

definition DEFAULT_MEMORY :: u64 where "DEFAULT_MEMORY = push_bit 20 128"
definition DISKS :: nat where "DISKS = 8"
definition SHARES :: nat where "SHARES = 8"
definition BOOT_VCPU :: u16 where "BOOT_VCPU = 0"

definition config_default :: "'u config" where
  "config_default = \<lparr>cf_memory = DEFAULT_MEMORY, cf_vcpus = 1, cf_kernel = [], cf_initrd = None, cf_cmdline = [], cf_disks = [], cf_shares = [],
     cf_ports = [], cf_channel = None, cf_network = None, cf_confine = None, cf_balloon = False\<rparr>"

definition virtio_count :: "'u config \<Rightarrow> u8" where
  "virtio_count c =
     1 + of_nat (length (cf_disks c)) + of_nat (length (cf_shares c)) + of_bool (cf_ports c \<noteq> []) + of_bool (cf_channel c \<noteq> None)
       + of_bool (cf_network c \<noteq> None) + of_bool (cf_balloon c)"

section \<open>Slots and lines\<close>

definition COM1 :: u16 where "COM1 = 0x3f8"
definition COM1_SIZE :: u16 where "COM1_SIZE = 8"
definition I8042_COMMAND :: u16 where "I8042_COMMAND = 0x64"
definition PM1_AT :: u16 where "PM1_AT = 0x600"
definition PM1_SIZE :: u16 where "PM1_SIZE = 4 + 2"
definition COM1_IRQ :: u8 where "COM1_IRQ = 4"
definition VIRTIO_AT :: u64 where "VIRTIO_AT = 0xd0000000"
definition EVENTS_IRQ :: u8 where "EVENTS_IRQ = 9"
definition SCI_IRQ :: u8 where "SCI_IRQ = 10"
definition VIRTIO_IRQ :: u8 where "VIRTIO_IRQ = 5"
definition MMIO_SIZE :: u64 where "MMIO_SIZE = 0x200"

definition VIRTIO_LINES :: "u8 list" where
  "VIRTIO_LINES = [VIRTIO_IRQ, 6, 7, 8, 11, 12, 13, 14, 15, 16, 17, 18, 19, 20, 21, 22, 23]"

definition VIRTIO_DEVICES :: nat where "VIRTIO_DEVICES = length VIRTIO_LINES"

definition virtio_line :: "u8 \<Rightarrow> u8 option" where
  "virtio_line slot = (if unat slot < length VIRTIO_LINES then Some (VIRTIO_LINES ! unat slot) else None)"

definition virtio_at :: "u8 \<Rightarrow> u64" where
  "virtio_at slot = VIRTIO_AT + ucast slot * MMIO_SIZE"

section \<open>What assembling calls\<close>

text \<open>The state \<open>'s\<close> is that of the host and the hypervisor.  \<open>pf_mmds\<close> says whether the build carries the metadata service.\<close>

record ('s, 'm, 'f, 'd, 'l, 'c, 'q, 'e, 'n, 'k, 'u) platform =
  pf_create_vm :: "'s \<Rightarrow> 's \<times> unit option"
  pf_create_memory :: "'s \<Rightarrow> 's \<times> unit option"
  pf_mem_map :: "region \<Rightarrow> 's \<Rightarrow> 's \<times> unit option"
  pf_open :: "string \<Rightarrow> 's \<Rightarrow> 's \<times> 'f option"
  pf_irqchip :: "'s \<Rightarrow> 's \<times> unit option"
  pf_cpuid :: "'s \<Rightarrow> 's \<times> cpuid_entry list option"
  pf_vcpu :: "u16 \<Rightarrow> 's \<Rightarrow> 's \<times> 'c option"
  pf_set_cpuid :: "cpuid_entry list \<Rightarrow> 'c \<Rightarrow> 's \<Rightarrow> 's \<times> 'c option"
  pf_irq :: "u8 \<Rightarrow> 's \<Rightarrow> 's \<times> 'l option"
  pf_entropy :: "'s \<Rightarrow> 's \<times> 'e option"
  pf_registry :: "'s \<Rightarrow> 's \<times> unit option"
  pf_ioeventfd :: "'s \<Rightarrow> 's \<times> 'q option"
  pf_register :: "'q \<Rightarrow> u64 \<Rightarrow> nat \<Rightarrow> u64 option \<Rightarrow> 's \<Rightarrow> 's \<times> unit option"
  pf_disk :: "disk \<Rightarrow> 's \<Rightarrow> 's \<times> 'd option"
  pf_console :: "(string \<times> string \<times> reach) list \<Rightarrow> 's \<Rightarrow> 's \<times> 'd option"
  pf_fs :: "share \<Rightarrow> 's \<Rightarrow> 's \<times> 'd option"
  pf_listening :: "string \<Rightarrow> 's \<Rightarrow> 's \<times> 'n option"
  pf_named :: 'n
  pf_dial :: "u32 \<Rightarrow> string \<Rightarrow> 'n \<Rightarrow> 'n"
  pf_listen :: "u32 \<Rightarrow> string \<Rightarrow> 'n \<Rightarrow> 's \<Rightarrow> 's \<times> 'n option"
  pf_vsock :: "u64 \<Rightarrow> 'n \<Rightarrow> 'd"
  pf_link :: "'u net_link \<Rightarrow> 's \<Rightarrow> 's \<times> 'k option"
  pf_mmds :: bool
  pf_metadata :: "metadata_config \<Rightarrow> 'k \<Rightarrow> 's \<Rightarrow> 's \<times> 'k option"
  pf_captured :: "string \<Rightarrow> 'k \<Rightarrow> 's \<Rightarrow> 's \<times> 'k option"
  pf_net :: "bytes option \<Rightarrow> 'k \<Rightarrow> 'd"
  pf_entropy_device :: "'e \<Rightarrow> 'd"
  pf_balloon :: 'd
  pf_queues :: "'d \<Rightarrow> nat"
  pf_loader :: "('m, 'f) boot_io"
  pf_params :: "boot_params \<Rightarrow> bytes"
  pf_regs :: "'c vcpu_regs"
  pf_genid :: "('e, 'l) genid_ops"

text \<open>A call of the host leaves RAM as it is, and one on RAM leaves the host as it is.\<close>

definition host_call :: "machine_error \<Rightarrow> ('s \<Rightarrow> 's \<times> 'a option) \<Rightarrow> ('s \<times> 'm, 'a, machine_error) act" where
  "host_call e f sm = (case f (fst sm) of (s, None) \<Rightarrow> ((s, snd sm), Err e) | (s, Some a) \<Rightarrow> ((s, snd sm), Ok a))"

definition on_ram :: "('m \<Rightarrow> 'm \<times> ('a, machine_error) result) \<Rightarrow> ('s \<times> 'm, 'a, machine_error) act" where
  "on_ram f sm = (case f (snd sm) of (m, r) \<Rightarrow> ((fst sm, m), r))"

fun each :: "('a \<Rightarrow> ('s, 'b, 'e) act) \<Rightarrow> 'a list \<Rightarrow> ('s, 'b list, 'e) act" where
  "each f [] = ret []"
| "each f (x # xs) = bind_act (f x) (\<lambda>y. bind_act (each f xs) (\<lambda>ys. ret (y # ys)))"

section \<open>The devices of a configuration\<close>

fun name_ports :: "('s, 'm, 'f, 'd, 'l, 'c, 'q, 'e, 'n, 'k, 'u) platform \<Rightarrow> (u32 \<times> string \<times> reach) list \<Rightarrow> 'n \<Rightarrow> ('s \<times> 'm, 'n, machine_error) act" where
  "name_ports pf [] n = ret n"
| "name_ports pf ((port, path, Dial) # ps) n = name_ports pf ps (pf_dial pf port path n)"
| "name_ports pf ((port, path, Listen) # ps) n = bind_act (host_call ChannelSocket (pf_listen pf port path n)) (name_ports pf ps)"

definition open_channel :: "('s, 'm, 'f, 'd, 'l, 'c, 'q, 'e, 'n, 'k, 'u) platform \<Rightarrow> channel \<Rightarrow> ('s \<times> 'm, 'd, machine_error) act" where
  "open_channel pf ch =
     bind_act (if ch_named ch = [] then host_call ChannelSocket (pf_listening pf (ch_at ch)) else name_ports pf (ch_named ch) (pf_named pf))
       (\<lambda>n. ret (pf_vsock pf (ch_cid ch) n))"

definition open_network :: "('s, 'm, 'f, 'd, 'l, 'c, 'q, 'e, 'n, 'k, 'u) platform \<Rightarrow> 'u network \<Rightarrow> ('s \<times> 'm, 'd, machine_error) act" where
  "open_network pf nw =
     bind_act (host_call NetworkLink (pf_link pf (nw_link nw))) (\<lambda>k.
     bind_act (case nw_metadata nw of
                 None \<Rightarrow> ret k
               | Some md \<Rightarrow> if pf_mmds pf then host_call MetadataService (pf_metadata pf md k) else throw NoMetadata) (\<lambda>k1.
     bind_act (case nw_pcap nw of None \<Rightarrow> ret k1 | Some path \<Rightarrow> host_call PcapFile (pf_captured pf path k1)) (\<lambda>k2.
     ret (pf_net pf (nw_mac nw) k2))))"

text \<open>The devices in the order of their slots: entropy, disks, console, shares, channel, network, balloon.\<close>

definition open_devices :: "('s, 'm, 'f, 'd, 'l, 'c, 'q, 'e, 'n, 'k, 'u) platform \<Rightarrow> 'u config \<Rightarrow> 'e \<Rightarrow> ('s \<times> 'm, 'd list, machine_error) act" where
  "open_devices pf c seed =
     bind_act (each (\<lambda>d. host_call DiskFile (pf_disk pf d)) (cf_disks c)) (\<lambda>disks.
     bind_act (if cf_ports c = [] then ret [] else each (\<lambda>ps. host_call PortError (pf_console pf ps)) [cf_ports c]) (\<lambda>console.
     bind_act (each (\<lambda>sh. host_call ShareError (pf_fs pf sh)) (cf_shares c)) (\<lambda>shares.
     bind_act (case cf_channel c of None \<Rightarrow> ret [] | Some ch \<Rightarrow> each (open_channel pf) [ch]) (\<lambda>vsock.
     bind_act (case cf_network c of None \<Rightarrow> ret [] | Some nw \<Rightarrow> each (open_network pf) [nw]) (\<lambda>net.
     ret ([pf_entropy_device pf seed] @ disks @ console @ shares @ vsock @ net @ (if cf_balloon c then [pf_balloon pf] else [])))))))"

section \<open>The bus\<close>

datatype ('d, 'l) board = BSerial 'l | BI8042 | BPm1 | BVirtio 'd 'l

record ('d, 'l, 'q) wired =
  wd_device :: 'd
  wd_line :: 'l
  wd_ioeventfds :: "'q list"

definition placed_or :: "('a, device_error) result \<Rightarrow> ('s, 'a, machine_error) act" where
  "placed_or r = (case r of Inl _ \<Rightarrow> throw MachineDevices | Inr a \<Rightarrow> ret a)"

definition place_fixed :: "'l \<Rightarrow> ('d, 'l) board bus \<Rightarrow> ('s, ('d, 'l) board bus, machine_error) act" where
  "place_fixed uart b =
     bind_act (placed_or (place_port b COM1 COM1_SIZE (BSerial uart))) (\<lambda>b1.
     bind_act (placed_or (place_port b1 I8042_COMMAND 1 BI8042)) (\<lambda>b2.
     placed_or (place_port b2 PM1_AT PM1_SIZE BPm1)))"

definition bind_queue ::
  "('s, 'm, 'f, 'd, 'l, 'c, 'q, 'e, 'n, 'k, 'u) platform \<Rightarrow> u8 \<Rightarrow> nat \<Rightarrow> ('s \<times> 'm, 'q, machine_error) act" where
  "bind_queue pf slot index =
     bind_act (host_call MachineHv (pf_ioeventfd pf)) (\<lambda>q.
     bind_act (host_call MachineHv (pf_register pf q (virtio_at slot + QUEUE_NOTIFY) 4 (Some (of_nat index)))) (\<lambda>_. ret q))"

definition place_virtio ::
  "('s, 'm, 'f, 'd, 'l, 'c, 'q, 'e, 'n, 'k, 'u) platform \<Rightarrow> u8 \<Rightarrow> 'd \<Rightarrow> ('d, 'l) board bus
     \<Rightarrow> ('s \<times> 'm, ('d, 'l) board bus \<times> ('d, 'l, 'q) wired, machine_error) act" where
  "place_virtio pf slot d b =
     (case virtio_line slot of
        None \<Rightarrow> throw (TooManyDevices (unat slot + 1))
      | Some n \<Rightarrow>
          bind_act (host_call MachineHv (pf_irq pf n)) (\<lambda>line.
          bind_act (placed_or (place_mmio b (virtio_at slot) MMIO_SIZE (BVirtio d line))) (\<lambda>b1.
          bind_act (each (bind_queue pf slot) [0..<pf_queues pf d]) (\<lambda>qs.
          ret (b1, \<lparr>wd_device = d, wd_line = line, wd_ioeventfds = qs\<rparr>)))))"

fun place_devices ::
  "('s, 'm, 'f, 'd, 'l, 'c, 'q, 'e, 'n, 'k, 'u) platform \<Rightarrow> nat \<Rightarrow> 'd list \<Rightarrow> ('d, 'l) board bus
     \<Rightarrow> ('s \<times> 'm, ('d, 'l) board bus \<times> ('d, 'l, 'q) wired list, machine_error) act" where
  "place_devices pf slot [] b = ret (b, [])"
| "place_devices pf slot (d # ds) b =
     bind_act (place_virtio pf (of_nat slot) d b) (\<lambda>(b1, w).
     bind_act (place_devices pf (Suc slot) ds b1) (\<lambda>(b2, ws). ret (b2, w # ws)))"

section \<open>Loading and entering\<close>

definition load_named_initrd ::
  "'m vm \<Rightarrow> ('s, 'm, 'f, 'd, 'l, 'c, 'q, 'e, 'n, 'k, 'u) platform \<Rightarrow> string option \<Rightarrow> boot_kernel \<Rightarrow> ('s \<times> 'm, initrd option, machine_error) act" where
  "load_named_initrd vm pf named k =
     (case named of
        None \<Rightarrow> ret None
      | Some path \<Rightarrow>
          bind_act (host_call ImageFile (pf_open pf path)) (\<lambda>f.
          bind_act (on_ram (\<lambda>m. case load_initrd vm (pf_loader pf) k m f of (_, m1, r) \<Rightarrow> (m1, map_err (\<lambda>_. MachineBoot) r)))
            (\<lambda>rd. ret (Some rd))))"

definition load_guest :: "'m vm \<Rightarrow> ('s, 'm, 'f, 'd, 'l, 'c, 'q, 'e, 'n, 'k, 'u) platform \<Rightarrow> 'u config \<Rightarrow> ('s \<times> 'm, boot_kernel, machine_error) act" where
  "load_guest vm pf c =
     bind_act (host_call ImageFile (pf_open pf (cf_kernel c))) (\<lambda>f.
     bind_act (on_ram (\<lambda>m. case load_kernel (pf_loader pf) m f of (_, m1, r) \<Rightarrow> (m1, map_err (\<lambda>_. MachineBoot) r))) (\<lambda>k.
     bind_act (load_named_initrd vm pf (cf_initrd c) k) (\<lambda>rd.
     bind_act (on_ram (\<lambda>m. case write_boot_params vm (pf_params pf) k (cf_cmdline c) rd m of (m1, r) \<Rightarrow> (m1, map_err (\<lambda>_. MachineBoot) r))) (\<lambda>_.
     bind_act (on_ram (write_mp_table vm (cf_vcpus c))) (\<lambda>_. ret k)))))"

definition create_vcpus :: "('s, 'm, 'f, 'd, 'l, 'c, 'q, 'e, 'n, 'k, 'u) platform \<Rightarrow> 'u config \<Rightarrow> ('s \<times> 'm, 'c list, machine_error) act" where
  "create_vcpus pf c =
     bind_act (host_call MachineHv (pf_irqchip pf)) (\<lambda>_.
     bind_act (host_call MachineHv (pf_cpuid pf)) (\<lambda>leaves.
     each (\<lambda>i. bind_act (host_call MachineHv (pf_vcpu pf (of_nat i))) (\<lambda>v. host_call MachineHv (pf_set_cpuid pf (for_vcpu leaves (of_nat i)) v)))
       [0..<unat (cf_vcpus c)]))"

definition enter_guest ::
  "'m vm \<Rightarrow> ('s, 'm, 'f, 'd, 'l, 'c, 'q, 'e, 'n, 'k, 'u) platform \<Rightarrow> acpi_tables \<Rightarrow> 'u config \<Rightarrow> boot_kernel \<Rightarrow> 'c list
     \<Rightarrow> ('s \<times> 'm, 'c list, machine_error) act" where
  "enter_guest vm pf tb c k vs =
     bind_act (on_ram (lay_acpi vm tb (cf_vcpus c))) (\<lambda>_.
     on_ram (\<lambda>m. case enter_long_mode vm (pf_regs pf) k m (vs ! unat BOOT_VCPU) of
                    (m1, v, r) \<Rightarrow> (m1, map_err (\<lambda>_. MachineBoot) (map_sum id (\<lambda>_. vs[unat BOOT_VCPU := v]) r))))"

section \<open>Assembling\<close>

datatype entry_kind = Boot | Restored

record ('d, 'l, 'c, 'q, 'e) assembled =
  as_bus :: "('d, 'l) board bus"
  as_wired :: "('d, 'l, 'q) wired list"
  as_vcpus :: "'c list"
  as_genid :: "('e, 'l) genid"
  as_memory :: u64
  as_vcpu_count :: u16

definition check_config :: "'u config \<Rightarrow> entry_kind \<Rightarrow> (unit, machine_error) result" where
  "check_config c en =
     (if cf_vcpus c = 0 then Err NoVcpus
      else if en = Boot \<and> cf_kernel c = [] then Err NoKernel
      else if DISKS < length (cf_disks c) then Err (TooManyDisks (length (cf_disks c)))
      else if SHARES < length (cf_shares c) then Err (TooManyShares (length (cf_shares c)))
      else if VIRTIO_DEVICES < unat (virtio_count c) then Err (TooManyDevices (unat (virtio_count c)))
      else Ok ())"

text \<open>The tables are those of the devices of the configuration, which is why they are taken of it.\<close>

definition assemble ::
  "'m vm \<Rightarrow> ('s, 'm, 'f, 'd, 'l, 'c, 'q, 'e, 'n, 'k, 'u) platform \<Rightarrow> ('u config \<Rightarrow> acpi_tables) \<Rightarrow> 'u config \<Rightarrow> entry_kind
     \<Rightarrow> ('s \<times> 'm, ('d, 'l, 'c, 'q, 'e) assembled, machine_error) act" where
  "assemble vm pf tables c en =
     bind_act (case check_config c en of Inl e \<Rightarrow> throw e | Inr _ \<Rightarrow> ret ()) (\<lambda>_.
     bind_act (host_call MachineHv (pf_create_vm pf)) (\<lambda>_.
     bind_act (host_call MachineHv (pf_create_memory pf)) (\<lambda>_.
     bind_act (\<lambda>sm. each (\<lambda>r. host_call MachineHv (pf_mem_map pf r)) (ram_regions vm (snd sm)) sm) (\<lambda>_.
     bind_act (if en = Boot then bind_act (load_guest vm pf c) (\<lambda>k. ret (Some k)) else ret None) (\<lambda>loaded.
     bind_act (create_vcpus pf c) (\<lambda>vcpus.
     bind_act (host_call MachineHv (pf_irq pf COM1_IRQ)) (\<lambda>uart.
     bind_act (place_fixed uart bus_new) (\<lambda>b.
     bind_act (host_call MachineHv (pf_irq pf EVENTS_IRQ)) (\<lambda>announce.
     bind_act (host_call EntropyFile (pf_entropy pf)) (\<lambda>drawn.
     bind_act (on_ram (\<lambda>m. case genid_lay (pf_genid pf) vm \<lparr>gid_at = GENID_AT, gid_line = announce, gid_source = drawn\<rparr> m of
                              (g, m1, r) \<Rightarrow> (m1, map_sum id (\<lambda>_. g) r))) (\<lambda>genid.
     bind_act (host_call MachineHv (pf_registry pf)) (\<lambda>_.
     bind_act (host_call EntropyFile (pf_entropy pf)) (\<lambda>seed.
     bind_act (open_devices pf c seed) (\<lambda>devices.
     bind_act (place_devices pf 0 devices b) (\<lambda>(b1, wires).
     bind_act (case loaded of None \<Rightarrow> ret vcpus | Some k \<Rightarrow> enter_guest vm pf (tables c) c k vcpus) (\<lambda>vcpus1.
     ret \<lparr>as_bus = b1, as_wired = wires, as_vcpus = vcpus1, as_genid = genid, as_memory = cf_memory c, as_vcpu_count = cf_vcpus c\<rparr>))))))))))))))))"

section \<open>Which calls fail how\<close>

text \<open>The errors other than that a device did not find a place.\<close>

definition quiet :: "machine_error set" where
  "quiet = {e. e \<noteq> MachineDevices \<and> (\<forall>n. e \<noteq> TooManyDevices n)}"

lemma raises_host [act_rules]: "e \<in> E \<Longrightarrow> raises E (host_call e f)"
  by (auto simp: raises_def host_call_def split: prod.splits option.splits)

lemma raises_each [act_rules]: "(\<And>x. x \<in> set xs \<Longrightarrow> raises E (f x)) \<Longrightarrow> raises E (each f xs)"
  by (induction xs) (auto intro!: act_rules)

lemma gives_each [act_rules]: "gives (\<lambda>ys. length ys = length xs) (each f xs)"
proof (induction xs)
  case (Cons x xs)
  show ?case by (auto intro!: gives_then gives_bind [OF Cons] gives_ret)
qed (simp add: act_rules)

lemma raises_on_ram: "(\<And>m m' e. f m = (m', Inl e) \<Longrightarrow> e \<in> E) \<Longrightarrow> raises E (on_ram f)"
  by (auto simp: raises_def on_ram_def split: prod.splits)

lemma quiet_errors [simp]:
  "MachineHv \<in> quiet" "MachineMem \<in> quiet" "MachineBoot \<in> quiet" "ImageFile \<in> quiet" "EntropyFile \<in> quiet" "DiskFile \<in> quiet" "PortError \<in> quiet"
  "ShareError \<in> quiet" "ChannelSocket \<in> quiet" "NetworkLink \<in> quiet" "MetadataService \<in> quiet" "NoMetadata \<in> quiet" "PcapFile \<in> quiet"
  "NoRoomForMpTable \<in> quiet" "NoRoomForTables \<in> quiet"
  by (simp_all add: quiet_def)

lemma map_err_Inl: "map_err h r = Inl e \<longleftrightarrow> (\<exists>e0. r = Inl e0 \<and> e = h e0)"
  by (cases r) (auto simp: map_err_def)

lemma raises_load_guest: "raises quiet (load_guest vm pf c)"
  unfolding load_guest_def load_named_initrd_def
  by (intro raises_then raises_host raises_ret raises_on_ram)
    (auto intro!: raises_then raises_host raises_ret raises_on_ram simp: map_err_Inl write_mp_table_def Let_def split: option.splits prod.splits sum.splits if_splits)

lemma raises_lay_table: "lay_table vm t s = (s', Inl e) \<Longrightarrow> e \<in> quiet"
  by (auto simp: lay_table_def Let_def split: prod.splits sum.splits if_splits)

lemma raises_lay_acpi: "lay_acpi vm tb vcpus m = (m', Inl e) \<Longrightarrow> e \<in> quiet"
  by (auto simp: lay_acpi_def lay_processors_def dest: raises_lay_table split: prod.splits sum.splits if_splits)

lemma raises_enter_guest: "raises quiet (enter_guest vm pf tb c k vs)"
  unfolding enter_guest_def
  by (intro raises_then raises_on_ram) (auto dest: raises_lay_acpi simp: map_err_Inl split: prod.splits)

lemma raises_open_devices: "raises quiet (open_devices pf c seed)"
proof -
  have ports: "raises quiet (name_ports pf ps n)" for ps n
    by (induction pf ps n rule: name_ports.induct) (auto intro!: act_rules)
  show ?thesis
    unfolding open_devices_def open_channel_def open_network_def
    by (auto intro!: act_rules ports split: option.splits)
qed

lemma raises_create_vcpus: "raises quiet (create_vcpus pf c)"
  by (auto simp: create_vcpus_def intro!: act_rules)

section \<open>Every device finds its place\<close>

lemma unat_virtio_at: "unat (virtio_at slot) = 0xd0000000 + 512 * unat slot"
proof -
  have "unat slot < 256" using unsigned_less [of slot, where 'a = nat] by simp
  then show ?thesis by (simp add: virtio_at_def VIRTIO_AT_def MMIO_SIZE_def unat_word_ariths unsigned_ucast_eq take_bit_eq_mod)
qed

definition windows :: "'d placed list \<Rightarrow> (u64 \<times> u64) list" where
  "windows ps = map (\<lambda>p. (p_base p, p_size p)) ps"

definition slots :: "nat \<Rightarrow> (u64 \<times> u64) list" where
  "slots n = map (\<lambda>i. (virtio_at (of_nat i), MMIO_SIZE)) [0..<n]"

lemma placed_slot:
  assumes "windows ps = slots n" "n < 17"
  shows "place ps (virtio_at (of_nat n)) MMIO_SIZE d = Inr (ps @ [\<lparr>p_base = virtio_at (of_nat n), p_size = MMIO_SIZE, p_device = d\<rparr>])"
proof -
  have at: "unat (virtio_at (of_nat i)) = 0xd0000000 + 512 * i" if "i < 256" for i
    using that by (simp add: unat_virtio_at unsigned_of_nat take_bit_eq_mod)
  have p: "\<exists>i<n. p_base p = virtio_at (of_nat i) \<and> p_size p = MMIO_SIZE" if "p \<in> set ps" for p
  proof -
    have "(p_base p, p_size p) \<in> set (slots n)" using that by (simp flip: assms(1) add: windows_def image_iff) blast
    then show ?thesis by (auto simp: slots_def)
  qed
  then have "list_all p_ok ps"
    using assms(2) by (fastforce simp: list_all_iff p_ok_def at MMIO_SIZE_def)
  moreover have "list_all (\<lambda>p. p_range p \<inter> {unat (virtio_at (of_nat n))..<unat (virtio_at (of_nat n)) + unat MMIO_SIZE} = {}) ps"
    using p assms(2) by (fastforce simp: list_all_iff p_range_def at MMIO_SIZE_def)
  ultimately show ?thesis using assms(2) by (simp add: place_cases at MMIO_SIZE_def)
qed

lemma windows_snoc: "windows ps = slots n \<Longrightarrow> windows (ps @ [\<lparr>p_base = virtio_at (of_nat n), p_size = MMIO_SIZE, p_device = d\<rparr>]) = slots (Suc n)"
  by (simp add: windows_def slots_def)

lemma line_of_slot: "n < 17 \<Longrightarrow> virtio_line (of_nat n) = Some (VIRTIO_LINES ! n)"
  by (simp add: virtio_line_def VIRTIO_LINES_def unsigned_of_nat take_bit_eq_mod)

definition on_board :: "('d, 'l, 'q) wired \<Rightarrow> ('d, 'l) board" where
  "on_board w = BVirtio (wd_device w) (wd_line w)"

definition wired_ok :: "('s, 'm, 'f, 'd, 'l, 'c, 'q, 'e, 'n, 'k, 'u) platform \<Rightarrow> u8 \<Rightarrow> ('d, 'l, 'q) wired \<Rightarrow> bool" where
  "wired_ok pf slot w \<longleftrightarrow> length (wd_ioeventfds w) = pf_queues pf (wd_device w) \<and>
     (\<exists>n s s'. virtio_line slot = Some n \<and> pf_irq pf n s = (s', Some (wd_line w)))"

lemma gives_host: "gives (\<lambda>a. \<exists>s s'. f s = (s', Some a)) (host_call e f)"
  by (auto simp: gives_def host_call_def split: prod.splits option.splits)

lemma place_virtio_ok:
  assumes "windows (mmio b) = slots n" "n < 17"
  shows "gives (\<lambda>(b', w). windows (mmio b') = slots (Suc n) \<and> ports b' = ports b \<and> wd_device w = d \<and> wired_ok pf (of_nat n) w \<and>
      map p_device (mmio b') = map p_device (mmio b) @ [on_board w]) (place_virtio pf (of_nat n) d b)" (is "gives ?P _")
    and "raises quiet (place_virtio pf (of_nat n) d b)"
proof -
  let ?slot = "of_nat n :: u8"
  have placed: "placed_or (place_mmio b (virtio_at ?slot) MMIO_SIZE x) =
      ret (b\<lparr>mmio := mmio b @ [\<lparr>p_base = virtio_at ?slot, p_size = MMIO_SIZE, p_device = x\<rparr>]\<rparr>)" for x
    using placed_slot [OF assms] by (simp add: place_mmio_def placed_or_def and_then_def)
  show "gives ?P (place_virtio pf ?slot d b)"
    unfolding place_virtio_def line_of_slot [OF assms(2)] option.case placed bind_ret
    by (rule gives_bind [OF gives_host], rule gives_bind [OF gives_each])
      (auto intro!: gives_ret simp: windows_snoc [OF assms(1)] line_of_slot [OF assms(2)] wired_ok_def on_board_def, blast)
  show "raises quiet (place_virtio pf ?slot d b)"
    unfolding place_virtio_def line_of_slot [OF assms(2)] option.case placed bind_ret bind_queue_def by (auto intro!: act_rules)
qed

definition placed_all ::
  "('s, 'm, 'f, 'd, 'l, 'c, 'q, 'e, 'n, 'k, 'u) platform \<Rightarrow> nat \<Rightarrow> 'd list \<Rightarrow> ('d, 'l) board bus \<Rightarrow> ('d, 'l) board bus \<times> ('d, 'l, 'q) wired list \<Rightarrow> bool" where
  "placed_all pf n ds b p \<longleftrightarrow> windows (mmio (fst p)) = slots (n + length ds) \<and> ports (fst p) = ports b \<and> map wd_device (snd p) = ds \<and>
     list_all2 (wired_ok pf) (map of_nat [n..<n + length ds]) (snd p) \<and> map p_device (mmio (fst p)) = map p_device (mmio b) @ map on_board (snd p)"

lemma place_all_gives:
  "windows (mmio b) = slots n \<Longrightarrow> n + length ds \<le> 17 \<Longrightarrow> gives (placed_all pf n ds b) (place_devices pf n ds b)"
proof (induction ds arbitrary: n b)
  case Nil
  then show ?case by (simp add: placed_all_def act_rules)
next
  case (Cons d ds)
  then have "n < 17" by simp
  note ok = place_virtio_ok(1) [OF Cons.prems(1) this, of d pf]
  show ?case
    unfolding place_devices.simps
  proof (rule gives_bind [OF ok], clarify)
    fix b1 :: "(_, _) board bus" and w
    assume w: "windows (mmio b1) = slots (Suc n)" "ports b1 = ports b" "d = wd_device w" "wired_ok pf (of_nat n) w"
      "map p_device (mmio b1) = map p_device (mmio b) @ [on_board w]"
    show "gives (placed_all pf n (wd_device w # ds) b) (bind_act (place_devices pf (Suc n) ds b1) (\<lambda>(b2, ws). ret (b2, w # ws)))"
      using Cons.prems(2) w by (intro gives_bind [OF Cons.IH [OF w(1)]]) (auto intro!: gives_ret simp: placed_all_def upt_conv_Cons simp del: upt_Suc)
  qed
qed

lemma raises_place_all: "windows (mmio b) = slots n \<Longrightarrow> n + length ds \<le> 17 \<Longrightarrow> raises quiet (place_devices pf n ds b)"
proof (induction ds arbitrary: n b)
  case Nil
  then show ?case by (simp add: act_rules)
next
  case (Cons d ds)
  then have n: "n < 17" by simp
  show ?case
    unfolding place_devices.simps
    by (rule raises_bind [OF place_virtio_ok(2) [OF Cons.prems(1) n] place_virtio_ok(1) [OF Cons.prems(1) n]])
      (use Cons in \<open>auto intro!: act_rules\<close>)
qed

section \<open>As many devices as the tables name\<close>

lemma fixed_bus: "place_fixed uart bus_new = ret \<lparr>ports = [\<lparr>p_base = 0x3f8, p_size = 8, p_device = BSerial uart\<rparr>,
    \<lparr>p_base = 0x64, p_size = 1, p_device = BI8042\<rparr>, \<lparr>p_base = 0x600, p_size = 6, p_device = BPm1\<rparr>], mmio = []\<rparr>"
  by (simp add: place_fixed_def place_port_def place_def bus_new_def placed_or_def and_then_def checked_add_def overlaps_def COM1_def COM1_SIZE_def
      I8042_COMMAND_def PM1_AT_def PM1_SIZE_def)

definition device_total :: "'u config \<Rightarrow> nat" where
  "device_total c = 1 + length (cf_disks c) + length (cf_shares c) + of_bool (cf_ports c \<noteq> []) + of_bool (cf_channel c \<noteq> None)
     + of_bool (cf_network c \<noteq> None) + of_bool (cf_balloon c)"

lemma checked_config:
  assumes "check_config c en = Inr u"
  shows "unat (virtio_count c) = device_total c" "device_total c \<le> 17" "cf_vcpus c \<noteq> 0"
proof -
  have few: "length (cf_disks c) \<le> 8" "length (cf_shares c) \<le> 8" "unat (virtio_count c) \<le> 17" "cf_vcpus c \<noteq> 0"
    using assms by (auto simp: check_config_def DISKS_def SHARES_def VIRTIO_DEVICES_def VIRTIO_LINES_def split: if_splits)
  have "virtio_count c = of_nat (device_total c)" by (simp add: virtio_count_def device_total_def)
  moreover have "device_total c < 256" using few by (simp add: device_total_def)
  ultimately show "unat (virtio_count c) = device_total c" by (simp add: unsigned_of_nat take_bit_eq_mod)
  with few show "device_total c \<le> 17" "cf_vcpus c \<noteq> 0" by simp_all
qed

lemma gives_optional: "gives (\<lambda>ds. length ds = of_bool (x \<noteq> None)) (case x of None \<Rightarrow> ret [] | Some y \<Rightarrow> each f [y])"
  using gives_each [of "[_]" f] by (auto intro: act_rules split: option.splits simp del: each.simps)

lemma gives_unless_empty: "gives (\<lambda>ds. length ds = of_bool (xs \<noteq> [])) (if xs = [] then ret [] else each f [xs])"
  using gives_each [of "[xs]" f] by (auto intro: act_rules simp del: each.simps)

lemma open_devices_count: "gives (\<lambda>ds. length ds = device_total c) (open_devices pf c seed)"
  unfolding open_devices_def
  by (rule gives_bind [OF gives_each], rule gives_bind [OF gives_unless_empty], rule gives_bind [OF gives_each],
      rule gives_bind [OF gives_optional], rule gives_bind [OF gives_optional], rule gives_ret) (simp add: device_total_def)

section \<open>What was loaded stays whole\<close>

context vm_memory
begin

lemma write_boot_params_leaves:
  assumes "write_boot_params vm as_slice k cmdline rd m = (m', Inr ())" "0 < length cmdline + 1" "length cmdline < 0x7fc00"
    "\<And>bp. length (as_slice bp) = 4096"
  shows "0 \<notin> set cmdline" "ram_read vm m' CMDLINE (length cmdline + 1) = Inr (cmdline @ [0])"
    "0x100000 \<le> unat a \<Longrightarrow> ram_read vm m' a n = ram_read vm m a n"
proof -
  obtain m1 bp where w: "ram_write vm m CMDLINE (cmdline @ [0]) = (m1, Inr ())" "ram_write vm m1 BOOT_PARAMS (as_slice bp) = (m', Inr ())"
    and nul: "0 \<notin> set cmdline"
    using assms(1) by (auto simp: write_boot_params_def Let_def split: if_splits prod.splits sum.splits)
  have at: "unat CMDLINE = 0x20000" "unat BOOT_PARAMS = 0x7000" by (simp_all add: CMDLINE_def BOOT_PARAMS_def)
  show "0 \<notin> set cmdline" by (fact nul)
  show "ram_read vm m' CMDLINE (length cmdline + 1) = Inr (cmdline @ [0])"
    using ram_write_read [OF w(1)] ram_write_apart [OF w(2), of CMDLINE "length cmdline + 1"] by (simp add: apart_def at assms(4))
  show "ram_read vm m' a n = ram_read vm m a n" if "0x100000 \<le> unat a"
  proof -
    have "apart CMDLINE (length (cmdline @ [0])) a n" "apart BOOT_PARAMS (length (as_slice bp)) a n"
      using that assms(3) by (simp_all add: apart_def at assms(4))
    then show ?thesis using ram_write_apart [OF w(1)] ram_write_apart [OF w(2)] by simp
  qed
qed

lemma write_mp_table_leaves:
  assumes "write_mp_table vm vcpus m = (m', Inr u)" "unat a + n \<le> 0x9fc00 \<or> 0xa0000 \<le> unat a"
  shows "ram_read vm m' a n = ram_read vm m a n"
proof -
  obtain m1 h where w: "ram_write vm m MP_TABLE mp_pointer = (m1, Inr ())" "ram_write vm m1 (MP_TABLE + of_nat POINTER_BYTES) h = (m', Inr ())"
    "POINTER_BYTES + length h \<le> MP_ROOM"
    using assms(1) by (auto simp: write_mp_table_def Let_def not_less split: if_splits prod.splits sum.splits)
  have "apart MP_TABLE (length mp_pointer) a n" "apart (MP_TABLE + of_nat POINTER_BYTES) (length h) a n"
    using assms(2) w(3) by (auto simp: apart_def MP_TABLE_def POINTER_BYTES_def MP_ROOM_def mp_pointer_fields)
  then show ?thesis using ram_write_apart [OF w(1)] ram_write_apart [OF w(2)] by simp
qed

lemma load_initrd_leaves:
  assumes "load_initrd vm io k m f = (f', m', Inr rd)" "list_all region_ends (ram_regions vm m)"
    "\<And>g g' bs. im_read_to_end io g = (g', Some bs) \<Longrightarrow> bs \<noteq> [] \<and> length bs < 2 ^ 64"
  shows "bk_end k \<le> rd_addr rd" "\<exists>bs. im_read_to_end io f = (f', Some bs) \<and> unat (rd_size rd) = length bs \<and> ram_read vm m' (rd_addr rd) (length bs) = Inr bs"
    "unat a + n \<le> unat (bk_end k) \<Longrightarrow> ram_read vm m' a n = ram_read vm m a n"
proof -
  obtain bs addr where w: "im_read_to_end io f = (f', Some bs)" "initrd_address (ram_regions vm m) k (of_nat (length bs)) = Inr addr"
    "ram_write vm m addr bs = (m', Inr ())" and rd: "rd = \<lparr>rd_addr = addr, rd_size = of_nat (length bs)\<rparr>"
    using assms(1) by (auto simp: load_initrd_def Let_def split: prod.splits option.splits sum.splits)
  have "initrd_fits (ram_regions vm m) k (of_nat (length bs)) addr"
    using initrd_address_fits [OF assms(2), of k "of_nat (length bs)"] w(2) by simp
  then have above: "bk_end k \<le> addr" by (auto simp: initrd_fits_def)
  then show "bk_end k \<le> rd_addr rd" by (simp add: rd)
  show "\<exists>bs. im_read_to_end io f = (f', Some bs) \<and> unat (rd_size rd) = length bs \<and> ram_read vm m' (rd_addr rd) (length bs) = Inr bs"
    using w assms(3) [OF w(1)] ram_write_read [OF w(3)] by (simp add: rd unsigned_of_nat take_bit_eq_mod)
  show "ram_read vm m' a n = ram_read vm m a n" if "unat a + n \<le> unat (bk_end k)"
  proof -
    have "apart addr (length bs) a n" using that above by (simp add: apart_def word_le_nat_alt)
    then show ?thesis using ram_write_apart [OF w(3)] by simp
  qed
qed

end

lemma host_Ok: "host_call e f sm = (sm', Inr a) \<longleftrightarrow> (\<exists>s'. f (fst sm) = (s', Some a) \<and> sm' = (s', snd sm))"
  by (auto simp: host_call_def split: prod.splits option.splits)

lemma on_ram_Ok: "on_ram f sm = (sm', Inr a) \<longleftrightarrow> (\<exists>m'. f (snd sm) = (m', Inr a) \<and> sm' = (fst sm, m'))"
  by (auto simp: on_ram_def split: prod.splits)

lemma map_err_Ok: "map_err h r = Inr a \<longleftrightarrow> r = Inr a"
  by (cases r) (auto simp: map_err_def)

lemma erred_Ok:
  "(case p of (x, m1, r) \<Rightarrow> (m1, map_err h r)) = (m', Inr a) \<longleftrightarrow> (\<exists>x. p = (x, m', Inr a))"
  "(case q of (m1, r) \<Rightarrow> (m1, map_err h r)) = (m', Inr a) \<longleftrightarrow> q = (m', Inr a)"
  by (cases p, cases q, auto simp: map_err_Ok)+

text \<open>The steps of a load which succeeded: the kernel, the initramfs, the parameters and the MP table, one after the other.\<close>

lemma load_named_initrd_steps:
  assumes "load_named_initrd vm pf named k (s1, m1) = (sm2, Inr rd)"
  shows "case named of None \<Rightarrow> rd = None \<and> sm2 = (s1, m1)
    | Some path \<Rightarrow> \<exists>s2 f2 f3 x. pf_open pf path s1 = (s2, Some f2) \<and> load_initrd vm (pf_loader pf) k m1 f2 = (f3, snd sm2, Inr x) \<and> rd = Some x"
  using assms by (cases named) (auto simp: load_named_initrd_def bind_act_Ok host_Ok on_ram_Ok erred_Ok ret_def)

lemma load_guest_steps:
  assumes "load_guest vm pf c (s, m) = ((s', m'), Inr k)"
  shows "\<exists>s1 f f1 m1 sm2 rd m3. pf_open pf (cf_kernel c) s = (s1, Some f) \<and> load_kernel (pf_loader pf) m f = (f1, m1, Inr k) \<and>
    load_named_initrd vm pf (cf_initrd c) k (s1, m1) = (sm2, Inr rd) \<and>
    write_boot_params vm (pf_params pf) k (cf_cmdline c) rd (snd sm2) = (m3, Inr ()) \<and> write_mp_table vm (cf_vcpus c) m3 = (m', Inr ())"
  using assms unfolding load_guest_def bind_act_Ok host_Ok on_ram_Ok erred_Ok by (auto simp: ret_def)


section \<open>The assembled guest\<close>

definition assembled_ok ::
  "('s, 'm, 'f, 'd, 'l, 'c, 'q, 'e, 'n, 'k, 'u) platform \<Rightarrow> 'u config \<Rightarrow> ('d, 'l, 'c, 'q, 'e) assembled \<Rightarrow> bool" where
  "assembled_ok pf c a \<longleftrightarrow>
     windows (ports (as_bus a)) = [(0x3f8, 8), (0x64, 1), (0x600, 6)] \<and> windows (mmio (as_bus a)) = slots (device_total c) \<and>
     map p_device (mmio (as_bus a)) = map on_board (as_wired a) \<and> list_all2 (wired_ok pf) (map of_nat [0..<device_total c]) (as_wired a) \<and>
     gid_at (as_genid a) = GENID_AT"

lemma gives_genid:
  "gives (\<lambda>g. gid_at g = GENID_AT) (on_ram (\<lambda>m. case genid_lay ops vm \<lparr>gid_at = GENID_AT, gid_line = l, gid_source = e\<rparr> m of
     (g, m1, r) \<Rightarrow> (m1, map_sum id (\<lambda>_. g) r)))"
  by (auto simp: gives_def on_ram_def genid_lay_def map_sum_def map_err_def split: prod.splits option.splits sum.splits)

lemma raises_genid:
  "raises quiet (on_ram (\<lambda>m. case genid_lay ops vm \<lparr>gid_at = GENID_AT, gid_line = l, gid_source = e\<rparr> m of (g, m1, r) \<Rightarrow> (m1, map_sum id (\<lambda>_. g) r)))"
  by (rule raises_on_ram) (auto simp: genid_lay_def map_sum_def map_err_def split: prod.splits option.splits sum.splits)

lemma gives_place_all_fresh:
  assumes "length ds = device_total c" "device_total c \<le> 17"
  shows "gives (placed_all pf 0 ds \<lparr>ports = ps, mmio = []\<rparr>) (place_devices pf 0 ds \<lparr>ports = ps, mmio = []\<rparr>)"
  using assms by (intro place_all_gives) (simp_all add: windows_def slots_def)

lemma gives_assemble: "gives (\<lambda>a. assembled_ok pf c a \<and> check_config c en = Inr ()) (assemble vm pf tables c en)"
proof (cases "check_config c en")
  case (Inl e)
  then show ?thesis by (simp add: assemble_def gives_def bind_act_Ok throw_def)
next
  case (Inr u)
  note total = checked_config [OF Inr]
  show ?thesis
    unfolding assemble_def Inr sum.case bind_ret fixed_bus
    by (rule gives_then, rule gives_then, rule gives_then, rule gives_then, rule gives_then, rule gives_then, rule gives_then, rule gives_then,
        rule gives_bind [OF gives_genid], rule gives_then, rule gives_then, rule gives_bind [OF open_devices_count],
        rule gives_bind [OF gives_place_all_fresh [OF _ total(2)]], assumption)
      (auto intro!: gives_then gives_ret simp: assembled_ok_def placed_all_def windows_def)
qed

lemma raises_assemble:
  assumes "check_config c en = Inr u"
  shows "raises quiet (assemble vm pf tables c en)"
proof -
  note total = checked_config [OF assms]
  have map_in: "raises quiet (\<lambda>sm. each (\<lambda>r. host_call MachineHv (pf_mem_map pf r)) (ram_regions vm (snd sm)) sm)"
    by (rule raises_reader [where f = "\<lambda>sm. each (\<lambda>r. host_call MachineHv (pf_mem_map pf r)) (ram_regions vm (snd sm))"]) (simp add: act_rules)
  have placing: "length ds = device_total c \<Longrightarrow> raises quiet (place_devices pf 0 ds \<lparr>ports = ps, mmio = []\<rparr>)" for ds ps
    using total(2) by (intro raises_place_all) (simp_all add: windows_def slots_def)
  show ?thesis
    unfolding assemble_def assms sum.case bind_ret fixed_bus
    by (rule raises_then, simp add: raises_host, rule raises_then, simp add: raises_host, rule raises_then [OF map_in],
        rule raises_then, simp add: act_rules raises_load_guest, rule raises_then [OF raises_create_vcpus], rule raises_then, simp add: raises_host,
        rule raises_then, simp add: raises_host, rule raises_then, simp add: raises_host, rule raises_then [OF raises_genid],
        rule raises_then, simp add: raises_host, rule raises_then, simp add: raises_host,
        rule raises_bind [OF raises_open_devices open_devices_count], rule raises_then [OF placing])
      (auto intro!: act_rules raises_enter_guest split: option.splits)
qed

lemma layout_skips_hole: "p \<in> set (layout n) \<Longrightarrow> unat (fst p) + unat (snd p) \<le> 0xc0000000 \<or> 0x100000000 \<le> unat (fst p)"
  by (auto simp: layout_def MMIO_HOLE_def HIGH_RAM_def word_le_nat_alt split: if_splits)

lemma windows_range: "windows ps = ws \<Longrightarrow> i < length ps \<Longrightarrow> p_range (ps ! i) = {unat (fst (ws ! i))..<unat (fst (ws ! i)) + unat (snd (ws ! i))}"
  by (auto simp: windows_def p_range_def)

lemma space_wf_windows:
  "space_wf ps \<longleftrightarrow> (\<forall>w \<in> set (windows ps). snd w \<noteq> 0 \<and> unat (fst w) + unat (snd w) < 2 ^ 64) \<and>
     sorted_wrt (\<lambda>v w. {unat (fst v)..<unat (fst v) + unat (snd v)} \<inter> {unat (fst w)..<unat (fst w) + unat (snd w)} = {}) (windows ps)"
  by (simp add: space_wf_def windows_def sorted_wrt_map p_ok_def p_range_def list_all_iff)

lemma slots_apart: "n \<le> 17 \<Longrightarrow> windows ps = slots n \<Longrightarrow> space_wf ps"
  by (auto simp: space_wf_windows slots_def sorted_wrt_map sorted_wrt_iff_nth_less unat_virtio_at unsigned_of_nat take_bit_eq_mod MMIO_SIZE_def)

lemma assembled_bus_wf:
  assumes "assembled_ok pf c a" "device_total c \<le> 17"
  shows "bus_wf (as_bus a)"
proof -
  have "space_wf (ports (as_bus a))"
    using assms(1) by (simp add: assembled_ok_def space_wf_windows)
  moreover have "space_wf (mmio (as_bus a))" using assms by (auto simp: assembled_ok_def intro: slots_apart)
  ultimately show ?thesis by (simp add: bus_wf_def)
qed

lemma virtio_lines_free: "distinct VIRTIO_LINES" "set VIRTIO_LINES \<inter> {COM1_IRQ, EVENTS_IRQ, SCI_IRQ} = {}"
  by (simp_all add: VIRTIO_LINES_def VIRTIO_IRQ_def COM1_IRQ_def EVENTS_IRQ_def SCI_IRQ_def)


text \<open>A host on which every call succeeds; a line is its number and a device the number of its kind.\<close>

definition willing :: "(unit, flat_ram, unit, nat, u8, (reg \<times> u64) list, u64 \<times> nat, unit, unit, unit, unit) platform" where
  "willing = \<lparr>pf_create_vm = (\<lambda>s. (s, Some ())), pf_create_memory = (\<lambda>s. (s, Some ())), pf_mem_map = (\<lambda>_ s. (s, Some ())), pf_open = (\<lambda>_ s. (s, Some ())),
     pf_irqchip = (\<lambda>s. (s, Some ())), pf_cpuid = (\<lambda>s. (s, Some [])), pf_vcpu = (\<lambda>_ s. (s, Some [])), pf_set_cpuid = (\<lambda>_ c s. (s, Some c)),
     pf_irq = (\<lambda>n s. (s, Some n)), pf_entropy = (\<lambda>s. (s, Some ())), pf_registry = (\<lambda>s. (s, Some ())), pf_ioeventfd = (\<lambda>s. (s, Some (0, 0))),
     pf_register = (\<lambda>_ _ _ _ s. (s, Some ())), pf_disk = (\<lambda>_ s. (s, Some 2)), pf_console = (\<lambda>_ s. (s, Some 3)), pf_fs = (\<lambda>_ s. (s, Some 26)),
     pf_listening = (\<lambda>_ s. (s, Some ())), pf_named = (), pf_dial = (\<lambda>_ _ n. n), pf_listen = (\<lambda>_ _ n s. (s, Some n)), pf_vsock = (\<lambda>_ _. 19),
     pf_link = (\<lambda>_ s. (s, Some ())), pf_mmds = True, pf_metadata = (\<lambda>_ k s. (s, Some k)), pf_captured = (\<lambda>_ k s. (s, Some k)), pf_net = (\<lambda>_ _. 1),
     pf_entropy_device = (\<lambda>_. 4), pf_balloon = 5, pf_queues = (\<lambda>d. if d = 4 then 1 else 2),
     pf_loader = \<lparr>im_position = (\<lambda>f. (f, None)), im_read = (\<lambda>_ f. (f, None)), im_seek = (\<lambda>_ f. (f, None)), im_read_to_end = (\<lambda>f. (f, None)),
       load_elf = (\<lambda>_ f m. (f, m, Inl LoaderOther)), load_bz = (\<lambda>_ f m. (f, m, Inl LoaderOther))\<rparr>,
     pf_params = (\<lambda>_. []), pf_regs = reset_ops, pf_genid = \<lparr>draw = (\<lambda>n e. (e, Some (replicate n 7))), send_line = (\<lambda>l. (l, Inr ()))\<rparr>\<rparr>"

definition no_tables :: acpi_tables where
  "no_tables = \<lparr>at_namespace = [], at_machine = (\<lambda>_. []), at_processors = (\<lambda>_. []), at_list = (\<lambda>_ _. []), at_pointer = (\<lambda>_. [])\<rparr>"

definition small_config :: "unit config" where
  "small_config = config_default\<lparr>cf_disks := [\<lparr>dk_at = ''disk'', dk_writable = True, dk_rate = None\<rparr>], cf_balloon := True\<rparr>"


text \<open>A kernel of sixteen bytes and an initramfs of three, in two megabytes of RAM.\<close>

definition tiny_loader :: "(flat_ram, unit) boot_io" where
  "tiny_loader = \<lparr>im_position = (\<lambda>f. (f, Some 0)), im_read = (\<lambda>_ f. (f, Some ELF_MAGIC)), im_seek = (\<lambda>_ f. (f, Some ())),
     im_read_to_end = (\<lambda>f. (f, Some [1, 2, 3])), load_elf = (\<lambda>a f m. (f, m, Inr \<lparr>kl_load = a, kl_end = a + 16, kl_setup = None\<rparr>)),
     load_bz = (\<lambda>_ f m. (f, m, Inl LoaderOther))\<rparr>"

definition booting :: "(unit, flat_ram, unit, nat, u8, (reg \<times> u64) list, u64 \<times> nat, unit, unit, unit, unit) platform" where
  "booting = willing\<lparr>pf_loader := tiny_loader, pf_params := (\<lambda>_. replicate 4096 0)\<rparr>"

definition boot_config :: "unit config" where
  "boot_config = config_default\<lparr>cf_kernel := ''vmlinux'', cf_initrd := Some ''initrd'', cf_cmdline := [113]\<rparr>"


end
