(* ===== verification/Metadata.thy ===== *)
theory Metadata
  imports Net_Link Rust_Text
begin

text \<open>
  The metadata service of a guest, \<^verbatim>\<open>src/lingcore/src/devices/virtio/net/metadata.rs\<close>: a carrier which answers the requests for one
  address and passes every other frame to the carrier it is wrapped around.  The TCP stack behind it, the \<^verbatim>\<open>smoltcp\<close> crate, is a
  parameter, as are the clock and the random bytes of the host.

  The lemmas show that the document is only served to a request which carries a token that was issued before and has not expired, that
  an answer fits the room of a connection, and that the service is a carrier.
\<close>

section \<open>Text\<close>

definition chars :: "string \<Rightarrow> nat list" where
  "chars s = map of_char s"

definition ascii :: "string \<Rightarrow> bytes" where
  "ascii s = map of_char s"

fun split_crlf :: "nat list \<Rightarrow> nat list list" where
  "split_crlf [] = [[]]"
| "split_crlf (a # cs) =
     (if a = 13 \<and> take 1 cs = [10] then [] # split_crlf (drop 1 cs)
      else (case split_crlf cs of [] \<Rightarrow> [[a]] | l # ls \<Rightarrow> (a # l) # ls))"

definition split_once_colon :: "nat list \<Rightarrow> (nat list \<times> nat list) option" where
  "split_once_colon cs =
     (if 58 \<in> set cs then Some (takeWhile (\<lambda>c. c \<noteq> 58) cs, tl (dropWhile (\<lambda>c. c \<noteq> 58) cs)) else None)"

definition hex_digit :: "nat \<Rightarrow> nat" where
  "hex_digit n = (if n < 10 then 48 + n else 87 + n)"

definition token_text :: "bytes \<Rightarrow> nat list" where
  "token_text bs = concat (map (\<lambda>b. [hex_digit (unat b div 16), hex_digit (unat b mod 16)]) bs)"

section \<open>The service\<close>

definition SERVICE_CONNECTIONS :: nat where "SERVICE_CONNECTIONS = 4"
definition REQUEST :: nat where "REQUEST = 2048"
definition HEADERS :: nat where "HEADERS = 1024"
definition TOKENS :: nat where "TOKENS = 16"
definition TOKEN_BYTES :: nat where "TOKEN_BYTES = 16"
definition PEERS :: nat where "PEERS = 8"
definition TOKEN_TTL_MAX :: nat where "TOKEN_TTL_MAX = 21600"
definition TOKEN_AT :: "nat list" where "TOKEN_AT = chars ''/latest/api/token''"
definition TOKEN_HEADER :: "nat list" where "TOKEN_HEADER = chars ''x-metadata-token''"
definition TTL_HEADER :: "nat list" where "TTL_HEADER = chars ''x-metadata-token-ttl-seconds''"
definition ARP_REQUEST :: bytes where "ARP_REQUEST = [0x08, 0x06, 0, 1, 0x08, 0x00, 6, 4, 0, 1]"
definition ARP_REPLY :: bytes where "ARP_REPLY = [0x08, 0x06, 0, 1, 0x08, 0x00, 6, 4, 0, 2]"

record token =
  tk_text :: "nat list"
  tk_until :: nat

record ('c, 'i, 'e) metadata =
  mt_inner :: 'c
  mt_ip :: bytes
  mt_mac :: bytes
  mt_document :: bytes
  mt_net :: 'i
  from_guest :: "bytes list"
  to_guest :: "bytes list"
  issued :: "token list"
  peers :: "(bytes \<times> bytes) list"
  mt_host :: 'e
  started :: nat
  due :: "nat option"
  served :: u64
  refused :: u64
  mt_dropped :: u64

text \<open>The stack: polling it with the frames of both directions, and its sockets.  The clock counts nanoseconds, that of the stack
  microseconds.\<close>

record ('i, 'h, 'e) service_ops =
  so_poll :: "nat \<Rightarrow> bytes list \<times> bytes list \<Rightarrow> 'i \<Rightarrow> 'i \<times> bytes list \<times> bytes list"
  so_poll_at :: "nat \<Rightarrow> 'i \<Rightarrow> nat option"
  so_handles :: "'i \<Rightarrow> 'h list"
  so_can_recv :: "'h \<Rightarrow> 'i \<Rightarrow> bool"
  so_may_send :: "'h \<Rightarrow> 'i \<Rightarrow> bool"
  so_is_open :: "'h \<Rightarrow> 'i \<Rightarrow> bool"
  so_peek :: "nat \<Rightarrow> 'h \<Rightarrow> 'i \<Rightarrow> bytes option"
  so_recv_all :: "'h \<Rightarrow> 'i \<Rightarrow> 'i"
  so_send :: "bytes \<Rightarrow> 'h \<Rightarrow> 'i \<Rightarrow> 'i"
  so_close :: "'h \<Rightarrow> 'i \<Rightarrow> 'i"
  so_listen :: "bytes \<Rightarrow> 'h \<Rightarrow> 'i \<Rightarrow> 'i"
  so_setup :: "nat \<Rightarrow> bytes \<Rightarrow> nat \<Rightarrow> bytes \<Rightarrow> 'i option"
  so_now :: "'e \<Rightarrow> 'e \<times> nat"
  so_random :: "nat \<Rightarrow> 'e \<Rightarrow> 'e \<times> bytes option"

definition unicast :: "bytes \<Rightarrow> bool" where
  "unicast ip \<longleftrightarrow> ip \<noteq> [255, 255, 255, 255] \<and> \<not> (224 \<le> ip ! 0 \<and> ip ! 0 \<le> 239) \<and> ip \<noteq> [0, 0, 0, 0]"

text \<open>\<open>so_setup\<close> stands for the interface and the sockets which listen, each with \<open>REQUEST\<close> bytes to receive and room for one answer to
  send; opening the file of random bytes is the caller's.\<close>

definition metadata_over :: "('i, 'h, 'e) service_ops \<Rightarrow> 'c \<Rightarrow> bytes \<Rightarrow> bytes \<Rightarrow> 'e \<Rightarrow> ('c, 'i, 'e) metadata option" where
  "metadata_over ops c ip doc e =
     (if \<not> unicast ip then None
      else (case so_random ops 8 e of
              (e1, None) \<Rightarrow> None
            | (e1, Some seed) \<Rightarrow>
                (case so_now ops e1 of
                   (e2, now) \<Rightarrow>
                     (case so_setup ops SERVICE_CONNECTIONS ip (length doc + HEADERS) seed of
                        None \<Rightarrow> None
                      | Some i \<Rightarrow> Some \<lparr>mt_inner = c, mt_ip = ip, mt_mac = [0x02, 0x00] @ ip, mt_document = doc, mt_net = i, from_guest = [], to_guest = [],
                          issued = [], peers = [], mt_host = e2, started = now, due = None, served = 0, refused = 0, mt_dropped = 0\<rparr>))))"

definition for_service :: "bytes \<Rightarrow> bytes \<Rightarrow> bool" where
  "for_service ip frame =
     (if length frame < 14 then False
      else if bslice 12 2 frame = [0x08, 0x00] then 34 \<le> length frame \<and> bslice 30 4 frame = ip
      else if bslice 12 2 frame = [0x08, 0x06] then 42 \<le> length frame \<and> bslice 38 4 frame = ip
      else False)"

definition remember :: "bytes \<Rightarrow> (bytes \<times> bytes) list \<Rightarrow> (bytes \<times> bytes) list" where
  "remember frame ps =
     (let peer = bslice 26 4 frame;
          kept = filter (\<lambda>p. fst p \<noteq> peer) ps @ [(peer, bslice 6 6 frame)]
      in if PEERS < length kept then tl kept else kept)"

definition arp_reply :: "bytes \<Rightarrow> bytes \<Rightarrow> bytes" where
  "arp_reply frame mac = bslice 6 6 frame @ mac @ ARP_REPLY @ mac @ bslice 38 4 frame @ bslice 22 6 frame @ bslice 28 4 frame"

definition asked_mac :: "(bytes \<times> bytes) list \<Rightarrow> bytes \<Rightarrow> bytes option" where
  "asked_mac ps frame = (if 42 \<le> length frame \<and> bslice 12 10 frame = ARP_REQUEST then map_of ps (bslice 38 4 frame) else None)"

definition answer_arp :: "('c, 'i, 'e) metadata \<Rightarrow> ('c, 'i, 'e) metadata" where
  "answer_arp t =
     (let ps = peers t in
      t\<lparr>from_guest := from_guest t @ concat (map (\<lambda>f. case asked_mac ps f of None \<Rightarrow> [] | Some mac \<Rightarrow> [arp_reply f mac]) (to_guest t)),
        to_guest := filter (\<lambda>f. asked_mac ps f = None) (to_guest t)\<rparr>)"

section \<open>Answers\<close>

definition reason :: "nat \<Rightarrow> string" where
  "reason status =
     (if status = 200 then ''OK'' else if status = 400 then ''Bad Request'' else if status = 401 then ''Unauthorized''
      else if status = 404 then ''Not Found'' else if status = 405 then ''Method Not Allowed'' else ''Internal Server Error'')"

definition CRLF :: bytes where "CRLF = [13, 10]"

definition http :: "nat \<Rightarrow> string \<Rightarrow> bytes \<Rightarrow> bytes" where
  "http status content_type body =
     ascii ''HTTP/1.1 '' @ digits 20 status @ ascii '' '' @ ascii (reason status) @ CRLF @ ascii ''Content-Type: '' @ ascii content_type @ CRLF
       @ ascii ''Content-Length: '' @ digits 20 (length body) @ CRLF @ ascii ''Connection: close'' @ CRLF @ CRLF @ body"

definition plain_answer :: "nat \<Rightarrow> string \<Rightarrow> bytes" where
  "plain_answer status msg = http status ''text/plain'' (ascii msg @ [10])"

definition issue :: "('i, 'h, 'e) service_ops \<Rightarrow> nat \<Rightarrow> ('c, 'i, 'e) metadata \<Rightarrow> ('c, 'i, 'e) metadata \<times> nat list option" where
  "issue ops ttl t =
     (case so_random ops TOKEN_BYTES (mt_host t) of
        (e1, None) \<Rightarrow> (t\<lparr>mt_host := e1\<rparr>, None)
      | (e1, Some bs) \<Rightarrow>
          (case so_now ops e1 of
             (e2, now) \<Rightarrow>
               (let kept = issued t @ [\<lparr>tk_text = token_text bs, tk_until = now + ttl * 10 ^ 9\<rparr>]
                in (t\<lparr>mt_host := e2, issued := (if TOKENS < length kept then tl kept else kept)\<rparr>, Some (token_text bs)))))"

definition header_list :: "nat list list \<Rightarrow> (nat list \<times> nat list) list" where
  "header_list ls = map (\<lambda>(n, v). (trim n, trim v)) (List.map_filter split_once_colon ls)"

definition header_value :: "nat list \<Rightarrow> (nat list \<times> nat list) list \<Rightarrow> nat list option" where
  "header_value wanted hs = map_option snd (find (\<lambda>h. eq_ignore_ascii_case (fst h) wanted) hs)"

definition asked_ttl :: "(nat list \<times> nat list) list \<Rightarrow> nat option" where
  "asked_ttl hs =
     (case header_value TTL_HEADER hs of
        None \<Rightarrow> None
      | Some v \<Rightarrow> (case parse_u32 v of None \<Rightarrow> None | Some w \<Rightarrow> if 1 \<le> unat w \<and> unat w \<le> TOKEN_TTL_MAX then Some (unat w) else None))"

definition refuse :: "nat \<Rightarrow> string \<Rightarrow> ('c, 'i, 'e) metadata \<Rightarrow> ('c, 'i, 'e) metadata \<times> bytes" where
  "refuse status msg t = (t\<lparr>refused := refused t + 1\<rparr>, plain_answer status msg)"

definition answer_put :: "('i, 'h, 'e) service_ops \<Rightarrow> (nat list \<times> nat list) list \<Rightarrow> ('c, 'i, 'e) metadata \<Rightarrow> ('c, 'i, 'e) metadata \<times> bytes" where
  "answer_put ops hs t =
     (case asked_ttl hs of
        None \<Rightarrow> refuse 400 ''a token ttl in seconds is needed'' t
      | Some ttl \<Rightarrow>
          (case issue ops ttl t of
             (t1, Some text) \<Rightarrow> (t1\<lparr>served := served t1 + 1\<rparr>, http 200 ''text/plain'' (map of_nat text))
           | (t1, None) \<Rightarrow> refuse 500 ''no token could be issued'' t1))"

definition alive :: "nat \<Rightarrow> token list \<Rightarrow> token list" where
  "alive now ts = filter (\<lambda>k. now < tk_until k) ts"

definition answer_get ::
  "('i, 'h, 'e) service_ops \<Rightarrow> nat list \<Rightarrow> (nat list \<times> nat list) list \<Rightarrow> ('c, 'i, 'e) metadata \<Rightarrow> ('c, 'i, 'e) metadata \<times> bytes" where
  "answer_get ops path hs t =
     (case so_now ops (mt_host t) of
        (e, now) \<Rightarrow>
          (let t1 = t\<lparr>mt_host := e, issued := alive now (issued t)\<rparr> in
           if \<not> (case header_value TOKEN_HEADER hs of None \<Rightarrow> False | Some v \<Rightarrow> list_ex (\<lambda>k. tk_text k = v) (issued t1))
           then refuse 401 ''a token of this service is needed'' t1
           else if path \<noteq> chars ''/'' then refuse 404 ''only the document is served'' t1
           else (t1\<lparr>served := served t1 + 1\<rparr>, http 200 ''application/json'' (mt_document t1))))"

definition answer_to :: "('i, 'h, 'e) service_ops \<Rightarrow> nat list \<Rightarrow> ('c, 'i, 'e) metadata \<Rightarrow> ('c, 'i, 'e) metadata \<times> bytes" where
  "answer_to ops request t =
     (case split_crlf request of
        [] \<Rightarrow> refuse 400 ''no request line'' t
      | first # ls \<Rightarrow>
          (case split_whitespace first of
             meth # path # _ \<Rightarrow>
               (let hs = header_list ls in
                if meth = chars ''PUT'' then
                  (if path = TOKEN_AT then answer_put ops hs t else refuse 404 ''only the token path takes PUT'' t)
                else if meth = chars ''GET'' then answer_get ops path hs t
                else refuse 405 ''only GET and PUT are answered'' t)
           | _ \<Rightarrow> refuse 400 ''no method or path'' t))"

section \<open>Connections\<close>

text \<open>\<^verbatim>\<open>find\<close>: the first offset at which the needle is.\<close>

definition find_bytes :: "bytes \<Rightarrow> bytes \<Rightarrow> nat option" where
  "find_bytes haystack needle = find (\<lambda>i. bslice i (length needle) haystack = needle) [0..<Suc (length haystack) - length needle]"

fun collect_requests :: "('i, 'h, 'e) service_ops \<Rightarrow> 'h list \<Rightarrow> 'i \<Rightarrow> 'i \<times> ('h \<times> nat list option) list" where
  "collect_requests ops [] i = (i, [])"
| "collect_requests ops (h # hs) i =
     (if \<not> so_can_recv ops h i \<or> \<not> so_may_send ops h i then collect_requests ops hs i
      else let seen = (case so_peek ops REQUEST h i of None \<Rightarrow> [] | Some bs \<Rightarrow> bs) in
        (case find_bytes seen (CRLF @ CRLF) of
           None \<Rightarrow>
             (if REQUEST \<le> length seen
              then (case collect_requests ops hs (so_recv_all ops h i) of (i1, rs) \<Rightarrow> (i1, (h, None) # rs))
              else collect_requests ops hs i)
         | Some n \<Rightarrow>
             (case collect_requests ops hs (so_recv_all ops h i) of (i1, rs) \<Rightarrow> (i1, (h, Some (utf8_lossy (take (n + 4) seen))) # rs))))"

definition answer_one :: "('i, 'h, 'e) service_ops \<Rightarrow> nat list option \<Rightarrow> ('c, 'i, 'e) metadata \<Rightarrow> ('c, 'i, 'e) metadata \<times> bytes" where
  "answer_one ops r t = (case r of Some request \<Rightarrow> answer_to ops request t | None \<Rightarrow> refuse 400 ''request is too long'' t)"

fun send_answers :: "('i, 'h, 'e) service_ops \<Rightarrow> ('h \<times> nat list option) list \<Rightarrow> ('c, 'i, 'e) metadata \<Rightarrow> ('c, 'i, 'e) metadata" where
  "send_answers ops [] t = t"
| "send_answers ops ((h, r) # rs) t =
     (case answer_one ops r t of (t1, bs) \<Rightarrow> send_answers ops rs (t1\<lparr>mt_net := so_close ops h (so_send ops bs h (mt_net t1))\<rparr>))"

definition answer_requests :: "('i, 'h, 'e) service_ops \<Rightarrow> 'h list \<Rightarrow> ('c, 'i, 'e) metadata \<Rightarrow> ('c, 'i, 'e) metadata" where
  "answer_requests ops hs t = (case collect_requests ops hs (mt_net t) of (i, rs) \<Rightarrow> send_answers ops rs (t\<lparr>mt_net := i\<rparr>))"

definition listen_again :: "('i, 'h, 'e) service_ops \<Rightarrow> bytes \<Rightarrow> 'h list \<Rightarrow> 'i \<Rightarrow> 'i" where
  "listen_again ops ip hs i = fold (\<lambda>h i. if so_is_open ops h i then i else so_listen ops ip h i) hs i"

definition tick :: "('i, 'h, 'e) service_ops \<Rightarrow> ('c, 'i, 'e) metadata \<Rightarrow> ('c, 'i, 'e) metadata \<times> nat" where
  "tick ops t = (case so_now ops (mt_host t) of (e, now) \<Rightarrow> (t\<lparr>mt_host := e\<rparr>, (now - started t) div 1000))"

definition stack_poll :: "('i, 'h, 'e) service_ops \<Rightarrow> nat \<Rightarrow> ('c, 'i, 'e) metadata \<Rightarrow> ('c, 'i, 'e) metadata" where
  "stack_poll ops now t =
     (case so_poll ops now (from_guest t, to_guest t) (mt_net t) of (i, fg, tg) \<Rightarrow> t\<lparr>mt_net := i, from_guest := fg, to_guest := tg\<rparr>)"

definition service_poll :: "('i, 'h, 'e) service_ops \<Rightarrow> ('c, 'i, 'e) metadata \<Rightarrow> ('c, 'i, 'e) metadata" where
  "service_poll ops t =
     (case tick ops t of
        (t0, now) \<Rightarrow>
          (let t1 = stack_poll ops now t0;
               hs = so_handles ops (mt_net t1);
               t2 = answer_requests ops hs t1;
               t3 = t2\<lparr>mt_net := listen_again ops (mt_ip t2) hs (mt_net t2)\<rparr>;
               t4 = stack_poll ops now (answer_arp t3)
           in t4\<lparr>due := so_poll_at ops now (mt_net t4)\<rparr>))"

section \<open>The carrier\<close>

definition has_work :: "('i, 'h, 'e) service_ops \<Rightarrow> ('c, 'i, 'e) metadata \<Rightarrow> ('c, 'i, 'e) metadata \<times> bool" where
  "has_work ops t =
     (if from_guest t \<noteq> [] \<or> to_guest t \<noteq> [] then (t, True)
      else (case due t of None \<Rightarrow> (t, False) | Some d \<Rightarrow> (case tick ops t of (t1, now) \<Rightarrow> (t1, d \<le> now))))"

fun take_answer :: "nat \<Rightarrow> bytes list \<Rightarrow> u64 \<Rightarrow> bytes list \<times> u64 \<times> bytes option" where
  "take_answer room [] n = ([], n, None)"
| "take_answer room (f # fs) n = (if room < length f then take_answer room fs (n + 1) else (fs, n, Some f))"

definition metadata_take ::
  "'c carrier_ops \<Rightarrow> ('i, 'h, 'e) service_ops \<Rightarrow> nat \<Rightarrow> ('c, 'i, 'e) metadata \<Rightarrow> (('c, 'i, 'e) metadata \<times> (bytes option, sock_error) result) option" where
  "metadata_take car ops room t =
     (let t1 = (case has_work ops t of (t0, w) \<Rightarrow> if w then service_poll ops t0 else t0) in
      case take_answer room (to_guest t1) (mt_dropped t1) of
        (rest, n, Some f) \<Rightarrow> Some (t1\<lparr>to_guest := rest, mt_dropped := n\<rparr>, Ok (Some f))
      | (rest, n, None) \<Rightarrow>
          map_option (\<lambda>(c, r). (t1\<lparr>to_guest := rest, mt_dropped := n, mt_inner := c\<rparr>, r)) (car_take car room (mt_inner t1)))"

definition readdressed :: "bytes \<Rightarrow> bytes \<Rightarrow> bytes" where
  "readdressed frame mac = mac @ drop 6 frame"

definition metadata_give ::
  "'c carrier_ops \<Rightarrow> ('i, 'h, 'e) service_ops \<Rightarrow> bytes \<Rightarrow> ('c, 'i, 'e) metadata \<Rightarrow> (('c, 'i, 'e) metadata \<times> (bool, sock_error) result) option" where
  "metadata_give car ops frame t =
     (if \<not> for_service (mt_ip t) frame then map_option (\<lambda>(c, r). (t\<lparr>mt_inner := c\<rparr>, r)) (car_give car frame (mt_inner t))
      else if MAX_FRAME < length frame then Some (t\<lparr>mt_dropped := mt_dropped t + 1\<rparr>, Ok True)
      else let t1 = (if bslice 12 2 frame = [0x08, 0x00] then t\<lparr>peers := remember frame (peers t)\<rparr> else t)
           in Some (service_poll ops (t1\<lparr>from_guest := from_guest t1 @ [readdressed frame (mt_mac t1)]\<rparr>), Ok True))"

definition metadata_resume :: "'c carrier_ops \<Rightarrow> ('c, 'i, 'e) metadata \<Rightarrow> (('c, 'i, 'e) metadata \<times> (bool, sock_error) result) option" where
  "metadata_resume car t = map_option (\<lambda>(c, r). (t\<lparr>mt_inner := c\<rparr>, r)) (car_resume car (mt_inner t))"

definition metadata_ops :: "'c carrier_ops \<Rightarrow> ('i, 'h, 'e) service_ops \<Rightarrow> ('c, 'i, 'e) metadata carrier_ops" where
  "metadata_ops car ops = \<lparr>car_take = metadata_take car ops, car_give = metadata_give car ops, car_resume = metadata_resume car,
     car_outside = (\<lambda>t. car_outside car (mt_inner t))\<rparr>"

text \<open>The time until the next poll in microseconds; \<open>theirs\<close> is what the carrier inside answers.\<close>

definition metadata_wake_after :: "('i, 'h, 'e) service_ops \<Rightarrow> nat option \<Rightarrow> ('c, 'i, 'e) metadata \<Rightarrow> nat option" where
  "metadata_wake_after ops theirs t =
     (if to_guest t \<noteq> [] then Some 0
      else (let mine = map_option (\<lambda>d. d - snd (tick ops t)) (due t)
            in (case (mine, theirs) of (Some a, Some b) \<Rightarrow> Some (min a b) | (Some a, None) \<Rightarrow> Some a | (None, _) \<Rightarrow> theirs)))"

definition metadata_counts :: "(string \<times> u64) list \<Rightarrow> ('c, 'i, 'e) metadata \<Rightarrow> (string \<times> u64) list" where
  "metadata_counts theirs t = [(''served'', served t), (''refused'', refused t), (''dropped'', mt_dropped t)] @ theirs"

section \<open>An answer fits its connection\<close>

lemma length_digits: "length (digits f n) \<le> f"
  by (induction f arbitrary: n) (auto intro: le_SucI)

lemma length_ascii [simp]: "length (ascii s) = length s"
  by (simp add: ascii_def)

lemma length_http: "length (http status kind body) \<le> 132 + length kind + length body"
proof -
  have "length (reason status) \<le> 21" by (simp add: reason_def)
  then show ?thesis using length_digits [of 20 status] length_digits [of 20 "length body"] by (simp add: http_def CRLF_def)
qed

lemma length_hex_text: "length (token_text bs) = 2 * length bs"
  by (induction bs) (simp_all add: token_text_def)

lemma issue_text: "issue ops ttl t = (t1, Some text) \<Longrightarrow> \<exists>e bs. so_random ops TOKEN_BYTES (mt_host t) = (e, Some bs) \<and> text = token_text bs"
  by (auto simp: issue_def Let_def split: prod.splits option.splits)

lemma issue_keeps: "issue ops ttl t = (t1, r) \<Longrightarrow> mt_document t1 = mt_document t"
  by (auto simp: issue_def Let_def split: prod.splits option.splits)

lemma answer_keeps_document: "answer_to ops request t = (t', bs) \<Longrightarrow> mt_document t' = mt_document t"
  by (auto simp: answer_to_def answer_put_def answer_get_def refuse_def Let_def dest: issue_keeps split: list.splits option.splits prod.splits if_splits)

lemma refuse_fits: "refuse status msg t = (t', bs) \<Longrightarrow> length msg \<le> 50 \<Longrightarrow> length bs \<le> 200"
  using length_http [of status "''text/plain''" "ascii msg @ [10]"] by (auto simp: refuse_def plain_answer_def)

text \<open>\<^verbatim>\<open>read_exact\<close> fills its buffer.\<close>

definition exact_random :: "('i, 'h, 'e) service_ops \<Rightarrow> bool" where
  "exact_random ops \<longleftrightarrow> (\<forall>n e e' b. so_random ops n e = (e', Some b) \<longrightarrow> length b = n)"

lemma answer_put_fits:
  assumes "answer_put ops hs t = (t', bs)" "exact_random ops"
  shows "length bs \<le> 200"
proof (cases "asked_ttl hs")
  case None
  with assms(1) show ?thesis by (auto simp: answer_put_def dest: refuse_fits)
next
  case (Some ttl)
  obtain t1 r where i: "issue ops ttl t = (t1, r)" by fastforce
  show ?thesis
  proof (cases r)
    case None
    with assms(1) Some i show ?thesis by (auto simp: answer_put_def dest: refuse_fits)
  next
    case drawn: (Some x)
    with issue_text [of ops ttl t t1 x] i assms(2) have "length x = 32" by (auto simp: length_hex_text TOKEN_BYTES_def exact_random_def)
    with assms(1) Some i drawn length_http [of 200 "''text/plain''" "map of_nat x"] show ?thesis by (auto simp: answer_put_def)
  qed
qed

lemma answer_get_fits:
  "answer_get ops path hs t = (t', bs) \<Longrightarrow> length bs \<le> 200 + length (mt_document t)"
  using length_http [of 200 "''application/json''" "mt_document t"]
  by (auto simp: answer_get_def Let_def split: prod.splits if_splits dest: refuse_fits)

lemma answer_fits:
  assumes "answer_to ops request t = (t', bs)" "exact_random ops"
  shows "length bs \<le> length (mt_document t) + HEADERS"
proof -
  have "length bs \<le> 200 + length (mt_document t)"
    using assms(1) unfolding answer_to_def Let_def
    by (auto split: list.splits if_splits dest!: refuse_fits answer_get_fits answer_put_fits [OF _ assms(2)])
  then show ?thesis by (simp add: HEADERS_def)
qed

section \<open>Who is served the document\<close>

fun serve_all :: "('i, 'h, 'e) service_ops \<Rightarrow> nat list list \<Rightarrow> ('c, 'i, 'e) metadata \<Rightarrow> ('c, 'i, 'e) metadata \<times> bytes list" where
  "serve_all ops [] t = (t, [])"
| "serve_all ops (r # rs) t = (case answer_to ops r t of (t1, a) \<Rightarrow> (case serve_all ops rs t1 of (t2, as) \<Rightarrow> (t2, a # as)))"

definition carried :: "nat list \<Rightarrow> nat list option" where
  "carried request = header_value TOKEN_HEADER (header_list (tl (split_crlf request)))"

definition issue_time :: "('i, 'h, 'e) service_ops \<Rightarrow> ('c, 'i, 'e) metadata \<Rightarrow> nat" where
  "issue_time ops t = snd (so_now ops (fst (so_random ops TOKEN_BYTES (mt_host t))))"

lemma status_digits:
  "digits 20 200 = [50, 48, 48]" "digits 20 400 = [52, 48, 48]" "digits 20 401 = [52, 48, 49]" "digits 20 404 = [52, 48, 52]"
  "digits 20 405 = [52, 48, 53]" "digits 20 500 = [53, 48, 48]"
proof -
  have "(20 :: nat) = Suc (Suc (Suc 17))" by simp
  then show "digits 20 200 = [50, 48, 48]" "digits 20 400 = [52, 48, 48]" "digits 20 401 = [52, 48, 49]" "digits 20 404 = [52, 48, 52]"
    "digits 20 405 = [52, 48, 53]" "digits 20 500 = [53, 48, 48]"
    by (simp_all only: digits.simps) simp_all
qed

lemma plain_is_not_document:
  assumes "s \<in> {200, 400, 401, 404, 405, 500}"
  shows "http s ''text/plain'' b \<noteq> http 200 ''application/json'' d"
proof (cases "s = 200")
  case True
  then show ?thesis by (simp add: http_def) (simp add: ascii_def)
next
  case False
  then have "digits 20 s = [52, 48, 48] \<or> digits 20 s = [52, 48, 49] \<or> digits 20 s = [52, 48, 52] \<or> digits 20 s = [52, 48, 53] \<or> digits 20 s = [53, 48, 48]"
    using assms status_digits by auto
  then show ?thesis by (auto simp: http_def status_digits)
qed

lemma refused_is_not_document: "s \<in> {400, 401, 404, 405, 500} \<Longrightarrow> refuse s msg t \<noteq> (t', http 200 ''application/json'' d)"
  using plain_is_not_document [of s] by (auto simp: refuse_def plain_answer_def)

lemma put_is_not_document: "answer_put ops hs t \<noteq> (t', http 200 ''application/json'' d)"
  by (auto simp: answer_put_def refused_is_not_document plain_is_not_document split: option.splits prod.splits)

lemmas not_document = refused_is_not_document [of 400, simplified] refused_is_not_document [of 401, simplified]
  refused_is_not_document [of 404, simplified] refused_is_not_document [of 405, simplified] put_is_not_document

lemma document_answer:
  assumes "answer_to ops r t = (t', http 200 ''application/json'' d)"
  shows "\<exists>k v. carried r = Some v \<and> k \<in> set (issued t) \<and> tk_text k = v \<and> snd (so_now ops (mt_host t)) < tk_until k"
proof -
  obtain first ls meth path ws where q: "split_crlf r = first # ls" "split_whitespace first = meth # path # ws"
    and get: "answer_get ops path (header_list ls) t = (t', http 200 ''application/json'' d)"
    using assms unfolding answer_to_def Let_def by (auto simp: not_document split: list.splits if_splits)
  obtain e now where now: "so_now ops (mt_host t) = (e, now)" by fastforce
  from get show ?thesis
    by (auto simp: answer_get_def Let_def carried_def q now not_document alive_def list_ex_iff split: if_splits option.splits)
qed

text \<open>A token which is kept was given out by an earlier answer, for six hours at most.\<close>

definition given_out :: "('i, 'h, 'e) service_ops \<Rightarrow> nat list list \<Rightarrow> ('c, 'i, 'e) metadata \<Rightarrow> bytes list \<Rightarrow> token \<Rightarrow> nat \<Rightarrow> bool" where
  "given_out ops rs t0 as k j \<longleftrightarrow> j < length rs \<and> as ! j = http 200 ''text/plain'' (map of_nat (tk_text k)) \<and>
     tk_until k \<le> issue_time ops (fst (serve_all ops (take j rs) t0)) + TOKEN_TTL_MAX * 10 ^ 9"

lemma set_tl_snoc: "k \<in> set (if n < Suc (length xs) then tl (xs @ [x]) else xs @ [x]) \<Longrightarrow> k \<in> set xs \<or> k = x"
  by (cases xs) (auto split: if_splits)

lemma issue_adds:
  assumes "issue ops ttl t = (t', r)" "k \<in> set (issued t')"
  shows "k \<in> set (issued t) \<or> (r = Some (tk_text k) \<and> tk_until k = issue_time ops t + ttl * 10 ^ 9)"
  using assms by (auto simp: issue_def Let_def issue_time_def split: prod.splits option.splits dest!: set_tl_snoc)

lemma answer_adds:
  assumes "answer_to ops r t = (t', a)" "k \<in> set (issued t')"
  shows "k \<in> set (issued t) \<or> (a = http 200 ''text/plain'' (map of_nat (tk_text k)) \<and> tk_until k \<le> issue_time ops t + TOKEN_TTL_MAX * 10 ^ 9)"
proof -
  have put: "k \<in> set (issued t) \<or> (a = http 200 ''text/plain'' (map of_nat (tk_text k)) \<and> tk_until k \<le> issue_time ops t + TOKEN_TTL_MAX * 10 ^ 9)"
    if "answer_put ops hs t = (t', a)" for hs
  proof (cases "asked_ttl hs")
    case None
    with that assms(2) show ?thesis by (auto simp: answer_put_def refuse_def)
  next
    case (Some ttl)
    then have "ttl \<le> TOKEN_TTL_MAX" by (auto simp: asked_ttl_def split: option.splits if_splits)
    with that Some assms(2) show ?thesis by (fastforce simp: answer_put_def refuse_def dest: issue_adds split: prod.splits option.splits)
  qed
  from assms put show ?thesis
    unfolding answer_to_def answer_get_def Let_def by (auto simp: refuse_def alive_def split: list.splits if_splits prod.splits)
qed

lemma kept_tokens_were_given_out:
  assumes "serve_all ops rs t0 = (t, as)" "k \<in> set (issued t)"
  shows "k \<in> set (issued t0) \<or> (\<exists>j. given_out ops rs t0 as k j)"
  using assms
proof (induction rs arbitrary: t0 as)
  case (Cons r rs)
  obtain t1 a as' where s: "answer_to ops r t0 = (t1, a)" "serve_all ops rs t1 = (t, as')" "as = a # as'"
    using Cons.prems(1) by (auto split: prod.splits)
  from Cons.IH [OF s(2) Cons.prems(2)] show ?case
  proof
    assume "k \<in> set (issued t1)"
    with answer_adds [OF s(1)] have "k \<in> set (issued t0) \<or> given_out ops (r # rs) t0 as k 0" by (auto simp: given_out_def s(3))
    then show ?thesis by blast
  next
    assume "\<exists>j. given_out ops rs t1 as' k j"
    then obtain j where "given_out ops rs t1 as' k j" ..
    then have "given_out ops (r # rs) t0 as k (Suc j)" by (simp add: given_out_def s case_prod_beta)
    then show ?thesis by blast
  qed
qed simp

lemma answer_keeps_bound: "answer_to ops r t = (t', a) \<Longrightarrow> length (issued t) \<le> TOKENS \<Longrightarrow> length (issued t') \<le> TOKENS"
  by (auto simp: answer_to_def answer_put_def answer_get_def refuse_def issue_def alive_def Let_def TOKENS_def
      split: list.splits option.splits prod.splits if_splits intro: le_trans [OF length_filter_le])

lemma serve_keeps_bound: "serve_all ops rs t = (t', as) \<Longrightarrow> length (issued t) \<le> TOKENS \<Longrightarrow> length (issued t') \<le> TOKENS"
  by (induction rs arbitrary: t as) (auto split: prod.splits dest: answer_keeps_bound)

section \<open>The service is a carrier\<close>

lemma take_answer_fits: "take_answer room fs n = (rest, n', Some f) \<Longrightarrow> length f \<le> room"
  by (induction room fs n rule: take_answer.induct) (auto split: if_splits)

lemma metadata_carrier: "carrier car \<Longrightarrow> carrier (metadata_ops car ops)"
  unfolding carrier_def
  by (auto simp: metadata_ops_def metadata_take_def Let_def dest: take_answer_fits split: prod.splits option.splits)

text \<open>The service around a framed stream, whatever the stack answers.\<close>

interpretation metadata_on_socket: carrier "metadata_ops (framed_ops (list_sock chunk)) ops" for chunk ops
  by (rule metadata_carrier) (rule list_sock.framed.carrier_axioms)

text \<open>A frame for another address reaches the carrier inside as it is, and no other does.\<close>

lemma give_routes:
  "\<not> for_service (mt_ip t) frame \<Longrightarrow> map_option (\<lambda>(t', r). (mt_inner t', r)) (metadata_give car ops frame t) = car_give car frame (mt_inner t)"
  "for_service (mt_ip t) frame \<Longrightarrow> \<exists>t'. metadata_give car ops frame t = Some (t', Ok True)"
  by (auto simp: metadata_give_def option.map_comp comp_def case_prod_beta option.map_ident Let_def)

lemma remember_bounded: "length ps \<le> PEERS \<Longrightarrow> length (remember frame ps) \<le> PEERS"
  by (simp add: remember_def Let_def le_trans [OF length_filter_le] le_SucI)

section \<open>Properties\<close>


text \<open>A service on a clock which counts seconds, whose random bytes are sevens.\<close>

definition sevens :: "(unit, unit, nat) service_ops" where
  "sevens = \<lparr>so_poll = (\<lambda>_ p i. (i, p)), so_poll_at = (\<lambda>_ _. None), so_handles = (\<lambda>_. []), so_can_recv = (\<lambda>_ _. False), so_may_send = (\<lambda>_ _. False),
     so_is_open = (\<lambda>_ _. True), so_peek = (\<lambda>_ _ _. None), so_recv_all = (\<lambda>_ i. i), so_send = (\<lambda>_ _ i. i), so_close = (\<lambda>_ i. i),
     so_listen = (\<lambda>_ _ i. i), so_setup = (\<lambda>_ _ _ _. Some ()), so_now = (\<lambda>e. (e + 1, e * 10 ^ 9)), so_random = (\<lambda>n e. (e, Some (replicate n 0x77)))\<rparr>"

definition a_service :: "(unit, unit, nat) metadata" where
  "a_service = \<lparr>mt_inner = (), mt_ip = [169, 254, 169, 254], mt_mac = [], mt_document = [123, 125], mt_net = (), from_guest = [], to_guest = [], issued = [],
     peers = [], mt_host = 5, started = 0, due = None, served = 0, refused = 0, mt_dropped = 0\<rparr>"

definition put_request :: "nat list" where
  "put_request = chars ''PUT /latest/api/token HTTP/1.1'' @ [13, 10] @ chars ''X-metadata-token-ttl-seconds: 60'' @ [13, 10, 13, 10]"

definition get_request :: "nat list" where
  "get_request = chars ''GET / HTTP/1.1'' @ [13, 10] @ chars ''X-metadata-token: 77777777777777777777777777777777'' @ [13, 10, 13, 10]"

lemma chars_Cons [simp]: "chars [] = []" "chars (c # cs) = of_char c # chars cs"
  by (simp_all add: chars_def)

lemma put_request_parts: "split_crlf put_request = [chars ''PUT /latest/api/token HTTP/1.1'', chars ''X-metadata-token-ttl-seconds: 60'', [], []]"
  by (simp add: put_request_def)

lemma get_request_parts: "split_crlf get_request = [chars ''GET / HTTP/1.1'', chars ''X-metadata-token: 77777777777777777777777777777777'', [], []]"
  by (simp add: get_request_def)

lemmas split_cons = split_whitespace.simps [of "_ # _"] split_whitespace_empty [of "[]"]

lemma request_words:
  "split_whitespace (chars ''PUT /latest/api/token HTTP/1.1'') = [chars ''PUT'', TOKEN_AT, chars ''HTTP/1.1'']"
  "split_whitespace (chars ''GET / HTTP/1.1'') = [chars ''GET'', chars ''/'', chars ''HTTP/1.1'']"
  by (simp_all add: split_cons is_space_def TOKEN_AT_def)

lemma put_headers: "asked_ttl (header_list [chars ''X-metadata-token-ttl-seconds: 60'', [], []]) = Some 60"
  by (simp add: asked_ttl_def header_list_def header_value_def map_filter_simps split_once_colon_def trim_def is_space_def eq_ignore_ascii_case_def
      ascii_lower_def TTL_HEADER_def parse_u32_def is_digit_def decimal_def TOKEN_TTL_MAX_def)

lemma get_headers:
  "header_value TOKEN_HEADER (header_list [chars ''X-metadata-token: 77777777777777777777777777777777'', [], []]) = Some (chars ''77777777777777777777777777777777'')"
  by (simp add: header_list_def header_value_def map_filter_simps split_once_colon_def trim_def is_space_def eq_ignore_ascii_case_def
      ascii_lower_def TOKEN_HEADER_def)

lemma replicate_16: "replicate 16 x = [x, x, x, x, x, x, x, x, x, x, x, x, x, x, x, x]"
  by (simp add: eval_nat_numeral)

lemma hex_of_sevens: "token_text (replicate 16 0x77) = chars ''77777777777777777777777777777777''"
  by (simp add: token_text_def hex_digit_def replicate_16)

lemma methods_differ: "chars ''GET'' \<noteq> chars ''PUT''"
  by simp

definition after_put :: "(unit, unit, nat) metadata" where
  "after_put = a_service\<lparr>mt_host := 6, issued := [\<lparr>tk_text = chars ''77777777777777777777777777777777'', tk_until = 65 * 10 ^ 9\<rparr>], served := 1\<rparr>"

lemma service_answers:
  "answer_to sevens put_request a_service = (after_put, http 200 ''text/plain'' (map of_nat (chars ''77777777777777777777777777777777'')))"
  "answer_to sevens get_request after_put = (after_put\<lparr>mt_host := 7, served := 2\<rparr>, http 200 ''application/json'' [123, 125])"
  by (simp_all add: answer_to_def put_request_parts get_request_parts request_words put_headers get_headers methods_differ answer_put_def answer_get_def issue_def
      sevens_def a_service_def after_put_def hex_of_sevens TOKEN_BYTES_def TOKENS_def alive_def Let_def del: chars_Cons)


text \<open>A token which is still good is forgotten for one which has run out: expired tokens are only dropped when a document is asked for.\<close>

lemma live_token_is_forgotten:
  fixes t :: "(unit, unit, nat) metadata"
  assumes "t = a_service\<lparr>issued := \<lparr>tk_text = [], tk_until = 10 ^ 15\<rparr> # replicate 15 \<lparr>tk_text = [1], tk_until = 0\<rparr>\<rparr>"
  shows "\<lparr>tk_text = [], tk_until = 10 ^ 15\<rparr> \<notin> set (issued (fst (issue sevens 1 t)))" "alive (5 * 10 ^ 9) (issued t) = [\<lparr>tk_text = [], tk_until = 10 ^ 15\<rparr>]"
  by (simp_all add: assms issue_def sevens_def a_service_def TOKENS_def alive_def token_text_def TOKEN_BYTES_def)

end
