(* ===== verification/Spec2Isabelle.thy ===== *)
theory Spec2Isabelle
  imports Legacy Virtio_Placed Vsock_Host Virtio_Net Virtio_Console Sandbox Agent_Session Dirty_Image Control Virtio_Fs Template_Life Assembly Metadata
begin

text \<open>
  A verification library for lingcage, a virtual machine monitor (\<^verbatim>\<open>lingcore\<close>) and a sandbox built on it (\<^verbatim>\<open>lingcage\<close>).
  All paths below are under \<^verbatim>\<open>src/\<close> of the repository.

  \<^bold>\<open>The program.\<close>  A machine has RAM, vCPU threads, a bus of port and MMIO devices, and virtio devices behind
  MMIO transports.  A guest publishes chains of buffers in virtqueues and writes the notify register of a transport; the device
  takes the chains, reads and writes RAM through them, and reports them used.  A control socket pauses a machine, writes its RAM
  and state to files and resumes it; a clone maps such an image and restores the state.  The sandbox boots a guest with an agent in
  it, talks to the agent in frames over a vsock connection shared by several requests, runs commands, and keeps templates
  (images of booted guests) in a store on disk.

  \<^bold>\<open>Shape of the model.\<close>  Structures are records, enums are datatypes, integers are words of their width.  A fallible
  function returns \<open>(value, error) result\<close>, a sum whose \<open>Inl\<close> is the error; a function which changes a structure returns it.
  Whatever is not of the repository is a parameter: guest memory (\<^verbatim>\<open>vm_memory\<close>), files and sockets of the host, the clock, random
  bytes, JSON, the hypervisor, the TCP stack of \<^verbatim>\<open>smoltcp\<close>, the loaders of \<^verbatim>\<open>linux_loader\<close>.  What is relied on of a parameter
  is the \<open>assumes\<close> of a locale, and every locale is interpreted on a memory, file or socket of lists which the witnesses run on.
  Threads are interleavings of the steps between two lock operations.

  \<^bold>\<open>Foundations.\<close>  \<open>Prelude\<close>: words, results, integers as bytes.  \<open>Rust_Text\<close>: the string functions of the standard
  library.  \<open>Acts\<close>: fallible actions on a state.  \<open>Host_Files\<close>: \<^verbatim>\<open>std::fs\<close> and \<^verbatim>\<open>flock\<close>, in which any call may fail.
  \<open>Guest_Ram\<close>, \<open>Guest_Pages\<close> (\<^verbatim>\<open>lingcore/src/mem/mod.rs\<close>): reads, writes, marks and discards over the locales
  \<open>vm_memory\<close> and \<open>page_regions\<close>; a discard touches only its range.

  \<^bold>\<open>Virtqueues and devices.\<close>  \<open>Virtqueue\<close>, \<open>Queue_Loop\<close>, \<open>Chain_Bytes\<close> (\<^verbatim>\<open>lingcore/src/devices/virtio/queue.rs\<close>): a walk returns
  exactly the linked, direct and backed chains, the available ring refines a FIFO, and a device loop over any handler which keeps the contract
  \<open>chain_server\<close> ends and reports what it took.  \<open>Block_Throttle\<close>, \<open>Virtio_Block\<close> (\<^verbatim>\<open>block.rs\<close>), \<open>Virtio_Balloon\<close>
  (\<^verbatim>\<open>balloon.rs\<close>, \<^verbatim>\<open>entropy.rs\<close>), \<open>Virtio_Console\<close> (\<^verbatim>\<open>console.rs\<close>), \<open>Net_Link\<close>, \<open>Virtio_Net\<close>, \<open>Metadata\<close>
  (\<^verbatim>\<open>net/\<close>), \<open>Vsock_Connection\<close>, \<open>Vsock_Device\<close>, \<open>Vsock_Host\<close> (\<^verbatim>\<open>vsock/\<close>), \<open>Fuse_Wire\<close>, \<open>Fs_Shared\<close>, \<open>Virtio_Fs\<close>
  (\<^verbatim>\<open>fs/\<close>): capacity and read-only checks, streams which keep their order, windows and other bounds, confinement of a shared directory to
  its root, and the document of the metadata service which only the holder of a token is given.

  \<^bold>\<open>Bus and transport.\<close>  \<open>Devices\<close>, \<open>Bus\<close>, \<open>Legacy\<close> (\<^verbatim>\<open>lingcore/src/devices/bus.rs\<close>, \<^verbatim>\<open>serial.rs\<close>, \<^verbatim>\<open>i8042.rs\<close>, \<^verbatim>\<open>pm1.rs\<close>):
  ranges stay disjoint and an access reaches its device.  \<open>Mmio_Transport\<close>, \<open>Virtio_Placed\<close> (\<^verbatim>\<open>lingcore/src/devices/virtio/mmio.rs\<close>): the
  registers of a transport, with the devices above behind them; the queues it builds are well formed.

  \<^bold>\<open>Machine.\<close>  \<open>Boot_Load\<close>, \<open>Boot_Tables\<close> (\<^verbatim>\<open>lingcore/src/boot/\<close>, \<^verbatim>\<open>lingcore/src/machine/x86_64/\<close>): the kernel, the initramfs, boot parameters, page
  tables, the MP table and the area of the ACPI tables; a walk of the page tables maps the first gigabyte to itself.  \<open>Assembly\<close>
  (\<^verbatim>\<open>lingcore/src/machine/mod.rs\<close>): assembling a guest, after which every device is in its slot and on its line, and every loaded part is whole.
  \<open>Machine\<close>: states, orders, pause, resume and join under every interleaving.  \<open>Ram_Image\<close>, \<open>Dirty_Image\<close>: RAM written to a sparse image and read
  back, whole or by the pages which were written.  \<open>Machine_State\<close> (\<^verbatim>\<open>snapshot.rs\<close>, \<^verbatim>\<open>vmgenid.rs\<close>): capture and restore.  \<open>Control\<close>
  (\<^verbatim>\<open>control.rs\<close>): orders, and what a snapshot order leaves in its files.

  \<^bold>\<open>Sandbox and agent.\<close>  \<open>Lcp\<close> (\<^verbatim>\<open>lingcage/src/lcp/mod.rs\<close>, \<^verbatim>\<open>deadline.rs\<close>): frames and reading them under a deadline.  \<open>Demux\<close>
  (\<^verbatim>\<open>lingcage/src/sandbox/demux.rs\<close>): requests sharing a connection; an answer reaches the request it was read for.  \<open>Sandbox\<close>
  (\<^verbatim>\<open>lingcage/src/sandbox/\<close>): the console ring, commands and teardown.  \<open>Agent_Pump\<close>, \<open>Agent_Session\<close> (\<^verbatim>\<open>lingcage/src/agent/\<close>): the
  agent in the guest.  \<open>Sanitize\<close>, \<open>Template_Store\<close>, \<open>Template_Build\<close>, \<open>Template_Life\<close> (\<^verbatim>\<open>lingcage/src/template/\<close>): what may be in an initramfs, and a
  store whose held templates stay, whichever operations follow and whichever calls fail.

  \<^bold>\<open>Loops.\<close>  A loop over data is structural or has a measure.  A loop which depends on the host, such as reading a socket, is a
  \<open>partial_function\<close> in the option monad, where \<open>None\<close> is not returning; the properties which say that such a loop returns prove
  \<open>Some\<close>, from a contract which bounds what the host interrupts.  The loop of a device over its queue takes fuel, since a driver may add
  chains while it runs; any fuel above the number of pending chains is proved to be enough, and that number is below
  \<open>2 ^ 16\<close>, the fuel a transport notifies with.  The decimal form of a number takes the number of its digits,
  twenty, which is enough for 64 bits.  Tokens of the disk throttle are rationals where the source has \<^verbatim>\<open>f64\<close>.

  \<^bold>\<open>Findings.\<close>  Where the code does less than it means to, a lemma shows it on an input: for example, a link inside a share which leads
  outside, a template removed while it is held, a registration which keeps a partial file, a pause whose guest stays held.

  \<^bold>\<open>Not modelled.\<close>  The KVM backend and the waiting calls of the host are calls into the kernel with the layouts of its structures.
  The user network stack is driven by \<^verbatim>\<open>smoltcp\<close> and sockets of the host.  The machines of aarch64 and riscv64 build their device trees with a
  crate; the model assembles an x86 guest on Linux, with the bytes of an ACPI table as a parameter.  System call filters are lists
  compiled by a crate.  The signal handler for lost pages, the programs, logging, and the opening of the agent's end of its connection are
  input and output only.  Of the machine, the body of the device thread, which waits and calls the notify functions modelled above, and of RAM, the mapping of
  host memory, are left out.
\<close>

end
